(* ===== verification/JS_Prelude.thy ===== *)
theory JS_Prelude
  imports "HOL-Library.Word" "HOL-Library.Monad_Syntax"
begin

text \<open>
  Shared ground of the development: the JavaScript values the client's code computes with.

  \<^item> Numbers. Every number the modelled code uses as an index, a size or a bit field is
    integral, so a JavaScript number is an \<open>int\<close>; the bitwise operators go through
    \<open>ToInt32\<close> / \<open>ToUint32\<close> exactly as ECMAScript prescribes, with the wrap-around
    written out (\<open>js_shl\<close> is \<open><<\<close>, \<open>js_sar\<close> is \<open>>>\<close>, \<open>js_shr\<close> is \<open>>>>\<close>).
  \<^item> \<open>Uint8Array\<close>s. A typed array is a list of bytes (\<open>8 word\<close>). A read outside the
    array is \<open>undefined\<close>, which every arithmetic or bitwise use and every store into a
    typed array turns into 0 (\<open>u8_get\<close>); a store outside the array is ignored
    (\<open>u8_upd\<close>); \<open>subarray\<close>/\<open>slice\<close> clamp their bounds (\<open>u8_sub\<close>); \<open>set\<close> and the
    view constructor raise a \<open>RangeError\<close> when they do not fit.
  \<^item> Errors. A \<open>throw\<close> is a value of \<open>js_error\<close>; an operation that may throw returns
    the state it leaves behind together with \<open>Inl\<close> of the error, since JavaScript keeps
    the effects made before the throw.
\<close>

named_theorems js_simps \<open>evaluation of the JavaScript operators in range\<close>
named_theorems u8_simps \<open>lengths and contents of typed-array operations\<close>

section \<open>Numbers\<close>

unbundle bit_operations_syntax

type_synonym byte = "8 word"
type_synonym u8array = "byte list"

definition ToUint32 :: "int \<Rightarrow> int" where
  "ToUint32 n = n mod 2 ^ 32"

definition ToInt32 :: "int \<Rightarrow> int" where
  "ToInt32 n = (n + 2 ^ 31) mod 2 ^ 32 - 2 ^ 31"

definition js_shl :: "int \<Rightarrow> nat \<Rightarrow> int" where
  "js_shl a n = ToInt32 (ToInt32 a * 2 ^ (n mod 32))"

definition js_sar :: "int \<Rightarrow> nat \<Rightarrow> int" where
  "js_sar a n = ToInt32 a div 2 ^ (n mod 32)"

definition js_shr :: "int \<Rightarrow> nat \<Rightarrow> int" where
  "js_shr a n = ToUint32 a div 2 ^ (n mod 32)"

definition js_and :: "int \<Rightarrow> int \<Rightarrow> int" where
  "js_and a b = ToInt32 a AND ToInt32 b"

definition js_or :: "int \<Rightarrow> int \<Rightarrow> int" where
  "js_or a b = ToInt32 a OR ToInt32 b"

definition js_xor :: "int \<Rightarrow> int \<Rightarrow> int" where
  "js_xor a b = ToInt32 a XOR ToInt32 b"

definition js_not :: "int \<Rightarrow> int" where
  "js_not a = NOT (ToInt32 a)"

text \<open>Storing a number into a \<open>Uint8Array\<close> keeps it modulo 256.\<close>

definition ToUint8 :: "int \<Rightarrow> byte" where
  "ToUint8 n = word_of_int n"

lemma ToUint32_id [js_simps]: "0 \<le> n \<Longrightarrow> n < 2 ^ 32 \<Longrightarrow> ToUint32 n = n"
  by (simp add: ToUint32_def)

lemma ToInt32_id [js_simps]: "- (2 ^ 31) \<le> n \<Longrightarrow> n < 2 ^ 31 \<Longrightarrow> ToInt32 n = n"
  by (simp add: ToInt32_def)

lemma ToInt32_nonneg [js_simps]: "0 \<le> n \<Longrightarrow> n < 2147483648 \<Longrightarrow> ToInt32 n = n"
  by (simp add: ToInt32_id)

lemma ToUint32_bounds: "0 \<le> ToUint32 n \<and> ToUint32 n < 2 ^ 32"
  by (simp add: ToUint32_def)

lemma ToInt32_bounds: "- (2 ^ 31) \<le> ToInt32 n \<and> ToInt32 n < 2 ^ 31"
proof -
  have "0 \<le> (n + 2 ^ 31) mod 2 ^ 32" and "(n + 2 ^ 31) mod 2 ^ 32 < 2 ^ 32"
    by simp_all
  then show ?thesis by (simp add: ToInt32_def)
qed

lemma ToInt32_cong: "(a mod 2 ^ 32 = b mod 2 ^ 32) \<Longrightarrow> ToInt32 a = ToInt32 b"
  unfolding ToInt32_def by (metis mod_add_left_eq)

lemma ToInt32_mod: "ToInt32 n mod 4294967296 = n mod 4294967296"
  unfolding ToInt32_def by (simp add: mod_diff_left_eq)

lemma ToUint32_ToInt32 [simp]: "ToUint32 (ToInt32 n) = ToUint32 n"
  by (simp add: ToUint32_def ToInt32_mod)

lemma ToInt32_idem [simp]: "ToInt32 (ToInt32 n) = ToInt32 n"
  using ToInt32_bounds [of n] by (intro ToInt32_id) auto

lemma ToUint8_uint [simp]: "ToUint8 (uint b) = b"
  by (simp add: ToUint8_def)

lemma uint_ToUint8: "uint (ToUint8 n) = n mod 256"
  by (simp add: ToUint8_def uint_word_of_int)

lemma ToUint8_eq_iff: "ToUint8 m = ToUint8 n \<longleftrightarrow> m mod 256 = n mod 256"
  by (metis ToUint8_uint uint_ToUint8)

lemma byte_bounds: "0 \<le> uint (b :: byte) \<and> uint b < 256"
  using uint_lt2p [of b] by simp

lemma byte_less: "uint (b :: byte) < 256"
  using byte_bounds by blast

lemma ToInt32_byte [simp]: "ToInt32 (uint (b :: byte)) = uint b"
proof (rule ToInt32_id)
  show "- (2 ^ 31) \<le> uint b" by (rule order_trans [of _ 0]) simp_all
  show "uint b < 2 ^ 31" using byte_less [of b] by simp
qed

subsection \<open>The bit operators on small nonnegative numbers\<close>

lemma js_sar_small: "0 \<le> x \<Longrightarrow> x < 2147483648 \<Longrightarrow> n < 32 \<Longrightarrow> js_sar x n = x div 2 ^ n"
  by (simp add: js_sar_def ToInt32_nonneg)

lemma js_shl_small: "0 \<le> x \<Longrightarrow> x * 2 ^ n < 2147483648 \<Longrightarrow> n < 32 \<Longrightarrow> js_shl x n = x * 2 ^ n"
proof -
  assume x: "0 \<le> x" "x * 2 ^ n < 2147483648" "n < 32"
  have "x * 1 \<le> x * 2 ^ n" using x(1) by (intro mult_left_mono) auto
  with x have "x < 2147483648" by simp
  with x show ?thesis by (simp add: js_shl_def ToInt32_nonneg)
qed

lemma js_and_mask: "0 \<le> x \<Longrightarrow> x < 2147483648 \<Longrightarrow> n < 31 \<Longrightarrow> js_and x (2 ^ n - 1) = x mod 2 ^ n"
proof -
  assume x: "0 \<le> x" "x < 2147483648" "n < 31"
  have "(2 :: int) ^ n < 2 ^ 31" using x(3) by (intro power_strict_increasing) auto
  then have m: "ToInt32 (2 ^ n - 1) = 2 ^ n - 1" by (intro ToInt32_nonneg) auto
  show ?thesis
    using x m take_bit_eq_mask [of n x]
    by (simp add: js_and_def ToInt32_nonneg mask_eq_exp_minus_1 take_bit_eq_mod)
qed

lemma js_and_masks:
  assumes "0 \<le> x" "x < 2147483648"
  shows "js_and x 0x01 = x mod 2" "js_and x 0x03 = x mod 4" "js_and x 0x0f = x mod 16"
    "js_and x 0x3f = x mod 64" "js_and x 0x7f = x mod 128" "js_and x 0xff = x mod 256"
  using js_and_mask [OF assms, of 1] js_and_mask [OF assms, of 2] js_and_mask [OF assms, of 4]
    js_and_mask [OF assms, of 6] js_and_mask [OF assms, of 7] js_and_mask [OF assms, of 8]
  by simp_all

section \<open>Typed arrays\<close>

definition u8_get :: "u8array \<Rightarrow> int \<Rightarrow> byte" where
  "u8_get xs i = (if 0 \<le> i \<and> i < int (length xs) then xs ! nat i else 0)"

definition u8_upd :: "u8array \<Rightarrow> int \<Rightarrow> byte \<Rightarrow> u8array" where
  "u8_upd xs i v = (if 0 \<le> i then xs[nat i := v] else xs)"

definition u8_new :: "int \<Rightarrow> u8array" where
  "u8_new n = replicate (nat n) 0"

text \<open>Relative indices of \<open>subarray\<close> and \<open>slice\<close>: negative counts from the end, clamped.\<close>

definition rel_index :: "nat \<Rightarrow> int \<Rightarrow> nat" where
  "rel_index len i = (if i < 0 then nat (int len + i) else min (nat i) len)"

definition u8_sub :: "u8array \<Rightarrow> int \<Rightarrow> int \<Rightarrow> u8array" where
  "u8_sub xs b e =
     (let b' = rel_index (length xs) b; e' = rel_index (length xs) e
      in take (e' - b') (drop b' xs))"

text \<open>The contents of \<open>target\<close> after \<open>target.set(src, offset)\<close>, or \<open>None\<close> for its RangeError.\<close>

definition u8_set :: "u8array \<Rightarrow> u8array \<Rightarrow> int \<Rightarrow> u8array option" where
  "u8_set target src offset =
     (if 0 \<le> offset \<and> offset + int (length src) \<le> int (length target)
      then Some (take (nat offset) target @ src @ drop (nat offset + length src) target)
      else None)"

text \<open>\<open>new Uint8Array(buffer, offset, len)\<close>: a view of exactly \<open>len\<close> bytes, or a RangeError.\<close>

definition u8_view :: "u8array \<Rightarrow> int \<Rightarrow> int \<Rightarrow> u8array option" where
  "u8_view buf offset len =
     (if 0 \<le> offset \<and> 0 \<le> len \<and> offset + len \<le> int (length buf)
      then Some (take (nat len) (drop (nat offset) buf)) else None)"

lemma length_u8_upd [simp, u8_simps]: "length (u8_upd xs i v) = length xs"
  by (simp add: u8_upd_def)

lemma length_u8_new [simp, u8_simps]: "length (u8_new n) = nat n"
  by (simp add: u8_new_def)

lemma u8_get_nat [u8_simps]: "n < length xs \<Longrightarrow> u8_get xs (int n) = xs ! n"
  by (simp add: u8_get_def)

lemma u8_get_upd:
  "u8_get (u8_upd xs i v) j = (if j = i \<and> 0 \<le> i \<and> i < int (length xs) then v else u8_get xs j)"
  by (auto simp: u8_get_def u8_upd_def nth_list_update)

lemma take_u8_upd: "int n \<le> i \<Longrightarrow> take n (u8_upd xs i v) = take n xs"
  by (auto simp: u8_upd_def)

lemma drop_u8_upd: "i < int n \<Longrightarrow> drop n (u8_upd xs i v) = drop n xs"
  by (auto simp: u8_upd_def)

lemma u8_sub_in_range [u8_simps]:
  "0 \<le> b \<Longrightarrow> b \<le> e \<Longrightarrow> e \<le> int (length xs) \<Longrightarrow>
     u8_sub xs b e = take (nat (e - b)) (drop (nat b) xs)"
  by (auto simp: u8_sub_def rel_index_def Let_def min_def nat_diff_distrib)

lemma u8_set_Some_iff:
  "(\<exists>t. u8_set target src offset = Some t) \<longleftrightarrow>
     0 \<le> offset \<and> offset + int (length src) \<le> int (length target)"
  by (simp add: u8_set_def)

lemma length_u8_set: "u8_set target src offset = Some t \<Longrightarrow> length t = length target"
  by (auto simp: u8_set_def split: if_splits)

section \<open>Errors and outcomes\<close>

text \<open>
  \<open>JSError msg args\<close> is \<open>throw new Error(...)\<close>: the literal text of its message and the
  numbers spliced into it. \<open>RangeError\<close> and \<open>TypeError\<close> are the ones the language raises.
\<close>

datatype js_error =
    JSError string "int list"
  | RangeError
  | TypeError

section \<open>Big-endian values\<close>

text \<open>The value of a byte string read in network order, the format of every RFB integer.\<close>

definition be_val :: "byte list \<Rightarrow> int" where
  "be_val bs = foldl (\<lambda>acc b. acc * 256 + uint b) 0 bs"

lemma be_val_Nil [simp]: "be_val [] = 0"
  by (simp add: be_val_def)

lemma be_val_snoc [simp]: "be_val (bs @ [b]) = be_val bs * 256 + uint b"
  by (simp add: be_val_def)

lemma be_val_bounds: "0 \<le> be_val bs \<and> be_val bs < 256 ^ length bs"
proof (induction bs rule: rev_induct)
  case Nil
  then show ?case by simp
next
  case (snoc b bs)
  have "be_val bs * 256 + uint b < (be_val bs + 1) * 256" using byte_less [of b] by (simp add: algebra_simps)
  also have "\<dots> \<le> 256 ^ length bs * 256" using snoc by (intro mult_right_mono) auto
  finally show ?case using snoc by (simp add: algebra_simps)
qed

lemma be_val_Cons: "be_val (b # bs) = uint b * 256 ^ length bs + be_val bs"
proof (induction bs rule: rev_induct)
  case Nil
  then show ?case by (simp add: be_val_def)
next
  case (snoc c bs)
  have "be_val ((b # bs) @ [c]) = be_val (b # bs) * 256 + uint c" by (rule be_val_snoc)
  with snoc show ?case by (simp add: algebra_simps)
qed

text \<open>The bytes an RFB integer is written as.\<close>

primrec be_bytes :: "nat \<Rightarrow> int \<Rightarrow> byte list" where
  "be_bytes 0 v = []"
| "be_bytes (Suc n) v = be_bytes n (v div 256) @ [ToUint8 v]"

lemma length_be_bytes [simp]: "length (be_bytes n v) = n"
  by (induction n arbitrary: v) auto

lemma be_bytes_2: "be_bytes 2 v = [ToUint8 (v div 256), ToUint8 v]"
  by (simp add: numeral_2_eq_2)

lemma be_bytes_4:
  "be_bytes 4 v = [ToUint8 (v div 16777216), ToUint8 (v div 65536), ToUint8 (v div 256), ToUint8 v]"
  by (simp add: numeral_eq_Suc zdiv_zmult2_eq [symmetric])

lemma be_val_be_bytes: "be_val (be_bytes n v) = v mod 256 ^ n"
proof (induction n arbitrary: v)
  case 0
  then show ?case by simp
next
  case (Suc n)
  have "v mod 256 ^ Suc n = 256 * (v div 256 mod 256 ^ n) + v mod 256"
    by (simp add: zmod_zmult2_eq)
  then show ?case by (simp add: Suc uint_ToUint8)
qed

lemma be_bytes_be_val: "be_bytes (length bs) (be_val bs) = bs"
proof (induction bs rule: rev_induct)
  case Nil
  then show ?case by simp
next
  case (snoc b bs)
  have "(be_val bs * 256 + uint b) div 256 = be_val bs"
    using byte_bounds [of b] by (simp add: div_add1_eq)
  moreover have "ToUint8 (be_val bs * 256 + uint b) = b"
    by (metis ToUint8_eq_iff ToUint8_uint mod_mult_self3)
  ultimately show ?case by (simp add: snoc)
qed

text \<open>A byte of a number is the same before and after \<open>ToInt32\<close>.\<close>

lemma ToInt32_byte_at:
  assumes "k \<le> 24"
  shows "(ToInt32 n div 2 ^ k) mod 256 = (n div 2 ^ k) mod 256"
proof -
  obtain c where c: "ToInt32 n = n + 4294967296 * c"
    using ToInt32_mod [of n] by (metis mod_eqE)
  have "(4294967296 :: int) = 2 ^ k * (2 ^ (24 - k) * 256)"
    using assms by (simp add: power_add [symmetric] flip: mult.assoc)
  then have "n + 4294967296 * c = n + 2 ^ k * (2 ^ (24 - k) * 256 * c)" by (simp add: ac_simps)
  then have "(n + 4294967296 * c) div 2 ^ k = n div 2 ^ k + 2 ^ (24 - k) * 256 * c"
    by (simp only:) simp
  then show ?thesis by (simp add: c mod_simps) (metis mod_mult_self2 mult.assoc mult.commute)
qed

lemma and_255: "(a :: int) AND 255 = a mod 256"
  using take_bit_eq_mask [of 8 a] by (simp add: mask_eq_exp_minus_1 take_bit_eq_mod)

lemma byte_of_push [js_simps]:
  "k \<le> 24 \<Longrightarrow> ToUint8 (js_and (js_sar n k) 0xff) = ToUint8 (n div 2 ^ k)"
proof -
  assume k: "k \<le> 24"
  have s: "ToInt32 (js_sar n k) mod 256 = js_sar n k mod 256"
    using ToInt32_byte_at [of 0 "js_sar n k"] by simp
  have "js_and (js_sar n k) 255 = js_sar n k mod 256"
    using s by (simp add: js_and_def ToInt32_id and_255)
  also have "\<dots> = (n div 2 ^ k) mod 256"
    using k by (simp add: js_sar_def ToInt32_byte_at)
  finally show ?thesis by (simp add: ToUint8_eq_iff)
qed

lemma or_shifted:
  assumes "0 \<le> c" and "c < 2 ^ n"
  shows "c OR (x * 2 ^ n) = c + x * (2 :: int) ^ n"
proof -
  have "bit (x * 2 ^ n) m \<Longrightarrow> \<not> bit c m" for m
  proof -
    assume "bit (x * 2 ^ n) m"
    then have "n \<le> m" by (simp add: bit_push_bit_iff flip: push_bit_eq_mult)
    moreover have "take_bit n c = c" using assms by (simp add: take_bit_int_eq_self)
    ultimately show "\<not> bit c m" by (metis bit_take_bit_iff not_le)
  qed
  then have "c AND (x * 2 ^ n) = 0" by (auto simp: bit_eq_iff bit_and_iff)
  then show ?thesis using plus_and_or [of c "x * 2 ^ n"] by simp
qed

end
