(* ===== verification/Websock.thy ===== *)
theory Websock
  imports JS_Prelude
begin

text \<open>
  The buffering socket wrapper, \<open>websock.js\<close>. The state is the object's fields: the receive
  queue \<open>rQ\<close> with its read index \<open>rQi\<close> and write index \<open>rQlen\<close>, the send queue \<open>sQ\<close>
  with \<open>sQlen\<close>, and the raw channel. What a reader of the queue sees is the list of bytes
  between the two indices, \<open>unread\<close>; what a writer has produced is what was handed to the
  channel followed by the pending part of the send queue, \<open>outgoing\<close>.
\<close>

section \<open>State\<close>

text \<open>
  The \<open>readyState\<close> of a raw channel is a number for a WebSocket and a string for an
  RTCDataChannel; the constants of both are the browser's.
\<close>

datatype substate = WSState int | DCState string

record channel =
  ch_readyState :: substate
  ch_props :: "string list"        \<comment> \<open>own and prototype property names\<close>
  ch_binaryType :: string
  ch_onmessage :: bool             \<comment> \<open>whether \<open>onmessage\<close> is bound to \<open>_recvMessage\<close>\<close>
  ch_sent :: "byte list list"      \<comment> \<open>arguments of the calls of \<open>send\<close>, in order\<close>
  ch_closed :: bool                \<comment> \<open>whether \<open>close()\<close> was called\<close>

text \<open>
  An event handler is named by a number; 0 is the empty function. A queue that is \<open>null\<close>
  before \<open>init\<close> is the empty array.
\<close>

record websock =
  websocket :: "channel option"
  rQi :: int
  rQlen :: int
  rQbufferSize :: int
  rQ :: u8array
  sQbufferSize :: int
  sQlen :: int
  sQ :: u8array
  eventHandlers :: "string \<Rightarrow> nat"

definition MAX_RQ_GROW_SIZE :: int where
  "MAX_RQ_GROW_SIZE = 40 * 1024 * 1024"

definition rawChannelProps :: "string list" where
  "rawChannelProps = [''send'', ''close'', ''binaryType'', ''onerror'', ''onmessage'', ''onopen'',
     ''protocol'', ''readyState'']"

definition ReadyStates_CONNECTING :: "substate list" where
  "ReadyStates_CONNECTING = [WSState 0, DCState ''connecting'']"

definition ReadyStates_OPEN :: "substate list" where
  "ReadyStates_OPEN = [WSState 1, DCState ''open'']"

definition ReadyStates_CLOSING :: "substate list" where
  "ReadyStates_CLOSING = [WSState 2, DCState ''closing'']"

definition ReadyStates_CLOSED :: "substate list" where
  "ReadyStates_CLOSED = [WSState 3, DCState ''closed'']"

definition new_Websock :: websock where
  "new_Websock = \<lparr>websocket = None, rQi = 0, rQlen = 0, rQbufferSize = 1024 * 1024 * 4, rQ = [],
     sQbufferSize = 1024 * 10, sQlen = 0, sQ = [], eventHandlers = (\<lambda>_. 0)\<rparr>"

definition readyState :: "websock \<Rightarrow> string" where
  "readyState ws =
     (case websocket ws of
        None \<Rightarrow> ''unused''
      | Some ch \<Rightarrow>
          (let subState = ch_readyState ch in
           if subState \<in> set ReadyStates_CONNECTING then ''connecting''
           else if subState \<in> set ReadyStates_OPEN then ''open''
           else if subState \<in> set ReadyStates_CLOSING then ''closing''
           else if subState \<in> set ReadyStates_CLOSED then ''closed''
           else ''unknown''))"

section \<open>Receive queue\<close>

definition rQpeek8 :: "websock \<Rightarrow> int" where
  "rQpeek8 ws = uint (u8_get (rQ ws) (rQi ws))"

definition rQskipBytes :: "websock \<Rightarrow> int \<Rightarrow> websock" where
  "rQskipBytes ws bytes = ws\<lparr>rQi := rQi ws + bytes\<rparr>"

text \<open>The loop of \<open>_rQshift\<close>; the counter \<open>_byte\<close> runs from \<open>bytes - 1\<close> down to 0.\<close>

fun rQshift_loop :: "nat \<Rightarrow> websock \<Rightarrow> int \<Rightarrow> websock \<times> int" where
  "rQshift_loop 0 ws res = (ws, js_shr res 0)"
| "rQshift_loop (Suc k) ws res =
     rQshift_loop k (ws\<lparr>rQi := rQi ws + 1\<rparr>)
       (res + js_shl (uint (u8_get (rQ ws) (rQi ws))) (k * 8))"

definition rQshift :: "websock \<Rightarrow> nat \<Rightarrow> websock \<times> int" where
  "rQshift ws bytes = rQshift_loop bytes ws 0"

definition rQshift8 :: "websock \<Rightarrow> websock \<times> int" where
  "rQshift8 ws = rQshift ws 1"

definition rQshift16 :: "websock \<Rightarrow> websock \<times> int" where
  "rQshift16 ws = rQshift ws 2"

definition rQshift32 :: "websock \<Rightarrow> websock \<times> int" where
  "rQshift32 ws = rQshift ws 4"

text \<open>
  \<open>rQshiftBytes\<close> returns the bytes it consumed; with \<open>copy = false\<close> the result is a view
  of \<open>rQ\<close>, whose contents are the same list (clients that write through such a view update
  \<open>rQ\<close> themselves).
\<close>

definition rQshiftBytes :: "websock \<Rightarrow> int \<Rightarrow> websock \<times> u8array" where
  "rQshiftBytes ws len =
     (let ws' = ws\<lparr>rQi := rQi ws + len\<rparr>
      in (ws', u8_sub (rQ ws') (rQi ws' - len) (rQi ws')))"

text \<open>A string of character codes below 256 is a list of bytes; \<open>String.fromCharCode\<close> is the identity.\<close>

function rQshiftStr_loop :: "websock \<Rightarrow> int \<Rightarrow> int \<Rightarrow> byte list \<Rightarrow> websock \<times> byte list" where
  "rQshiftStr_loop ws len i str =
     (if i < len then
        (let (ws', part) = rQshiftBytes ws (min 4096 (len - i))
         in rQshiftStr_loop ws' len (i + 4096) (str @ part))
      else (ws, str))"
  by pat_completeness auto
termination
  by (relation "measure (\<lambda>(ws, len, i, str). nat (len - i))") auto

declare rQshiftStr_loop.simps [simp del]

definition rQshiftStr :: "websock \<Rightarrow> int \<Rightarrow> websock \<times> byte list" where
  "rQshiftStr ws len = rQshiftStr_loop ws len 0 []"

definition rQshiftTo :: "websock \<Rightarrow> u8array \<Rightarrow> int \<Rightarrow> websock \<times> (js_error + u8array)" where
  "rQshiftTo ws target len =
     (case u8_view (rQ ws) (rQi ws) len of
        None \<Rightarrow> (ws, Inl RangeError)
      | Some src \<Rightarrow>
          (case u8_set target src 0 of
             None \<Rightarrow> (ws, Inl RangeError)
           | Some target' \<Rightarrow> (ws\<lparr>rQi := rQi ws + len\<rparr>, Inr target')))"

definition rQpeekBytes :: "websock \<Rightarrow> int \<Rightarrow> u8array" where
  "rQpeekBytes ws len = u8_sub (rQ ws) (rQi ws) (rQi ws + len)"

text \<open>An omitted \<open>goback\<close> is 0: both are falsy.\<close>

definition rQwait :: "websock \<Rightarrow> int \<Rightarrow> int \<Rightarrow> websock \<times> (js_error + bool)" where
  "rQwait ws num goback =
     (if rQlen ws - rQi ws < num then
        (if goback \<noteq> 0 then
           (if rQi ws < goback then (ws, Inl (JSError ''rQwait cannot backup bytes'' [goback]))
            else (ws\<lparr>rQi := rQi ws - goback\<rparr>, Inr True))
         else (ws, Inr True))
      else (ws, Inr False))"

text \<open>A call without \<open>goback\<close> changes nothing and cannot throw; only its truth value is used.\<close>

definition rQwaits :: "websock \<Rightarrow> int \<Rightarrow> bool" where
  "rQwaits ws num \<longleftrightarrow> snd (rQwait ws num 0) = Inr True"

section \<open>Send queue\<close>

definition ws_flush :: "websock \<Rightarrow> websock" where
  "ws_flush ws =
     (if sQlen ws > 0 \<and> readyState ws = ''open'' then
        (case websocket ws of
           None \<Rightarrow> ws
         | Some ch \<Rightarrow>
             ws\<lparr>websocket := Some (ch\<lparr>ch_sent := ch_sent ch @ [take (nat (sQlen ws)) (sQ ws)]\<rparr>),
                sQlen := 0\<rparr>)
      else ws)"

definition sQensureSpace :: "websock \<Rightarrow> int \<Rightarrow> websock" where
  "sQensureSpace ws bytes =
     (if sQbufferSize ws - sQlen ws < bytes then ws_flush ws else ws)"

text \<open>\<open>this._sQ[this._sQlen++] = num\<close>\<close>

definition sQstore :: "websock \<Rightarrow> int \<Rightarrow> websock" where
  "sQstore ws num = ws\<lparr>sQ := u8_upd (sQ ws) (sQlen ws) (ToUint8 num), sQlen := sQlen ws + 1\<rparr>"

definition sQpush8 :: "websock \<Rightarrow> int \<Rightarrow> websock" where
  "sQpush8 ws num = sQstore (sQensureSpace ws 1) num"

definition sQpush16 :: "websock \<Rightarrow> int \<Rightarrow> websock" where
  "sQpush16 ws num =
     (let ws = sQensureSpace ws 2;
          ws = sQstore ws (js_and (js_sar num 8) 0xff)
      in sQstore ws (js_and (js_sar num 0) 0xff))"

definition sQpush32 :: "websock \<Rightarrow> int \<Rightarrow> websock" where
  "sQpush32 ws num =
     (let ws = sQensureSpace ws 4;
          ws = sQstore ws (js_and (js_sar num 24) 0xff);
          ws = sQstore ws (js_and (js_sar num 16) 0xff);
          ws = sQstore ws (js_and (js_sar num 8) 0xff)
      in sQstore ws (js_and (js_sar num 0) 0xff))"

text \<open>
  The chunking loop of \<open>sQpushBytes\<close>. It makes no progress when the queue is full and
  cannot be flushed, so it is a partial function: \<open>None\<close> is a loop that never returns.
\<close>

partial_function (option) sQpushBytes_loop ::
  "websock \<Rightarrow> u8array \<Rightarrow> int \<Rightarrow> (websock \<times> (js_error + unit)) option" where
  "sQpushBytes_loop ws bytes offset =
     (if offset < int (length bytes) then
        (let ws1 = sQensureSpace ws 1;
             room = sQbufferSize ws1 - sQlen ws1;
             chunkSize = (if room > int (length bytes) - offset
                          then int (length bytes) - offset else room)
         in case u8_set (sQ ws1) (u8_sub bytes offset (offset + chunkSize)) (sQlen ws1) of
              None \<Rightarrow> Some (ws1, Inl RangeError)
            | Some q \<Rightarrow>
                sQpushBytes_loop (ws1\<lparr>sQ := q, sQlen := sQlen ws1 + chunkSize\<rparr>) bytes
                  (offset + chunkSize))
      else Some (ws, Inr ()))"

definition sQpushBytes :: "websock \<Rightarrow> u8array \<Rightarrow> (websock \<times> (js_error + unit)) option" where
  "sQpushBytes ws bytes = sQpushBytes_loop ws bytes 0"

text \<open>\<open>sQpushString\<close> stores each character code modulo 256.\<close>

definition sQpushString :: "websock \<Rightarrow> int list \<Rightarrow> (websock \<times> (js_error + unit)) option" where
  "sQpushString ws str = sQpushBytes ws (map ToUint8 str)"

section \<open>Event handlers and the life of a channel\<close>

definition ws_off :: "websock \<Rightarrow> string \<Rightarrow> websock" where
  "ws_off ws evt = ws\<lparr>eventHandlers := (eventHandlers ws)(evt := 0)\<rparr>"

definition ws_on :: "websock \<Rightarrow> string \<Rightarrow> nat \<Rightarrow> websock" where
  "ws_on ws evt handler = ws\<lparr>eventHandlers := (eventHandlers ws)(evt := handler)\<rparr>"

definition allocateBuffers :: "websock \<Rightarrow> websock" where
  "allocateBuffers ws = ws\<lparr>rQ := u8_new (rQbufferSize ws), sQ := u8_new (sQbufferSize ws)\<rparr>"

definition ws_init :: "websock \<Rightarrow> websock" where
  "ws_init ws = (allocateBuffers ws)\<lparr>rQi := 0, websocket := None\<rparr>"

definition ws_attach :: "websock \<Rightarrow> channel \<Rightarrow> websock \<times> (js_error + unit)" where
  "ws_attach ws rawChannel =
     (let ws = ws_init ws in
      case find (\<lambda>prop. prop \<notin> set (ch_props rawChannel)) rawChannelProps of
        Some prop \<Rightarrow> (ws, Inl (JSError (''Raw channel missing property: '' @ prop) []))
      | None \<Rightarrow>
          (ws\<lparr>websocket := Some (rawChannel\<lparr>ch_binaryType := ''arraybuffer'',
                                         ch_onmessage := True\<rparr>)\<rparr>, Inr ()))"

text \<open>\<open>open\<close> attaches the WebSocket the browser creates for the URI.\<close>

definition ws_open ::
  "(string \<Rightarrow> string list \<Rightarrow> channel) \<Rightarrow> websock \<Rightarrow> string \<Rightarrow> string list \<Rightarrow>
     websock \<times> (js_error + unit)" where
  "ws_open newWebSocket ws uri protocols = ws_attach ws (newWebSocket uri protocols)"

definition ws_close :: "websock \<Rightarrow> websock" where
  "ws_close ws =
     (case websocket ws of
        None \<Rightarrow> ws
      | Some ch \<Rightarrow>
          (let ch1 = (if readyState ws = ''connecting'' \<or> readyState ws = ''open''
                      then ch\<lparr>ch_closed := True\<rparr> else ch)
           in ws\<lparr>websocket := Some (ch1\<lparr>ch_onmessage := False\<rparr>)\<rparr>))"

section \<open>Incoming messages\<close>

definition expandCompactRQ :: "websock \<Rightarrow> int \<Rightarrow> websock \<times> (js_error + unit)" where
  "expandCompactRQ ws minFit =
     (let requiredBufferSize = (rQlen ws - rQi ws + minFit) * 8;
          resizeNeeded = rQbufferSize ws < requiredBufferSize;
          ws1 = (if resizeNeeded
                 then ws\<lparr>rQbufferSize := max (rQbufferSize ws * 2) requiredBufferSize\<rparr> else ws);
          ws2 = (if rQbufferSize ws1 > MAX_RQ_GROW_SIZE
                 then ws1\<lparr>rQbufferSize := MAX_RQ_GROW_SIZE\<rparr> else ws1)
      in if rQbufferSize ws1 > MAX_RQ_GROW_SIZE \<and>
            rQbufferSize ws2 - (rQlen ws2 - rQi ws2) < minFit
         then (ws2, Inl (JSError ''Receive queue buffer exceeded'' [MAX_RQ_GROW_SIZE]))
         else if resizeNeeded then
           (case u8_view (rQ ws2) (rQi ws2) (rQlen ws2 - rQi ws2) of
              None \<Rightarrow> (ws2\<lparr>rQ := u8_new (rQbufferSize ws2)\<rparr>, Inl RangeError)
            | Some src \<Rightarrow>
                (case u8_set (u8_new (rQbufferSize ws2)) src 0 of
                   None \<Rightarrow> (ws2\<lparr>rQ := u8_new (rQbufferSize ws2)\<rparr>, Inl RangeError)
                 | Some q \<Rightarrow> (ws2\<lparr>rQ := q, rQlen := rQlen ws2 - rQi ws2, rQi := 0\<rparr>, Inr ())))
         else
           (let moved = u8_sub (rQ ws2) (rQi ws2) (rQlen ws2)
            in (ws2\<lparr>rQ := moved @ drop (length moved) (rQ ws2),
                    rQlen := rQlen ws2 - rQi ws2, rQi := 0\<rparr>, Inr ())))"

text \<open>
  \<open>_recvMessage\<close> answers whether it notified the \<open>message\<close> handler; running that handler is
  the client's step (see the \<open>RFB\<close> theories).
\<close>

definition recvMessage :: "websock \<Rightarrow> byte list \<Rightarrow> websock \<times> (js_error + bool)" where
  "recvMessage ws u8 =
     (let ws1 = (if rQlen ws = rQi ws then ws\<lparr>rQlen := 0, rQi := 0\<rparr> else ws);
          (ws2, r) = (if int (length u8) > rQbufferSize ws1 - rQlen ws1
                      then expandCompactRQ ws1 (int (length u8)) else (ws1, Inr ()))
      in case r of
           Inl e \<Rightarrow> (ws2, Inl e)
         | Inr _ \<Rightarrow>
             (case u8_set (rQ ws2) u8 (rQlen ws2) of
                None \<Rightarrow> (ws2, Inl RangeError)
              | Some q \<Rightarrow>
                  (let ws3 = ws2\<lparr>rQ := q, rQlen := rQlen ws2 + int (length u8)\<rparr>
                   in (ws3, Inr (rQlen ws3 - rQi ws3 > 0)))))"

section \<open>What the queues hold, and when they are well formed\<close>

named_theorems ws_simps \<open>the receive-queue operations seen through \<open>unread\<close>\<close>

definition unread :: "websock \<Rightarrow> byte list" where
  "unread ws = take (nat (rQlen ws - rQi ws)) (drop (nat (rQi ws)) (rQ ws))"

definition rx_inv :: "websock \<Rightarrow> bool" where
  "rx_inv ws \<longleftrightarrow> 0 \<le> rQi ws \<and> rQi ws \<le> rQlen ws \<and> rQlen ws \<le> rQbufferSize ws \<and>
     rQbufferSize ws = int (length (rQ ws)) \<and> rQbufferSize ws \<le> MAX_RQ_GROW_SIZE"

text \<open>Consuming \<open>n\<close> bytes: the only effect a read has on the socket.\<close>

definition adv :: "nat \<Rightarrow> websock \<Rightarrow> websock" where
  "adv n ws = ws\<lparr>rQi := rQi ws + int n\<rparr>"

lemma length_unread: "rx_inv ws \<Longrightarrow> int (length (unread ws)) = rQlen ws - rQi ws"
  by (auto simp: rx_inv_def unread_def)

lemma unread_eqI:
  "drop (nat (rQi ws)) (rQ ws) = us @ rest \<Longrightarrow> rQlen ws - rQi ws = int (length us) \<Longrightarrow> unread ws = us"
  by (simp add: unread_def)

lemma rx_inv_adv [ws_simps]: "rx_inv ws \<Longrightarrow> n \<le> length (unread ws) \<Longrightarrow> rx_inv (adv n ws)"
  using length_unread [of ws] by (auto simp: rx_inv_def adv_def)

lemma unread_adv [ws_simps]: "rx_inv ws \<Longrightarrow> unread (adv n ws) = drop n (unread ws)"
proof -
  assume inv: "rx_inv ws"
  then have i: "0 \<le> rQi ws" by (simp add: rx_inv_def)
  then have "nat (rQi ws + int n) = n + nat (rQi ws)" by simp
  moreover have "nat (rQlen ws - (rQi ws + int n)) = nat (rQlen ws - rQi ws) - n" by simp
  ultimately show ?thesis
    by (simp add: unread_def adv_def drop_take)
qed

lemma adv_0 [simp]: "adv 0 ws = ws"
  by (simp add: adv_def)

lemma adv_adv [simp]: "adv m (adv n ws) = adv (n + m) ws"
  by (simp add: adv_def)

lemma unread_nth:
  "rx_inv ws \<Longrightarrow> n < length (unread ws) \<Longrightarrow> u8_get (rQ ws) (rQi ws + int n) = unread ws ! n"
  using length_unread [of ws]
  by (auto simp: rx_inv_def unread_def u8_get_def nat_add_distrib)

lemma rQwaits_iff [ws_simps]: "rx_inv ws \<Longrightarrow> rQwaits ws num \<longleftrightarrow> int (length (unread ws)) < num"
  by (simp add: rQwaits_def rQwait_def length_unread)

lemma rQwait_goback [ws_simps]:
  "rx_inv ws \<Longrightarrow> rQwait ws num 0 = (ws, Inr (int (length (unread ws)) < num))"
  by (simp add: rQwait_def length_unread)

lemma rQpeek8_eq [ws_simps]: "rx_inv ws \<Longrightarrow> unread ws \<noteq> [] \<Longrightarrow> rQpeek8 ws = uint (hd (unread ws))"
  using unread_nth [of ws 0] by (simp add: rQpeek8_def hd_conv_nth)

lemma rQskipBytes_eq [ws_simps]: "rQskipBytes ws (int n) = adv n ws"
  by (simp add: rQskipBytes_def adv_def)

lemma take_unread:
  "n \<le> length (unread ws) \<Longrightarrow> take n (drop (nat (rQi ws)) (rQ ws)) = take n (unread ws)"
  by (simp add: unread_def min_def split: if_splits)

lemma u8_sub_unread:
  assumes "rx_inv ws" and "n \<le> length (unread ws)"
  shows "u8_sub (rQ ws) (rQi ws) (rQi ws + int n) = take n (unread ws)"
proof -
  have "rQi ws + int n \<le> int (length (rQ ws))" and i: "0 \<le> rQi ws"
    using assms length_unread [of ws] by (auto simp: rx_inv_def)
  then have "u8_sub (rQ ws) (rQi ws) (rQi ws + int n) = take n (drop (nat (rQi ws)) (rQ ws))"
    by (simp add: u8_sub_in_range)
  also have "\<dots> = take n (unread ws)"
    using assms by (simp add: take_unread)
  finally show ?thesis .
qed

lemma rQshiftBytes_eq [ws_simps]:
  "rx_inv ws \<Longrightarrow> n \<le> length (unread ws) \<Longrightarrow>
     rQshiftBytes ws (int n) = (adv n ws, take n (unread ws))"
  by (simp add: rQshiftBytes_def Let_def adv_def u8_sub_unread)

lemma rQpeekBytes_eq [ws_simps]:
  "rx_inv ws \<Longrightarrow> n \<le> length (unread ws) \<Longrightarrow> rQpeekBytes ws (int n) = take n (unread ws)"
  by (simp add: rQpeekBytes_def u8_sub_unread)

lemma rQshiftTo_eq [ws_simps]:
  assumes "rx_inv ws" and "n \<le> length (unread ws)" and "n \<le> length target"
  shows "rQshiftTo ws target (int n) =
    (adv n ws, Inr (take n (unread ws) @ drop n target))"
proof -
  have "rQi ws + int n \<le> int (length (rQ ws))" and i: "0 \<le> rQi ws"
    using assms length_unread [of ws] by (auto simp: rx_inv_def)
  then have v: "u8_view (rQ ws) (rQi ws) (int n) = Some (take n (drop (nat (rQi ws)) (rQ ws)))"
    by (simp add: u8_view_def)
  have t: "take n (drop (nat (rQi ws)) (rQ ws)) = take n (unread ws)"
    using assms by (simp add: take_unread)
  have l: "length (take n (unread ws)) = n" using assms by simp
  then have "u8_set target (take n (unread ws)) 0 = Some (take n (unread ws) @ drop n target)"
    using assms by (simp add: u8_set_def)
  then show ?thesis by (simp add: rQshiftTo_def v t adv_def)
qed

lemmas rQshiftBytes_numeral [ws_simps] = rQshiftBytes_eq [of _ "numeral k" for k, simplified]
lemmas rQpeekBytes_numeral [ws_simps] = rQpeekBytes_eq [of _ "numeral k" for k, simplified]

subsection \<open>Reading integers: \<open>_rQshift\<close> is a big-endian read\<close>

lemma js_shl_byte_mod: "js_shl (uint (b :: byte)) (k * 8) mod 4294967296 = (uint b * 256 ^ k) mod 4294967296"
  if "k < 4"
proof -
  have "k * 8 < 32" using that by simp
  then show ?thesis by (simp add: js_shl_def ToInt32_mod power_mult mult.commute [of k])
qed

lemma rQshift_loop_value:
  assumes "rx_inv ws" and "k \<le> length (unread ws)" and "k \<le> 4"
  shows "rQshift_loop k ws res = (adv k ws, (res + be_val (take k (unread ws))) mod 4294967296)"
  using assms
proof (induction k arbitrary: ws res)
  case 0
  then show ?case by (simp add: js_shr_def ToUint32_def)
next
  case (Suc k)
  let ?b = "hd (unread ws)"
  have ne: "unread ws \<noteq> []" using Suc.prems by auto
  have b: "u8_get (rQ ws) (rQi ws) = ?b"
    using unread_nth [of ws 0] Suc.prems ne by (simp add: hd_conv_nth)
  have a: "ws\<lparr>rQi := rQi ws + 1\<rparr> = adv (Suc 0) ws" by (simp add: adv_def)
  have u: "unread (adv (Suc 0) ws) = tl (unread ws)"
    using Suc.prems by (simp add: ws_simps drop_Suc)
  have inv: "rx_inv (adv (Suc 0) ws)" using Suc.prems by (intro rx_inv_adv) auto
  have len: "k \<le> length (unread (adv (Suc 0) ws))" using Suc.prems by (simp add: u)
  have tk: "length (take k (tl (unread ws))) = k" using Suc.prems by simp
  have hd_tl: "take (Suc k) (unread ws) = ?b # take k (tl (unread ws))"
    using ne by (cases "unread ws") auto
  have val: "be_val (take (Suc k) (unread ws))
      = uint ?b * 256 ^ k + be_val (take k (tl (unread ws)))"
    using tk by (simp add: hd_tl be_val_Cons)
  have "rQshift_loop (Suc k) ws res
      = rQshift_loop k (adv (Suc 0) ws) (res + js_shl (uint ?b) (k * 8))"
    by (simp add: b a)
  also have "\<dots> = (adv (Suc k) ws,
      (res + js_shl (uint ?b) (k * 8) + be_val (take k (tl (unread ws)))) mod 4294967296)"
    using Suc.IH [OF inv len] Suc.prems by (simp add: u)
  also have "(res + js_shl (uint ?b) (k * 8) + be_val (take k (tl (unread ws)))) mod 4294967296
      = (res + uint ?b * 256 ^ k + be_val (take k (tl (unread ws)))) mod 4294967296"
    by (rule mod_add_cong [OF mod_add_cong [OF refl js_shl_byte_mod] refl]) (use Suc.prems in simp)
  finally show ?case by (simp add: val algebra_simps)
qed

lemma rQshift_eq [ws_simps]:
  assumes "rx_inv ws" and "k \<le> length (unread ws)" and "k \<le> 4"
  shows "rQshift ws k = (adv k ws, be_val (take k (unread ws)))"
proof -
  have l: "length (take k (unread ws)) = k" using assms by simp
  have "256 ^ k \<le> (256 :: int) ^ 4" using assms(3) by (intro power_increasing) auto
  then have "be_val (take k (unread ws)) < 2 ^ 32" and "0 \<le> be_val (take k (unread ws))"
    using be_val_bounds [of "take k (unread ws)"] unfolding l by auto
  then show ?thesis using rQshift_loop_value [OF assms, of 0] by (simp add: rQshift_def)
qed

lemmas rQshift_defs = rQshift8_def rQshift16_def rQshift32_def

lemma rQshift8_eq [ws_simps]:
  assumes "rx_inv ws" and "unread ws \<noteq> []"
  shows "rQshift8 ws = (adv (Suc 0) ws, uint (hd (unread ws)))"
proof -
  have "1 \<le> length (unread ws)" using assms(2) by (cases "unread ws") auto
  then show ?thesis using assms by (cases "unread ws") (auto simp: rQshift8_def rQshift_eq be_val_def)
qed

lemma rQshift16_eq [ws_simps]:
  "rx_inv ws \<Longrightarrow> 2 \<le> length (unread ws) \<Longrightarrow> rQshift16 ws = (adv 2 ws, be_val (take 2 (unread ws)))"
  by (simp add: rQshift16_def rQshift_eq)

lemma rQshift32_eq [ws_simps]:
  "rx_inv ws \<Longrightarrow> 4 \<le> length (unread ws) \<Longrightarrow> rQshift32 ws = (adv 4 ws, be_val (take 4 (unread ws)))"
  by (simp add: rQshift32_def rQshift_eq)

subsection \<open>Reading strings in steps of 4096 bytes\<close>

lemma rQshiftStr_loop_eq:
  assumes "rx_inv ws" and "len - i \<le> int (length (unread ws))" and "0 \<le> i" and "n = nat (len - i)"
  shows "rQshiftStr_loop ws len i str = (adv n ws, str @ take n (unread ws))"
  using assms
proof (induction ws len i str arbitrary: n rule: rQshiftStr_loop.induct)
  case (1 ws len i str)
  show ?case
  proof (cases "i < len")
    case False
    with 1 show ?thesis by (simp add: rQshiftStr_loop.simps [of ws len i str])
  next
    case True
    define c where "c = nat (min 4096 (len - i))"
    have c: "min 4096 (len - i) = int c" using True by (simp add: c_def)
    have cn: "c \<le> n" "c \<le> length (unread ws)" "0 < c"
      using True 1 by (auto simp: c_def)
    have sh: "rQshiftBytes ws (int c) = (adv c ws, take c (unread ws))"
      using 1 cn by (simp add: ws_simps)
    have inv: "rx_inv (adv c ws)" using 1 cn by (simp add: ws_simps)
    have u: "unread (adv c ws) = drop c (unread ws)" using 1 by (simp add: ws_simps)
    have rest: "nat (len - (i + 4096)) = n - c" using True 1 by (auto simp: c_def)
    have "rQshiftStr_loop ws len i str
        = rQshiftStr_loop (adv c ws) len (i + 4096) (str @ take c (unread ws))"
      using True by (simp add: rQshiftStr_loop.simps [of ws len i str] c sh)
    also have "\<dots> = (adv (n - c) (adv c ws), (str @ take c (unread ws)) @ take (n - c) (unread (adv c ws)))"
      using "1.IH" [OF True, of "(adv c ws, take c (unread ws))" "adv c ws" "take c (unread ws)" "n - c"]
        c sh inv rest 1 cn True
      by (simp add: u of_nat_diff)
    also have "\<dots> = (adv n ws, str @ take n (unread ws))"
      using cn by (simp add: u) (metis le_add_diff_inverse take_add)
    finally show ?thesis .
  qed
qed

lemma rQshiftStr_eq [ws_simps]:
  "rx_inv ws \<Longrightarrow> n \<le> length (unread ws) \<Longrightarrow> rQshiftStr ws (int n) = (adv n ws, take n (unread ws))"
  by (simp add: rQshiftStr_def rQshiftStr_loop_eq [of ws "int n" 0 n])

section \<open>Receiving a message\<close>

lemma MAX_pos: "0 < MAX_RQ_GROW_SIZE"
  by (simp add: MAX_RQ_GROW_SIZE_def)

lemma expandCompactRQ_ok:
  assumes inv: "rx_inv ws" and fits: "int (length (unread ws)) + m \<le> MAX_RQ_GROW_SIZE" and m: "0 \<le> m"
  obtains ws' where "expandCompactRQ ws m = (ws', Inr ())"
    and "rx_inv ws'" and "unread ws' = unread ws" and "rQi ws' = 0"
    and "m \<le> rQbufferSize ws' - rQlen ws'"
proof -
  let ?n = "rQlen ws - rQi ws"
  have n: "int (length (unread ws)) = ?n" and n0: "0 \<le> ?n"
    using length_unread [OF inv] inv by (auto simp: rx_inv_def)
  let ?req = "(?n + m) * 8"
  define size where "size = min MAX_RQ_GROW_SIZE
    (if rQbufferSize ws < ?req then max (rQbufferSize ws * 2) ?req else rQbufferSize ws)"
  have size: "?n + m \<le> size" "size \<le> MAX_RQ_GROW_SIZE"
    using fits n n0 m inv by (auto simp: size_def rx_inv_def)
  have view: "u8_view (rQ ws) (rQi ws) ?n = Some (unread ws)"
    using inv by (auto simp: u8_view_def rx_inv_def unread_def)
  have set: "u8_set (u8_new size) (unread ws) 0 = Some (unread ws @ drop (length (unread ws)) (u8_new size))"
    using size m n by (simp add: u8_set_def)
  have moved: "u8_sub (rQ ws) (rQi ws) (rQlen ws) = unread ws"
    using u8_sub_unread [OF inv order_refl] n by simp
  define q where "q = unread ws @ drop (length (unread ws))
    (if rQbufferSize ws < ?req then u8_new size else rQ ws)"
  let ?ws' = "ws\<lparr>rQbufferSize := size, rQ := q, rQlen := ?n, rQi := 0\<rparr>"
  have "expandCompactRQ ws m = (?ws', Inr ())"
    using fits n n0 m inv view set moved
    by (auto simp: expandCompactRQ_def Let_def q_def size_def rx_inv_def min_def)
  moreover have lq: "length q = nat size"
    using size inv n m by (auto simp: q_def size_def rx_inv_def)
  moreover have "rx_inv ?ws'"
    using size m n0 lq by (auto simp: rx_inv_def)
  moreover have "unread ?ws' = unread ws"
    using n by (intro unread_eqI) (simp_all add: q_def)
  ultimately show thesis using size that by auto
qed

lemma recvMessage_ok:
  assumes inv: "rx_inv ws"
    and fits: "int (length (unread ws)) + int (length m) \<le> MAX_RQ_GROW_SIZE"
  shows "\<exists>ws'. recvMessage ws m = (ws', Inr (unread ws @ m \<noteq> [])) \<and> rx_inv ws' \<and>
           unread ws' = unread ws @ m"
proof -
  define ws1 where "ws1 = (if rQlen ws = rQi ws then ws\<lparr>rQlen := 0, rQi := 0\<rparr> else ws)"
  have inv1: "rx_inv ws1" and u1: "unread ws1 = unread ws"
    using inv by (auto simp: ws1_def rx_inv_def unread_def)
  obtain ws2 where step: "(if int (length m) > rQbufferSize ws1 - rQlen ws1
        then expandCompactRQ ws1 (int (length m)) else (ws1, Inr ())) = (ws2, Inr ())"
    and inv2: "rx_inv ws2" and u2: "unread ws2 = unread ws"
    and room: "int (length m) \<le> rQbufferSize ws2 - rQlen ws2"
  proof (cases "int (length m) > rQbufferSize ws1 - rQlen ws1")
    case True
    with expandCompactRQ_ok [OF inv1, of "int (length m)"] fits u1 show thesis
      by (metis of_nat_0_le_iff that)
  next
    case False
    then show thesis using inv1 u1 that by auto
  qed
  define q where "q = take (nat (rQlen ws2)) (rQ ws2) @ m @ drop (nat (rQlen ws2) + length m) (rQ ws2)"
  let ?ws3 = "ws2\<lparr>rQ := q, rQlen := rQlen ws2 + int (length m)\<rparr>"
  have set: "u8_set (rQ ws2) m (rQlen ws2) = Some q"
    using inv2 room by (auto simp: u8_set_def q_def rx_inv_def)
  have inv3: "rx_inv ?ws3"
    using inv2 room by (auto simp: rx_inv_def q_def)
  have le: "nat (rQlen ws2) \<le> length (rQ ws2)" "nat (rQi ws2) \<le> nat (rQlen ws2)"
    using inv2 by (auto simp: rx_inv_def)
  have "drop (nat (rQi ws2)) (take (nat (rQlen ws2)) (rQ ws2)) = unread ws2"
    using inv2 by (simp add: unread_def drop_take rx_inv_def nat_diff_distrib)
  then have "drop (nat (rQi ws2)) q = unread ws2 @ m @ drop (nat (rQlen ws2) + length m) (rQ ws2)"
    using le by (simp add: q_def min_absorb2)
  then have u3: "unread ?ws3 = unread ws2 @ m"
    using length_unread [OF inv2] by (intro unread_eqI) simp_all
  have "recvMessage ws m = (?ws3, Inr (0 < rQlen ?ws3 - rQi ?ws3))"
    using step set by (simp add: recvMessage_def Let_def ws1_def [symmetric])
  moreover have "(0 < rQlen ?ws3 - rQi ?ws3) = (unread ws @ m \<noteq> [])"
    using length_unread [OF inv3] u3 u2
    by (metis length_greater_0_conv of_nat_0_less_iff)
  ultimately show ?thesis using inv3 u2 u3 by auto
qed

lemma recvMessage_overflow_state:
  assumes inv: "rx_inv ws"
    and over: "int (length (unread ws)) + int (length m) > MAX_RQ_GROW_SIZE"
  shows "recvMessage ws m =
    ((if rQlen ws = rQi ws then ws\<lparr>rQlen := 0, rQi := 0\<rparr> else ws)\<lparr>rQbufferSize := MAX_RQ_GROW_SIZE\<rparr>,
     Inl (JSError ''Receive queue buffer exceeded'' [MAX_RQ_GROW_SIZE]))"
  using over inv MAX_pos length_unread [OF inv]
  by (auto simp: recvMessage_def Let_def expandCompactRQ_def rx_inv_def)

section \<open>Sending\<close>

definition tx_inv :: "websock \<Rightarrow> bool" where
  "tx_inv ws \<longleftrightarrow> 0 \<le> sQlen ws \<and> sQlen ws \<le> sQbufferSize ws \<and>
     sQbufferSize ws = int (length (sQ ws)) \<and> 4 \<le> sQbufferSize ws"

definition outgoing :: "websock \<Rightarrow> byte list" where
  "outgoing ws = (case websocket ws of None \<Rightarrow> [] | Some ch \<Rightarrow> concat (ch_sent ch))
     @ take (nat (sQlen ws)) (sQ ws)"

text \<open>The socket is open and its send queue well formed: what every push keeps.\<close>

definition tx_ready :: "websock \<Rightarrow> bool" where
  "tx_ready ws \<longleftrightarrow> tx_inv ws \<and> readyState ws = ''open''"

lemma readyState_cong:
  "map_option ch_readyState (websocket ws') = map_option ch_readyState (websocket ws) \<Longrightarrow>
     readyState ws' = readyState ws"
  by (auto simp: readyState_def split: option.splits)

lemma readyState_None: "websocket ws = None \<Longrightarrow> readyState ws = ''unused''"
  by (simp add: readyState_def)

lemma ws_flush_ready:
  assumes "tx_ready ws"
  shows "tx_ready (ws_flush ws) \<and> outgoing (ws_flush ws) = outgoing ws \<and> sQlen (ws_flush ws) = 0"
proof -
  from assms obtain ch where ch: "websocket ws = Some ch"
    by (cases "websocket ws") (auto simp: tx_ready_def readyState_None)
  have r: "readyState (ws_flush ws) = readyState ws"
    by (rule readyState_cong) (simp add: ws_flush_def ch)
  then show ?thesis
    using assms by (auto simp: tx_ready_def tx_inv_def ws_flush_def outgoing_def ch)
qed

lemma sQensureSpace_ready:
  assumes "tx_ready ws" and "n \<le> 4"
  shows "tx_ready (sQensureSpace ws n) \<and> outgoing (sQensureSpace ws n) = outgoing ws \<and>
    sQlen (sQensureSpace ws n) + n \<le> sQbufferSize (sQensureSpace ws n)"
proof (cases "sQbufferSize ws - sQlen ws < n")
  case True
  moreover have "4 \<le> sQbufferSize (ws_flush ws)"
    using ws_flush_ready [OF assms(1)] by (simp add: tx_ready_def tx_inv_def)
  ultimately show ?thesis
    using ws_flush_ready [OF assms(1)] assms(2) by (simp add: sQensureSpace_def)
next
  case False
  then show ?thesis using assms by (simp add: sQensureSpace_def)
qed

lemma sQstore_ready:
  assumes "tx_ready ws" and "sQlen ws < sQbufferSize ws"
  shows "tx_ready (sQstore ws v) \<and> outgoing (sQstore ws v) = outgoing ws @ [ToUint8 v] \<and>
    sQlen (sQstore ws v) = sQlen ws + 1 \<and> sQbufferSize (sQstore ws v) = sQbufferSize ws"
proof -
  have r: "readyState (sQstore ws v) = readyState ws"
    by (rule readyState_cong) (simp add: sQstore_def)
  have i: "0 \<le> sQlen ws" "nat (sQlen ws) < length (sQ ws)"
    using assms by (auto simp: tx_ready_def tx_inv_def)
  then have "take (nat (sQlen ws + 1)) (u8_upd (sQ ws) (sQlen ws) (ToUint8 v))
      = take (nat (sQlen ws)) (sQ ws) @ [ToUint8 v]"
    by (simp add: u8_upd_def nat_add_distrib take_Suc_conv_app_nth)
  then show ?thesis
    using assms r i by (auto simp: tx_ready_def tx_inv_def sQstore_def outgoing_def)
qed

lemma sQpush8_ready:
  assumes "tx_ready ws"
  shows "tx_ready (sQpush8 ws v) \<and> outgoing (sQpush8 ws v) = outgoing ws @ be_bytes 1 v"
  using sQensureSpace_ready [OF assms, of 1] sQstore_ready [of "sQensureSpace ws 1" v]
  by (simp add: sQpush8_def)

lemma sQpush16_ready:
  assumes "tx_ready ws"
  shows "tx_ready (sQpush16 ws v) \<and> outgoing (sQpush16 ws v) = outgoing ws @ be_bytes 2 v"
proof -
  let ?b = "\<lambda>k. js_and (js_sar v k) 0xff"
  let ?w0 = "sQensureSpace ws 2"
  let ?w1 = "sQstore ?w0 (?b 8)"
  have w0: "tx_ready ?w0" "outgoing ?w0 = outgoing ws" "sQlen ?w0 + 2 \<le> sQbufferSize ?w0"
    using sQensureSpace_ready [OF assms, of 2] by auto
  have w1: "tx_ready ?w1" "outgoing ?w1 = outgoing ?w0 @ [ToUint8 (?b 8)]"
    "sQlen ?w1 < sQbufferSize ?w1"
    using sQstore_ready [of ?w0 "?b 8"] w0 by auto
  show ?thesis
    using sQstore_ready [OF w1(1,3), of "?b 0"] w0 w1
    by (simp add: sQpush16_def Let_def be_bytes_2 byte_of_push)
qed

lemma sQpush32_ready:
  assumes "tx_ready ws"
  shows "tx_ready (sQpush32 ws v) \<and> outgoing (sQpush32 ws v) = outgoing ws @ be_bytes 4 v"
proof -
  let ?b = "\<lambda>k. js_and (js_sar v k) 0xff"
  let ?w0 = "sQensureSpace ws 4"
  let ?w1 = "sQstore ?w0 (?b 24)"
  let ?w2 = "sQstore ?w1 (?b 16)"
  let ?w3 = "sQstore ?w2 (?b 8)"
  have w0: "tx_ready ?w0" "outgoing ?w0 = outgoing ws" "sQlen ?w0 + 4 \<le> sQbufferSize ?w0"
    using sQensureSpace_ready [OF assms, of 4] by auto
  have w1: "tx_ready ?w1" "outgoing ?w1 = outgoing ?w0 @ [ToUint8 (?b 24)]"
    "sQlen ?w1 + 3 \<le> sQbufferSize ?w1"
    using sQstore_ready [of ?w0 "?b 24"] w0 by auto
  have w2: "tx_ready ?w2" "outgoing ?w2 = outgoing ?w1 @ [ToUint8 (?b 16)]"
    "sQlen ?w2 + 2 \<le> sQbufferSize ?w2"
    using sQstore_ready [of ?w1 "?b 16"] w1 by auto
  have w3: "tx_ready ?w3" "outgoing ?w3 = outgoing ?w2 @ [ToUint8 (?b 8)]"
    "sQlen ?w3 < sQbufferSize ?w3"
    using sQstore_ready [of ?w2 "?b 8"] w2 by auto
  show ?thesis
    using sQstore_ready [OF w3(1,3), of "?b 0"] w0 w1 w2 w3
    by (simp add: sQpush32_def Let_def be_bytes_4 byte_of_push)
qed

subsection \<open>Pushing a block of bytes\<close>

lemma sQblock_ready:
  assumes "tx_ready ws" and "u8_set (sQ ws) src (sQlen ws) = Some q"
  shows "tx_ready (ws\<lparr>sQ := q, sQlen := sQlen ws + int (length src)\<rparr>) \<and>
    outgoing (ws\<lparr>sQ := q, sQlen := sQlen ws + int (length src)\<rparr>) = outgoing ws @ src"
proof -
  have i: "0 \<le> sQlen ws" "sQlen ws + int (length src) \<le> int (length (sQ ws))"
    and q: "q = take (nat (sQlen ws)) (sQ ws) @ src @ drop (nat (sQlen ws) + length src) (sQ ws)"
    using assms(2) by (auto simp: u8_set_def split: if_splits)
  have r: "readyState (ws\<lparr>sQ := q, sQlen := sQlen ws + int (length src)\<rparr>) = readyState ws"
    by (rule readyState_cong) simp
  have "take (nat (sQlen ws + int (length src))) q = take (nat (sQlen ws)) (sQ ws) @ src"
    using i by (simp add: q nat_add_distrib min_absorb2)
  then show ?thesis
    using assms i r length_u8_set [OF assms(2)]
    by (auto simp: tx_ready_def tx_inv_def outgoing_def)
qed

lemma sQpushBytes_loop_ready:
  assumes "tx_ready ws" and "0 \<le> offset" and "offset \<le> int (length bytes)"
  shows "\<exists>ws'. sQpushBytes_loop ws bytes offset = Some (ws', Inr ()) \<and> tx_ready ws' \<and>
    outgoing ws' = outgoing ws @ drop (nat offset) bytes"
  using assms
proof (induction "nat (int (length bytes) - offset)" arbitrary: ws offset rule: less_induct)
  case less
  show ?case
  proof (cases "offset < int (length bytes)")
    case False
    with less.prems show ?thesis by (simp add: sQpushBytes_loop.simps [of ws])
  next
    case True
    define ws1 where "ws1 = sQensureSpace ws 1"
    have ws1: "tx_ready ws1" "outgoing ws1 = outgoing ws" "sQlen ws1 < sQbufferSize ws1"
      using sQensureSpace_ready [OF less.prems(1), of 1] by (auto simp: ws1_def)
    define c where "c = nat (min (sQbufferSize ws1 - sQlen ws1) (int (length bytes) - offset))"
    have c: "0 < c" "offset + int c \<le> int (length bytes)" "sQlen ws1 + int c \<le> sQbufferSize ws1"
      using True ws1 by (auto simp: c_def)
    let ?part = "take c (drop (nat offset) bytes)"
    have part: "u8_sub bytes offset (offset + int c) = ?part"
      using c less.prems by (simp add: u8_sub_in_range)
    have lpart: "length ?part = c" using c less.prems by simp
    obtain q where q: "u8_set (sQ ws1) ?part (sQlen ws1) = Some q"
      using u8_set_Some_iff [of "sQ ws1" ?part "sQlen ws1"] ws1 c lpart
      by (auto simp: tx_ready_def tx_inv_def)
    let ?ws2 = "ws1\<lparr>sQ := q, sQlen := sQlen ws1 + int c\<rparr>"
    have ws2: "tx_ready ?ws2" "outgoing ?ws2 = outgoing ws @ ?part"
      using sQblock_ready [OF ws1(1) q] ws1 lpart by auto
    have min: "(if sQbufferSize ws1 - sQlen ws1 > int (length bytes) - offset
        then int (length bytes) - offset else sQbufferSize ws1 - sQlen ws1) = int c"
      using True ws1 by (auto simp: c_def)
    have step: "sQpushBytes_loop ws bytes offset = sQpushBytes_loop ?ws2 bytes (offset + int c)"
      using True by (simp add: sQpushBytes_loop.simps [of ws] Let_def ws1_def [symmetric] min part q)
    have "\<exists>ws'. sQpushBytes_loop ?ws2 bytes (offset + int c) = Some (ws', Inr ()) \<and> tx_ready ws' \<and>
        outgoing ws' = outgoing ?ws2 @ drop (nat (offset + int c)) bytes"
      using c ws2 less.prems by (intro less.hyps) auto
    moreover have "drop (nat offset) bytes = ?part @ drop (nat (offset + int c)) bytes"
      using less.prems by (simp add: nat_add_distrib add.commute flip: drop_drop)
    ultimately show ?thesis using step ws2 by auto
  qed
qed

lemma sQensureSpace_stuck:
  "readyState ws \<noteq> ''open'' \<Longrightarrow> sQensureSpace ws n = ws"
  by (simp add: sQensureSpace_def ws_flush_def)

lemma sQpushBytes_loop_stuck:
  assumes stuck: "tx_inv ws" "readyState ws \<noteq> ''open''" "sQlen ws = sQbufferSize ws"
    and more: "0 \<le> offset" "offset < int (length bytes)"
  shows "sQpushBytes_loop ws bytes offset = None"
proof (rule ccontr)
  assume "sQpushBytes_loop ws bytes offset \<noteq> None"
  then obtain r where ret: "sQpushBytes_loop ws bytes offset = Some r" by auto
  have "tx_inv ws \<and> readyState ws \<noteq> ''open'' \<and> sQlen ws = sQbufferSize ws \<and> 0 \<le> offset \<and>
      offset < int (length bytes) \<longrightarrow> False"
  proof (rule sQpushBytes_loop.raw_induct [where P = "\<lambda>ws bytes offset r.
        tx_inv ws \<and> readyState ws \<noteq> ''open'' \<and> sQlen ws = sQbufferSize ws \<and> 0 \<le> offset \<and>
          offset < int (length bytes) \<longrightarrow> False", OF _ ret], rule impI, elim conjE)
    fix f ws bytes offset r
    assume IH: "\<And>ws bytes offset r. f ws bytes offset = Some r \<Longrightarrow>
        tx_inv ws \<and> readyState ws \<noteq> ''open'' \<and> sQlen ws = sQbufferSize ws \<and> 0 \<le> offset \<and>
          offset < int (length bytes) \<longrightarrow> False"
      and step: "(if offset < int (length bytes)
        then let ws1 = sQensureSpace ws 1; room = sQbufferSize ws1 - sQlen ws1;
               chunkSize = if int (length bytes) - offset < room
                           then int (length bytes) - offset else room
             in case u8_set (sQ ws1) (u8_sub bytes offset (offset + chunkSize)) (sQlen ws1) of
                  None \<Rightarrow> Some (ws1, Inl RangeError)
                | Some q \<Rightarrow> f (ws1\<lparr>sQ := q, sQlen := sQlen ws1 + chunkSize\<rparr>) bytes (offset + chunkSize)
        else Some (ws, Inr ())) = Some r"
      and h: "tx_inv ws" "readyState ws \<noteq> ''open''" "sQlen ws = sQbufferSize ws" "0 \<le> offset"
        "offset < int (length bytes)"
    have sub: "u8_sub bytes offset offset = []" using h by (simp add: u8_sub_in_range)
    have set: "u8_set (sQ ws) [] (sQbufferSize ws) = Some (sQ ws)"
      using h by (simp add: u8_set_def tx_inv_def)
    have "f (ws\<lparr>sQlen := sQlen ws\<rparr>) bytes offset = Some r"
      using step h by (simp add: Let_def sQensureSpace_stuck sub set)
    then have "f ws bytes offset = Some r" by simp
    from IH [OF this] h show False by blast
  qed
  with stuck more show False by blast
qed

section \<open>The receive queue as an interface\<close>

text \<open>
  What the protocol code relies on: a well-formed socket that has room for a message accepts
  it, and afterwards holds its unread bytes followed by the message.
\<close>

locale byte_stream =
  fixes inv :: "'w \<Rightarrow> bool"
    and contents :: "'w \<Rightarrow> byte list"
    and recv :: "'w \<Rightarrow> byte list \<Rightarrow> 'w \<times> (js_error + bool)"
    and cap :: int
  assumes recv_ok: "inv w \<Longrightarrow> int (length (contents w)) + int (length m) \<le> cap \<Longrightarrow>
    \<exists>w'. recv w m = (w', Inr (contents w @ m \<noteq> [])) \<and> inv w' \<and> contents w' = contents w @ m"
begin

lemma recv_okE:
  assumes "inv w" and "int (length (contents w)) + int (length m) \<le> cap"
  obtains w' where "recv w m = (w', Inr (contents w @ m \<noteq> []))" and "inv w'"
    and "contents w' = contents w @ m"
  using recv_ok [OF assms] by blast

end

interpretation ws: byte_stream rx_inv unread recvMessage MAX_RQ_GROW_SIZE
  by unfold_locales (rule recvMessage_ok)

section \<open>Properties\<close>

text \<open>A small socket for the concrete instances: eight bytes of queue on each side, open.\<close>

definition open_channel :: channel where
  "open_channel = \<lparr>ch_readyState = WSState 1, ch_props = rawChannelProps, ch_binaryType = ''arraybuffer'',
     ch_onmessage = True, ch_sent = [], ch_closed = False\<rparr>"

definition small_ws :: "byte list \<Rightarrow> websock" where
  "small_ws q = \<lparr>websocket = Some open_channel, rQi = 0, rQlen = int (length q), rQbufferSize = 8,
     rQ = take 8 (q @ replicate 8 0), sQbufferSize = 8, sQlen = 0, sQ = replicate 8 0,
     eventHandlers = (\<lambda>_. 0)\<rparr>"

lemma small_ws_inv: "length q \<le> 8 \<Longrightarrow> rx_inv (small_ws q) \<and> unread (small_ws q) = q"
  by (auto simp: small_ws_def rx_inv_def unread_def MAX_RQ_GROW_SIZE_def)

text \<open>A socket that has received the given bytes.\<close>

definition recv_ws :: "byte list \<Rightarrow> websock" where
  "recv_ws bs = fst (recvMessage (small_ws []) bs)"

lemma recv_ws_inv: "int (length bs) \<le> MAX_RQ_GROW_SIZE \<Longrightarrow> rx_inv (recv_ws bs) \<and> unread (recv_ws bs) = bs"
  using recvMessage_ok [of "small_ws []" bs] small_ws_inv [of "[]"] by (auto simp: recv_ws_def)

lemma small_ws_ready: "tx_ready (small_ws q) \<and> outgoing (small_ws q) = []"
  by (simp add: small_ws_def tx_ready_def tx_inv_def outgoing_def readyState_def open_channel_def
      ReadyStates_CONNECTING_def ReadyStates_OPEN_def)

text \<open>
  C1. A message received on a well-formed socket is appended to the unread bytes, without loss
  or reordering, whatever compaction or growth of the buffer it takes, as long as unread bytes
  and message fit the 40 MiB limit; the message handler is notified iff there is something to read.
\<close>

theorem recvMessage_appends:
  assumes "rx_inv w" and "int (length (unread w)) + int (length m) \<le> MAX_RQ_GROW_SIZE"
  shows "\<exists>w'. recvMessage w m = (w', Inr (unread w @ m \<noteq> [])) \<and> rx_inv w' \<and>
    unread w' = unread w @ m"
  using assms by (rule ws.recv_ok)

theorem recvMessage_appends_witness:
  "\<exists>w'. recvMessage (small_ws [1, 2, 3]) [4, 5, 6, 7, 8, 9] = (w', Inr True) \<and>
     unread w' = [1, 2, 3, 4, 5, 6, 7, 8, 9]"
  using recvMessage_appends [of "small_ws [1, 2, 3]" "[4, 5, 6, 7, 8, 9]"] small_ws_inv [of "[1, 2, 3]"]
  by (auto simp: MAX_RQ_GROW_SIZE_def)

text \<open>
  A message beyond the limit is refused with an error that loses no unread byte; but the
  error leaves \<open>_rQbufferSize\<close> at the limit while the array keeps its old size, so a smaller
  buffer is no longer well formed and a later message the socket believes to fit can raise a
  RangeError.
\<close>

theorem recvMessage_overflow:
  assumes "rx_inv w" and "int (length (unread w)) + int (length m) > MAX_RQ_GROW_SIZE"
  shows "\<exists>w'. recvMessage w m = (w', Inl (JSError ''Receive queue buffer exceeded'' [MAX_RQ_GROW_SIZE])) \<and>
    unread w' = unread w \<and> (rQbufferSize w < MAX_RQ_GROW_SIZE \<longrightarrow> \<not> rx_inv w')"
  unfolding recvMessage_overflow_state [OF assms]
  using assms(1) by (auto simp: rx_inv_def unread_def)

theorem recvMessage_overflow_witness:
  "\<exists>w'. recvMessage (small_ws [1, 2]) (replicate (nat MAX_RQ_GROW_SIZE) 0) =
      (w', Inl (JSError ''Receive queue buffer exceeded'' [MAX_RQ_GROW_SIZE])) \<and> \<not> rx_inv w'"
proof -
  have "rQbufferSize (small_ws [1, 2]) < MAX_RQ_GROW_SIZE"
    by (simp add: small_ws_def MAX_RQ_GROW_SIZE_def)
  with recvMessage_overflow [of "small_ws [1, 2]" "replicate (nat MAX_RQ_GROW_SIZE) 0"]
    small_ws_inv [of "[1, 2]"] MAX_pos
  show ?thesis by auto
qed

text \<open>
  The integer reads are big-endian: on a well-formed socket with enough unread bytes they
  return the unsigned value of the next bytes and consume exactly these, the 32-bit read
  included, whose intermediate sum is signed.
\<close>

theorem rQshift_big_endian:
  assumes "rx_inv w" and "n \<le> length (unread w)" and "n \<le> 4"
  shows "snd (rQshift w n) = be_val (take n (unread w)) \<and>
    unread (fst (rQshift w n)) = drop n (unread w) \<and> rx_inv (fst (rQshift w n))"
  using assms by (simp add: rQshift_eq unread_adv rx_inv_adv)

theorem rQshift_big_endian_witness:
  "snd (rQshift (small_ws [0xff, 0xff, 0xff, 0xfe, 7]) 4) = 0xfffffffe \<and>
   unread (fst (rQshift (small_ws [0xff, 0xff, 0xff, 0xfe, 7]) 4)) = [7]"
  using rQshift_big_endian [of "small_ws [0xff, 0xff, 0xff, 0xfe, 7]" 4]
    small_ws_inv [of "[0xff, 0xff, 0xff, 0xfe, 7]"]
  by (simp add: be_val_def)

text \<open>
  C21. Numbers survive the wire: what \<open>sQpush8/16/32\<close> put out is read back by the read of the
  same width, modulo that width (negative encoding numbers come back as their unsigned value).
\<close>

theorem push_read_roundtrip:
  assumes "tx_ready a" and "rx_inv b"
  shows "(outgoing (sQpush8 a v) = outgoing a @ unread b \<longrightarrow> snd (rQshift8 b) = v mod 2 ^ 8) \<and>
    (outgoing (sQpush16 a v) = outgoing a @ unread b \<longrightarrow> snd (rQshift16 b) = v mod 2 ^ 16) \<and>
    (outgoing (sQpush32 a v) = outgoing a @ unread b \<longrightarrow> snd (rQshift32 b) = v mod 2 ^ 32)"
proof -
  have rd: "snd (rQshift b n) = v mod 256 ^ n" if "unread b = be_bytes n v" "n \<le> 4" for n
  proof -
    have "take n (unread b) = be_bytes n v" using that by simp
    then show ?thesis using that assms(2) by (simp add: rQshift_eq be_val_be_bytes)
  qed
  show ?thesis
    using sQpush8_ready [OF assms(1), of v] sQpush16_ready [OF assms(1), of v]
      sQpush32_ready [OF assms(1), of v] rd [of 1] rd [of 2] rd [of 4]
    by (auto simp: rQshift_defs)
qed

theorem push_read_roundtrip_witness:
  "tx_ready (small_ws []) \<and> rx_inv (small_ws [0xff, 0xff, 0xff, 0x11]) \<and>
   outgoing (sQpush32 (small_ws []) (- 239)) = [0xff, 0xff, 0xff, 0x11] \<and>
   snd (rQshift32 (small_ws [0xff, 0xff, 0xff, 0x11])) = (- 239) mod 2 ^ 32"
proof -
  have o: "outgoing (sQpush32 (small_ws []) (- 239)) = [0xff, 0xff, 0xff, 0x11]"
    using sQpush32_ready [of "small_ws []" "- 239"] small_ws_ready [of "[]"]
    by (simp add: be_bytes_4 ToUint8_def)
  then show ?thesis
    using push_read_roundtrip [of "small_ws []" "small_ws [0xff, 0xff, 0xff, 0x11]" "- 239"]
      small_ws_inv [of "[0xff, 0xff, 0xff, 0x11]"] small_ws_ready [of "[]"] by simp
qed

text \<open>
  C25. On an open socket \<open>sQpushBytes\<close> terminates and appends exactly the given bytes to the
  outgoing stream, flushing the queue as often as it needs.
\<close>

theorem sQpushBytes_delivers:
  assumes "tx_ready w"
  shows "\<exists>w'. sQpushBytes w bytes = Some (w', Inr ()) \<and> tx_ready w' \<and>
    outgoing w' = outgoing w @ bytes"
  using sQpushBytes_loop_ready [OF assms, of 0 bytes] by (simp add: sQpushBytes_def)

theorem sQpushBytes_delivers_witness:
  "\<exists>w'. sQpushBytes (small_ws []) [1, 2, 3, 4, 5, 6, 7, 8, 9, 10] = Some (w', Inr ()) \<and>
     outgoing w' = [1, 2, 3, 4, 5, 6, 7, 8, 9, 10]"
  using sQpushBytes_delivers [of "small_ws []" "[1, 2, 3, 4, 5, 6, 7, 8, 9, 10]"] small_ws_ready [of "[]"]
  by auto

text \<open>
  On a socket that is not open and whose send queue is full, \<open>sQpushBytes\<close> never returns:
  the flush is skipped, the chunk is empty and the loop makes no progress.
\<close>

theorem sQpushBytes_hangs:
  assumes "tx_inv w" and "readyState w \<noteq> ''open''" and "sQlen w = sQbufferSize w" and "bytes \<noteq> []"
  shows "sQpushBytes w bytes = None"
  using sQpushBytes_loop_stuck [OF assms(1-3), of 0 bytes] assms(4) by (simp add: sQpushBytes_def)

theorem sQpushBytes_hangs_witness:
  "sQpushBytes ((small_ws [])\<lparr>websocket := Some (open_channel\<lparr>ch_readyState := WSState 3\<rparr>), sQlen := 8\<rparr>) [1]
     = None"
  by (rule sQpushBytes_hangs)
    (simp_all add: small_ws_def tx_inv_def readyState_def open_channel_def ReadyStates_CONNECTING_def
      ReadyStates_OPEN_def ReadyStates_CLOSING_def ReadyStates_CLOSED_def)

end
