(* ===== verification/Base64.thy ===== *)
theory Base64
  imports JS_Prelude
begin

text \<open>
  The Base64 codec, \<open>base64.js\<close>: \<open>encode\<close> turns the bytes of an image into the text of a
  data URL, \<open>decode\<close> is its inverse. The string of the encoder is a \<open>string\<close>; the array
  \<open>decode\<close> returns is preallocated, so an element that was never stored is \<open>None\<close>.
\<close>

section \<open>Encoding\<close>

definition toBase64Table :: string where
  "toBase64Table = ''ABCDEFGHIJKLMNOPQRSTUVWXYZabcdefghijklmnopqrstuvwxyz0123456789+/=''"

definition base64Pad :: char where
  "base64Pad = CHR ''=''"

text \<open>\<open>this.toBase64Table[i]\<close>; the encoder's indices are always in range (lemma \<open>b64_index_range\<close>).\<close>

definition b64char :: "int \<Rightarrow> char" where
  "b64char i = toBase64Table ! nat i"

text \<open>
  The loop takes three bytes at a time while at least three are left; the rest is padded.
\<close>

fun encode :: "u8array \<Rightarrow> string" where
  "encode (a # b # c # rest) =
     [b64char (js_sar (uint a) 2),
      b64char (js_shl (js_and (uint a) 0x03) 4 + js_sar (uint b) 4),
      b64char (js_shl (js_and (uint b) 0x0f) 2 + js_sar (uint c) 6),
      b64char (js_and (uint c) 0x3f)] @ encode rest"
| "encode [a, b] =
     [b64char (js_sar (uint a) 2),
      b64char (js_shl (js_and (uint a) 0x03) 4 + js_sar (uint b) 4),
      b64char (js_shl (js_and (uint b) 0x0f) 2),
      b64char 64]"
| "encode [a] =
     [b64char (js_sar (uint a) 2),
      b64char (js_shl (js_and (uint a) 0x03) 4),
      b64char 64,
      b64char 64]"
| "encode [] = []"

section \<open>Decoding\<close>

definition toBinaryTable :: "int list" where
  "toBinaryTable = [
    -1, -1, -1, -1, -1, -1, -1, -1, -1, -1, -1, -1, -1, -1, -1, -1, -1, -1, -1, -1, -1,
    -1, -1, -1, -1, -1, -1, -1, -1, -1, -1, -1, -1, -1, -1, -1, -1, -1, -1, -1, -1, -1,
    -1, 62, -1, -1, -1, 63, 52, 53, 54, 55, 56, 57, 58, 59, 60, 61, -1, -1, -1, 0, -1,
    -1, -1, 0, 1, 2, 3, 4, 5, 6, 7, 8, 9, 10, 11, 12, 13, 14, 15, 16, 17, 18, 19, 20,
    21, 22, 23, 24, 25, -1, -1, -1, -1, -1, -1, 26, 27, 28, 29, 30, 31, 32, 33, 34, 35,
    36, 37, 38, 39, 40, 41, 42, 43, 44, 45, 46, 47, 48, 49, 50, 51, -1, -1, -1, -1, -1
    ]"

definition b64val :: "char \<Rightarrow> int" where
  "b64val ch = toBinaryTable ! nat (js_and (int (of_char ch)) 0x7f)"

text \<open>The decoding loop: \<open>leftbits\<close>, \<open>leftdata\<close> and the elements stored so far.\<close>

fun decode_loop :: "string \<Rightarrow> int \<Rightarrow> int \<Rightarrow> int list \<Rightarrow> int \<times> int list" where
  "decode_loop [] leftbits leftdata res = (leftbits, res)"
| "decode_loop (ch # chs) leftbits leftdata res =
     (let c = b64val ch; padding = (ch = base64Pad) in
      if c = -1 then decode_loop chs leftbits leftdata res
      else
        (let leftdata = js_or (js_shl leftdata 6) c; leftbits = leftbits + 6 in
         if leftbits \<ge> 8 then
           (let leftbits = leftbits - 8;
                res = (if padding then res
                       else res @ [js_and (js_sar leftdata (nat leftbits)) 0xff]);
                leftdata = js_and leftdata (js_shl 1 (nat leftbits) - 1)
            in decode_loop chs leftbits leftdata res)
         else decode_loop chs leftbits leftdata res))"

text \<open>\<open>data.indexOf(ch)\<close>, \<open>-1\<close> when absent.\<close>

fun index_of :: "char \<Rightarrow> string \<Rightarrow> int" where
  "index_of ch [] = -1"
| "index_of ch (x # xs) =
     (if x = ch then 0 else (let i = index_of ch xs in if i < 0 then -1 else i + 1))"

definition decode :: "string \<Rightarrow> int \<Rightarrow> js_error + int option list" where
  "decode data offset =
     (let dataLength0 = index_of base64Pad data - offset;
          dataLength = (if dataLength0 < 0 then int (length data) - offset else dataLength0);
          resultLength = js_sar dataLength 2 * 3 + (dataLength mod 4 * 2) div 3
      in if resultLength < 0 then Inl RangeError
         else
           (let (leftbits, res) = decode_loop (drop (nat offset) data) 0 0 []
            in if leftbits \<noteq> 0 then Inl (JSError ''Corrupted base64 string'' [])
               else Inr (map Some res @ replicate (nat resultLength - length res) None)))"

section \<open>The codec round trip\<close>

lemma b64_table_inverse: "map b64val (take 64 toBase64Table) = map int [0..<64]"
  by (simp add: toBase64Table_def js_and_def ToInt32_id b64val_def toBinaryTable_def upt_rec)

lemma b64_no_pad: "base64Pad \<notin> set (take 64 toBase64Table)"
  by (simp add: toBase64Table_def base64Pad_def)

lemma length_toBase64Table: "length toBase64Table = 65"
  by (simp add: toBase64Table_def)

lemma b64val_b64char: "0 \<le> i \<Longrightarrow> i < 64 \<Longrightarrow> b64val (b64char i) = i"
  and b64char_not_pad: "0 \<le> i \<Longrightarrow> i < 64 \<Longrightarrow> b64char i \<noteq> base64Pad"
proof -
  assume i: "0 \<le> i" "i < 64"
  have n: "b64char i = take 64 toBase64Table ! nat i" using i by (simp add: b64char_def)
  have "b64val (b64char i) = map b64val (take 64 toBase64Table) ! nat i"
    using i by (simp add: n length_toBase64Table)
  then show "b64val (b64char i) = i" using i by (simp add: b64_table_inverse)
  show "b64char i \<noteq> base64Pad"
    using b64_no_pad i nth_mem [of "nat i" "take 64 toBase64Table"] n
    by (metis length_map length_upt b64_table_inverse diff_zero nat_less_iff of_nat_numeral)
qed

lemma b64_pad [simp]: "b64char 64 = base64Pad" "b64val base64Pad = 0"
  by (simp_all add: b64char_def toBase64Table_def base64Pad_def b64val_def js_and_def ToInt32_id
      toBinaryTable_def)

subsection \<open>The bit operators on small numbers\<close>

lemma or_disjoint: "0 \<le> c \<Longrightarrow> c < 64 \<Longrightarrow> (x * 64) OR c = x * 64 + (c :: int)"
proof -
  assume c: "0 \<le> c" "c < 64"
  have "\<not> (bit (x * 64) n \<and> bit c n)" for n
  proof (cases "n < 6")
    case True
    have "x * 64 = push_bit 6 x" by (simp add: push_bit_eq_mult)
    then show ?thesis using True by (simp add: bit_push_bit_iff)
  next
    case False
    have "take_bit 6 c = c" using c by (simp add: take_bit_eq_mod)
    then have "\<not> bit c n" using False by (metis bit_take_bit_iff not_less)
    then show ?thesis by simp
  qed
  then show ?thesis by (simp add: disjunctive_add_eq_or [symmetric] bit_eq_iff bit_and_iff)
qed

lemma js_collect:
  "0 \<le> x \<Longrightarrow> x < 4096 \<Longrightarrow> 0 \<le> c \<Longrightarrow> c < 64 \<Longrightarrow> js_or (js_shl x 6) c = x * 64 + c"
  by (simp add: js_or_def js_shl_small ToInt32_id or_disjoint)

subsection \<open>One sextet at a time\<close>

lemma decode_loop_sextet:
  assumes i: "0 \<le> i" "i < 64" and d: "0 \<le> d" "d < 2 ^ nat lb" and lb: "0 \<le> lb" "lb < 8"
  shows "decode_loop (b64char i # chs) lb d res =
    (let v = d * 64 + i in
     if lb < 2 then decode_loop chs (lb + 6) v res
     else decode_loop chs (lb - 2) (v mod 2 ^ nat (lb - 2)) (res @ [v div 2 ^ nat (lb - 2) mod 256]))"
proof -
  have "(2 :: int) ^ nat lb \<le> 2 ^ 7" using lb by (intro power_increasing) auto
  then have d': "d < 128" using d by simp
  then have col: "js_or (js_shl d 6) i = d * 64 + i" using i d by (intro js_collect) auto
  have v: "0 \<le> d * 64 + i" "d * 64 + i < 2 ^ 31" using i d d' by auto
  have q: "0 \<le> (d * 64 + i) div 2 ^ n" "(d * 64 + i) div 2 ^ n < 2 ^ 31" for n
    using v(1) v(2) by (auto simp: pos_imp_zdiv_nonneg_iff)
      (metis div_by_1 le_less_trans linorder_not_le one_le_power one_le_numeral order.refl zdiv_mono2 zero_less_one)
  have m: "js_shl 1 (nat (lb - 2)) - 1 = 2 ^ nat (lb - 2) - 1" if "2 \<le> lb"
  proof -
    have "(2 :: int) ^ nat (lb - 2) \<le> 2 ^ 5" using lb that by (intro power_increasing) auto
    then show ?thesis using lb that by (simp add: js_shl_small)
  qed
  show ?thesis
  proof (cases "lb < 2")
    case True
    then show ?thesis using i by (simp add: b64val_b64char col Let_def)
  next
    case False
    have "js_and (js_sar (d * 64 + i) (nat (lb - 2))) 255 = (d * 64 + i) div 2 ^ nat (lb - 2) mod 256"
      using lb False v q by (simp add: js_sar_small js_and_masks)
    moreover have "js_and (d * 64 + i) (2 ^ nat (lb - 2) - 1) = (d * 64 + i) mod 2 ^ nat (lb - 2)"
      using lb False v by (intro js_and_mask) auto
    moreover have "lb + 6 - 8 = lb - 2" by simp
    ultimately show ?thesis
      using False i m by (simp add: b64val_b64char b64char_not_pad col Let_def)
  qed
qed

lemma decode_loop_pad:
  assumes d: "0 \<le> d" "d < 2 ^ nat lb" and lb: "2 \<le> lb" "lb < 8"
  shows "decode_loop (base64Pad # chs) lb d res =
    decode_loop chs (lb - 2) ((d * 64) mod 2 ^ nat (lb - 2)) res"
proof -
  have "(2 :: int) ^ nat lb \<le> 2 ^ 7" using lb by (intro power_increasing) auto
  then have d': "d < 128" using d by simp
  then have col: "js_or (js_shl d 6) 0 = d * 64" using d js_collect [of d 0] by simp
  have "(2 :: int) ^ nat (lb - 2) \<le> 2 ^ 5" using lb by (intro power_increasing) auto
  then have "js_shl 1 (nat (lb - 2)) - 1 = 2 ^ nat (lb - 2) - 1" using lb by (simp add: js_shl_small)
  moreover have "js_and (d * 64) (2 ^ nat (lb - 2) - 1) = (d * 64) mod 2 ^ nat (lb - 2)"
    using lb d d' by (intro js_and_mask) auto
  moreover have "lb + 6 - 8 = lb - 2" by simp
  ultimately show ?thesis using lb col by (simp add: Let_def)
qed

text \<open>The three phases of a group of four characters.\<close>

lemma decode_sextet_phases:
  assumes i: "0 \<le> i" "i < 64"
  shows "decode_loop (b64char i # chs) 0 0 res = decode_loop chs 6 i res"
    "0 \<le> d \<Longrightarrow> d < 64 \<Longrightarrow> decode_loop (b64char i # chs) 6 d res =
       decode_loop chs 4 ((d * 64 + i) mod 16) (res @ [(d * 64 + i) div 16 mod 256])"
    "0 \<le> d \<Longrightarrow> d < 16 \<Longrightarrow> decode_loop (b64char i # chs) 4 d res =
       decode_loop chs 2 ((d * 64 + i) mod 4) (res @ [(d * 64 + i) div 4 mod 256])"
    "0 \<le> d \<Longrightarrow> d < 4 \<Longrightarrow> decode_loop (b64char i # chs) 2 d res =
       decode_loop chs 0 0 (res @ [(d * 64 + i) mod 256])"
  using decode_loop_sextet [OF i, of 0 0] decode_loop_sextet [OF i, of d 6]
    decode_loop_sextet [OF i, of d 4] decode_loop_sextet [OF i, of d 2]
  by (simp_all add: Let_def del: decode_loop.simps(2))

lemma decode_pad_phases:
  "0 \<le> d \<Longrightarrow> d < 16 \<Longrightarrow> decode_loop (base64Pad # chs) 4 d res = decode_loop chs 2 (d * 64 mod 4) res"
  "0 \<le> d \<Longrightarrow> d < 4 \<Longrightarrow> decode_loop (base64Pad # chs) 2 d res = decode_loop chs 0 0 res"
  using decode_loop_pad [of d 4] decode_loop_pad [of d 2]
  by (simp_all del: decode_loop.simps(2))

text \<open>The four indices of a group, as arithmetic on the three bytes.\<close>

lemma b64_indices:
  "js_sar (uint (a :: byte)) 2 = uint a div 4"
  "js_shl (js_and (uint a) 0x03) 4 = uint a mod 4 * 16"
  "js_sar (uint a) 4 = uint a div 16"
  "js_shl (js_and (uint a) 0x0f) 2 = uint a mod 16 * 4"
  "js_sar (uint a) 6 = uint a div 64"
  "js_and (uint a) 0x3f = uint a mod 64"
proof -
  have a: "uint a < 2147483648" using byte_less [of a] by simp
  have m: "uint a mod 4 < 4" "uint a mod 16 < 16" by simp_all
  show "js_sar (uint a) 2 = uint a div 4" "js_sar (uint a) 4 = uint a div 16"
    "js_sar (uint a) 6 = uint a div 64"
    using a by (simp_all add: js_sar_small)
  show "js_and (uint a) 0x3f = uint a mod 64" using a by (simp add: js_and_masks)
  show "js_shl (js_and (uint a) 0x03) 4 = uint a mod 4 * 16"
    using a m(1) by (simp add: js_and_masks js_shl_small)
  show "js_shl (js_and (uint a) 0x0f) 2 = uint a mod 16 * 4"
    using a m(2) by (simp add: js_and_masks js_shl_small)
qed

lemma b64_index_range:
  fixes a b :: byte
  shows "0 \<le> uint a div 4" "uint a div 4 < 64"
    "0 \<le> uint a mod 4 * 16 + uint b div 16" "uint a mod 4 * 16 + uint b div 16 < 64"
    "0 \<le> uint a mod 16 * 4 + uint b div 64" "uint a mod 16 * 4 + uint b div 64 < 64"
    "0 \<le> uint a mod 64" "uint a mod 64 < 64"
    "uint a mod 4 * 16 < 64" "uint a mod 16 * 4 < 64"
  using byte_less [of a] byte_less [of b] by (auto simp: pos_imp_zdiv_nonneg_iff)

lemma regroup:
  fixes a b c :: byte
  shows "(uint a div 4 * 64 + (uint a mod 4 * 16 + uint b div 16)) div 16 mod 256 = uint a"
    "(uint a div 4 * 64 + (uint a mod 4 * 16 + uint b div 16)) mod 16 = uint b div 16"
    "(uint b div 16 * 64 + (uint b mod 16 * 4 + uint c div 64)) div 4 mod 256 = uint b"
    "(uint b div 16 * 64 + (uint b mod 16 * 4 + uint c div 64)) mod 4 = uint c div 64"
    "(uint c div 64 * 64 + uint c mod 64) mod 256 = uint c"
    "(uint a div 4 * 64 + uint a mod 4 * 16) div 16 mod 256 = uint a"
    "(uint a div 4 * 64 + uint a mod 4 * 16) mod 16 = 0"
    "(uint b div 16 * 64 + uint b mod 16 * 4) div 4 mod 256 = uint b"
    "(uint b div 16 * 64 + uint b mod 16 * 4) mod 4 = 0"
proof -
  have a: "uint a div 4 * 64 + uint a mod 4 * 16 = 16 * uint a"
    and b: "uint b div 16 * 64 + uint b mod 16 * 4 = 4 * uint b"
    using div_mult_mod_eq [of "uint a" 4] div_mult_mod_eq [of "uint b" 16] by linarith+
  have lt: "uint a < 256" "uint b < 256" "uint c < 256" by (rule byte_less)+
  have d: "0 \<le> uint b div 16" "uint b div 16 < 16" "0 \<le> uint c div 64" "uint c div 64 < 4"
    using lt by (auto simp: pos_imp_zdiv_nonneg_iff)
  show "(uint a div 4 * 64 + (uint a mod 4 * 16 + uint b div 16)) div 16 mod 256 = uint a"
    "(uint a div 4 * 64 + (uint a mod 4 * 16 + uint b div 16)) mod 16 = uint b div 16"
    using a d lt by (simp_all flip: add.assoc)
  show "(uint b div 16 * 64 + (uint b mod 16 * 4 + uint c div 64)) div 4 mod 256 = uint b"
    "(uint b div 16 * 64 + (uint b mod 16 * 4 + uint c div 64)) mod 4 = uint c div 64"
    using b d lt by (simp_all flip: add.assoc)
  show "(uint c div 64 * 64 + uint c mod 64) mod 256 = uint c" using lt by simp
  show "(uint a div 4 * 64 + uint a mod 4 * 16) div 16 mod 256 = uint a"
    "(uint a div 4 * 64 + uint a mod 4 * 16) mod 16 = 0" using a lt by simp_all
  show "(uint b div 16 * 64 + uint b mod 16 * 4) div 4 mod 256 = uint b"
    "(uint b div 16 * 64 + uint b mod 16 * 4) mod 4 = 0" using b lt by simp_all
qed

lemma decode_loop_encode: "decode_loop (encode data) 0 0 res = (0, res @ map uint data)"
proof (induction data arbitrary: res rule: encode.induct)
  case (1 a b c rest)
  have m: "0 \<le> uint b div 16" "uint b div 16 < 16" "0 \<le> uint c div 64" "uint c div 64 < 4"
    using byte_bounds [of b] byte_bounds [of c] by (auto simp: pos_imp_zdiv_nonneg_iff)
  have "decode_loop (encode (a # b # c # rest)) 0 0 res
      = decode_loop (encode rest) 0 0 (res @ [uint a] @ [uint b] @ [uint c])"
    by (simp only: encode.simps b64_indices append_Cons append_Nil b64_index_range m regroup
        decode_sextet_phases append_assoc)
  then show ?case by (simp add: "1.IH")
next
  case (2 a b)
  have m: "0 \<le> uint b div 16" "uint b div 16 < 16" "0 \<le> uint b mod 16 * 4"
    using byte_bounds [of b] by (auto simp: pos_imp_zdiv_nonneg_iff)
  have "decode_loop (encode [a, b]) 0 0 res = decode_loop [] 0 0 (res @ [uint a] @ [uint b])"
    by (simp only: encode.simps b64_indices b64_index_range m regroup b64_pad zero_less_numeral
        decode_sextet_phases decode_pad_phases append_assoc order_refl)
  then show ?case by simp
next
  case (3 a)
  have m: "0 \<le> uint a mod 4 * 16" by simp
  have "decode_loop (encode [a]) 0 0 res = decode_loop [] 0 0 (res @ [uint a])"
    by (simp only: encode.simps b64_indices b64_index_range m regroup b64_pad zero_less_numeral
        decode_sextet_phases decode_pad_phases append_assoc order_refl mult_zero_left mod_0)
  then show ?case by simp
next
  case 4
  then show ?case by simp
qed

lemma index_of_nonneg: "index_of ch xs < 0 \<longleftrightarrow> index_of ch xs = -1"
  by (induction xs) (auto simp: Let_def)

lemma encode_index_of:
  "index_of base64Pad (encode data) =
     (if length data mod 3 = 0 then -1
      else int (4 * (length data div 3) + length data mod 3 + 1))"
proof (induction data rule: encode.induct)
  case (1 a b c rest)
  note np = b64char_not_pad [OF b64_index_range(1,2) [of a]]
    b64char_not_pad [OF b64_index_range(3,4) [of a b]]
    b64char_not_pad [OF b64_index_range(5,6) [of b c]]
    b64char_not_pad [OF b64_index_range(7,8) [of c]]
  show ?case
    using np "1.IH" by (simp add: b64_indices Let_def div_add1_eq)
next
  case (2 a b)
  show ?case
    using b64char_not_pad [OF b64_index_range(1,2) [of a]]
      b64char_not_pad [OF b64_index_range(3,4) [of a b]]
      b64char_not_pad [OF _ b64_index_range(10) [of b]]
    by (simp add: b64_indices)
next
  case (3 a)
  show ?case
    using b64char_not_pad [OF b64_index_range(1,2) [of a]]
      b64char_not_pad [OF _ b64_index_range(9) [of a]]
    by (simp add: b64_indices)
next
  case 4
  then show ?case by simp
qed

lemma length_encode: "length (encode data) = 4 * ((length data + 2) div 3)"
proof (induction data rule: encode.induct)
  case (1 a b c rest)
  have "(length rest + 5) div 3 = (length rest + 2) div 3 + 1" by presburger
  then show ?case using "1.IH" by (simp add: add.commute)
qed auto

text \<open>
  C30. Decoding the Base64 text of any byte string returns exactly these bytes: \<open>decode\<close> fills
  the whole preallocated array, reports no corruption, and inverts \<open>encode\<close>.
\<close>

theorem base64_roundtrip:
  assumes "length data < 2 ^ 28"
  shows "decode (encode data) 0 = Inr (map (\<lambda>b. Some (uint b)) data)"
proof -
  define k where "k = length data div 3"
  define r where "r = length data mod 3"
  have n: "length data = 3 * k + r" and r: "r < 3" by (simp_all add: k_def r_def)
  have k: "k < 2 ^ 28" using assms by (simp add: k_def)
  let ?dl = "if r = 0 then 4 * int k else 4 * int k + int r + 1"
  have dl: "(if index_of base64Pad (encode data) - 0 < 0 then int (length (encode data)) - 0
      else index_of base64Pad (encode data) - 0) = ?dl"
    by (simp add: encode_index_of length_encode k_def [symmetric] r_def [symmetric] n)
      (use r in \<open>auto simp: n\<close>)
  have sar: "js_sar ?dl 2 = ?dl div 4" using k r by (intro js_sar_small [of _ 2, simplified]) auto
  have len: "js_sar ?dl 2 * 3 + (?dl mod 4 * 2) div 3 = int (length data)"
    unfolding sar n using r by (cases "r = 0"; cases "r = 1") (auto simp: less_Suc_eq numeral_eq_Suc)
  show ?thesis
    unfolding decode_def dl Let_def len
    by (simp add: decode_loop_encode comp_def)
qed

theorem base64_roundtrip_witness:
  "length [0x50 :: byte, 0xff, 0x00, 0x7a] < 2 ^ 28 \<and>
   decode (encode [0x50 :: byte, 0xff, 0x00, 0x7a]) 0 = Inr [Some 0x50, Some 0xff, Some 0, Some 0x7a]"
  using base64_roundtrip [of "[0x50, 0xff, 0x00, 0x7a]"] by simp

end
