(* ===== verification/Display.thy ===== *)
theory Display
  imports Base64 Complex_Main
begin

text \<open>
  The display, \<open>display.js\<close>: the framebuffer, the viewport, the damaged region and the queue
  that keeps drawing operations in order while images decode. The browser's canvases are
  modelled by the calls made on their 2D contexts, in order (\<open>bb_log\<close> for the back buffer,
  \<open>tgt_log\<close> for the visible canvas). Decoding is asynchronous: \<open>imgs\<close> and \<open>frames\<close> say
  which images and video frames are ready and with what size, and the events \<open>img_load\<close>
  and \<open>frame_ready\<close> are the browser's notifications.
\<close>

section \<open>Drawing data\<close>

text \<open>A typed array argument: a window of \<open>v_length\<close> bytes at \<open>v_byteOffset\<close> of a buffer.\<close>

record u8view =
  v_buffer :: u8array
  v_byteOffset :: nat
  v_length :: nat

definition view_bytes :: "u8view \<Rightarrow> u8array" where
  "view_bytes v = take (v_length v) (drop (v_byteOffset v) (v_buffer v))"

text \<open>A freshly allocated array is a window of its whole buffer.\<close>

definition whole_view :: "u8array \<Rightarrow> u8view" where
  "whole_view xs = \<lparr>v_buffer = xs, v_byteOffset = 0, v_length = length xs\<rparr>"

text \<open>The calls the decoders make on a display; an \<open>undefined\<close> colour is \<open>None\<close>.\<close>

datatype draw =
    FillRect int int int int "byte list option"
  | CopyImage int int int int int int
  | BlitImage int int int int u8view int
  | ImageRect int int int int string "byte list"
  | VideoFrame int int int int nat

section \<open>State\<close>

datatype action =
    AFlip
  | ACopy int int int int int int              \<comment> \<open>oldX oldY x y width height\<close>
  | AFill int int int int "byte list option"
  | ABlit u8array int int int int
  | AImg nat string int int int int            \<comment> \<open>image, its src, x y width height\<close>
  | AFrame nat int int int int

type_synonym style = "byte \<times> byte \<times> byte"

datatype canvas_op =
    OpFill style int int int int
  | OpCopy int int int int int int
  | OpPut u8array int int int int
  | OpImage string int int
  | OpFrame nat int int int int int int int int
  | OpResize int int                            \<comment> \<open>a size change clears the canvas\<close>
  | OpRestore int int                           \<comment> \<open>the saved image of that size is put back\<close>

record display =
  renderQ :: "action list"
  flushPromise :: bool
  flushResolved :: nat                          \<comment> \<open>how many flush promises were resolved\<close>
  fbWidth :: int
  fbHeight :: int
  prevDrawStyle :: "style option"               \<comment> \<open>\<open>None\<close> is the empty string\<close>
  vp_x :: int
  vp_y :: int
  vp_w :: int
  vp_h :: int
  dmg_left :: int
  dmg_top :: int
  dmg_right :: int
  dmg_bottom :: int
  scale :: rat
  clipViewport :: bool
  bb_width :: int
  bb_height :: int
  bb_fillStyle :: style
  bb_log :: "canvas_op list"
  tgt_width :: int
  tgt_height :: int
  tgt_styleW :: rat
  tgt_styleH :: rat
  tgt_log :: "(int \<times> int \<times> int \<times> int \<times> int \<times> int) list"  \<comment> \<open>x y w h vx vy of each flip\<close>
  nextImg :: nat
  imgs :: "nat \<Rightarrow> (int \<times> int) option"
  img_listen :: "nat list"
  frames :: "nat \<Rightarrow> (int \<times> int) option"
  frame_listen :: "nat list"

definition new_Display :: "int \<Rightarrow> int \<Rightarrow> int \<Rightarrow> int \<Rightarrow> display" where
  "new_Display target_w target_h bb_w bb_h =
     \<lparr>renderQ = [], flushPromise = False, flushResolved = 0, fbWidth = 0, fbHeight = 0,
      prevDrawStyle = None, vp_x = 0, vp_y = 0, vp_w = target_w, vp_h = target_h,
      dmg_left = 0, dmg_top = 0, dmg_right = bb_w, dmg_bottom = bb_h, scale = 1,
      clipViewport = False, bb_width = bb_w, bb_height = bb_h, bb_fillStyle = (0, 0, 0), bb_log = [],
      tgt_width = target_w, tgt_height = target_h, tgt_styleW = of_int target_w,
      tgt_styleH = of_int target_h, tgt_log = [], nextImg = 0, imgs = (\<lambda>_. None), img_listen = [],
      frames = (\<lambda>_. None), frame_listen = []\<rparr>"

section \<open>Damage and flipping\<close>

definition damage :: "display \<Rightarrow> int \<Rightarrow> int \<Rightarrow> int \<Rightarrow> int \<Rightarrow> display" where
  "damage d x y w h =
     (let d = (if x < dmg_left d then d\<lparr>dmg_left := x\<rparr> else d);
          d = (if y < dmg_top d then d\<lparr>dmg_top := y\<rparr> else d);
          d = (if x + w > dmg_right d then d\<lparr>dmg_right := x + w\<rparr> else d)
      in if y + h > dmg_bottom d then d\<lparr>dmg_bottom := y + h\<rparr> else d)"

text \<open>The part of the damage that is visible: source x, y, size, and position in the viewport.\<close>

definition flip_region :: "display \<Rightarrow> int \<times> int \<times> int \<times> int \<times> int \<times> int" where
  "flip_region d =
     (let x = dmg_left d; y = dmg_top d;
          w = dmg_right d - x; h = dmg_bottom d - y;
          vx = x - vp_x d; vy = y - vp_y d;
          (w, x, vx) = (if vx < 0 then (w + vx, x - vx, 0) else (w, x, vx));
          (h, y, vy) = (if vy < 0 then (h + vy, y - vy, 0) else (h, y, vy));
          w = (if vx + w > vp_w d then vp_w d - vx else w);
          h = (if vy + h > vp_h d then vp_h d - vy else h)
      in (x, y, w, h, vx, vy))"

definition flip_now :: "display \<Rightarrow> display" where
  "flip_now d =
     (let (x, y, w, h, vx, vy) = flip_region d;
          d = (if w > 0 \<and> h > 0 then d\<lparr>tgt_log := tgt_log d @ [(x, y, w, h, vx, vy)]\<rparr> else d)
      in d\<lparr>dmg_left := 65535, dmg_top := 65535, dmg_right := 0, dmg_bottom := 0\<rparr>)"

section \<open>Drawing on the back buffer\<close>

definition setFillColor :: "display \<Rightarrow> byte list \<Rightarrow> display" where
  "setFillColor d color =
     (let newStyle = (u8_get color 0, u8_get color 1, u8_get color 2) in
      if Some newStyle \<noteq> prevDrawStyle d
      then d\<lparr>bb_fillStyle := newStyle, prevDrawStyle := Some newStyle\<rparr> else d)"

text \<open>Reading \<open>color[0]\<close> of an \<open>undefined\<close> colour raises a TypeError before anything is drawn.\<close>

definition fillRect_now ::
  "display \<Rightarrow> int \<Rightarrow> int \<Rightarrow> int \<Rightarrow> int \<Rightarrow> byte list option \<Rightarrow> display \<times> (js_error + unit)" where
  "fillRect_now d x y width height color =
     (case color of
        None \<Rightarrow> (d, Inl TypeError)
      | Some c \<Rightarrow>
          (let d = setFillColor d c;
               d = d\<lparr>bb_log := bb_log d @ [OpFill (bb_fillStyle d) x y width height]\<rparr>
           in (damage d x y width height, Inr ())))"

definition copyImage_now ::
  "display \<Rightarrow> int \<Rightarrow> int \<Rightarrow> int \<Rightarrow> int \<Rightarrow> int \<Rightarrow> int \<Rightarrow> display" where
  "copyImage_now d oldX oldY newX newY w h =
     damage (d\<lparr>bb_log := bb_log d @ [OpCopy oldX oldY newX newY w h]\<rparr>) newX newY w h"

text \<open>
  The clamped view must fit the buffer and \<open>new ImageData\<close> refuses an empty image.
\<close>

definition blitImage_now ::
  "display \<Rightarrow> int \<Rightarrow> int \<Rightarrow> int \<Rightarrow> int \<Rightarrow> u8view \<Rightarrow> int \<Rightarrow> display \<times> (js_error + unit)" where
  "blitImage_now d x y width height arr offset =
     (case u8_view (v_buffer arr) (int (v_byteOffset arr) + offset) (width * height * 4) of
        None \<Rightarrow> (d, Inl RangeError)
      | Some data \<Rightarrow>
          (if width = 0 \<or> height = 0 then (d, Inl (JSError ''ImageData: empty image'' []))
           else (damage (d\<lparr>bb_log := bb_log d @ [OpPut data x y width height]\<rparr>) x y width height,
                 Inr ())))"

definition drawImage_img :: "display \<Rightarrow> string \<Rightarrow> int \<times> int \<Rightarrow> int \<Rightarrow> int \<Rightarrow> display" where
  "drawImage_img d src dims x y =
     damage (d\<lparr>bb_log := bb_log d @ [OpImage src x y]\<rparr>) x y (fst dims) (snd dims)"

definition drawImage_frame ::
  "display \<Rightarrow> nat \<Rightarrow> int \<Rightarrow> int \<Rightarrow> int \<Rightarrow> int \<Rightarrow> int \<Rightarrow> int \<Rightarrow> int \<Rightarrow> int \<Rightarrow> display" where
  "drawImage_frame d frame sx sy sw sh dx dy dw dh =
     damage (d\<lparr>bb_log := bb_log d @ [OpFrame frame sx sy sw sh dx dy dw dh]\<rparr>) dx dy sw sh"

section \<open>The render queue\<close>

datatype scan_result = Shift | NotReady | Abort | ScanThrow js_error

text \<open>One iteration of the scanner on the action \<open>a\<close> at the head of the queue.\<close>

definition do_action :: "display \<Rightarrow> action \<Rightarrow> display \<times> scan_result" where
  "do_action d a =
     (case a of
        AFlip \<Rightarrow> (flip_now d, Shift)
      | ACopy oldX oldY x y w h \<Rightarrow> (copyImage_now d oldX oldY x y w h, Shift)
      | AFill x y w h color \<Rightarrow>
          (case fillRect_now d x y w h color of
             (d', Inl e) \<Rightarrow> (d', ScanThrow e) | (d', Inr _) \<Rightarrow> (d', Shift))
      | ABlit data x y w h \<Rightarrow>
          (case blitImage_now d x y w h (whole_view data) 0 of
             (d', Inl e) \<Rightarrow> (d', ScanThrow e) | (d', Inr _) \<Rightarrow> (d', Shift))
      | AImg img src x y w h \<Rightarrow>
          (case imgs d img of
             Some dims \<Rightarrow>
               (if fst dims \<noteq> w \<or> snd dims \<noteq> h then (d, Abort)
                else (drawImage_img d src dims x y, Shift))
           | None \<Rightarrow> (d\<lparr>img_listen := List.insert img (img_listen d)\<rparr>, NotReady))
      | AFrame frame x y w h \<Rightarrow>
          (case frames d frame of
             Some dims \<Rightarrow> (drawImage_frame d frame 0 0 w h x y w h, Shift)
           | None \<Rightarrow> (d\<lparr>frame_listen := frame_listen d @ [frame]\<rparr>, NotReady)))"

lemmas draw_defs = flip_now_def copyImage_now_def fillRect_now_def blitImage_now_def
  drawImage_img_def drawImage_frame_def setFillColor_def damage_def Let_def

lemma renderQ_do_action: "renderQ (fst (do_action d a)) = renderQ d"
  by (auto simp: do_action_def draw_defs split: action.splits option.splits prod.splits sum.splits)

function scan_loop :: "display \<Rightarrow> display \<times> scan_result" where
  "scan_loop d =
     (case renderQ d of
        [] \<Rightarrow> (d, Shift)
      | a # as \<Rightarrow>
          (case do_action d a of
             (d', Shift) \<Rightarrow> scan_loop (d'\<lparr>renderQ := as\<rparr>)
           | (d', r) \<Rightarrow> (d', r)))"
  by pat_completeness auto
termination
  by (relation "measure (\<lambda>d. length (renderQ d))") auto

declare scan_loop.simps [simp del]

text \<open>
  After the loop a pending flush promise is resolved once the queue is empty; the early
  return for an image of the wrong size (\<open>Abort\<close>) and a throw skip that.
\<close>

definition scanRenderQ :: "display \<Rightarrow> display \<times> (js_error + unit)" where
  "scanRenderQ d =
     (case scan_loop d of
        (d', Abort) \<Rightarrow> (d', Inr ())
      | (d', ScanThrow e) \<Rightarrow> (d', Inl e)
      | (d', _) \<Rightarrow>
          (if renderQ d' = [] \<and> flushPromise d'
           then (d'\<lparr>flushPromise := False, flushResolved := flushResolved d' + 1\<rparr>, Inr ())
           else (d', Inr ())))"

definition renderQPush :: "display \<Rightarrow> action \<Rightarrow> display \<times> (js_error + unit)" where
  "renderQPush d a =
     (let d = d\<lparr>renderQ := renderQ d @ [a]\<rparr>
      in if length (renderQ d) = 1 then scanRenderQ d else (d, Inr ()))"

text \<open>
  The two notifications. \<open>_resumeRenderQ\<close> removes its listener and scans; a resolved frame
  promise runs every continuation attached to it.
\<close>

definition img_load :: "display \<Rightarrow> nat \<Rightarrow> int \<times> int \<Rightarrow> display \<times> (js_error + unit)" where
  "img_load d img dims =
     (let d = d\<lparr>imgs := (imgs d)(img := Some dims)\<rparr>
      in if img \<in> set (img_listen d)
         then scanRenderQ (d\<lparr>img_listen := removeAll img (img_listen d)\<rparr>)
         else (d, Inr ()))"

primrec frame_continuations :: "nat list \<Rightarrow> display \<Rightarrow> display \<times> (js_error + unit)" where
  "frame_continuations [] d = (d, Inr ())"
| "frame_continuations (f # fs) d =
     (case scanRenderQ d of
        (d', Inl e) \<Rightarrow> (d', Inl e) | (d', Inr _) \<Rightarrow> frame_continuations fs d')"

definition frame_ready :: "display \<Rightarrow> nat \<Rightarrow> int \<times> int \<Rightarrow> display \<times> (js_error + unit)" where
  "frame_ready d frame dims =
     (let d = d\<lparr>frames := (frames d)(frame := Some dims)\<rparr>
      in frame_continuations (filter (\<lambda>f. f = frame) (frame_listen d))
           (d\<lparr>frame_listen := filter (\<lambda>f. f \<noteq> frame) (frame_listen d)\<rparr>))"

section \<open>The drawing methods: immediately, or through the queue\<close>

definition flip :: "display \<Rightarrow> display \<times> (js_error + unit)" where
  "flip d = (if renderQ d \<noteq> [] then renderQPush d AFlip else (flip_now d, Inr ()))"

definition fillRect ::
  "display \<Rightarrow> int \<Rightarrow> int \<Rightarrow> int \<Rightarrow> int \<Rightarrow> byte list option \<Rightarrow> display \<times> (js_error + unit)" where
  "fillRect d x y width height color =
     (if renderQ d \<noteq> [] then renderQPush d (AFill x y width height color)
      else fillRect_now d x y width height color)"

definition copyImage ::
  "display \<Rightarrow> int \<Rightarrow> int \<Rightarrow> int \<Rightarrow> int \<Rightarrow> int \<Rightarrow> int \<Rightarrow> display \<times> (js_error + unit)" where
  "copyImage d oldX oldY newX newY w h =
     (if renderQ d \<noteq> [] then renderQPush d (ACopy oldX oldY newX newY w h)
      else (copyImage_now d oldX oldY newX newY w h, Inr ()))"

definition imageRect ::
  "display \<Rightarrow> int \<Rightarrow> int \<Rightarrow> int \<Rightarrow> int \<Rightarrow> string \<Rightarrow> byte list \<Rightarrow> display \<times> (js_error + unit)" where
  "imageRect d x y width height mime arr =
     (if width = 0 \<or> height = 0 then (d, Inr ())
      else
        (let src = ''data: '' @ mime @ '';base64,'' @ encode arr
         in renderQPush (d\<lparr>nextImg := Suc (nextImg d)\<rparr>) (AImg (nextImg d) src x y width height)))"

definition videoFrame ::
  "display \<Rightarrow> int \<Rightarrow> int \<Rightarrow> int \<Rightarrow> int \<Rightarrow> nat \<Rightarrow> display \<times> (js_error + unit)" where
  "videoFrame d x y width height frame = renderQPush d (AFrame frame x y width height)"

text \<open>
  A queued blit copies \<open>width * height * 4\<close> bytes from the start of the argument's buffer:
  the code passes \<open>arr.buffer\<close> and 0, not the argument's own offset.
\<close>

definition blitImage ::
  "display \<Rightarrow> int \<Rightarrow> int \<Rightarrow> int \<Rightarrow> int \<Rightarrow> u8view \<Rightarrow> int \<Rightarrow> display \<times> (js_error + unit)" where
  "blitImage d x y width height arr offset =
     (if renderQ d \<noteq> [] then
        (case u8_view (v_buffer arr) 0 (width * height * 4) of
           None \<Rightarrow> (d, Inl RangeError)
         | Some newArr \<Rightarrow> renderQPush d (ABlit newArr x y width height))
      else blitImage_now d x y width height arr offset)"

text \<open>A decoder's call, dispatched to the method it names.\<close>

fun exec_draw :: "display \<Rightarrow> draw \<Rightarrow> display \<times> (js_error + unit)" where
  "exec_draw d (FillRect x y w h color) = fillRect d x y w h color"
| "exec_draw d (CopyImage oldX oldY x y w h) = copyImage d oldX oldY x y w h"
| "exec_draw d (BlitImage x y w h arr offset) = blitImage d x y w h arr offset"
| "exec_draw d (ImageRect x y w h mime arr) = imageRect d x y w h mime arr"
| "exec_draw d (VideoFrame x y w h frame) = videoFrame d x y w h frame"

definition pending :: "display \<Rightarrow> bool" where
  "pending d \<longleftrightarrow> length (renderQ d) > 0"

text \<open>\<open>flush\<close> answers whether the promise it returns is already resolved.\<close>

definition display_flush :: "display \<Rightarrow> display \<times> bool" where
  "display_flush d =
     (if renderQ d = [] then (d, True) else (d\<lparr>flushPromise := True\<rparr>, False))"

section \<open>Viewport, size and scale\<close>

text \<open>Sizes come from the page layout and may be fractional; positions are whole after flooring.\<close>

definition rescale :: "display \<Rightarrow> rat \<Rightarrow> display" where
  "rescale d factor =
     (let d = d\<lparr>scale := factor\<rparr>; width = factor * of_int (vp_w d); height = factor * of_int (vp_h d)
      in if tgt_styleW d \<noteq> width \<or> tgt_styleH d \<noteq> height
         then d\<lparr>tgt_styleW := width, tgt_styleH := height\<rparr> else d)"

definition viewportChangePos :: "display \<Rightarrow> rat \<Rightarrow> rat \<Rightarrow> display \<times> (js_error + unit)" where
  "viewportChangePos d dX dY =
     (let deltaX = (if clipViewport d then \<lfloor>dX\<rfloor> else - vp_w d);
          deltaY = (if clipViewport d then \<lfloor>dY\<rfloor> else - vp_h d);
          vx2 = vp_x d + vp_w d - 1;
          vy2 = vp_y d + vp_h d - 1;
          deltaX = (if deltaX < 0 \<and> vp_x d + deltaX < 0 then - vp_x d else deltaX);
          deltaX = (if vx2 + deltaX \<ge> fbWidth d
                    then deltaX - (vx2 + deltaX - fbWidth d + 1) else deltaX);
          deltaY = (if vp_y d + deltaY < 0 then - vp_y d else deltaY);
          deltaY = (if vy2 + deltaY \<ge> fbHeight d
                    then deltaY - (vy2 + deltaY - fbHeight d + 1) else deltaY)
      in if deltaX = 0 \<and> deltaY = 0 then (d, Inr ())
         else
           (let d = d\<lparr>vp_x := vp_x d + deltaX, vp_y := vp_y d + deltaY\<rparr>
            in flip (damage d (vp_x d) (vp_y d) (vp_w d) (vp_h d))))"

definition viewportChangeSize ::
  "display \<Rightarrow> rat option \<Rightarrow> rat option \<Rightarrow> display \<times> (js_error + unit)" where
  "viewportChangeSize d width0 height0 =
     (let (width1, height1) =
            (case (clipViewport d, width0, height0) of
               (True, Some w, Some h) \<Rightarrow> (\<lfloor>w\<rfloor>, \<lfloor>h\<rfloor>)
             | _ \<Rightarrow> (fbWidth d, fbHeight d));
          width = (if width1 > fbWidth d then fbWidth d else width1);
          height = (if height1 > fbHeight d then fbHeight d else height1)
      in if vp_w d \<noteq> width \<or> vp_h d \<noteq> height then
           (let d = d\<lparr>vp_w := width, vp_h := height, tgt_width := width, tgt_height := height\<rparr>
            in case viewportChangePos d 0 0 of
                 (d, Inl e) \<Rightarrow> (d, Inl e)
               | (d, Inr _) \<Rightarrow>
                   (case flip (damage d (vp_x d) (vp_y d) (vp_w d) (vp_h d)) of
                      (d, Inl e) \<Rightarrow> (d, Inl e)
                    | (d, Inr _) \<Rightarrow> (rescale d (scale d), Inr ())))
         else (d, Inr ()))"

definition set_clipViewport :: "display \<Rightarrow> bool \<Rightarrow> display \<times> (js_error + unit)" where
  "set_clipViewport d viewport =
     (let d = d\<lparr>clipViewport := viewport\<rparr>
      in case viewportChangeSize d (Some (of_int (vp_w d))) (Some (of_int (vp_h d))) of
           (d, Inl e) \<Rightarrow> (d, Inl e)
         | (d, Inr _) \<Rightarrow> viewportChangePos d 0 0)"

text \<open>Changing a canvas size clears it and resets its context, hence the saved image.\<close>

definition resize_backbuffer :: "display \<Rightarrow> int \<Rightarrow> int \<Rightarrow> display" where
  "resize_backbuffer d width height =
     (if bb_width d \<noteq> width \<or> bb_height d \<noteq> height then
        (let saved = (if bb_width d > 0 \<and> bb_height d > 0
                      then [OpRestore (bb_width d) (bb_height d)] else [])
         in d\<lparr>bb_width := width, bb_height := height, bb_fillStyle := (0, 0, 0),
              bb_log := bb_log d @ [OpResize width height] @ saved\<rparr>)
      else d)"

definition resize :: "display \<Rightarrow> int \<Rightarrow> int \<Rightarrow> display \<times> (js_error + unit)" where
  "resize d width height =
     (let d = d\<lparr>prevDrawStyle := None, fbWidth := width, fbHeight := height\<rparr>;
          d = resize_backbuffer d width height
      in case viewportChangeSize d (Some (of_int (vp_w d))) (Some (of_int (vp_h d))) of
           (d, Inl e) \<Rightarrow> (d, Inl e)
         | (d, Inr _) \<Rightarrow> viewportChangePos d 0 0)"

text \<open>\<open>toSigned32bit\<close> truncates a fraction towards zero.\<close>

definition toSigned32bit :: "rat \<Rightarrow> int" where
  "toSigned32bit r = ToInt32 (if r < 0 then \<lceil>r\<rceil> else \<lfloor>r\<rfloor>)"

definition absX :: "display \<Rightarrow> rat \<Rightarrow> int" where
  "absX d x = (if scale d = 0 then 0 else toSigned32bit (x / scale d + of_int (vp_x d)))"

definition absY :: "display \<Rightarrow> rat \<Rightarrow> int" where
  "absY d y = (if scale d = 0 then 0 else toSigned32bit (y / scale d + of_int (vp_y d)))"

definition autoscale :: "display \<Rightarrow> rat \<Rightarrow> rat \<Rightarrow> display" where
  "autoscale d containerWidth containerHeight =
     (let scaleRatio =
            (if containerWidth = 0 \<or> containerHeight = 0 then 0
             else
               (let targetAspectRatio = containerWidth / containerHeight;
                    fbAspectRatio = of_int (vp_w d) / of_int (vp_h d)
                in if fbAspectRatio \<ge> targetAspectRatio then containerWidth / of_int (vp_w d)
                   else containerHeight / of_int (vp_h d)))
      in rescale d scaleRatio)"

section \<open>What drawing leaves alone\<close>

text \<open>The geometry of the display: only \<open>resize\<close> and the viewport operations change it.\<close>

definition geom :: "display \<Rightarrow> int \<times> int \<times> int \<times> int \<times> int \<times> int \<times> bool" where
  "geom d = (vp_x d, vp_y d, vp_w d, vp_h d, fbWidth d, fbHeight d, clipViewport d)"

lemma geom_damage [simp]: "geom (damage d x y w h) = geom d"
  by (simp add: geom_def damage_def Let_def)

lemma geom_flip_now [simp]: "geom (flip_now d) = geom d"
  by (simp add: geom_def flip_now_def Let_def split: prod.splits)

lemma geom_do_action [simp]: "geom (fst (do_action d a)) = geom d"
  by (auto simp: do_action_def draw_defs geom_def
      split: action.splits option.splits prod.splits sum.splits)

lemma geom_scan_loop [simp]: "geom (fst (scan_loop d)) = geom d"
proof (induction d rule: scan_loop.induct)
  case (1 d)
  show ?case
  proof (cases "renderQ d")
    case Nil
    then show ?thesis by (simp add: scan_loop.simps [of d])
  next
    case (Cons a as)
    obtain d' r where da: "do_action d a = (d', r)" by fastforce
    then have g: "geom d' = geom d" by (metis fst_conv geom_do_action)
    have "r = Shift \<Longrightarrow> geom (fst (scan_loop (d'\<lparr>renderQ := as\<rparr>))) = geom (d'\<lparr>renderQ := as\<rparr>)"
      using "1.IH" [OF Cons da [symmetric]] by simp
    moreover have "geom (d'\<lparr>renderQ := as\<rparr>) = geom d'" by (simp add: geom_def)
    ultimately show ?thesis
      using Cons da g by (cases r) (simp_all add: scan_loop.simps [of d])
  qed
qed

lemma geom_scanRenderQ [simp]: "geom (fst (scanRenderQ d)) = geom d"
proof -
  obtain d' r where "scan_loop d = (d', r)" by fastforce
  moreover from this have "geom d' = geom d" by (metis fst_conv geom_scan_loop)
  ultimately show ?thesis by (cases r) (auto simp: scanRenderQ_def geom_def)
qed

lemma geom_renderQPush [simp]: "geom (fst (renderQPush d a)) = geom d"
  by (simp add: renderQPush_def Let_def) (simp add: geom_def)

lemma geom_flip [simp]: "geom (fst (flip d)) = geom d"
  by (simp add: flip_def)

text \<open>A flip never throws: with a non-empty queue it is only appended, otherwise it is drawn.\<close>

lemma snd_flip [simp]: "snd (flip d) = Inr ()"
  by (cases "renderQ d") (auto simp: flip_def renderQPush_def Let_def)

section \<open>The viewport stays inside the framebuffer\<close>

definition vp_inv :: "display \<Rightarrow> bool" where
  "vp_inv d \<longleftrightarrow> 0 \<le> vp_x d \<and> 0 \<le> vp_y d \<and> 0 \<le> vp_w d \<and> 0 \<le> vp_h d \<and>
     vp_x d + vp_w d \<le> fbWidth d \<and> vp_y d + vp_h d \<le> fbHeight d \<and>
     (\<not> clipViewport d \<longrightarrow> vp_w d = fbWidth d \<and> vp_h d = fbHeight d)"

text \<open>What \<open>viewportChangePos\<close> needs: the size fits and the origin is not negative.\<close>

definition vp_pre :: "display \<Rightarrow> bool" where
  "vp_pre d \<longleftrightarrow> 0 \<le> vp_x d \<and> 0 \<le> vp_y d \<and> 0 \<le> vp_w d \<and> 0 \<le> vp_h d \<and>
     vp_w d \<le> fbWidth d \<and> vp_h d \<le> fbHeight d \<and>
     (\<not> clipViewport d \<longrightarrow> vp_w d = fbWidth d \<and> vp_h d = fbHeight d)"

lemma vp_inv_pre: "vp_inv d \<Longrightarrow> vp_pre d"
  by (auto simp: vp_inv_def vp_pre_def)

lemma vp_inv_geom: "geom d' = geom d \<Longrightarrow> vp_inv d' = vp_inv d"
  and vp_pre_geom: "geom d' = geom d \<Longrightarrow> vp_pre d' = vp_pre d"
  by (auto simp: geom_def vp_inv_def vp_pre_def)

lemma clamp_delta:
  fixes x w fb \<delta> :: int
  assumes "0 \<le> x" "0 \<le> w" "w \<le> fb"
  defines "\<delta>1 \<equiv> (if x + \<delta> < 0 then - x else \<delta>)"
  defines "\<delta>2 \<equiv> (if x + w - 1 + \<delta>1 \<ge> fb then \<delta>1 - (x + w - 1 + \<delta>1 - fb + 1) else \<delta>1)"
  shows "0 \<le> x + \<delta>2 \<and> x + \<delta>2 + w \<le> fb"
  using assms by auto

lemma viewportChangePos_inv:
  assumes "vp_pre d"
  shows "snd (viewportChangePos d dX dY) = Inr () \<and> vp_inv (fst (viewportChangePos d dX dY)) \<and>
    (vp_w (fst (viewportChangePos d dX dY)), vp_h (fst (viewportChangePos d dX dY)),
     fbWidth (fst (viewportChangePos d dX dY)), fbHeight (fst (viewportChangePos d dX dY)),
     clipViewport (fst (viewportChangePos d dX dY)))
    = (vp_w d, vp_h d, fbWidth d, fbHeight d, clipViewport d)"
proof -
  define x0 where "x0 = (if clipViewport d then \<lfloor>dX\<rfloor> else - vp_w d)"
  define y0 where "y0 = (if clipViewport d then \<lfloor>dY\<rfloor> else - vp_h d)"
  define x1 where "x1 = (if vp_x d + x0 < 0 then - vp_x d else x0)"
  define x2 where "x2 = (if vp_x d + vp_w d - 1 + x1 \<ge> fbWidth d
    then x1 - (vp_x d + vp_w d - 1 + x1 - fbWidth d + 1) else x1)"
  define y1 where "y1 = (if vp_y d + y0 < 0 then - vp_y d else y0)"
  define y2 where "y2 = (if vp_y d + vp_h d - 1 + y1 \<ge> fbHeight d
    then y1 - (vp_y d + vp_h d - 1 + y1 - fbHeight d + 1) else y1)"
  have neg: "(x0 < 0 \<and> vp_x d + x0 < 0) = (vp_x d + x0 < 0)"
    using assms by (auto simp: vp_pre_def)
  have x: "0 \<le> vp_x d + x2 \<and> vp_x d + x2 + vp_w d \<le> fbWidth d"
    using clamp_delta [of "vp_x d" "vp_w d" "fbWidth d" x0] assms
    by (simp add: vp_pre_def x2_def x1_def)
  have y: "0 \<le> vp_y d + y2 \<and> vp_y d + y2 + vp_h d \<le> fbHeight d"
    using clamp_delta [of "vp_y d" "vp_h d" "fbHeight d" y0] assms
    by (simp add: vp_pre_def y2_def y1_def)
  let ?d1 = "d\<lparr>vp_x := vp_x d + x2, vp_y := vp_y d + y2\<rparr>"
  let ?d2 = "flip (damage ?d1 (vp_x ?d1) (vp_y ?d1) (vp_w ?d1) (vp_h ?d1))"
  have eq: "viewportChangePos d dX dY = (if x2 = 0 \<and> y2 = 0 then (d, Inr ()) else ?d2)"
    unfolding viewportChangePos_def Let_def x0_def [symmetric] y0_def [symmetric] neg
      x1_def [symmetric] y1_def [symmetric] x2_def [symmetric] y2_def [symmetric] by simp
  have inv: "vp_inv ?d1" using x y assms by (auto simp: vp_inv_def vp_pre_def)
  have g: "geom (fst ?d2) = geom ?d1" by simp
  show ?thesis
  proof (cases "x2 = 0 \<and> y2 = 0")
    case True
    then have "d = ?d1" by simp
    with inv have "vp_inv d" by simp
    with True show ?thesis by (simp add: eq)
  next
    case False
    then have r: "viewportChangePos d dX dY = ?d2" by (simp only: eq if_False)
    show ?thesis
      unfolding r vp_inv_geom [OF g] using inv g by (simp add: geom_def)
  qed
qed

lemma viewportChangeSize_pre:
  assumes "0 \<le> vp_x d" "0 \<le> vp_y d" "0 \<le> fbWidth d" "0 \<le> fbHeight d"
    and "0 \<le> w" "0 \<le> h"
  shows "snd (viewportChangeSize d (Some w) (Some h)) = Inr () \<and>
    vp_pre (fst (viewportChangeSize d (Some w) (Some h))) \<and>
    (fbWidth (fst (viewportChangeSize d (Some w) (Some h))),
     fbHeight (fst (viewportChangeSize d (Some w) (Some h))),
     clipViewport (fst (viewportChangeSize d (Some w) (Some h))))
    = (fbWidth d, fbHeight d, clipViewport d)"
proof -
  define w1 where "w1 = (if clipViewport d then min \<lfloor>w\<rfloor> (fbWidth d) else fbWidth d)"
  define h1 where "h1 = (if clipViewport d then min \<lfloor>h\<rfloor> (fbHeight d) else fbHeight d)"
  have fl: "0 \<le> \<lfloor>w\<rfloor>" "0 \<le> \<lfloor>h\<rfloor>" using assms by auto
  let ?d1 = "d\<lparr>vp_w := w1, vp_h := h1, tgt_width := w1, tgt_height := h1\<rparr>"
  have pre1: "vp_pre ?d1" using assms fl by (auto simp: vp_pre_def w1_def h1_def)
  obtain d2 where d2: "viewportChangePos ?d1 0 0 = (d2, Inr ())" and inv2: "vp_inv d2"
    and f2: "vp_w d2 = w1" "vp_h d2 = h1" "fbWidth d2 = fbWidth d" "fbHeight d2 = fbHeight d"
      "clipViewport d2 = clipViewport d"
    using viewportChangePos_inv [OF pre1, of 0 0] by (cases "viewportChangePos ?d1 0 0") auto
  obtain d3 where d3: "flip (damage d2 (vp_x d2) (vp_y d2) (vp_w d2) (vp_h d2)) = (d3, Inr ())"
    and g3: "geom d3 = geom d2"
    by (metis geom_damage geom_flip prod.collapse snd_flip)
  have eq: "viewportChangeSize d (Some w) (Some h) =
      (if vp_w d \<noteq> w1 \<or> vp_h d \<noteq> h1 then (rescale d3 (scale d3), Inr ()) else (d, Inr ()))"
  proof (cases "clipViewport d")
    case True
    then have "(if fbWidth d < \<lfloor>w\<rfloor> then fbWidth d else \<lfloor>w\<rfloor>) = w1"
      "(if fbHeight d < \<lfloor>h\<rfloor> then fbHeight d else \<lfloor>h\<rfloor>) = h1"
      by (auto simp: w1_def h1_def)
    with True d2 d3 show ?thesis by (simp add: viewportChangeSize_def Let_def)
  next
    case False
    then have "fbWidth d = w1" "fbHeight d = h1" by (auto simp: w1_def h1_def)
    with False d2 d3 show ?thesis by (simp add: viewportChangeSize_def Let_def)
  qed
  have g4: "geom (rescale d3 (scale d3)) = geom d2"
    using g3 by (simp add: rescale_def Let_def geom_def)
  show ?thesis
  proof (cases "vp_w d \<noteq> w1 \<or> vp_h d \<noteq> h1")
    case True
    then show ?thesis
      using eq g4 f2 vp_inv_geom [OF g4] inv2 vp_inv_pre by (auto simp: geom_def)
  next
    case False
    then have "vp_pre d" using pre1 by (auto simp: vp_pre_def)
    with False show ?thesis by (simp add: eq)
  qed
qed

lemma resize_total:
  assumes "0 \<le> vp_x d" "0 \<le> vp_y d" "0 \<le> vp_w d" "0 \<le> vp_h d" "0 \<le> width" "0 \<le> height"
  shows "\<exists>d'. resize d width height = (d', Inr ()) \<and> vp_inv d' \<and>
    fbWidth d' = width \<and> fbHeight d' = height"
proof -
  define d1 where "d1 = resize_backbuffer (d\<lparr>prevDrawStyle := None, fbWidth := width, fbHeight := height\<rparr>) width height"
  have f1: "vp_x d1 = vp_x d" "vp_y d1 = vp_y d" "vp_w d1 = vp_w d" "vp_h d1 = vp_h d"
      "fbWidth d1 = width" "fbHeight d1 = height"
    by (simp_all add: d1_def resize_backbuffer_def Let_def)
  let ?r = "viewportChangeSize d1 (Some (of_int (vp_w d1))) (Some (of_int (vp_h d1)))"
  obtain d2 where r: "?r = (d2, Inr ())" and pre: "vp_pre d2" "fbWidth d2 = width" "fbHeight d2 = height"
    using viewportChangeSize_pre [of d1 "of_int (vp_w d1)" "of_int (vp_h d1)"] assms f1
    by (cases ?r) auto
  have "resize d width height = viewportChangePos d2 0 0"
    using r by (simp add: resize_def Let_def d1_def [symmetric])
  then show ?thesis
    using viewportChangePos_inv [OF pre(1), of 0 0] pre by (cases "viewportChangePos d2 0 0") auto
qed

lemma set_clipViewport_total:
  assumes "vp_inv d"
  shows "\<exists>d'. set_clipViewport d c = (d', Inr ()) \<and> vp_inv d' \<and> clipViewport d' = c"
proof -
  let ?d1 = "d\<lparr>clipViewport := c\<rparr>"
  let ?r = "viewportChangeSize ?d1 (Some (of_int (vp_w ?d1))) (Some (of_int (vp_h ?d1)))"
  obtain d2 where r: "?r = (d2, Inr ())" and pre: "vp_pre d2" "clipViewport d2 = c"
    using viewportChangeSize_pre [of ?d1 "of_int (vp_w ?d1)" "of_int (vp_h ?d1)"] assms
    by (cases ?r) (auto simp: vp_inv_def)
  have "set_clipViewport d c = viewportChangePos d2 0 0"
    using r by (simp add: set_clipViewport_def Let_def)
  then show ?thesis
    using viewportChangePos_inv [OF pre(1), of 0 0] pre by (cases "viewportChangePos d2 0 0") auto
qed

section \<open>Rendering in order\<close>

text \<open>The call an action makes on the back buffer when it is rendered.\<close>

definition style_of :: "byte list \<Rightarrow> style" where
  "style_of c = (u8_get c 0, u8_get c 1, u8_get c 2)"

fun action_ops :: "action \<Rightarrow> canvas_op list" where
  "action_ops AFlip = []"
| "action_ops (ACopy oldX oldY x y w h) = [OpCopy oldX oldY x y w h]"
| "action_ops (AFill x y w h color) =
     (case color of None \<Rightarrow> [] | Some c \<Rightarrow> [OpFill (style_of c) x y w h])"
| "action_ops (ABlit data x y w h) = [OpPut (take (nat (w * h * 4)) data) x y w h]"
| "action_ops (AImg img src x y w h) = [OpImage src x y]"
| "action_ops (AFrame frame x y w h) = [OpFrame frame 0 0 w h x y w h]"

text \<open>An action the renderer accepts: a colour is given, blit data has the size of its rectangle.\<close>

fun wf_action :: "action \<Rightarrow> bool" where
  "wf_action (AFill x y w h color) = (color \<noteq> None)"
| "wf_action (ABlit data x y w h) = (0 < w \<and> 0 < h \<and> w * h * 4 \<le> int (length data))"
| "wf_action _ = True"

text \<open>Everything drawn so far, followed by what the queue still holds.\<close>

definition drawn :: "display \<Rightarrow> canvas_op list" where
  "drawn d = bb_log d @ concat (map action_ops (renderQ d))"

text \<open>
  The fill-style cache agrees with the canvas, and the queue holds renderable actions only.
\<close>

definition disp_inv :: "display \<Rightarrow> bool" where
  "disp_inv d \<longleftrightarrow> (\<forall>s. prevDrawStyle d = Some s \<longrightarrow> bb_fillStyle d = s) \<and>
     list_all wf_action (renderQ d)"

lemma bb_log_damage [simp]: "bb_log (damage d x y w h) = bb_log d"
  "prevDrawStyle (damage d x y w h) = prevDrawStyle d"
  "bb_fillStyle (damage d x y w h) = bb_fillStyle d"
  "renderQ (damage d x y w h) = renderQ d"
  "flushPromise (damage d x y w h) = flushPromise d"
  "imgs (damage d x y w h) = imgs d" "frames (damage d x y w h) = frames d"
  "flushResolved (damage d x y w h) = flushResolved d"
  by (simp_all add: damage_def Let_def)

lemma bb_log_flip_now [simp]: "bb_log (flip_now d) = bb_log d"
  "prevDrawStyle (flip_now d) = prevDrawStyle d" "bb_fillStyle (flip_now d) = bb_fillStyle d"
  "renderQ (flip_now d) = renderQ d" "flushPromise (flip_now d) = flushPromise d"
  "imgs (flip_now d) = imgs d" "frames (flip_now d) = frames d"
  "flushResolved (flip_now d) = flushResolved d"
  by (simp_all add: flip_now_def Let_def split: prod.splits)

lemma setFillColor_keeps [simp]: "flushPromise (setFillColor d c) = flushPromise d"
  "flushResolved (setFillColor d c) = flushResolved d"
  "imgs (setFillColor d c) = imgs d" "frames (setFillColor d c) = frames d"
  by (simp_all add: setFillColor_def Let_def)

lemma whole_view_blit:
  "0 \<le> n \<Longrightarrow> n \<le> int (length data) \<Longrightarrow> u8_view (v_buffer (whole_view data)) 0 n = Some (take (nat n) data)"
  by (simp add: u8_view_def whole_view_def)

text \<open>The style cache: the fill uses the colour that was asked for.\<close>

lemma fillRect_now_ops:
  assumes "\<forall>s. prevDrawStyle d = Some s \<longrightarrow> bb_fillStyle d = s"
  shows "\<exists>d'. fillRect_now d x y w h (Some c) = (d', Inr ()) \<and>
    bb_log d' = bb_log d @ [OpFill (style_of c) x y w h] \<and>
    (\<forall>s. prevDrawStyle d' = Some s \<longrightarrow> bb_fillStyle d' = s) \<and> renderQ d' = renderQ d"
  using assms by (auto simp: fillRect_now_def setFillColor_def Let_def style_of_def)

lemma do_action_ops:
  assumes "disp_inv d" and "wf_action a" and "do_action d a = (d', r)"
  shows "(r = Shift \<longrightarrow> bb_log d' = bb_log d @ action_ops a) \<and>
    (r \<noteq> Shift \<longrightarrow> bb_log d' = bb_log d) \<and> (\<forall>e. r \<noteq> ScanThrow e) \<and>
    (\<forall>s. prevDrawStyle d' = Some s \<longrightarrow> bb_fillStyle d' = s) \<and> renderQ d' = renderQ d"
proof (cases a)
  case (AFill x y w h color)
  then obtain c where c: "color = Some c" using assms by auto
  have st: "\<forall>s. prevDrawStyle d = Some s \<longrightarrow> bb_fillStyle d = s" using assms by (simp add: disp_inv_def)
  from fillRect_now_ops [OF st, of x y w h c] show ?thesis
    using assms AFill c by (auto simp: do_action_def)
next
  case (ABlit data x y w h)
  then have sz: "0 \<le> w * h * 4" "w * h * 4 \<le> int (length data)" and nz: "w \<noteq> 0" "h \<noteq> 0"
    using assms by auto
  then show ?thesis
    using assms ABlit
    by (auto simp: do_action_def blitImage_now_def whole_view_blit [unfolded whole_view_def, simplified]
        whole_view_def disp_inv_def)
qed (use assms in \<open>auto simp: do_action_def copyImage_now_def drawImage_img_def drawImage_frame_def
    disp_inv_def split: option.splits if_splits\<close>)

lemma scan_loop_drawn:
  "disp_inv d \<Longrightarrow> disp_inv (fst (scan_loop d)) \<and> drawn (fst (scan_loop d)) = drawn d \<and>
     (\<forall>e. snd (scan_loop d) \<noteq> ScanThrow e)"
proof (induction d rule: scan_loop.induct)
  case (1 d)
  show ?case
  proof (cases "renderQ d")
    case Nil
    with 1 show ?thesis by (simp add: scan_loop.simps [of d])
  next
    case (Cons a as)
    obtain d' r where da: "do_action d a = (d', r)" by fastforce
    have a: "wf_action a" "list_all wf_action as"
      using "1.prems" Cons by (auto simp: disp_inv_def)
    note ops = do_action_ops [OF "1.prems" a(1) da]
    show ?thesis
    proof (cases "r = Shift")
      case True
      let ?d2 = "d'\<lparr>renderQ := as\<rparr>"
      have inv: "disp_inv ?d2" using ops a by (simp add: disp_inv_def)
      have "drawn ?d2 = drawn d" using ops True Cons by (simp add: drawn_def)
      then show ?thesis
        using "1.IH" [OF Cons da [symmetric] True inv] Cons da True
        by (simp add: scan_loop.simps [of d])
    next
      case False
      then have "scan_loop d = (d', r)" using Cons da by (cases r) (simp_all add: scan_loop.simps [of d])
      then show ?thesis using ops False "1.prems" by (auto simp: drawn_def disp_inv_def)
    qed
  qed
qed

lemma scanRenderQ_drawn:
  assumes "disp_inv d"
  shows "disp_inv (fst (scanRenderQ d)) \<and> drawn (fst (scanRenderQ d)) = drawn d \<and>
    snd (scanRenderQ d) = Inr ()"
proof -
  obtain d' r where l: "scan_loop d = (d', r)" by fastforce
  with scan_loop_drawn [OF assms] show ?thesis
    by (cases r) (auto simp: scanRenderQ_def drawn_def disp_inv_def)
qed

lemma renderQPush_drawn:
  assumes "disp_inv d" and "wf_action a"
  shows "disp_inv (fst (renderQPush d a)) \<and> drawn (fst (renderQPush d a)) = drawn d @ action_ops a \<and>
    snd (renderQPush d a) = Inr ()"
proof -
  have "disp_inv (d\<lparr>renderQ := renderQ d @ [a]\<rparr>)" using assms by (simp add: disp_inv_def)
  moreover have "drawn (d\<lparr>renderQ := renderQ d @ [a]\<rparr>) = drawn d @ action_ops a"
    by (simp add: drawn_def)
  ultimately show ?thesis
    using scanRenderQ_drawn [of "d\<lparr>renderQ := renderQ d @ [a]\<rparr>"] by (auto simp: renderQPush_def Let_def)
qed

text \<open>What a decoder's call asks to be drawn: for a blit, the bytes its view selects.\<close>

fun draw_ops :: "draw \<Rightarrow> canvas_op list" where
  "draw_ops (FillRect x y w h color) =
     (case color of None \<Rightarrow> [] | Some c \<Rightarrow> [OpFill (style_of c) x y w h])"
| "draw_ops (CopyImage oldX oldY x y w h) = [OpCopy oldX oldY x y w h]"
| "draw_ops (BlitImage x y w h arr offset) =
     [OpPut (take (nat (w * h * 4)) (drop (v_byteOffset arr + nat offset) (v_buffer arr))) x y w h]"
| "draw_ops (ImageRect x y w h mime arr) =
     (if w = 0 \<or> h = 0 then [] else [OpImage (''data: '' @ mime @ '';base64,'' @ encode arr) x y])"
| "draw_ops (VideoFrame x y w h frame) = [OpFrame frame 0 0 w h x y w h]"

fun wf_draw :: "draw \<Rightarrow> bool" where
  "wf_draw (FillRect x y w h color) = (color \<noteq> None)"
| "wf_draw (BlitImage x y w h arr offset) =
     (0 < w \<and> 0 < h \<and> 0 \<le> offset \<and>
      int (v_byteOffset arr) + offset + w * h * 4 \<le> int (length (v_buffer arr)))"
| "wf_draw _ = True"

text \<open>
  What the call draws when the queue does (\<open>queued\<close>) or does not hold something: a queued blit takes its bytes from the start of
  the buffer, wherever its view begins.
\<close>

fun made_ops :: "bool \<Rightarrow> draw \<Rightarrow> canvas_op list" where
  "made_ops queued (BlitImage x y w h arr offset) =
     (if queued then [OpPut (take (nat (w * h * 4)) (v_buffer arr)) x y w h] else draw_ops (BlitImage x y w h arr offset))"
| "made_ops queued dr = draw_ops dr"

text \<open>A blit whose data begins its buffer, which is all a queued blit looks at.\<close>

fun buffer_start :: "draw \<Rightarrow> bool" where
  "buffer_start (BlitImage x y w h arr offset) = (v_byteOffset arr = 0 \<and> offset = 0)"
| "buffer_start _ = True"

lemma made_at_start: "queued \<longrightarrow> buffer_start dr \<Longrightarrow> made_ops queued dr = draw_ops dr"
  by (cases dr) simp_all

lemma exec_draw_made:
  assumes inv: "disp_inv d" and wf: "wf_draw dr"
  shows "disp_inv (fst (exec_draw d dr)) \<and> drawn (fst (exec_draw d dr)) = drawn d @ made_ops (renderQ d \<noteq> []) dr \<and>
    snd (exec_draw d dr) = Inr ()"
proof (cases dr)
  case (FillRect x y w h color)
  then obtain c where c: "color = Some c" using wf by auto
  show ?thesis
  proof (cases "renderQ d = []")
    case True
    have st: "\<forall>s. prevDrawStyle d = Some s \<longrightarrow> bb_fillStyle d = s" using inv by (simp add: disp_inv_def)
    from fillRect_now_ops [OF st, of x y w h c] show ?thesis
      using True FillRect c by (auto simp: fillRect_def drawn_def disp_inv_def)
  next
    case False
    then show ?thesis
      using renderQPush_drawn [OF inv, of "AFill x y w h (Some c)"] FillRect c by (simp add: fillRect_def)
  qed
next
  case (CopyImage oldX oldY x y w h)
  then show ?thesis
    using renderQPush_drawn [OF inv, of "ACopy oldX oldY x y w h"] inv
    by (auto simp: copyImage_def copyImage_now_def drawn_def disp_inv_def)
next
  case (BlitImage x y w h arr offset)
  have sz: "0 < w" "0 < h" "0 \<le> offset" "0 \<le> w * h * 4"
    and fit: "int (v_byteOffset arr) + offset + w * h * 4 \<le> int (length (v_buffer arr))"
    using wf BlitImage by auto
  show ?thesis
  proof (cases "renderQ d = []")
    case True
    let ?data = "take (nat (w * h * 4)) (drop (v_byteOffset arr + nat offset) (v_buffer arr))"
    have "u8_view (v_buffer arr) (int (v_byteOffset arr) + offset) (w * h * 4) = Some ?data"
      using sz fit by (simp add: u8_view_def nat_add_distrib)
    then show ?thesis
      using True BlitImage sz inv by (auto simp: blitImage_def blitImage_now_def drawn_def disp_inv_def)
  next
    case False
    let ?data = "take (nat (w * h * 4)) (v_buffer arr)"
    have view: "u8_view (v_buffer arr) 0 (w * h * 4) = Some ?data"
      using sz fit by (simp add: u8_view_def)
    have "wf_action (ABlit ?data x y w h)" using sz fit by (simp add: min_def)
    from renderQPush_drawn [OF inv this] show ?thesis
      using False BlitImage view sz fit by (simp add: blitImage_def)
  qed
next
  case (ImageRect x y w h mime arr)
  let ?d1 = "d\<lparr>nextImg := Suc (nextImg d)\<rparr>"
  have "disp_inv ?d1" "drawn ?d1 = drawn d" using inv by (simp_all add: disp_inv_def drawn_def)
  then show ?thesis
    using renderQPush_drawn [of ?d1 "AImg (nextImg d) (''data: '' @ mime @ '';base64,'' @ encode arr) x y w h"]
      inv ImageRect by (simp add: imageRect_def Let_def)
next
  case (VideoFrame x y w h frame)
  then show ?thesis
    using renderQPush_drawn [OF inv, of "AFrame frame x y w h"] by (simp add: videoFrame_def)
qed

lemma exec_draw_drawn:
  assumes "disp_inv d" and "wf_draw dr" and "renderQ d \<noteq> [] \<longrightarrow> buffer_start dr"
  shows "disp_inv (fst (exec_draw d dr)) \<and> drawn (fst (exec_draw d dr)) = drawn d @ draw_ops dr \<and>
    snd (exec_draw d dr) = Inr ()"
  using exec_draw_made [OF assms(1,2)] made_at_start [OF assms(3)] by simp

subsection \<open>Any interleaving of draws, flips and decode notifications\<close>

datatype devent =
    EDraw draw
  | EFlip
  | EFlush
  | EImg nat "int \<times> int"
  | EFrame nat "int \<times> int"

definition display_step :: "display \<Rightarrow> devent \<Rightarrow> display" where
  "display_step d e =
     (case e of
        EDraw dr \<Rightarrow> fst (exec_draw d dr)
      | EFlip \<Rightarrow> fst (flip d)
      | EFlush \<Rightarrow> fst (display_flush d)
      | EImg img dims \<Rightarrow> fst (img_load d img dims)
      | EFrame frame dims \<Rightarrow> fst (frame_ready d frame dims))"

fun event_ops :: "devent \<Rightarrow> canvas_op list" where
  "event_ops (EDraw dr) = draw_ops dr"
| "event_ops _ = []"

fun wf_event :: "devent \<Rightarrow> bool" where
  "wf_event (EDraw dr) = wf_draw dr"
| "wf_event _ = True"

text \<open>What each event of a run draws, by the queue it finds.\<close>

fun event_made :: "bool \<Rightarrow> devent \<Rightarrow> canvas_op list" where
  "event_made queued (EDraw dr) = made_ops queued dr"
| "event_made queued _ = []"

fun run_ops :: "display \<Rightarrow> devent list \<Rightarrow> canvas_op list" where
  "run_ops d [] = []"
| "run_ops d (e # es) = event_made (renderQ d \<noteq> []) e @ run_ops (display_step d e) es"

fun event_start :: "devent \<Rightarrow> bool" where
  "event_start (EDraw dr) = buffer_start dr"
| "event_start _ = True"

lemma event_made_start: "queued \<longrightarrow> event_start e \<Longrightarrow> event_made queued e = event_ops e"
  by (cases e) (simp_all add: made_at_start)

lemma run_ops_start: "list_all event_start es \<Longrightarrow> run_ops d es = concat (map event_ops es)"
  by (induction es arbitrary: d) (simp_all add: event_made_start)

lemma flip_drawn: "disp_inv d \<Longrightarrow> disp_inv (fst (flip d)) \<and> drawn (fst (flip d)) = drawn d"
  using renderQPush_drawn [of d AFlip] by (auto simp: flip_def drawn_def disp_inv_def)

lemma img_load_drawn:
  assumes "disp_inv d"
  shows "disp_inv (fst (img_load d img dims)) \<and> drawn (fst (img_load d img dims)) = drawn d"
proof -
  let ?d1 = "d\<lparr>imgs := (imgs d)(img := Some dims)\<rparr>"
  let ?d2 = "?d1\<lparr>img_listen := removeAll img (img_listen d)\<rparr>"
  have "disp_inv ?d1" "drawn ?d1 = drawn d" "disp_inv ?d2" "drawn ?d2 = drawn d"
    using assms by (simp_all add: disp_inv_def drawn_def)
  then show ?thesis using scanRenderQ_drawn [of ?d2] by (auto simp: img_load_def Let_def)
qed

lemma frame_continuations_drawn:
  "disp_inv d \<Longrightarrow> disp_inv (fst (frame_continuations fs d)) \<and> drawn (fst (frame_continuations fs d)) = drawn d"
proof (induction fs arbitrary: d)
  case Nil
  then show ?case by simp
next
  case (Cons f fs)
  obtain d' where "scanRenderQ d = (d', Inr ())" "disp_inv d'" "drawn d' = drawn d"
    using scanRenderQ_drawn [OF Cons.prems] by (cases "scanRenderQ d") auto
  with Cons.IH [of d'] show ?case by simp
qed

lemma frame_ready_drawn:
  assumes "disp_inv d"
  shows "disp_inv (fst (frame_ready d frame dims)) \<and> drawn (fst (frame_ready d frame dims)) = drawn d"
proof -
  let ?d2 = "d\<lparr>frames := (frames d)(frame := Some dims),
               frame_listen := filter (\<lambda>f. f \<noteq> frame) (frame_listen d)\<rparr>"
  have "disp_inv ?d2" "drawn ?d2 = drawn d" using assms by (simp_all add: disp_inv_def drawn_def)
  then show ?thesis
    using frame_continuations_drawn [of ?d2] by (simp add: frame_ready_def Let_def)
qed

lemma display_step_drawn:
  assumes "disp_inv d" and "wf_event e"
  shows "disp_inv (display_step d e) \<and> drawn (display_step d e) = drawn d @ event_made (renderQ d \<noteq> []) e"
proof (cases e)
  case (EDraw dr)
  then show ?thesis using exec_draw_made [of d dr] assms by (simp add: display_step_def)
next
  case EFlip
  then show ?thesis using flip_drawn [OF assms(1)] by (simp add: display_step_def)
next
  case EFlush
  then show ?thesis
    using assms by (simp add: display_step_def display_flush_def drawn_def disp_inv_def)
next
  case (EImg img dims)
  then show ?thesis using img_load_drawn [OF assms(1)] by (simp add: display_step_def)
next
  case (EFrame frame dims)
  then show ?thesis using frame_ready_drawn [OF assms(1)] by (simp add: display_step_def)
qed

lemma display_run_drawn:
  "disp_inv d \<Longrightarrow> list_all wf_event es \<Longrightarrow>
     disp_inv (foldl display_step d es) \<and> drawn (foldl display_step d es) = drawn d @ run_ops d es"
proof (induction es arbitrary: d)
  case Nil
  then show ?case by simp
next
  case (Cons e es)
  then have "disp_inv (display_step d e) \<and> drawn (display_step d e) = drawn d @ event_made (renderQ d \<noteq> []) e"
    by (intro display_step_drawn) auto
  with Cons show ?case by simp
qed

subsection \<open>A queue whose images have decoded drains\<close>

fun ready_action :: "display \<Rightarrow> action \<Rightarrow> bool" where
  "ready_action d (AImg img src x y w h) = (imgs d img = Some (w, h))"
| "ready_action d (AFrame frame x y w h) = (frames d frame \<noteq> None)"
| "ready_action d _ = True"

lemma do_action_ready:
  assumes "disp_inv d" "wf_action a" "ready_action d a"
  shows "\<exists>d'. do_action d a = (d', Shift) \<and> imgs d' = imgs d \<and> frames d' = frames d \<and>
    flushPromise d' = flushPromise d \<and> flushResolved d' = flushResolved d"
  using assms
  by (cases a)
    (auto simp: do_action_def copyImage_now_def drawImage_img_def drawImage_frame_def
      fillRect_now_def blitImage_now_def whole_view_def u8_view_def Let_def)

lemma ready_action_cong:
  "imgs d' = imgs d \<Longrightarrow> frames d' = frames d \<Longrightarrow> ready_action d' = ready_action d"
proof (rule ext)
  fix a
  assume "imgs d' = imgs d" "frames d' = frames d"
  then show "ready_action d' a = ready_action d a" by (cases a) simp_all
qed

lemma scan_loop_ready:
  "disp_inv d \<Longrightarrow> list_all (ready_action d) (renderQ d) \<Longrightarrow>
     \<exists>d'. scan_loop d = (d', Shift) \<and> renderQ d' = [] \<and> flushPromise d' = flushPromise d \<and>
       flushResolved d' = flushResolved d"
proof (induction d rule: scan_loop.induct)
  case (1 d)
  show ?case
  proof (cases "renderQ d")
    case Nil
    then show ?thesis by (simp add: scan_loop.simps [of d])
  next
    case (Cons a as)
    then have a: "wf_action a" "ready_action d a" "list_all (ready_action d) as"
      using "1.prems" by (auto simp: disp_inv_def)
    obtain d' where da: "do_action d a = (d', Shift)" and keep: "imgs d' = imgs d" "frames d' = frames d"
        "flushPromise d' = flushPromise d" "flushResolved d' = flushResolved d"
      using do_action_ready [OF "1.prems"(1) a(1,2)] by auto
    let ?d2 = "d'\<lparr>renderQ := as\<rparr>"
    have inv: "disp_inv ?d2"
      using do_action_ops [OF "1.prems"(1) a(1) da] "1.prems"(1) Cons by (simp add: disp_inv_def)
    have "ready_action ?d2 = ready_action d" using keep by (intro ready_action_cong) simp_all
    then have rd: "list_all (ready_action ?d2) (renderQ ?d2)" using a by simp
    show ?thesis
      using "1.IH" [OF Cons da [symmetric] refl inv rd] Cons da keep
      by (simp add: scan_loop.simps [of d])
  qed
qed

subsection \<open>An image of the wrong size blocks the queue\<close>

lemma scan_blocked:
  assumes "renderQ d = AImg img src x y w h # as" and "imgs d img = Some dims" and "dims \<noteq> (w, h)"
  shows "scanRenderQ d = (d, Inr ())"
proof -
  have "fst dims \<noteq> w \<or> snd dims \<noteq> h" using assms(3) by (cases dims) auto
  then have "do_action d (AImg img src x y w h) = (d, Abort)" using assms(2) by (auto simp: do_action_def)
  then show ?thesis using assms(1) by (simp add: scanRenderQ_def scan_loop.simps [of d])
qed

section \<open>The visible part of the damage\<close>

definition in_rect :: "int \<Rightarrow> int \<Rightarrow> int \<Rightarrow> int \<Rightarrow> int \<Rightarrow> int \<Rightarrow> bool" where
  "in_rect x y w h px py \<longleftrightarrow> x \<le> px \<and> px < x + w \<and> y \<le> py \<and> py < y + h"

definition in_damage :: "display \<Rightarrow> int \<Rightarrow> int \<Rightarrow> bool" where
  "in_damage d px py \<longleftrightarrow> dmg_left d \<le> px \<and> px < dmg_right d \<and> dmg_top d \<le> py \<and> py < dmg_bottom d"

lemma damage_covers:
  "in_damage d px py \<or> in_rect x y w h px py \<Longrightarrow> in_damage (damage d x y w h) px py"
  by (auto simp: in_damage_def in_rect_def damage_def Let_def)

lemma flip_region_spec:
  assumes "flip_region d = (x, y, w, h, vx, vy)"
  shows "in_rect x y w h px py \<longleftrightarrow>
      in_damage d px py \<and> in_rect (vp_x d) (vp_y d) (vp_w d) (vp_h d) px py"
    and "vx = x - vp_x d" and "vy = y - vp_y d"
  using assms
  by (auto simp: flip_region_def Let_def in_rect_def in_damage_def split: if_splits)

section \<open>Properties\<close>

text \<open>
  C10. Drawing order is call order: whatever the interleaving of drawing calls, flips, flushes
  and decode notifications, the calls made on the back buffer followed by those still queued
  are exactly the operations of the calls, in the order of the calls; once the queue is empty the back buffer has received
  all of them, in that order. A call draws what it asks for, with one exception that \<open>made_ops\<close> states: a blit made while
  the queue holds something draws the bytes at the start of its array's buffer, not those of its view. When
  every view begins its buffer, everything drawn is what was requested. The blits are of at least one pixel and lie within
  their buffer, and a fill names its colour.
\<close>

theorem rendering_in_order:
  assumes "disp_inv d" and "list_all wf_event es"
  shows "drawn (foldl display_step d es) = drawn d @ run_ops d es \<and>
    (renderQ (foldl display_step d es) = [] \<longrightarrow> bb_log (foldl display_step d es) = drawn d @ run_ops d es) \<and>
    (list_all event_start es \<longrightarrow> run_ops d es = concat (map event_ops es))"
  using display_run_drawn [OF assms] run_ops_start [of es d] by (auto simp: drawn_def)

definition sample_display :: display where
  "sample_display = new_Display 4 4 4 4"

text \<open>The view of the first blit begins at byte 4 and nothing is queued; the second finds the image in the queue.\<close>

definition sample_view :: u8view where
  "sample_view = \<lparr>v_buffer = [0, 1, 2, 3, 4, 5, 6, 7], v_byteOffset = 4, v_length = 4\<rparr>"

definition sample_events :: "devent list" where
  "sample_events = [EDraw (BlitImage 0 0 1 1 sample_view 0), EDraw (ImageRect 0 0 2 2 ''image/png'' [1, 2, 3]),
     EDraw (FillRect 1 1 2 2 (Some [9, 8, 7])), EFlip, EDraw (BlitImage 1 0 1 1 sample_view 0), EImg 0 (2, 2)]"

theorem rendering_in_order_witness:
  "disp_inv sample_display \<and> list_all wf_event sample_events \<and>
   drawn (foldl display_step sample_display sample_events) =
     [OpPut [4, 5, 6, 7] 0 0 1 1, OpImage ''data: image/png;base64,AQID'' 0 0, OpFill (9, 8, 7) 1 1 2 2, OpPut [0, 1, 2, 3] 1 0 1 1]"
proof -
  have h: "disp_inv sample_display" "list_all wf_event sample_events"
    by (simp_all add: sample_display_def sample_events_def sample_view_def disp_inv_def new_Display_def)
  have d: "drawn sample_display = []" by (simp add: sample_display_def drawn_def new_Display_def)
  have "run_ops sample_display sample_events =
     [OpPut [4, 5, 6, 7] 0 0 1 1, OpImage ''data: image/png;base64,AQID'' 0 0, OpFill (9, 8, 7) 1 1 2 2, OpPut [0, 1, 2, 3] 1 0 1 1]"
    by code_simp
  then show ?thesis using h rendering_in_order [OF h] d by simp
qed

text \<open>
  When every queued image and frame has decoded with its expected size, one scan renders
  the whole queue, empties it, and resolves the pending flush promise exactly once.
\<close>

theorem ready_queue_drains:
  assumes "disp_inv d" and "list_all (ready_action d) (renderQ d)"
  shows "\<exists>d'. scanRenderQ d = (d', Inr ()) \<and> renderQ d' = [] \<and> \<not> flushPromise d' \<and>
    flushResolved d' = flushResolved d + (if flushPromise d then 1 else 0) \<and>
    bb_log d' = bb_log d @ concat (map action_ops (renderQ d))"
proof -
  obtain d1 where l: "scan_loop d = (d1, Shift)" "renderQ d1 = []" "flushPromise d1 = flushPromise d"
      "flushResolved d1 = flushResolved d"
    using scan_loop_ready [OF assms] by auto
  have "bb_log d1 = drawn d" using scan_loop_drawn [OF assms(1)] l by (simp add: drawn_def)
  then show ?thesis using l by (simp add: scanRenderQ_def drawn_def)
qed

definition sample_queue :: display where
  "sample_queue = (new_Display 4 4 4 4)\<lparr>renderQ := [AImg 0 ''data:'' 0 0 2 2, AFlip],
     flushPromise := True, imgs := (\<lambda>_. Some (2, 2))\<rparr>"

theorem ready_queue_drains_witness:
  "disp_inv sample_queue \<and> list_all (ready_action sample_queue) (renderQ sample_queue) \<and>
   (\<exists>d'. scanRenderQ sample_queue = (d', Inr ()) \<and> renderQ d' = [] \<and> bb_log d' = [OpImage ''data:'' 0 0])"
proof -
  have h: "disp_inv sample_queue" "list_all (ready_action sample_queue) (renderQ sample_queue)"
    by (simp_all add: sample_queue_def disp_inv_def new_Display_def)
  have q: "bb_log sample_queue @ concat (map action_ops (renderQ sample_queue)) = [OpImage ''data:'' 0 0]"
    by (simp add: sample_queue_def new_Display_def)
  show ?thesis using h ready_queue_drains [OF h] q by auto
qed

definition stuck_at :: "nat \<Rightarrow> display \<Rightarrow> bool" where
  "stuck_at img d \<longleftrightarrow> (\<exists>src x y w h as dims.
     renderQ d = AImg img src x y w h # as \<and> imgs d img = Some dims \<and> dims \<noteq> (w, h))"

lemma stuck_at_scan: "stuck_at img d \<Longrightarrow> scanRenderQ d = (d, Inr ())"
  by (auto simp: stuck_at_def intro: scan_blocked)

lemma stuck_at_frames: "stuck_at img d \<Longrightarrow> frame_continuations fs d = (d, Inr ())"
  by (induction fs) (simp_all add: stuck_at_scan)

lemma stuck_at_cong:
  "renderQ d' = renderQ d @ as \<Longrightarrow> imgs d' img = imgs d img \<Longrightarrow> stuck_at img d \<Longrightarrow> stuck_at img d'"
  by (auto simp: stuck_at_def)

lemma stuck_at_push: "stuck_at img d \<Longrightarrow> renderQPush d a = (d\<lparr>renderQ := renderQ d @ [a]\<rparr>, Inr ())"
  by (auto simp: stuck_at_def renderQPush_def Let_def)

lemma stuck_at_nonempty: "stuck_at img d \<Longrightarrow> renderQ d \<noteq> []"
  by (auto simp: stuck_at_def)

lemma stuck_at_draw:
  assumes "stuck_at img d"
  shows "stuck_at img (fst (exec_draw d dr)) \<and> bb_log (fst (exec_draw d dr)) = bb_log d"
proof -
  have push: "stuck_at img (d\<lparr>renderQ := renderQ d @ [a]\<rparr>)" for a
    using assms by (auto intro: stuck_at_cong [of _ d "[a]"])
  have nxt: "stuck_at img (d\<lparr>nextImg := n\<rparr>)" for n
    using assms by (auto intro: stuck_at_cong [of _ d "[]"])
  have push2: "stuck_at img (d\<lparr>nextImg := n, renderQ := renderQ d @ [a]\<rparr>)" for a n
    using assms by (auto intro: stuck_at_cong [of _ d "[a]"])
  show ?thesis
    using assms stuck_at_nonempty [OF assms]
    by (cases dr)
      (auto simp: fillRect_def copyImage_def blitImage_def imageRect_def videoFrame_def Let_def
        stuck_at_push [OF assms] stuck_at_push [OF nxt] push push2 split: option.splits)
qed

lemma stuck_at_step:
  assumes "stuck_at img d" and "\<forall>dims. e \<noteq> EImg img dims"
  shows "stuck_at img (display_step d e) \<and> bb_log (display_step d e) = bb_log d"
proof (cases e)
  case (EDraw dr)
  then show ?thesis using stuck_at_draw [OF assms(1)] by (simp add: display_step_def)
next
  case EFlip
  then show ?thesis
    using assms(1) stuck_at_nonempty [OF assms(1)] stuck_at_push [OF assms(1)]
    by (auto simp: display_step_def flip_def intro: stuck_at_cong [of _ d "[AFlip]"])
next
  case EFlush
  then show ?thesis
    using assms(1) by (auto simp: display_step_def display_flush_def intro: stuck_at_cong [of _ d "[]"])
next
  case (EImg img' dims)
  then have "img' \<noteq> img" using assms(2) by auto
  then have s: "stuck_at img (d\<lparr>imgs := (imgs d)(img' := Some dims), img_listen := l\<rparr>)" for l
    using assms(1) by (auto intro: stuck_at_cong [of _ d "[]"])
  from s [of "img_listen d"] have "stuck_at img (d\<lparr>imgs := (imgs d)(img' := Some dims)\<rparr>)" by simp
  with EImg s show ?thesis by (auto simp: display_step_def img_load_def Let_def stuck_at_scan [OF s])
next
  case (EFrame frame dims)
  have s: "stuck_at img (d\<lparr>frames := (frames d)(frame := Some dims), frame_listen := l\<rparr>)" for l
    using assms(1) by (auto intro: stuck_at_cong [of _ d "[]"])
  with EFrame show ?thesis by (auto simp: display_step_def frame_ready_def Let_def stuck_at_frames [OF s])
qed

text \<open>
  An image that decoded with another size than its rectangle blocks the queue for good: it
  stays at the head and nothing more reaches the back buffer, whatever is drawn or decoded
  afterwards.
\<close>

theorem wrong_size_image_blocks:
  assumes "stuck_at img d" and "\<forall>e \<in> set es. \<forall>dims. e \<noteq> EImg img dims"
  shows "stuck_at img (foldl display_step d es) \<and> bb_log (foldl display_step d es) = bb_log d"
  using assms
proof (induction es arbitrary: d)
  case Nil
  then show ?case by simp
next
  case (Cons e es)
  then show ?case using stuck_at_step [OF Cons.prems(1), of e] by simp
qed

definition blocked_display :: display where
  "blocked_display = (new_Display 4 4 4 4)\<lparr>renderQ := [AImg 0 ''data:'' 0 0 2 2],
     imgs := (\<lambda>_. Some (2, 1))\<rparr>"

theorem wrong_size_image_blocks_witness:
  "stuck_at 0 blocked_display \<and>
   bb_log (foldl display_step blocked_display
     [EDraw (FillRect 0 0 1 1 (Some [1, 2, 3])), EFlip, EImg 7 (1, 1)]) = []"
proof -
  have h: "stuck_at 0 blocked_display" and "bb_log blocked_display = []"
    by (simp_all add: blocked_display_def stuck_at_def new_Display_def)
  with wrong_size_image_blocks
      [OF h, of "[EDraw (FillRect 0 0 1 1 (Some [1, 2, 3])), EFlip, EImg 7 (1, 1)]"]
  show ?thesis by simp
qed

text \<open>
  After \<open>resize\<close> (for any framebuffer size and any earlier viewport) the viewport lies
  inside the framebuffer, and covers all of it unless clipping is on; \<open>resize\<close> never fails.
\<close>

theorem resize_viewport_inside:
  assumes "0 \<le> vp_x d" "0 \<le> vp_y d" "0 \<le> vp_w d" "0 \<le> vp_h d" "0 \<le> width" "0 \<le> height"
  shows "\<exists>d'. resize d width height = (d', Inr ()) \<and> vp_inv d' \<and> fbWidth d' = width \<and> fbHeight d' = height"
  using assms by (rule resize_total)

theorem resize_viewport_inside_witness:
  "\<exists>d'. resize (new_Display 300 150 300 150) 1024 768 = (d', Inr ()) \<and> vp_inv d' \<and>
     fbWidth d' = 1024 \<and> fbHeight d' = 768"
  by (rule resize_viewport_inside) (simp_all add: new_Display_def)

text \<open>
  Moving the viewport by any distance, or switching clipping, keeps it inside the
  framebuffer.
\<close>

theorem viewport_moves_inside:
  assumes "vp_inv d"
  shows "vp_inv (fst (viewportChangePos d dX dY)) \<and>
    (\<exists>d'. set_clipViewport d c = (d', Inr ()) \<and> vp_inv d' \<and> clipViewport d' = c)"
  using viewportChangePos_inv [OF vp_inv_pre [OF assms]] set_clipViewport_total [OF assms] by blast

definition clipped_display :: display where
  "clipped_display = (new_Display 4 4 9 9)\<lparr>fbWidth := 9, fbHeight := 9, clipViewport := True\<rparr>"

theorem viewport_moves_inside_witness:
  "vp_inv clipped_display \<and> vp_inv (fst (viewportChangePos clipped_display 100 (- 3)))"
proof -
  have "vp_inv clipped_display" by (simp add: clipped_display_def vp_inv_def new_Display_def)
  with viewport_moves_inside [OF this, of 100 "- 3" True] show ?thesis by blast
qed

text \<open>
  A flip copies exactly the pixels that are damaged and visible, to their place in the
  viewport, and leaves no damage behind.
\<close>

theorem flip_copies_visible_damage:
  assumes "flip_region d = (x, y, w, h, vx, vy)"
  shows "(in_rect x y w h px py \<longleftrightarrow>
      in_damage d px py \<and> in_rect (vp_x d) (vp_y d) (vp_w d) (vp_h d) px py) \<and>
    vx = x - vp_x d \<and> vy = y - vp_y d \<and>
    tgt_log (flip_now d) = tgt_log d @ (if w > 0 \<and> h > 0 then [(x, y, w, h, vx, vy)] else []) \<and>
    \<not> in_damage (flip_now d) px' py'"
  using flip_region_spec [OF assms] assms by (auto simp: flip_now_def in_damage_def Let_def)

definition damaged_display :: display where
  "damaged_display = (new_Display 4 4 9 9)\<lparr>vp_x := 2, vp_y := 2, dmg_left := 0, dmg_top := 3\<rparr>"

theorem flip_copies_visible_damage_witness:
  "flip_region damaged_display = (2, 3, 4, 3, 0, 1) \<and>
   tgt_log (flip_now damaged_display) = [(2, 3, 4, 3, 0, 1)]"
proof -
  have h: "flip_region damaged_display = (2, 3, 4, 3, 0, 1)" and "tgt_log damaged_display = []"
    by (simp_all add: damaged_display_def flip_region_def new_Display_def)
  then show ?thesis using flip_copies_visible_damage [OF h] by simp
qed

text \<open>
  Automatic scaling: the scaled viewport fits the container in both directions and fills it
  in at least one, so the picture is as large as its aspect ratio allows.
\<close>

theorem autoscale_fits:
  assumes "0 < cw" "0 < ch" "0 < vp_w d" "0 < vp_h d"
  shows "0 < scale (autoscale d cw ch) \<and>
    scale (autoscale d cw ch) * of_int (vp_w d) \<le> cw \<and>
    scale (autoscale d cw ch) * of_int (vp_h d) \<le> ch \<and>
    (scale (autoscale d cw ch) * of_int (vp_w d) = cw \<or>
     scale (autoscale d cw ch) * of_int (vp_h d) = ch)"
proof -
  have p: "0 < (of_int (vp_w d) :: rat)" "0 < (of_int (vp_h d) :: rat)" using assms by simp_all
  have s: "scale (autoscale d cw ch) = (if of_int (vp_w d) / of_int (vp_h d) \<ge> cw / ch
      then cw / of_int (vp_w d) else ch / of_int (vp_h d))"
    using assms(1-4) by (simp add: autoscale_def rescale_def Let_def)
  show ?thesis using p assms(1,2) by (simp add: s field_simps)
qed

theorem autoscale_fits_witness:
  "scale (autoscale (new_Display 200 100 200 100) 50 50) * 200 \<le> 50"
  using autoscale_fits [of 50 50 "new_Display 200 100 200 100"] by (simp add: new_Display_def)

text \<open>
  A blit is drawn from different bytes when it has to be queued: immediately it uses the
  bytes its view selects, from the queue it uses the first bytes of the underlying buffer, so a
  view that does not begin its buffer (a line of a raw rectangle, which is a window of the
  receive queue) is drawn wrongly while an image is decoding.
\<close>

theorem queued_blit_ignores_offset:
  assumes "0 < w" "0 < h" and "0 \<le> offset"
    and "int (v_byteOffset arr) + offset + w * h * 4 \<le> int (length (v_buffer arr))"
  shows "(renderQ d = [] \<longrightarrow> bb_log (fst (blitImage d x y w h arr offset)) = bb_log d @
      [OpPut (take (nat (w * h * 4)) (drop (v_byteOffset arr + nat offset) (v_buffer arr))) x y w h]) \<and>
    (renderQ d \<noteq> [] \<longrightarrow> renderQ (fst (blitImage d x y w h arr offset)) = renderQ d @
      [ABlit (take (nat (w * h * 4)) (v_buffer arr)) x y w h])"
proof -
  have n: "0 \<le> w * h * 4" using assms by simp
  have v: "u8_view (v_buffer arr) (int (v_byteOffset arr) + offset) (w * h * 4)
      = Some (take (nat (w * h * 4)) (drop (v_byteOffset arr + nat offset) (v_buffer arr)))"
    and v0: "u8_view (v_buffer arr) 0 (w * h * 4) = Some (take (nat (w * h * 4)) (v_buffer arr))"
    using assms n by (simp_all add: u8_view_def nat_add_distrib)
  show ?thesis
    using v v0 assms by (simp add: blitImage_def blitImage_now_def renderQPush_def Let_def)
qed

definition line_view :: u8view where
  "line_view = \<lparr>v_buffer = [1, 1, 1, 1, 9, 9, 9, 9], v_byteOffset = 4, v_length = 4\<rparr>"

theorem queued_blit_ignores_offset_witness:
  "bb_log (fst (blitImage sample_display 0 0 1 1 line_view 0)) = [OpPut [9, 9, 9, 9] 0 0 1 1] \<and>
   renderQ (fst (blitImage (sample_display\<lparr>renderQ := [AFlip]\<rparr>) 0 0 1 1 line_view 0))
     = [AFlip, ABlit [1, 1, 1, 1] 0 0 1 1]"
  using queued_blit_ignores_offset [of 1 1 0 line_view sample_display 0 0]
    queued_blit_ignores_offset [of 1 1 0 line_view "sample_display\<lparr>renderQ := [AFlip]\<rparr>" 0 0]
  by (simp add: line_view_def sample_display_def new_Display_def)

end
