(* ===== verification/Decoder_Base.thy ===== *)
theory Decoder_Base
  imports Websock Display
begin

text \<open>
  What the rectangle decoders share. \<open>decodeRect\<close> reads from the socket, calls drawing methods
  on the display and answers true (rectangle finished), false (more data needed; called again
  when it arrives, continuing from the decoder's fields) or throws. A decoder never reads from
  the display, so its drawing calls are returned as a list, in order.

  The contract every decoder has to meet is the locale \<open>wire_decoder\<close>: its effect is a function
  of the unread bytes only (\<open>spec\<close>), further bytes do not change a finished rectangle, and
  resuming after an interruption does what the uninterrupted call would have done. Its client
  lemma is that the way the byte stream is cut into messages does not matter.
\<close>

datatype outcome = Done | NeedMore | Throws js_error | Hangs  \<comment> \<open>Hangs: the call does not return\<close>

type_synonym 'd decode_result = "'d \<times> websock \<times> draw list \<times> outcome"

text \<open>What a list of drawing calls asks for.\<close>

definition ops :: "draw list \<Rightarrow> canvas_op list" where
  "ops ds = concat (map draw_ops ds)"

lemma ops_Nil [simp]: "ops [] = []"
  by (simp add: ops_def)

lemma ops_Cons [simp]: "ops (dr # ds) = draw_ops dr @ ops ds"
  by (simp add: ops_def)

lemma ops_append [simp]: "ops (ds @ es) = ops ds @ ops es"
  by (simp add: ops_def)

text \<open>
  The client's loop around a decoder: each arriving message is put into the queue and the
  decoder is called, until the rectangle is finished or an error is thrown. Draws accumulate;
  messages not needed are left.
\<close>

fun feed ::
  "('d \<Rightarrow> websock \<Rightarrow> 'd decode_result) \<Rightarrow> 'd \<Rightarrow> websock \<Rightarrow> byte list list \<Rightarrow>
     'd decode_result \<times> byte list list" where
  "feed dec d w [] = ((d, w, [], NeedMore), [])"
| "feed dec d w (c # cs) =
     (case recvMessage w c of
        (w1, Inl e) \<Rightarrow> ((d, w1, [], Throws e), cs)
      | (w1, Inr _) \<Rightarrow>
          (case dec d w1 of
             (d2, w2, ds, NeedMore) \<Rightarrow>
               (case feed dec d2 w2 cs of ((d3, w3, ds', r), rest) \<Rightarrow> ((d3, w3, ds @ ds', r), rest))
           | (d2, w2, ds, r) \<Rightarrow> ((d2, w2, ds, r), cs)))"

locale wire_decoder =
  fixes dec :: "'d \<Rightarrow> websock \<Rightarrow> 'd decode_result"
    and spec :: "'d \<Rightarrow> byte list \<Rightarrow> 'd \<times> nat \<times> canvas_op list \<times> outcome"
    and ok :: "'d \<Rightarrow> bool"
  assumes refines: "rx_inv w \<Longrightarrow> ok d \<Longrightarrow> dec d w = (d', w', ds, r) \<Longrightarrow>
      \<exists>n \<le> length (unread w). spec d (unread w) = (d', n, ops ds, r) \<and> rx_inv w' \<and>
        unread w' = drop n (unread w) \<and> ok d'"
    and stable: "ok d \<Longrightarrow> spec d bs = (d', n, os, r) \<Longrightarrow> r \<noteq> NeedMore \<Longrightarrow>
      spec d (bs @ later) = (d', n, os, r)"
    and resume: "ok d \<Longrightarrow> spec d bs = (d', n, os, NeedMore) \<Longrightarrow>
      spec d (bs @ later) =
        (case spec d' (drop n bs @ later) of (d2, m, os2, r) \<Rightarrow> (d2, n + m, os @ os2, r))"
begin

lemma dec_specE:
  assumes "rx_inv w" and "ok d"
  obtains d' w' ds r n where "dec d w = (d', w', ds, r)" and "spec d (unread w) = (d', n, ops ds, r)"
    and "n \<le> length (unread w)" and "rx_inv w'" and "unread w' = drop n (unread w)" and "ok d'"
proof -
  obtain d' w' ds r where e: "dec d w = (d', w', ds, r)" by (metis surj_pair)
  show thesis using refines [OF assms e] that e by blast
qed

text \<open>Feeding a stream in any chunks is one call on the whole stream.\<close>

lemma feed_spec:
  assumes "rx_inv w" and "ok d" and "cs \<noteq> []"
    and "int (length (unread w)) + int (length (concat cs)) \<le> MAX_RQ_GROW_SIZE"
  shows "\<exists>d' w' ds r rest n. feed dec d w cs = ((d', w', ds, r), rest) \<and>
    spec d (unread w @ concat cs) = (d', n, ops ds, r) \<and>
    unread w' @ concat rest = drop n (unread w @ concat cs) \<and> rx_inv w' \<and> ok d'"
  using assms
proof (induction cs arbitrary: d w)
  case Nil
  then show ?case by simp
next
  case (Cons c cs)
  from Cons.prems(4) have fit: "int (length (unread w)) + int (length c) \<le> MAX_RQ_GROW_SIZE" by simp
  obtain w1 b where w1: "recvMessage w c = (w1, Inr b)" "rx_inv w1" "unread w1 = unread w @ c"
    using ws.recv_okE [OF Cons.prems(1) fit] by metis
  obtain d2 w2 ds r n where d2: "dec d w1 = (d2, w2, ds, r)" "spec d (unread w1) = (d2, n, ops ds, r)"
      "n \<le> length (unread w1)" "rx_inv w2" "unread w2 = drop n (unread w1)" "ok d2"
    using dec_specE [OF w1(2) Cons.prems(2)] by metis
  show ?case
  proof (cases "r = NeedMore")
    case False
    have "feed dec d w (c # cs) = ((d2, w2, ds, r), cs)"
      using w1 d2 False by (cases r) simp_all
    moreover have "spec d (unread w @ concat (c # cs)) = (d2, n, ops ds, r)"
      using stable [OF Cons.prems(2) d2(2) False, of "concat cs"] w1 by simp
    moreover have "unread w2 @ concat cs = drop n (unread w @ concat (c # cs))"
      using d2 w1 by simp
    ultimately show ?thesis using d2 by blast
  next
    case True
    show ?thesis
    proof (cases "cs = []")
      case True2: True
      then show ?thesis
        using w1 d2 True by auto
    next
      case False
      have "int (length (unread w2)) + int (length (concat cs)) \<le> MAX_RQ_GROW_SIZE"
        using d2 w1 Cons.prems(4) by simp
      from Cons.IH [OF d2(4,6) False this] obtain d3 w3 ds3 r3 rest n3 where
        f3: "feed dec d2 w2 cs = ((d3, w3, ds3, r3), rest)"
          "spec d2 (unread w2 @ concat cs) = (d3, n3, ops ds3, r3)"
          "unread w3 @ concat rest = drop n3 (unread w2 @ concat cs)" "rx_inv w3" "ok d3"
        by auto
      have "feed dec d w (c # cs) = ((d3, w3, ds @ ds3, r3), rest)"
        using w1 d2 True f3 by simp
      moreover have "spec d (unread w @ concat (c # cs)) = (d3, n + n3, ops (ds @ ds3), r3)"
        using resume [OF Cons.prems(2) d2(2) [unfolded True], of "concat cs"] f3 w1 d2 by simp
      moreover have "unread w3 @ concat rest = drop (n + n3) (unread w @ concat (c # cs))"
      proof -
        have "unread w2 @ concat cs = drop n (unread w1 @ concat cs)"
          using d2(3,5) by simp
        then have "unread w3 @ concat rest = drop (n3 + n) (unread w1 @ concat cs)"
          using f3(3) by (simp only: drop_drop)
        then show ?thesis by (simp only: w1(3) concat.simps append_assoc add.commute)
      qed
      ultimately show ?thesis using f3 by blast
    qed
  qed
qed

lemma feed_outcome:
  assumes "rx_inv w" and "ok d" and "cs \<noteq> []"
    and "int (length (unread w @ concat cs)) \<le> MAX_RQ_GROW_SIZE"
    and "spec d (unread w @ concat cs) = (d', n, os, r)"
  shows "\<exists>w' ds rest. feed dec d w cs = ((d', w', ds, r), rest) \<and> ops ds = os \<and>
    unread w' @ concat rest = drop n (unread w @ concat cs) \<and> rx_inv w'"
proof -
  have "int (length (unread w)) + int (length (concat cs)) \<le> MAX_RQ_GROW_SIZE"
    using assms(4) by simp
  from feed_spec [OF assms(1-3) this] assms(5) show ?thesis by auto
qed

lemma feed_chunking:
  assumes "rx_inv w" and "ok d" and "cs \<noteq> []"
    and "int (length (unread w)) + int (length (concat cs)) \<le> MAX_RQ_GROW_SIZE"
    and "feed dec d w cs = ((d1, w1, ds1, r1), rest1)"
    and "feed dec d w [concat cs] = ((d2, w2, ds2, r2), rest2)"
  shows "d1 = d2 \<and> r1 = r2 \<and> ops ds1 = ops ds2 \<and> unread w1 @ concat rest1 = unread w2"
proof -
  have "concat [concat cs] = concat cs" by simp
  moreover have "rest2 = []"
    using assms(6) by (auto split: prod.splits sum.splits outcome.splits)
  ultimately show ?thesis
    using feed_spec [OF assms(1-4)] feed_spec [OF assms(1,2), of "[concat cs]"] assms(4-6)
    by auto
qed

end

section \<open>Repeated items\<close>

text \<open>
  Several encodings are a counted sequence of items (subrectangles, lines, tiles). An item
  parser sees how many items follow, the decoder's state and the unread bytes; it waits, fails,
  or succeeds, consuming some bytes and drawing.
\<close>

datatype 's item =
    Wait
  | Fail 's nat "canvas_op list" js_error
  | Ok 's nat "canvas_op list"

primrec repeat_items ::
  "(nat \<Rightarrow> 's \<Rightarrow> byte list \<Rightarrow> 's item) \<Rightarrow> nat \<Rightarrow> 's \<Rightarrow> byte list \<Rightarrow>
     nat \<times> 's \<times> nat \<times> canvas_op list \<times> outcome" where
  "repeat_items it 0 s bs = (0, s, 0, [], Done)"
| "repeat_items it (Suc k) s bs =
     (case it k s bs of
        Wait \<Rightarrow> (Suc k, s, 0, [], NeedMore)
      | Fail s' n os e \<Rightarrow> (Suc k, s', n, os, Throws e)
      | Ok s' n os \<Rightarrow>
          (case repeat_items it k s' (drop n bs) of
             (k', s'', m, os', r) \<Rightarrow> (k', s'', n + m, os @ os', r)))"

locale item_parser =
  fixes it :: "nat \<Rightarrow> 's \<Rightarrow> byte list \<Rightarrow> 's item"
  assumes item_stable: "it k s bs \<noteq> Wait \<Longrightarrow> it k s (bs @ later) = it k s bs"
    and item_Ok: "it k s bs = Ok s' n os \<Longrightarrow> n \<le> length bs"
    and item_Fail: "it k s bs = Fail s' n os e \<Longrightarrow> n \<le> length bs"
begin

lemma repeat_consumes: "repeat_items it k s bs = (k', s', n, os, r) \<Longrightarrow> n \<le> length bs"
proof (induction k arbitrary: s bs n os)
  case 0
  then show ?case by simp
next
  case (Suc k)
  show ?case
  proof (cases "it k s bs")
    case (Ok s1 n1 os1)
    obtain k2 s2 m os2 r2 where rec: "repeat_items it k s1 (drop n1 bs) = (k2, s2, m, os2, r2)"
      by (metis surj_pair)
    with Suc.prems Ok have eq: "k2 = k'" "s2 = s'" "r2 = r" "n = n1 + m" by auto
    have "m \<le> length (drop n1 bs)" using rec by (intro Suc.IH) (simp add: eq)
    then show ?thesis using item_Ok [OF Ok] eq by simp
  qed (use Suc.prems item_Fail in auto)
qed

lemma repeat_NeedMore: "repeat_items it k s bs = (k', s', n, os, NeedMore) \<Longrightarrow> 0 < k'"
proof (induction k arbitrary: s bs n os)
  case 0
  then show ?case by simp
next
  case (Suc k)
  then show ?case by (auto split: item.splits prod.splits)
qed

lemma repeat_stable:
  "repeat_items it k s bs = (k', s', n, os, r) \<Longrightarrow> r \<noteq> NeedMore \<Longrightarrow>
     repeat_items it k s (bs @ later) = (k', s', n, os, r)"
proof (induction k arbitrary: s bs n os)
  case 0
  then show ?case by simp
next
  case (Suc k)
  show ?case
  proof (cases "it k s bs")
    case Wait
    with Suc.prems show ?thesis by simp
  next
    case (Fail s1 n1 os1 e)
    with Suc.prems item_stable [of k s bs later] show ?thesis by auto
  next
    case (Ok s1 n1 os1)
    obtain k2 s2 m os2 r2 where rec: "repeat_items it k s1 (drop n1 bs) = (k2, s2, m, os2, r2)"
      by (metis surj_pair)
    with Suc.prems Ok have eq: "k2 = k'" "s2 = s'" "r2 = r" "n = n1 + m" "os = os1 @ os2" by auto
    have "repeat_items it k s1 (drop n1 bs @ later) = (k', s', m, os2, r)"
      using rec Suc.prems(2) by (intro Suc.IH) (simp_all add: eq)
    then show ?thesis
      using item_stable [of k s bs later] item_Ok [OF Ok] Ok eq by simp
  qed
qed

lemma repeat_resume:
  "repeat_items it k s bs = (k', s', n, os, NeedMore) \<Longrightarrow>
     repeat_items it k s (bs @ later) =
       (case repeat_items it k' s' (drop n bs @ later) of
          (k2, s2, m, os2, r) \<Rightarrow> (k2, s2, n + m, os @ os2, r))"
proof (induction k arbitrary: s bs n os)
  case 0
  then show ?case by simp
next
  case (Suc k)
  show ?case
  proof (cases "it k s bs")
    case Wait
    with Suc.prems have "k' = Suc k" "s' = s" "n = 0" "os = []" by auto
    then show ?thesis by (simp split: prod.split)
  next
    case (Fail s1 n1 os1 e)
    with Suc.prems show ?thesis by simp
  next
    case (Ok s1 n1 os1)
    obtain k2 s2 m os2 r2 where rec: "repeat_items it k s1 (drop n1 bs) = (k2, s2, m, os2, r2)"
      by (metis surj_pair)
    with Suc.prems Ok have eq: "k2 = k'" "s2 = s'" "r2 = NeedMore" "n = n1 + m" "os = os1 @ os2" by auto
    have IH: "repeat_items it k s1 (drop n1 bs @ later) =
       (case repeat_items it k' s' (drop m (drop n1 bs) @ later) of
          (k2, s2, m', os', r) \<Rightarrow> (k2, s2, m + m', os2 @ os', r))"
      using rec by (intro Suc.IH) (simp add: eq)
    show ?thesis
      using IH item_stable [of k s bs later] item_Ok [OF Ok] Ok eq
      by (simp add: add.commute split: prod.split)
  qed
qed

end

text \<open>
  A loop that handles one item per iteration, keeping its progress in the state: what one
  iteration does lifts to the whole loop.
\<close>

locale item_loop = item_parser it
  for it :: "nat \<Rightarrow> 's \<Rightarrow> byte list \<Rightarrow> 's item" +
  fixes loop :: "nat \<Rightarrow> 's \<Rightarrow> websock \<Rightarrow> 's decode_result"
    and ok :: "nat \<Rightarrow> 's \<Rightarrow> bool"
  assumes loop_0: "loop 0 d w = (d, w, [], Done)"
    and loop_Wait: "rx_inv w \<Longrightarrow> ok (Suc k) d \<Longrightarrow> it k d (unread w) = Wait \<Longrightarrow>
      loop (Suc k) d w = (d, w, [], NeedMore)"
    and loop_Fail: "rx_inv w \<Longrightarrow> ok (Suc k) d \<Longrightarrow> it k d (unread w) = Fail d1 n os e \<Longrightarrow>
      \<exists>w1 ds. loop (Suc k) d w = (d1, w1, ds, Throws e) \<and> ops ds = os \<and> rx_inv w1 \<and>
        unread w1 = drop n (unread w) \<and> ok (Suc k) d1"
    and loop_Ok: "rx_inv w \<Longrightarrow> ok (Suc k) d \<Longrightarrow> it k d (unread w) = Ok d1 n os \<Longrightarrow>
      \<exists>w1 ds. loop (Suc k) d w = (case loop k d1 w1 of (d2, w2, ds2, r) \<Rightarrow> (d2, w2, ds @ ds2, r)) \<and>
        ops ds = os \<and> rx_inv w1 \<and> unread w1 = drop n (unread w) \<and> ok k d1"
begin

lemma loop_refines:
  assumes "rx_inv w" and "ok k d" and "loop k d w = (d', w', ds, r)"
  shows "\<exists>n\<le>length (unread w). \<exists>k'. repeat_items it k d (unread w) = (k', d', n, ops ds, r) \<and>
    rx_inv w' \<and> unread w' = drop n (unread w) \<and> ok k' d'"
  using assms
proof (induction k arbitrary: d w ds)
  case 0
  then show ?case by (simp add: loop_0)
next
  case (Suc k)
  show ?case
  proof (cases "it k d (unread w)")
    case Wait
    with loop_Wait [OF Suc.prems(1,2)] Suc.prems show ?thesis by auto
  next
    case (Fail d1 n os e)
    from loop_Fail [OF Suc.prems(1,2) Fail] Suc.prems(3) item_Fail [OF Fail]
    show ?thesis by (auto simp: Fail)
  next
    case (Ok d1 n os)
    from loop_Ok [OF Suc.prems(1,2) Ok] obtain w1 ds1 where
      l: "loop (Suc k) d w = (case loop k d1 w1 of (d2, w2, ds2, r) \<Rightarrow> (d2, w2, ds1 @ ds2, r))"
        "ops ds1 = os" "rx_inv w1" "unread w1 = drop n (unread w)" "ok k d1" by auto
    obtain d2 w2 ds2 r2 where rec: "loop k d1 w1 = (d2, w2, ds2, r2)" by (metis surj_pair)
    with l(1) Suc.prems(3) have eq: "d2 = d'" "w2 = w'" "ds = ds1 @ ds2" "r2 = r" by auto
    from Suc.IH [OF l(3,5), of ds2] rec eq obtain m k' where
      "m \<le> length (unread w1)" "repeat_items it k d1 (unread w1) = (k', d', m, ops ds2, r)"
      "rx_inv w'" "unread w' = drop m (unread w1)" "ok k' d'" by auto
    then show ?thesis
      using Ok item_Ok [OF Ok] l(2,4) eq(3) by (intro exI [of _ "n + m"]) (auto simp: add.commute)
  qed
qed

end

text \<open>
  The lines of a rectangle kept in a typed array: \<open>data[i * 4 + 3] = 255\<close> for the first \<open>n\<close>
  pixels of the window that starts at \<open>off\<close>.
\<close>

primrec opaque :: "nat \<Rightarrow> int \<Rightarrow> u8array \<Rightarrow> u8array" where
  "opaque 0 off xs = xs"
| "opaque (Suc n) off xs = u8_upd (opaque n off xs) (off + int n * 4 + 3) 255"

lemma length_opaque [simp]: "length (opaque n off xs) = length xs"
  by (induction n) simp_all

lemma drop_u8_upd_shift:
  "0 \<le> i \<Longrightarrow> drop m (u8_upd xs (int m + i) v) = u8_upd (drop m xs) i v"
  by (auto simp: u8_upd_def nat_add_distrib drop_update_swap)

lemma drop_opaque: "drop m (opaque n (int m) xs) = opaque n 0 (drop m xs)"
proof (induction n)
  case 0
  then show ?case by simp
next
  case (Suc n)
  have "int m + int n * 4 + 3 = int m + (int n * 4 + 3)" by simp
  then show ?case using Suc drop_u8_upd_shift [of "int n * 4 + 3" m] by (simp add: add.assoc)
qed

lemma drop_opaque_after: "off + int n * 4 \<le> int m \<Longrightarrow> drop m (opaque n off xs) = drop m xs"
  by (induction n) (simp_all add: drop_u8_upd)

lemma take_opaque: "4 * n \<le> m \<Longrightarrow> take m (opaque n 0 xs) = opaque n 0 (take m xs)"
proof (induction n)
  case 0
  then show ?case by simp
next
  case (Suc n)
  have "take m (u8_upd ys i v) = u8_upd (take m ys) i v" for ys i v
    by (simp add: u8_upd_def take_update_swap)
  with Suc show ?case by simp
qed

text \<open>Writing into the consumed part of the queue leaves the unread bytes alone.\<close>

lemma rx_consumed_write:
  assumes "rx_inv w" and "length q = length (rQ w)" and "drop (nat (rQi w)) q = drop (nat (rQi w)) (rQ w)"
  shows "rx_inv (w\<lparr>rQ := q\<rparr>) \<and> unread (w\<lparr>rQ := q\<rparr>) = unread w"
  using assms by (simp add: rx_inv_def unread_def)

lemma raw_step:
  assumes inv: "rx_inv w" and len: "n \<le> length (unread w)" and n: "n = width * 4"
  defines "w1 \<equiv> (adv n w)\<lparr>rQ := opaque width (rQi w) (rQ w)\<rparr>"
  shows "rx_inv w1 \<and> unread w1 = drop n (unread w) \<and>
    take n (drop (nat (rQi w)) (rQ w1)) = opaque width 0 (take n (unread w))"
proof -
  have i: "0 \<le> rQi w" "rQi w + int n \<le> int (length (rQ w))"
    using inv len length_unread [OF inv] by (auto simp: rx_inv_def)
  have a: "rx_inv (adv n w)" "unread (adv n w) = drop n (unread w)"
    using inv len by (simp_all add: ws_simps)
  have "drop (nat (rQi (adv n w))) (opaque width (rQi w) (rQ w)) = drop (nat (rQi (adv n w))) (rQ w)"
    using i by (intro drop_opaque_after) (simp add: adv_def n)
  then have "rx_inv w1 \<and> unread w1 = unread (adv n w)"
    unfolding w1_def using a by (intro rx_consumed_write) (simp_all add: adv_def)
  moreover have "drop (nat (rQi w)) (opaque width (rQi w) (rQ w)) = opaque width 0 (drop (nat (rQi w)) (rQ w))"
    using drop_opaque [of "nat (rQi w)" width "rQ w"] i by simp
  then have "take n (drop (nat (rQi w)) (rQ w1)) = opaque width 0 (take n (unread w))"
    using take_unread [OF len] by (simp add: w1_def n take_opaque)
  ultimately show ?thesis using a by simp
qed

end
