(* ===== verification/Decoders_Basic.thy ===== *)
theory Decoders_Basic
  imports Decoder_Base
begin

text \<open>
  The CopyRect, RRE and Raw decoders (\<open>decoders/copyrect.js\<close>, \<open>decoders/rre.js\<close>,
  \<open>decoders/raw.js\<close>). A rectangle's width and height are unsigned 16-bit wire values, hence
  \<open>nat\<close>; the counters \<open>_subrects\<close> and \<open>_lines\<close> are the decoders' states.
\<close>

section \<open>CopyRect\<close>

definition copyrect_decodeRect ::
  "int \<Rightarrow> int \<Rightarrow> nat \<Rightarrow> nat \<Rightarrow> unit \<Rightarrow> websock \<Rightarrow> unit decode_result" where
  "copyrect_decodeRect x y width height d w =
     (if rQwaits w 4 then (d, w, [], NeedMore)
      else
        (let (w, deltaX) = rQshift16 w;
             (w, deltaY) = rQshift16 w
         in if width = 0 \<or> height = 0 then (d, w, [], Done)
            else (d, w, [CopyImage deltaX deltaY x y (int width) (int height)], Done)))"

definition copyrect_spec ::
  "int \<Rightarrow> int \<Rightarrow> nat \<Rightarrow> nat \<Rightarrow> unit \<Rightarrow> byte list \<Rightarrow> unit \<times> nat \<times> canvas_op list \<times> outcome" where
  "copyrect_spec x y width height d bs =
     (if length bs < 4 then (d, 0, [], NeedMore)
      else (d, 4,
        (if width = 0 \<or> height = 0 then []
         else [OpCopy (be_val (take 2 bs)) (be_val (take 2 (drop 2 bs))) x y (int width) (int height)]),
        Done))"

interpretation copyrect:
  wire_decoder "copyrect_decodeRect x y width height" "copyrect_spec x y width height" "\<lambda>_. True"
  for x y width height
proof
  show "\<exists>n\<le>length (unread w). copyrect_spec x y width height d (unread w) = (d', n, ops ds, r) \<and>
      rx_inv w' \<and> unread w' = drop n (unread w) \<and> True"
    if "rx_inv w" "copyrect_decodeRect x y width height d w = (d', w', ds, r)" for w d d' w' ds r
    using that by (auto simp: copyrect_decodeRect_def copyrect_spec_def ws_simps split: if_splits)
next
  show "copyrect_spec x y width height d (bs @ later) = (d', n, os, r)"
    if "copyrect_spec x y width height d bs = (d', n, os, r)" "r \<noteq> NeedMore" for d bs d' n os r later
    using that by (auto simp: copyrect_spec_def split: if_splits)
next
  fix d bs d' n os later
  assume "copyrect_spec x y width height d bs = (d', n, os, NeedMore)"
  then have "d' = d" "n = 0" "os = []" by (auto simp: copyrect_spec_def split: if_splits)
  then show "copyrect_spec x y width height d (bs @ later) =
      (case copyrect_spec x y width height d' (drop n bs @ later) of (d2, m, os2, r) \<Rightarrow> (d2, n + m, os @ os2, r))"
    by (simp split: prod.split)
qed

section \<open>RRE\<close>

primrec rre_loop :: "int \<Rightarrow> int \<Rightarrow> nat \<Rightarrow> websock \<Rightarrow> nat decode_result" where
  "rre_loop x y 0 w = (0, w, [], Done)"
| "rre_loop x y (Suc k) w =
     (if rQwaits w (4 + 8) then (Suc k, w, [], NeedMore)
      else
        (let (w, color) = rQshiftBytes w 4;
             (w, sx) = rQshift16 w;
             (w, sy) = rQshift16 w;
             (w, swidth) = rQshift16 w;
             (w, sheight) = rQshift16 w;
             (d, w, ds, r) = rre_loop x y k w
         in (d, w, FillRect (x + sx) (y + sy) swidth sheight (Some color) # ds, r)))"

definition rre_decodeRect ::
  "int \<Rightarrow> int \<Rightarrow> nat \<Rightarrow> nat \<Rightarrow> nat \<Rightarrow> websock \<Rightarrow> nat decode_result" where
  "rre_decodeRect x y width height subrects w =
     (if subrects = 0 then
        (if rQwaits w (4 + 4) then (subrects, w, [], NeedMore)
         else
           (let (w, n) = rQshift32 w;
                (w, color) = rQshiftBytes w 4;
                (d, w, ds, r) = rre_loop x y (nat n) w
            in (d, w, FillRect x y (int width) (int height) (Some color) # ds, r)))
      else rre_loop x y subrects w)"

text \<open>One subrectangle on the wire: colour, then position and size relative to the rectangle.\<close>

definition rre_item :: "int \<Rightarrow> int \<Rightarrow> nat \<Rightarrow> unit \<Rightarrow> byte list \<Rightarrow> unit item" where
  "rre_item x y k s bs =
     (if length bs < 12 then Wait
      else Ok s 12 [OpFill (style_of (take 4 bs)) (x + be_val (take 2 (drop 4 bs)))
        (y + be_val (take 2 (drop 6 bs))) (be_val (take 2 (drop 8 bs))) (be_val (take 2 (drop 10 bs)))])"

definition rre_spec ::
  "int \<Rightarrow> int \<Rightarrow> nat \<Rightarrow> nat \<Rightarrow> nat \<Rightarrow> byte list \<Rightarrow> nat \<times> nat \<times> canvas_op list \<times> outcome" where
  "rre_spec x y width height d bs =
     (if d = 0 then
        (if length bs < 8 then (d, 0, [], NeedMore)
         else
           (case repeat_items (rre_item x y) (nat (be_val (take 4 bs))) () (drop 8 bs) of
              (k, s, n, os, r) \<Rightarrow>
                (k, 8 + n, OpFill (style_of (take 4 (drop 4 bs))) x y (int width) (int height) # os, r)))
      else
        (case repeat_items (rre_item x y) d () bs of (k, s, n, os, r) \<Rightarrow> (k, n, os, r)))"

interpretation rre_items: item_parser "rre_item x y" for x y
  by unfold_locales (auto simp: rre_item_def split: if_splits)

lemma rre_loop_refines:
  assumes "rx_inv w" and "rre_loop x y k w = (d', w', ds, r)"
  shows "\<exists>n\<le>length (unread w). repeat_items (rre_item x y) k () (unread w) = (d', (), n, ops ds, r) \<and>
    rx_inv w' \<and> unread w' = drop n (unread w)"
  using assms
proof (induction k arbitrary: w ds)
  case 0
  then show ?case by simp
next
  case (Suc k)
  show ?case
  proof (cases "length (unread w) < 12")
    case True
    with Suc.prems show ?thesis by (auto simp: ws_simps rre_item_def)
  next
    case False
    obtain d1 w1 ds1 r1 where rec: "rre_loop x y k (adv 12 w) = (d1, w1, ds1, r1)" by (metis surj_pair)
    have inv: "rx_inv (adv 12 w)" using Suc.prems False by (simp add: ws_simps)
    have eq: "d1 = d'" "w1 = w'" "r1 = r" and ds: "ds = FillRect (x + be_val (take 2 (drop 4 (unread w))))
        (y + be_val (take 2 (drop 6 (unread w)))) (be_val (take 2 (drop 8 (unread w))))
        (be_val (take 2 (drop 10 (unread w)))) (Some (take 4 (unread w))) # ds1"
      using Suc.prems False rec by (auto simp: ws_simps)
    obtain n where "n \<le> length (unread (adv 12 w))"
        "repeat_items (rre_item x y) k () (unread (adv 12 w)) = (d', (), n, ops ds1, r)"
        "rx_inv w'" "unread w' = drop n (unread (adv 12 w))"
      using Suc.IH [OF inv] rec eq by auto
    then show ?thesis
      using Suc.prems False ds
      by (intro exI [of _ "12 + n"])
        (auto simp: ws_simps rre_item_def [of x y k "()" "unread w"] add.commute)
  qed
qed

interpretation rre:
  wire_decoder "rre_decodeRect x y width height" "rre_spec x y width height" "\<lambda>_. True"
  for x y width height
proof
  fix w d d' w' ds r
  assume inv: "rx_inv w" and dec: "rre_decodeRect x y width height d w = (d', w', ds, r)"
  show "\<exists>n\<le>length (unread w). rre_spec x y width height d (unread w) = (d', n, ops ds, r) \<and>
      rx_inv w' \<and> unread w' = drop n (unread w) \<and> True"
  proof (cases "d = 0 \<and> 8 \<le> length (unread w)")
    case True
    let ?k = "nat (be_val (take 4 (unread w)))"
    obtain d1 w1 ds1 r1 where rec: "rre_loop x y ?k (adv 8 w) = (d1, w1, ds1, r1)" by (metis surj_pair)
    have eq: "d1 = d'" "w1 = w'" "r1 = r"
        "ds = FillRect x y (int width) (int height) (Some (take 4 (drop 4 (unread w)))) # ds1"
      using dec True rec inv by (auto simp: rre_decodeRect_def ws_simps)
    have "rx_inv (adv 8 w)" using inv True by (simp add: ws_simps)
    from rre_loop_refines [OF this rec] obtain n where "n \<le> length (unread (adv 8 w))"
        "repeat_items (rre_item x y) ?k () (unread (adv 8 w)) = (d1, (), n, ops ds1, r1)"
        "rx_inv w1" "unread w1 = drop n (unread (adv 8 w))" by auto
    then show ?thesis
      using True inv eq by (intro exI [of _ "8 + n"]) (auto simp: rre_spec_def ws_simps add.commute)
  next
    case False
    then show ?thesis
      using dec inv rre_loop_refines [OF inv, of x y d d' w' ds r]
      by (auto simp: rre_decodeRect_def rre_spec_def ws_simps split: if_splits)
  qed
next
  fix d bs d' n os r later
  assume "rre_spec x y width height d bs = (d', n, os, r)" and "r \<noteq> NeedMore"
  then show "rre_spec x y width height d (bs @ later) = (d', n, os, r)"
    by (auto simp: rre_spec_def split: if_splits prod.splits dest: rre_items.repeat_stable [where later = later])
next
  fix d bs d' n os later
  assume a: "rre_spec x y width height d bs = (d', n, os, NeedMore)"
  show "rre_spec x y width height d (bs @ later) =
      (case rre_spec x y width height d' (drop n bs @ later) of (d2, m, os2, r) \<Rightarrow> (d2, n + m, os @ os2, r))"
  proof (cases "d = 0 \<and> length bs < 8")
    case True
    with a have "d' = d" "n = 0" "os = []" by (auto simp: rre_spec_def)
    then show ?thesis by (simp split: prod.split)
  next
    case False
    define k where "k = (if d = 0 then nat (be_val (take 4 bs)) else d)"
    define bs' where "bs' = (if d = 0 then drop 8 bs else bs)"
    obtain k1 s1 n1 os1 r1 where rp: "repeat_items (rre_item x y) k () bs' = (k1, s1, n1, os1, r1)"
      by (metis surj_pair)
    have eq: "k1 = d'" "r1 = NeedMore" "s1 = ()"
        "n = (if d = 0 then 8 + n1 else n1)"
        "os = (if d = 0 then OpFill (style_of (take 4 (drop 4 bs))) x y (int width) (int height) # os1 else os1)"
      using a False rp by (auto simp: rre_spec_def k_def bs'_def split: if_splits)
    note res = rre_items.repeat_resume [OF rp [unfolded eq(1,2,3)], of later]
    have pos: "d' \<noteq> 0" using rre_items.repeat_NeedMore [OF rp [unfolded eq(1,2,3)]] by simp
    have dr: "drop n bs = drop n1 bs'" by (simp add: eq(4) bs'_def add.commute)
    obtain k2 s2 n2 os2 r2 where r2: "repeat_items (rre_item x y) d' () (drop n1 bs' @ later) = (k2, s2, n2, os2, r2)"
      by (metis surj_pair)
    with res pos have all: "repeat_items (rre_item x y) k () (bs' @ later) = (k2, s2, n1 + n2, os1 @ os2, r2)"
      and rest: "rre_spec x y width height d' (drop n1 bs' @ later) = (k2, n2, os2, r2)"
      by (simp_all add: rre_spec_def)
    show ?thesis
      unfolding dr rest using all False
      by (cases "d = 0") (simp_all add: rre_spec_def eq(4,5) k_def bs'_def)
  qed
qed

section \<open>Raw\<close>

text \<open>An 8-bit pixel holds two bits per channel; each is spread over 0 to 255.\<close>

definition raw8_channel :: "byte \<Rightarrow> nat \<Rightarrow> byte" where
  "raw8_channel b k = ToUint8 (js_and (js_sar (uint b) k) 0x3 * 255 div 3)"

definition raw8_convert :: "u8array \<Rightarrow> u8array" where
  "raw8_convert data =
     concat (map (\<lambda>b. [raw8_channel b 0, raw8_channel b 2, raw8_channel b 4, 255]) data)"

text \<open>
  One line per iteration. At 32 bits the line stays a window of the receive queue, so making it
  opaque writes into \<open>rQ\<close>; the converted line of an 8-bit rectangle is a new array.
\<close>

primrec raw_loop ::
  "int \<Rightarrow> int \<Rightarrow> nat \<Rightarrow> nat \<Rightarrow> nat \<Rightarrow> nat \<Rightarrow> websock \<Rightarrow> nat decode_result" where
  "raw_loop x y width height depth 0 w = (0, w, [], Done)"
| "raw_loop x y width height depth (Suc k) w =
     (let pixelSize = (if depth = 8 then 1 else 4);
          bytesPerLine = width * pixelSize in
      if rQwaits w (int bytesPerLine) then (Suc k, w, [], NeedMore)
      else
        (let curY = y + (int height - int (Suc k));
             start = rQi w;
             (w, data) = rQshiftBytes w (int bytesPerLine);
             (w, view) =
               (if depth = 8 then (w, whole_view (opaque width 0 (raw8_convert data)))
                else
                  (let w = w\<lparr>rQ := opaque width start (rQ w)\<rparr>
                   in (w, \<lparr>v_buffer = rQ w, v_byteOffset = nat start, v_length = bytesPerLine\<rparr>)));
             (d, w, ds, r) = raw_loop x y width height depth k w
         in (d, w, BlitImage x curY (int width) 1 view 0 # ds, r)))"

definition raw_decodeRect ::
  "int \<Rightarrow> int \<Rightarrow> nat \<Rightarrow> nat \<Rightarrow> nat \<Rightarrow> nat \<Rightarrow> websock \<Rightarrow> nat decode_result" where
  "raw_decodeRect x y width height depth lines w =
     (if width = 0 \<or> height = 0 then (lines, w, [], Done)
      else raw_loop x y width height depth (if lines = 0 then height else lines) w)"

definition raw_line :: "nat \<Rightarrow> nat \<Rightarrow> byte list \<Rightarrow> u8array" where
  "raw_line width depth line = opaque width 0 (if depth = 8 then raw8_convert line else line)"

definition raw_item ::
  "int \<Rightarrow> int \<Rightarrow> nat \<Rightarrow> nat \<Rightarrow> nat \<Rightarrow> nat \<Rightarrow> 's \<Rightarrow> byte list \<Rightarrow> 's item" where
  "raw_item x y width height depth k s bs =
     (let n = width * (if depth = 8 then 1 else 4) in
      if length bs < n then Wait
      else Ok s n [OpPut (raw_line width depth (take n bs)) x (y + (int height - int (Suc k))) (int width) 1])"

definition raw_spec ::
  "int \<Rightarrow> int \<Rightarrow> nat \<Rightarrow> nat \<Rightarrow> nat \<Rightarrow> nat \<Rightarrow> byte list \<Rightarrow> nat \<times> nat \<times> canvas_op list \<times> outcome" where
  "raw_spec x y width height depth d bs =
     (if width = 0 \<or> height = 0 then (d, 0, [], Done)
      else
        (case repeat_items (raw_item x y width height depth) (if d = 0 then height else d) True bs of
           (k, s, n, os, r) \<Rightarrow> (k, n, os, r)))"

interpretation raw_items: item_parser "raw_item x y width height depth" for x y width height depth
  by unfold_locales (auto simp: raw_item_def Let_def split: if_splits)

lemma raw_items_state: "repeat_items (raw_item x y width height depth) k s bs = (k', s', n, os, r) \<Longrightarrow> s' = s"
proof (induction k arbitrary: bs n os)
  case 0
  then show ?case by simp
next
  case (Suc k)
  then show ?case by (auto simp: raw_item_def Let_def split: if_splits prod.splits)
qed

lemma length_raw8_convert [simp]: "length (raw8_convert data) = 4 * length data"
  by (induction data) (simp_all add: raw8_convert_def)

lemma raw_loop_refines:
  assumes "rx_inv w" and "raw_loop x y width height depth k w = (d', w', ds, r)"
  shows "\<exists>n\<le>length (unread w).
    repeat_items (raw_item x y width height depth) k True (unread w) = (d', True, n, ops ds, r) \<and>
    rx_inv w' \<and> unread w' = drop n (unread w)"
  using assms
proof (induction k arbitrary: w ds)
  case 0
  then show ?case by simp
next
  case (Suc k)
  let ?b = "width * (if depth = 8 then 1 else 4)"
  show ?case
  proof (cases "length (unread w) < ?b")
    case True
    have "rQwaits w (int ?b)" using Suc.prems(1) True by (simp only: ws_simps of_nat_less_iff)
    with Suc.prems True show ?thesis by (auto simp: raw_item_def Let_def)
  next
    case False
    have nw: "\<not> rQwaits w (int ?b)" using Suc.prems(1) False by (simp only: ws_simps of_nat_less_iff) simp
    have sh: "rQshiftBytes w (int ?b) = (adv ?b w, take ?b (unread w))"
      using Suc.prems(1) False by (intro rQshiftBytes_eq) simp_all
    define w1 where "w1 = (if depth = 8 then adv ?b w else (adv ?b w)\<lparr>rQ := opaque width (rQi w) (rQ w)\<rparr>)"
    define view where "view = (if depth = 8 then whole_view (opaque width 0 (raw8_convert (take ?b (unread w))))
      else \<lparr>v_buffer = rQ w1, v_byteOffset = nat (rQi w), v_length = ?b\<rparr>)"
    have w1: "rx_inv w1 \<and> unread w1 = drop ?b (unread w)"
      using Suc.prems(1) False raw_step [of w "width * 4" width]
      by (auto simp: w1_def ws_simps split: if_splits)
    have draw: "draw_ops (BlitImage x (y + (int height - int (Suc k))) (int width) 1 view 0)
        = [OpPut (raw_line width depth (take ?b (unread w))) x (y + (int height - int (Suc k))) (int width) 1]"
    proof (cases "depth = 8")
      case True
      then show ?thesis using False by (simp add: view_def whole_view_def raw_line_def)
    next
      case d: False
      have "nat (int width * 1 * 4) = width * 4" by simp
      then show ?thesis
        using False d raw_step [of w "width * 4" width] Suc.prems(1)
        by (simp add: view_def w1_def raw_line_def)
    qed
    obtain d1 w2 ds1 r1 where rec: "raw_loop x y width height depth k w1 = (d1, w2, ds1, r1)"
      by (metis surj_pair)
    have eq: "d1 = d'" "w2 = w'" "r1 = r"
      "ds = BlitImage x (y + (int height - int (Suc k))) (int width) 1 view 0 # ds1"
      using Suc.prems(2) nw sh rec by (auto simp: w1_def view_def Let_def adv_def split: if_splits)
    obtain n where "n \<le> length (unread w1)"
        "repeat_items (raw_item x y width height depth) k True (unread w1) = (d', True, n, ops ds1, r)"
        "rx_inv w'" "unread w' = drop n (unread w1)"
      using Suc.IH [of w1] w1 rec eq by auto
    moreover have "raw_item x y width height depth k True (unread w) = Ok True ?b
        (draw_ops (BlitImage x (y + (int height - int (Suc k))) (int width) 1 view 0))"
      using False draw by (simp add: raw_item_def Let_def)
    ultimately show ?thesis
      using w1 eq(4) False by (intro exI [of _ "?b + n"]) (auto simp: add.commute)
  qed
qed

interpretation raw:
  wire_decoder "raw_decodeRect x y width height depth" "raw_spec x y width height depth" "\<lambda>_. True"
  for x y width height depth
proof
  fix w d d' w' ds r
  assume inv: "rx_inv w" and dec: "raw_decodeRect x y width height depth d w = (d', w', ds, r)"
  show "\<exists>n\<le>length (unread w). raw_spec x y width height depth d (unread w) = (d', n, ops ds, r) \<and>
      rx_inv w' \<and> unread w' = drop n (unread w) \<and> True"
    using dec inv raw_loop_refines [OF inv, of x y width height depth "if d = 0 then height else d" d' w' ds r]
    by (auto simp: raw_decodeRect_def raw_spec_def split: if_splits)
next
  fix d bs d' n os r later
  assume "raw_spec x y width height depth d bs = (d', n, os, r)" and "r \<noteq> NeedMore"
  then show "raw_spec x y width height depth d (bs @ later) = (d', n, os, r)"
    by (auto simp: raw_spec_def split: if_splits prod.splits dest: raw_items.repeat_stable [where later = later])
next
  fix d bs d' n os later
  assume a: "raw_spec x y width height depth d bs = (d', n, os, NeedMore)"
  let ?k = "if d = 0 then height else d"
  have nz: "\<not> (width = 0 \<or> height = 0)" using a by (auto simp: raw_spec_def split: if_splits)
  obtain s where rp: "repeat_items (raw_item x y width height depth) ?k True bs = (d', s, n, os, NeedMore)"
    using a nz by (auto simp: raw_spec_def split: prod.splits)
  have s: "s = True"
    using rp by (rule raw_items_state)
  show "raw_spec x y width height depth d (bs @ later) =
      (case raw_spec x y width height depth d' (drop n bs @ later) of (d2, m, os2, r) \<Rightarrow> (d2, n + m, os @ os2, r))"
    using nz raw_items.repeat_resume [OF rp, of later] raw_items.repeat_NeedMore [OF rp] s
    by (simp add: raw_spec_def split: prod.split)
qed

section \<open>Properties\<close>

text \<open>A rectangle of raw pixels as it is sent, line after line, and what it asks to be drawn.\<close>

lemma raw_items_all:
  assumes "k * n \<le> length bs" and n: "n = width * (if depth = 8 then 1 else 4)"
  shows "repeat_items (raw_item x y width height depth) k s bs =
    (0, s, k * n, map (\<lambda>i. OpPut (raw_line width depth (take n (drop (i * n) bs)))
       x (y + (int height - int k) + int i) (int width) 1) [0..<k], Done)"
  using assms(1)
proof (induction k arbitrary: bs)
  case 0
  then show ?case by simp
next
  case (Suc k)
  have it: "raw_item x y width height depth k s bs =
      Ok s n [OpPut (raw_line width depth (take n bs)) x (y + (int height - int (Suc k))) (int width) 1]"
    using Suc.prems by (simp add: raw_item_def Let_def flip: n)
  have "k * n \<le> length (drop n bs)" using Suc.prems by simp
  note IH = Suc.IH [OF this]
  have up: "[0..<Suc k] = 0 # map Suc [0..<k]" by (simp add: upt_conv_Cons map_Suc_upt)
  show ?case
    unfolding up using it IH
    by (simp add: o_def add.commute)
qed

text \<open>
  C23. A Raw rectangle arriving in any sequence of messages that carries all its pixels is
  finished, and its lines are drawn top to bottom, each with the bytes sent for it (expanded to
  32 bits when the depth is 8, made opaque); the bytes after the rectangle stay unread.
\<close>

theorem raw_draws_lines:
  assumes "rx_inv w" and "cs \<noteq> []" and "0 < width" and "0 < height"
    and "int (length (unread w @ concat cs)) \<le> MAX_RQ_GROW_SIZE"
    and "height * (width * (if depth = 8 then 1 else 4)) \<le> length (unread w @ concat cs)"
  shows "\<exists>w' ds rest. feed (raw_decodeRect x y width height depth) 0 w cs = ((0, w', ds, Done), rest) \<and>
    ops ds = map (\<lambda>i. OpPut (raw_line width depth (take (width * (if depth = 8 then 1 else 4))
        (drop (i * (width * (if depth = 8 then 1 else 4))) (unread w @ concat cs))))
      x (y + int i) (int width) 1) [0..<height] \<and>
    unread w' @ concat rest = drop (height * (width * (if depth = 8 then 1 else 4))) (unread w @ concat cs)"
proof -
  let ?all = "unread w @ concat cs"
  have "raw_spec x y width height depth 0 ?all =
    (0, height * (width * (if depth = 8 then 1 else 4)), map (\<lambda>i. OpPut (raw_line width depth
       (take (width * (if depth = 8 then 1 else 4)) (drop (i * (width * (if depth = 8 then 1 else 4))) ?all)))
       x (y + int i) (int width) 1) [0..<height], Done)"
    unfolding raw_spec_def using assms(3,4) raw_items_all [OF assms(6) refl, of x y height True] by simp
  from raw.feed_outcome [OF assms(1) TrueI assms(2,5) this] show ?thesis by blast
qed

theorem raw_draws_lines_witness:
  "\<exists>w' ds rest. feed (raw_decodeRect 10 20 1 2 24) 0 (small_ws [1, 2]) [[3], [4, 5, 6, 7, 8, 9]]
       = ((0, w', ds, Done), rest) \<and>
     ops ds = [OpPut [1, 2, 3, 255] 10 20 1 1, OpPut [5, 6, 7, 255] 10 21 1 1] \<and>
     unread w' @ concat rest = [9]"
  using raw_draws_lines [of "small_ws [1, 2]" "[[3], [4, 5, 6, 7, 8, 9]]" 1 2 24 10 20]
    small_ws_inv [of "[1, 2]"]
  by (simp add: MAX_RQ_GROW_SIZE_def raw_line_def u8_upd_def numeral_eq_Suc upt_rec)

text \<open>An RRE rectangle as the protocol defines it: count, background, then the subrectangles.\<close>

type_synonym subrect = "byte list \<times> int \<times> int \<times> int \<times> int"

fun rre_sub_bytes :: "subrect \<Rightarrow> byte list" where
  "rre_sub_bytes (col, sx, sy, sw, sh) = col @ be_bytes 2 sx @ be_bytes 2 sy @ be_bytes 2 sw @ be_bytes 2 sh"

definition rre_bytes :: "byte list \<Rightarrow> subrect list \<Rightarrow> byte list" where
  "rre_bytes bg subs = be_bytes 4 (int (length subs)) @ bg @ concat (map rre_sub_bytes subs)"

fun wf_subrect :: "subrect \<Rightarrow> bool" where
  "wf_subrect (col, sx, sy, sw, sh) \<longleftrightarrow> length col = 4 \<and> (\<forall>v \<in> set [sx, sy, sw, sh]. 0 \<le> v \<and> v < 65536)"

fun rre_sub_op :: "int \<Rightarrow> int \<Rightarrow> subrect \<Rightarrow> canvas_op" where
  "rre_sub_op x y (col, sx, sy, sw, sh) = OpFill (style_of col) (x + sx) (y + sy) sw sh"

lemma be_val_be_bytes_2: "0 \<le> v \<Longrightarrow> v < 65536 \<Longrightarrow> be_val (be_bytes 2 v) = v"
  by (simp add: be_val_be_bytes)

lemma rre_item_sub:
  assumes "wf_subrect sub"
  shows "rre_item x y k s (rre_sub_bytes sub @ later) = Ok s 12 [rre_sub_op x y sub] \<and>
    length (rre_sub_bytes sub) = 12"
proof -
  obtain col sx sy sw sh where s: "sub = (col, sx, sy, sw, sh)" by (cases sub) auto
  with assms have l: "length col = 4" and b: "0 \<le> sx" "sx < 65536" "0 \<le> sy" "sy < 65536" "0 \<le> sw" "sw < 65536"
      "0 \<le> sh" "sh < 65536" by auto
  show ?thesis
    using l b by (simp add: s rre_item_def be_val_be_bytes_2)
qed

lemma rre_items_all:
  assumes "list_all wf_subrect subs"
  shows "repeat_items (rre_item x y) (length subs) s (concat (map rre_sub_bytes subs) @ later) =
    (0, s, length (concat (map rre_sub_bytes subs)), map (rre_sub_op x y) subs, Done)"
  using assms
proof (induction subs)
  case Nil
  then show ?case by simp
next
  case (Cons a subs)
  then show ?case
    using rre_item_sub [of a x y "length subs" s "concat (map rre_sub_bytes subs) @ later"] by simp
qed

lemma rre_subs_length: "list_all wf_subrect subs \<Longrightarrow> length (concat (map rre_sub_bytes subs)) = 12 * length subs"
  by (induction subs) (auto dest: rre_item_sub)

lemma rre_spec_bytes:
  assumes "length bg = 4" and "list_all wf_subrect subs" and "int (length subs) < 4294967296"
  shows "rre_spec x y width height 0 (rre_bytes bg subs @ later) =
    (0, 8 + length (concat (map rre_sub_bytes subs)),
     OpFill (style_of bg) x y (int width) (int height) # map (rre_sub_op x y) subs, Done)"
proof -
  have "nat (be_val (be_bytes 4 (int (length subs)))) = length subs"
    using assms(3) by (simp add: be_val_be_bytes)
  then show ?thesis
    using assms(1) rre_items_all [OF assms(2), of x y "()" later] by (simp add: rre_spec_def rre_bytes_def)
qed

text \<open>
  C9. An RRE rectangle is decoded to what it encodes: from the bytes of a background colour and
  fewer than \<open>2 ^ 32\<close> subrectangles, cut into messages in any way, the decoder fills the
  background and then every subrectangle at its place, finishes, and leaves what follows.
\<close>

theorem rre_decodes_encoding:
  assumes "rx_inv w" and "cs \<noteq> []" and "unread w @ concat cs = rre_bytes bg subs @ later"
    and "int (length (unread w @ concat cs)) \<le> MAX_RQ_GROW_SIZE"
    and "length bg = 4" and "list_all wf_subrect subs"
  shows "\<exists>w' ds rest. feed (rre_decodeRect x y width height) 0 w cs = ((0, w', ds, Done), rest) \<and>
    ops ds = OpFill (style_of bg) x y (int width) (int height) # map (rre_sub_op x y) subs \<and>
    unread w' @ concat rest = later"
proof -
  let ?n = "length (concat (map rre_sub_bytes subs))"
  have "int (length subs) < 4294967296"
    using rre_subs_length [OF assms(6)] assms(3,4,5) by (simp add: rre_bytes_def MAX_RQ_GROW_SIZE_def)
  from rre_spec_bytes [OF assms(5,6) this, of x y width height later]
  have "rre_spec x y width height 0 (rre_bytes bg subs @ later) =
      (0, 8 + ?n, OpFill (style_of bg) x y (int width) (int height) # map (rre_sub_op x y) subs, Done)" .
  then have sp: "rre_spec x y width height 0 (unread w @ concat cs) =
      (0, 8 + ?n, OpFill (style_of bg) x y (int width) (int height) # map (rre_sub_op x y) subs, Done)"
    by (simp only: assms(3))
  have "drop (8 + ?n) (rre_bytes bg subs @ later) = later"
    using assms(5) by (simp add: rre_bytes_def)
  with rre.feed_outcome [OF assms(1) TrueI assms(2,4) sp] show ?thesis by (simp only: assms(3)) blast
qed

theorem rre_decodes_encoding_witness:
  "\<exists>w' ds rest. feed (rre_decodeRect 5 6 30 40) 0 (small_ws [0, 0, 0])
       [[1, 9, 9, 9, 0, 1, 2, 3], [0, 0, 2, 0], [3, 0, 4, 0, 5, 77]] = ((0, w', ds, Done), rest) \<and>
     ops ds = [OpFill (style_of [9, 9, 9, 0]) 5 6 30 40, OpFill (style_of [1, 2, 3, 0]) 7 9 4 5] \<and>
     unread w' @ concat rest = [77]"
  using rre_decodes_encoding [of "small_ws [0, 0, 0]" "[[1, 9, 9, 9, 0, 1, 2, 3], [0, 0, 2, 0], [3, 0, 4, 0, 5, 77]]"
      "[9, 9, 9, 0]" "[([1, 2, 3, 0], 2, 3, 4, 5)]" "[77]" 5 6 30 40]
    small_ws_inv [of "[0, 0, 0]"]
  by (simp add: rre_bytes_def be_bytes_2 be_bytes_4 ToUint8_def MAX_RQ_GROW_SIZE_def)

end
