(* ===== verification/Hextile.thy ===== *)
theory Hextile
  imports Decoders_Basic
begin

text \<open>
  The Hextile decoder (\<open>decoders/hextile.js\<close>): a rectangle is cut into tiles of 16 by 16
  pixels, each sent raw, as a repetition of the background, or as background, foreground and
  small subrectangles painted into a tile buffer that is then blitted.
\<close>

section \<open>The decoder\<close>

record hextile =
  hx_tiles :: nat
  hx_tilesX :: nat
  hx_tilesY :: nat
  hx_totalTiles :: nat
  hx_lastsubencoding :: int
  hx_background :: "byte list option"
  hx_foreground :: "byte list option"
  hx_tileBuffer :: u8array
  hx_tileX :: int
  hx_tileY :: int
  hx_tileW :: int
  hx_tileH :: int

definition new_HextileDecoder :: hextile where
  "new_HextileDecoder = \<lparr>hx_tiles = 0, hx_tilesX = 0, hx_tilesY = 0, hx_totalTiles = 0, hx_lastsubencoding = 0,
     hx_background = None, hx_foreground = None, hx_tileBuffer = u8_new (16 * 16 * 4),
     hx_tileX = 0, hx_tileY = 0, hx_tileW = 0, hx_tileH = 0\<rparr>"

text \<open>The four assignments both painting loops make: one opaque pixel at byte \<open>p\<close>.\<close>

definition put_pixel :: "byte list \<Rightarrow> u8array \<Rightarrow> int \<Rightarrow> u8array" where
  "put_pixel color data p =
     u8_upd (u8_upd (u8_upd (u8_upd data p (u8_get color 0)) (p + 1) (u8_get color 1))
       (p + 2) (u8_get color 2)) (p + 3) 255"

definition startTile :: "hextile \<Rightarrow> int \<Rightarrow> int \<Rightarrow> int \<Rightarrow> int \<Rightarrow> byte list option \<Rightarrow> hextile \<times> (js_error + unit)" where
  "startTile d x y width height color =
     (let d = d\<lparr>hx_tileX := x, hx_tileY := y, hx_tileW := width, hx_tileH := height\<rparr> in
      case color of
        None \<Rightarrow> (d, Inl TypeError)
      | Some c \<Rightarrow>
          (d\<lparr>hx_tileBuffer := foldl (\<lambda>data i. put_pixel c data (i * 4)) (hx_tileBuffer d)
             [0..width * height - 1]\<rparr>, Inr ()))"

definition subTile :: "hextile \<Rightarrow> int \<Rightarrow> int \<Rightarrow> int \<Rightarrow> int \<Rightarrow> byte list option \<Rightarrow> hextile \<times> (js_error + unit)" where
  "subTile d x y w h color =
     (case color of
        None \<Rightarrow> (d, Inl TypeError)
      | Some c \<Rightarrow>
          (d\<lparr>hx_tileBuffer := foldl (\<lambda>data j.
             foldl (\<lambda>data i. put_pixel c data ((i + j * hx_tileW d) * 4)) data [x..x + w - 1])
               (hx_tileBuffer d) [y..y + h - 1]\<rparr>, Inr ()))"

definition finishTile :: "hextile \<Rightarrow> draw" where
  "finishTile d = BlitImage (hx_tileX d) (hx_tileY d) (hx_tileW d) (hx_tileH d) (whole_view (hx_tileBuffer d)) 0"

primrec hextile_subrects :: "bool \<Rightarrow> nat \<Rightarrow> hextile \<Rightarrow> websock \<Rightarrow> hextile \<times> websock \<times> (js_error + unit)" where
  "hextile_subrects coloured 0 d w = (d, w, Inr ())"
| "hextile_subrects coloured (Suc n) d w =
     (let (w, color) = (if coloured then (case rQshiftBytes w 4 of (w, c) \<Rightarrow> (w, Some c))
                        else (w, hx_foreground d));
          (w, xy) = rQshift8 w;
          sx = js_sar xy 4;
          sy = js_and xy 0x0f;
          (w, wh) = rQshift8 w;
          sw = js_sar wh 4 + 1;
          sh = js_and wh 0x0f + 1
      in case subTile d sx sy sw sh color of
           (d, Inl e) \<Rightarrow> (d, w, Inl e)
         | (d, Inr _) \<Rightarrow> hextile_subrects coloured n d w)"

text \<open>How many bytes the tile takes, or None while its subrectangle count is still missing.\<close>

definition hextile_bytes :: "int \<Rightarrow> int \<Rightarrow> int \<Rightarrow> websock \<Rightarrow> int option" where
  "hextile_bytes subencoding tw th w =
     (if js_and subencoding 0x01 \<noteq> 0 then Some (1 + tw * th * 4)
      else
        (let bytes = 1 + (if js_and subencoding 0x02 \<noteq> 0 then 4 else 0)
                       + (if js_and subencoding 0x04 \<noteq> 0 then 4 else 0) in
         if js_and subencoding 0x08 \<noteq> 0 then
           (let bytes = bytes + 1 in
            if rQwaits w bytes then None
            else
              (let subrects = uint (last (rQpeekBytes w bytes)) in
               Some (bytes + (if js_and subencoding 0x10 \<noteq> 0 then subrects * (4 + 2) else subrects * 2))))
         else Some bytes))"

text \<open>A tile that is painted into the tile buffer: colours, subrectangles, blit.\<close>

definition hextile_paint ::
  "int \<Rightarrow> int \<Rightarrow> int \<Rightarrow> int \<Rightarrow> int \<Rightarrow> hextile \<Rightarrow> websock \<Rightarrow> hextile \<times> websock \<times> draw list \<times> (js_error + unit)" where
  "hextile_paint subencoding tx ty tw th d w =
     (let (d, w) = (if js_and subencoding 0x02 \<noteq> 0
                    then (case rQshiftBytes w 4 of (w, c) \<Rightarrow> (d\<lparr>hx_background := Some c\<rparr>, w)) else (d, w));
          (d, w) = (if js_and subencoding 0x04 \<noteq> 0
                    then (case rQshiftBytes w 4 of (w, c) \<Rightarrow> (d\<lparr>hx_foreground := Some c\<rparr>, w)) else (d, w))
      in case startTile d tx ty tw th (hx_background d) of
           (d, Inl e) \<Rightarrow> (d, w, [], Inl e)
         | (d, Inr _) \<Rightarrow>
             (let (d, w, r) =
                (if js_and subencoding 0x08 \<noteq> 0 then
                   (let (w, subrects) = rQshift8 w
                    in hextile_subrects (js_and subencoding 0x10 \<noteq> 0) (nat subrects) d w)
                 else (d, w, Inr ()))
              in case r of Inl e \<Rightarrow> (d, w, [], Inl e) | Inr _ \<Rightarrow> (d, w, [finishTile d], Inr ())))"

text \<open>A whole tile, once its bytes are there.\<close>

definition hextile_tile ::
  "int \<Rightarrow> int \<Rightarrow> int \<Rightarrow> int \<Rightarrow> int \<Rightarrow> hextile \<Rightarrow> websock \<Rightarrow> hextile \<times> websock \<times> draw list \<times> (js_error + unit)" where
  "hextile_tile subencoding tx ty tw th d w =
     (let (w, _) = rQshift8 w in
      if subencoding = 0 then
        (if js_and (hx_lastsubencoding d) 0x01 \<noteq> 0 then (d, w, [], Inr ())
         else (d, w, [FillRect tx ty tw th (hx_background d)], Inr ()))
      else if js_and subencoding 0x01 \<noteq> 0 then
        (let pixels = tw * th;
             start = rQi w;
             (w, data) = rQshiftBytes w (pixels * 4);
             w = w\<lparr>rQ := opaque (nat pixels) start (rQ w)\<rparr>
         in (d, w, [BlitImage tx ty tw th
               \<lparr>v_buffer = rQ w, v_byteOffset = nat start, v_length = length data\<rparr> 0], Inr ()))
      else hextile_paint subencoding tx ty tw th d w)"

primrec hextile_loop ::
  "int \<Rightarrow> int \<Rightarrow> nat \<Rightarrow> nat \<Rightarrow> nat \<Rightarrow> hextile \<Rightarrow> websock \<Rightarrow> hextile decode_result" where
  "hextile_loop x y width height 0 d w = (d, w, [], Done)"
| "hextile_loop x y width height (Suc k) d w =
     (if rQwaits w 1 then (d, w, [], NeedMore)
      else
        (let subencoding = rQpeek8 w in
         if subencoding > 30 then (d, w, [], Throws (JSError ''Illegal hextile subencoding'' [subencoding]))
         else
           (let currTile = int (hx_totalTiles d) - int (hx_tiles d);
                tX = currTile mod int (hx_tilesX d);
                tY = currTile div int (hx_tilesX d);
                tx = x + tX * 16;
                ty = y + tY * 16;
                tw = min 16 (x + int width - tx);
                th = min 16 (y + int height - ty)
            in case hextile_bytes subencoding tw th w of
                 None \<Rightarrow> (d, w, [], NeedMore)
               | Some bytes \<Rightarrow>
                   if rQwaits w bytes then (d, w, [], NeedMore)
                   else
                     (case hextile_tile subencoding tx ty tw th d w of
                        (d, w, ds, Inl e) \<Rightarrow> (d, w, ds, Throws e)
                      | (d, w, ds, Inr _) \<Rightarrow>
                          (case hextile_loop x y width height k
                                  (d\<lparr>hx_lastsubencoding := subencoding, hx_tiles := hx_tiles d - 1\<rparr>) w of
                             (d, w, ds', r) \<Rightarrow> (d, w, ds @ ds', r))))))"

definition hextile_start :: "nat \<Rightarrow> nat \<Rightarrow> hextile \<Rightarrow> hextile" where
  "hextile_start width height d =
     (if hx_tiles d = 0 then
        (let tilesX = (width + 15) div 16; tilesY = (height + 15) div 16 in
         d\<lparr>hx_tilesX := tilesX, hx_tilesY := tilesY, hx_totalTiles := tilesX * tilesY,
           hx_tiles := tilesX * tilesY\<rparr>)
      else d)"

definition hextile_decodeRect ::
  "int \<Rightarrow> int \<Rightarrow> nat \<Rightarrow> nat \<Rightarrow> hextile \<Rightarrow> websock \<Rightarrow> hextile decode_result" where
  "hextile_decodeRect x y width height d w =
     (let d = hextile_start width height d
      in hextile_loop x y width height (hx_tiles d) d w)"

section \<open>What a tile's bytes mean\<close>

primrec subrects_spec :: "bool \<Rightarrow> nat \<Rightarrow> hextile \<Rightarrow> byte list \<Rightarrow> hextile \<times> nat \<times> (js_error + unit)" where
  "subrects_spec coloured 0 d bs = (d, 0, Inr ())"
| "subrects_spec coloured (Suc n) d bs =
     (let m = (if coloured then 4 else 0);
          color = (if coloured then Some (take 4 bs) else hx_foreground d);
          xy = uint (hd (drop m bs)); wh = uint (hd (drop (Suc m) bs))
      in case subTile d (js_sar xy 4) (js_and xy 0x0f) (js_sar wh 4 + 1) (js_and wh 0x0f + 1) color of
           (d, Inl e) \<Rightarrow> (d, m + 2, Inl e)
         | (d, Inr _) \<Rightarrow>
             (case subrects_spec coloured n d (drop (m + 2) bs) of (d, c, r) \<Rightarrow> (d, m + 2 + c, r)))"

definition paint_spec ::
  "int \<Rightarrow> int \<Rightarrow> int \<Rightarrow> int \<Rightarrow> int \<Rightarrow> hextile \<Rightarrow> byte list \<Rightarrow> hextile \<times> nat \<times> draw list \<times> (js_error + unit)" where
  "paint_spec sub tx ty tw th d bs =
     (let b = (if js_and sub 0x02 \<noteq> 0 then 4 else 0);
          f = (if js_and sub 0x04 \<noteq> 0 then 4 else 0);
          d = (if js_and sub 0x02 \<noteq> 0 then d\<lparr>hx_background := Some (take 4 bs)\<rparr> else d);
          d = (if js_and sub 0x04 \<noteq> 0 then d\<lparr>hx_foreground := Some (take 4 (drop b bs))\<rparr> else d)
      in case startTile d tx ty tw th (hx_background d) of
           (d, Inl e) \<Rightarrow> (d, b + f, [], Inl e)
         | (d, Inr _) \<Rightarrow>
             (let (d, c, r) =
                (if js_and sub 0x08 \<noteq> 0 then
                   (case subrects_spec (js_and sub 0x10 \<noteq> 0) (unat (hd (drop (b + f) bs))) d (drop (Suc (b + f)) bs) of
                      (d, c, r) \<Rightarrow> (d, Suc c, r))
                 else (d, 0, Inr ()))
              in case r of Inl e \<Rightarrow> (d, b + f + c, [], Inl e)
                         | Inr _ \<Rightarrow> (d, b + f + c, [finishTile d], Inr ())))"

definition size_spec :: "int \<Rightarrow> nat \<Rightarrow> nat \<Rightarrow> byte list \<Rightarrow> nat option" where
  "size_spec sub tw th bs =
     (if js_and sub 0x01 \<noteq> 0 then Some (tw * th * 4)
      else
        (let m = (if js_and sub 0x02 \<noteq> 0 then 4 else 0) + (if js_and sub 0x04 \<noteq> 0 then 4 else 0) in
         if js_and sub 0x08 \<noteq> 0 then
           (if length bs \<le> m then None
            else Some (Suc m + unat (bs ! m) * (if js_and sub 0x10 \<noteq> 0 then 6 else 2)))
         else Some m))"

definition tile_spec ::
  "int \<Rightarrow> int \<Rightarrow> int \<Rightarrow> nat \<Rightarrow> nat \<Rightarrow> hextile \<Rightarrow> byte list \<Rightarrow> hextile \<times> nat \<times> canvas_op list \<times> (js_error + unit)" where
  "tile_spec sub tx ty tw th d bs =
     (if sub = 0 then
        (d, 0, if js_and (hx_lastsubencoding d) 0x01 \<noteq> 0 then []
               else ops [FillRect tx ty (int tw) (int th) (hx_background d)], Inr ())
      else if js_and sub 0x01 \<noteq> 0 then
        (d, tw * th * 4, [OpPut (opaque (tw * th) 0 (take (tw * th * 4) bs)) tx ty (int tw) (int th)], Inr ())
      else
        (case paint_spec sub tx ty (int tw) (int th) d bs of (d, c, ds, r) \<Rightarrow> (d, c, ops ds, r)))"

definition tile_at :: "nat \<Rightarrow> nat \<Rightarrow> nat \<Rightarrow> nat \<times> nat \<times> nat \<times> nat" where
  "tile_at width height k =
     (let tilesX = (width + 15) div 16;
          i = tilesX * ((height + 15) div 16) - Suc k;
          tx = i mod tilesX * 16; ty = i div tilesX * 16
      in (tx, ty, min 16 (width - tx), min 16 (height - ty)))"

definition hextile_item :: "int \<Rightarrow> int \<Rightarrow> nat \<Rightarrow> nat \<Rightarrow> nat \<Rightarrow> hextile \<Rightarrow> byte list \<Rightarrow> hextile item" where
  "hextile_item x y width height k d bs =
     (case bs of
        [] \<Rightarrow> Wait
      | b # bs' \<Rightarrow>
          (let sub = uint b; (tx, ty, tw, th) = tile_at width height k in
           if sub > 30 then Fail d 0 [] (JSError ''Illegal hextile subencoding'' [sub])
           else
             (case size_spec sub tw th bs' of
                None \<Rightarrow> Wait
              | Some n \<Rightarrow>
                  if length bs' < n then Wait
                  else
                    (case tile_spec sub (x + int tx) (y + int ty) tw th d bs' of
                       (d, c, os, Inl e) \<Rightarrow> Fail d (Suc c) os e
                     | (d, c, os, Inr _) \<Rightarrow>
                         Ok (d\<lparr>hx_lastsubencoding := sub, hx_tiles := hx_tiles d - 1\<rparr>) (Suc c) os))))"

definition hextile_spec ::
  "int \<Rightarrow> int \<Rightarrow> nat \<Rightarrow> nat \<Rightarrow> hextile \<Rightarrow> byte list \<Rightarrow> hextile \<times> nat \<times> canvas_op list \<times> outcome" where
  "hextile_spec x y width height d bs =
     (let d = hextile_start width height d in
      case repeat_items (hextile_item x y width height) (hx_tiles d) d bs of
        (k, s, n, os, r) \<Rightarrow> (s, n, os, r))"

subsection \<open>The painted tile\<close>

lemma subTile_frame:
  "subTile d a b c e col = (d', r) \<Longrightarrow>
     hx_foreground d' = hx_foreground d \<and> hx_tiles d' = hx_tiles d \<and> hx_tilesX d' = hx_tilesX d \<and>
     hx_totalTiles d' = hx_totalTiles d"
  by (auto simp: subTile_def split: option.splits)

definition sub_size :: "bool \<Rightarrow> nat" where
  "sub_size coloured = (if coloured then 6 else 2)"

lemma subrects_spec_consumes:
  "subrects_spec coloured n d bs = (d', c, r) \<Longrightarrow> c \<le> n * sub_size coloured"
proof (induction n arbitrary: d bs c)
  case 0
  then show ?case by simp
next
  case (Suc n)
  let ?m = "if coloured then 4 else 0 :: nat"
  from Suc.prems obtain d1 r1 where st: "subTile d (js_sar (uint (hd (drop ?m bs))) 4) (js_and (uint (hd (drop ?m bs))) 0x0f)
      (js_sar (uint (hd (drop (Suc ?m) bs))) 4 + 1) (js_and (uint (hd (drop (Suc ?m) bs))) 0x0f + 1)
      (if coloured then Some (take 4 bs) else hx_foreground d) = (d1, r1)" by (metis surj_pair)
  show ?case
  proof (cases r1)
    case (Inl e)
    with Suc.prems st show ?thesis by (auto simp: Let_def sub_size_def split: if_splits)
  next
    case (Inr u)
    obtain d2 c2 r2 where rec: "subrects_spec coloured n d1 (drop (?m + 2) bs) = (d2, c2, r2)" by (metis surj_pair)
    have "subrects_spec coloured (Suc n) d bs = (d2, ?m + 2 + c2, r2)"
      using st Inr rec by (simp only: subrects_spec.simps Let_def prod.case sum.case)
    with Suc.prems have "d2 = d'" "r2 = r" "c = ?m + 2 + c2" by auto
    with Suc.IH [of d1 "drop (?m + 2) bs" c2] rec show ?thesis by (auto simp: sub_size_def split: if_splits)
  qed
qed

lemma subrects_spec_append:
  "n * sub_size coloured \<le> length bs \<Longrightarrow> subrects_spec coloured n d (bs @ later) = subrects_spec coloured n d bs"
proof (induction n arbitrary: d bs)
  case 0
  then show ?case by simp
next
  case (Suc n)
  let ?m = "if coloured then 4 else 0 :: nat"
  have l: "?m + 2 \<le> length bs" "n * sub_size coloured \<le> length (drop (?m + 2) bs)"
    using Suc.prems by (auto simp: sub_size_def split: if_splits)
  have eqs: "hd (drop ?m (bs @ later)) = hd (drop ?m bs)" "hd (drop (Suc ?m) (bs @ later)) = hd (drop (Suc ?m) bs)"
    "(if coloured then Some (take 4 (bs @ later)) else hx_foreground d) = (if coloured then Some (take 4 bs) else hx_foreground d)"
    "drop (?m + 2) (bs @ later) = drop (?m + 2) bs @ later"
    using l by (auto simp: hd_drop_conv_nth nth_append split: if_splits)
  show ?case
    by (simp only: subrects_spec.simps eqs Let_def Suc.IH [OF l(2)])
qed

lemma subrects_refines:
  "rx_inv w \<Longrightarrow> n * sub_size coloured \<le> length (unread w) \<Longrightarrow>
     hextile_subrects coloured n d w =
       (case subrects_spec coloured n d (unread w) of (d', c, r) \<Rightarrow> (d', adv c w, r))"
proof (induction n arbitrary: d w)
  case 0
  then show ?case by simp
next
  case (Suc n)
  let ?m = "if coloured then 4 else 0 :: nat"
  have l: "?m + 2 \<le> length (unread w)" "n * sub_size coloured \<le> length (unread w) - (?m + 2)"
    using Suc.prems by (auto simp: sub_size_def split: if_splits)
  have inv: "rx_inv (adv ?m w)" "rx_inv (adv (Suc ?m) w)" "rx_inv (adv (?m + 2) w)"
    using Suc.prems(1) l by (auto intro: rx_inv_adv simp del: adv_adv)
  have un: "unread (adv ?m w) \<noteq> []" "unread (adv (Suc ?m) w) \<noteq> []"
    using Suc.prems(1) l by (simp_all add: unread_adv)
  have c: "(if coloured then (case rQshiftBytes w 4 of (w, c) \<Rightarrow> (w, Some c)) else (w, hx_foreground d))
      = (adv ?m w, if coloured then Some (take 4 (unread w)) else hx_foreground d)"
    using Suc.prems(1) l by (cases coloured) (simp_all add: ws_simps)
  have r1: "rQshift8 (adv ?m w) = (adv (Suc ?m) w, uint (hd (drop ?m (unread w))))"
    using rQshift8_eq [OF inv(1) un(1)] Suc.prems(1) by (simp add: unread_adv)
  have r2: "rQshift8 (adv (Suc ?m) w) = (adv (?m + 2) w, uint (hd (drop (Suc ?m) (unread w))))"
    using rQshift8_eq [OF inv(2) un(2)] Suc.prems(1) by (simp add: unread_adv)
  have IH: "hextile_subrects coloured n d1 (adv (?m + 2) w) =
     (case subrects_spec coloured n d1 (drop (?m + 2) (unread w)) of (d', c, r) \<Rightarrow> (d', adv (?m + 2 + c) w, r))" for d1
    using Suc.IH [OF inv(3), of d1] l Suc.prems(1) by (simp add: unread_adv)
  obtain d1 r where st: "subTile d (js_sar (uint (hd (drop ?m (unread w)))) 4) (js_and (uint (hd (drop ?m (unread w)))) 0x0f)
      (js_sar (uint (hd (drop (Suc ?m) (unread w)))) 4 + 1) (js_and (uint (hd (drop (Suc ?m) (unread w)))) 0x0f + 1)
      (if coloured then Some (take 4 (unread w)) else hx_foreground d) = (d1, r)" by (metis surj_pair)
  obtain d2 c2 r2 where rec: "subrects_spec coloured n d1 (drop (?m + 2) (unread w)) = (d2, c2, r2)"
    by (metis surj_pair)
  show ?case
    unfolding hextile_subrects.simps subrects_spec.simps Let_def c r1 r2 prod.case st IH rec
    by (cases r) (simp_all only: prod.case sum.case)
qed

text \<open>Position and size of the colours that precede the subrectangles.\<close>

definition colours_size :: "int \<Rightarrow> nat" where
  "colours_size sub = (if js_and sub 0x02 \<noteq> 0 then 4 else 0) + (if js_and sub 0x04 \<noteq> 0 then 4 else 0)"

definition set_colours :: "int \<Rightarrow> byte list \<Rightarrow> hextile \<Rightarrow> hextile" where
  "set_colours sub bs d =
     (let b = (if js_and sub 0x02 \<noteq> 0 then 4 else 0);
          d = (if js_and sub 0x02 \<noteq> 0 then d\<lparr>hx_background := Some (take 4 bs)\<rparr> else d)
      in if js_and sub 0x04 \<noteq> 0 then d\<lparr>hx_foreground := Some (take 4 (drop b bs))\<rparr> else d)"

lemma paint_spec_alt:
  "paint_spec sub tx ty tw th d bs =
     (case startTile (set_colours sub bs d) tx ty tw th (hx_background (set_colours sub bs d)) of
        (d, Inl e) \<Rightarrow> (d, colours_size sub, [], Inl e)
      | (d, Inr _) \<Rightarrow>
          (case (if js_and sub 0x08 \<noteq> 0 then
                   (case subrects_spec (js_and sub 0x10 \<noteq> 0) (unat (hd (drop (colours_size sub) bs))) d
                      (drop (Suc (colours_size sub)) bs) of (d, c, r) \<Rightarrow> (d, Suc c, r))
                 else (d, 0, Inr ())) of
             (d, c, Inl e) \<Rightarrow> (d, colours_size sub + c, [], Inl e)
           | (d, c, Inr _) \<Rightarrow> (d, colours_size sub + c, [finishTile d], Inr ())))"
  by (auto simp: paint_spec_def set_colours_def colours_size_def Let_def split: prod.splits sum.splits)

lemma hextile_paint_alt:
  assumes "rx_inv w" and "colours_size sub \<le> length (unread w)"
  shows "hextile_paint sub tx ty tw th d w =
     (let d = set_colours sub (unread w) d; w = adv (colours_size sub) w in
      case startTile d tx ty tw th (hx_background d) of
        (d, Inl e) \<Rightarrow> (d, w, [], Inl e)
      | (d, Inr _) \<Rightarrow>
          (case (if js_and sub 0x08 \<noteq> 0 then
                   (case rQshift8 w of (w, n) \<Rightarrow> hextile_subrects (js_and sub 0x10 \<noteq> 0) (nat n) d w)
                 else (d, w, Inr ())) of
             (d, w, Inl e) \<Rightarrow> (d, w, [], Inl e)
           | (d, w, Inr _) \<Rightarrow> (d, w, [finishTile d], Inr ())))"
proof -
  have "(if js_and sub 0x02 \<noteq> 0 then (case rQshiftBytes w 4 of (w, c) \<Rightarrow> (d\<lparr>hx_background := Some c\<rparr>, w)) else (d, w))
    = (if js_and sub 0x02 \<noteq> 0 then d\<lparr>hx_background := Some (take 4 (unread w))\<rparr> else d,
       adv (if js_and sub 0x02 \<noteq> 0 then 4 else 0) w)" (is "?l = (?d, ?w)")
    using assms by (auto simp: ws_simps colours_size_def)
  moreover have "(if js_and sub 0x04 \<noteq> 0 then (case rQshiftBytes ?w 4 of (w, c) \<Rightarrow> (?d\<lparr>hx_foreground := Some c\<rparr>, w)) else (?d, ?w))
    = (set_colours sub (unread w) d, adv (colours_size sub) w)"
    using assms by (cases "js_and sub 0x02 \<noteq> 0"; cases "js_and sub 0x04 \<noteq> 0")
      (simp_all add: ws_simps colours_size_def set_colours_def)
  ultimately show ?thesis
    unfolding hextile_paint_def by (simp only: Let_def prod.case)
qed

definition painted_size :: "int \<Rightarrow> byte list \<Rightarrow> nat" where
  "painted_size sub bs = colours_size sub +
     (if js_and sub 0x08 \<noteq> 0
      then Suc (unat (hd (drop (colours_size sub) bs)) * sub_size (js_and sub 0x10 \<noteq> 0)) else 0)"

lemma paint_refines:
  assumes "rx_inv w" and "painted_size sub (unread w) \<le> length (unread w)"
  shows "hextile_paint sub tx ty tw th d w =
    (case paint_spec sub tx ty tw th d (unread w) of (d', c, ds, r) \<Rightarrow> (d', adv c w, ds, r))"
proof -
  let ?m = "colours_size sub"
  have m: "?m \<le> length (unread w)" using assms(2) by (simp add: painted_size_def)
  have sub: "(case rQshift8 (adv ?m w) of (w, n) \<Rightarrow> hextile_subrects c (nat n) d1 w) =
      (case subrects_spec c (unat (hd (drop ?m (unread w)))) d1 (drop (Suc ?m) (unread w)) of
         (d', k, r) \<Rightarrow> (d', adv (?m + Suc k) w, r))"
    if "js_and sub 0x08 \<noteq> 0" "c = (js_and sub 0x10 \<noteq> 0)" for d1 c
  proof -
    have l: "?m < length (unread w)"
        "unat (hd (drop ?m (unread w))) * sub_size c \<le> length (unread w) - Suc ?m"
      using assms(2) that by (simp_all add: painted_size_def)
    have i: "rx_inv (adv ?m w)" "rx_inv (adv (Suc ?m) w)" using assms(1) l by (auto intro: rx_inv_adv)
    have "rQshift8 (adv ?m w) = (adv (Suc ?m) w, uint (hd (drop ?m (unread w))))"
      using rQshift8_eq [OF i(1)] l assms(1) by (simp add: unread_adv)
    then show ?thesis
      using subrects_refines [OF i(2), of "unat (hd (drop ?m (unread w)))" c d1] l assms(1)
      by (simp add: unread_adv split: prod.split)
  qed
  show ?thesis
  proof (cases "js_and sub 0x08 \<noteq> 0")
    case True
    show ?thesis
      unfolding hextile_paint_alt [OF assms(1) m] paint_spec_alt Let_def
      by (simp only: True if_True sub [OF True refl] not_False_eq_True) (simp split: prod.split sum.split)
  next
    case False
    then show ?thesis
      unfolding hextile_paint_alt [OF assms(1) m] paint_spec_alt Let_def
      by (simp split: prod.split sum.split)
  qed
qed

lemma paint_spec_append:
  assumes "painted_size sub bs \<le> length bs"
  shows "paint_spec sub tx ty tw th d (bs @ later) = paint_spec sub tx ty tw th d bs"
proof -
  let ?m = "colours_size sub"
  have m: "?m \<le> length bs" using assms by (simp add: painted_size_def)
  then have c: "set_colours sub (bs @ later) d = set_colours sub bs d"
    by (auto simp: set_colours_def colours_size_def split: if_splits)
  have "hd (drop ?m (bs @ later)) = hd (drop ?m bs) \<and>
     subrects_spec (js_and sub 0x10 \<noteq> 0) (unat (hd (drop ?m bs))) d1 (drop (Suc ?m) (bs @ later)) =
       subrects_spec (js_and sub 0x10 \<noteq> 0) (unat (hd (drop ?m bs))) d1 (drop (Suc ?m) bs)"
    if "js_and sub 0x08 \<noteq> 0" for d1
  proof -
    have l: "?m < length bs" "unat (hd (drop ?m bs)) * sub_size (js_and sub 0x10 \<noteq> 0) \<le> length (drop (Suc ?m) bs)"
      using assms that by (simp_all add: painted_size_def)
    with subrects_spec_append [OF l(2)] show ?thesis by (simp add: hd_drop_conv_nth nth_append)
  qed
  then show ?thesis
    unfolding paint_spec_alt c by (cases "js_and sub 0x08 \<noteq> 0") (simp_all split: prod.split sum.split)
qed

lemma paint_spec_consumes:
  assumes "paint_spec sub tx ty tw th d bs = (d', c, ds, r)"
  shows "c \<le> painted_size sub bs"
  using assms unfolding paint_spec_alt painted_size_def
  by (auto split: prod.splits sum.splits if_splits dest!: subrects_spec_consumes)

subsection \<open>Tiles as items\<close>

lemma size_spec_alt:
  "size_spec sub tw th bs =
     (if js_and sub 0x01 \<noteq> 0 then Some (tw * th * 4)
      else if js_and sub 0x08 \<noteq> 0 \<and> length bs \<le> colours_size sub then None
      else Some (painted_size sub bs))"
  by (simp add: size_spec_def painted_size_def colours_size_def sub_size_def Let_def hd_drop_conv_nth)

lemma tile_spec_append:
  assumes "size_spec sub tw th bs = Some n" and "n \<le> length bs"
  shows "tile_spec sub tx ty tw th d (bs @ later) = tile_spec sub tx ty tw th d bs"
  using assms paint_spec_append [of sub bs]
  by (auto simp: tile_spec_def size_spec_alt split: if_splits)

lemma size_spec_append:
  "size_spec sub tw th bs = Some n \<Longrightarrow> size_spec sub tw th (bs @ later) = Some n"
  by (auto simp: size_spec_def Let_def nth_append split: if_splits)

lemma tile_spec_consumes:
  assumes "size_spec sub tw th bs = Some n" and "tile_spec sub tx ty tw th d bs = (d', c, os, r)"
  shows "c \<le> n"
  using assms paint_spec_consumes [of sub tx ty "int tw" "int th" d bs]
  by (auto simp: tile_spec_def size_spec_alt split: if_splits prod.splits)

interpretation hextile_items: item_parser "hextile_item x y width height" for x y width height
proof
  fix k d bs later
  assume "hextile_item x y width height k d bs \<noteq> Wait"
  then show "hextile_item x y width height k d (bs @ later) = hextile_item x y width height k d bs"
    by (auto simp: hextile_item_def Let_def tile_spec_append size_spec_append
        split: list.splits prod.splits if_splits option.splits sum.splits dest: size_spec_append)
next
  fix k d bs d' n os
  assume "hextile_item x y width height k d bs = Ok d' n os"
  then show "n \<le> length bs"
    by (auto simp: hextile_item_def Let_def dest!: tile_spec_consumes
        split: list.splits prod.splits if_splits option.splits sum.splits)
next
  fix k d bs d' n os e
  assume "hextile_item x y width height k d bs = Fail d' n os e"
  then show "n \<le> length bs"
    by (auto simp: hextile_item_def Let_def dest!: tile_spec_consumes
        split: list.splits prod.splits if_splits option.splits sum.splits)
qed

text \<open>The tile bookkeeping is only changed by the loop.\<close>

definition shape :: "hextile \<Rightarrow> nat \<times> nat \<times> nat \<times> nat" where
  "shape d = (hx_tiles d, hx_tilesX d, hx_tilesY d, hx_totalTiles d)"

lemma shape_subTile: "subTile d a b c e col = (d', r) \<Longrightarrow> shape d' = shape d"
  by (auto simp: subTile_def shape_def split: option.splits)

lemma shape_startTile: "startTile d a b c e col = (d', r) \<Longrightarrow> shape d' = shape d"
  by (auto simp: startTile_def shape_def Let_def split: option.splits)

lemma shape_subrects: "subrects_spec coloured n d bs = (d', c, r) \<Longrightarrow> shape d' = shape d"
proof (induction n arbitrary: d bs c)
  case 0
  then show ?case by simp
next
  case (Suc n)
  then show ?case
    by (auto simp: Let_def dest!: shape_subTile split: prod.splits sum.splits simp del: drop_append)
qed

lemma shape_tile_spec: "tile_spec sub tx ty tw th d bs = (d', c, os, r) \<Longrightarrow> shape d' = shape d"
proof -
  have "shape (set_colours sub bs d) = shape d" by (simp add: set_colours_def Let_def shape_def)
  then show "tile_spec sub tx ty tw th d bs = (d', c, os, r) \<Longrightarrow> shape d' = shape d"
    by (auto simp: tile_spec_def paint_spec_alt dest!: shape_startTile shape_subrects
        split: if_splits prod.splits sum.splits)
qed

definition hextile_ok :: "nat \<Rightarrow> nat \<Rightarrow> hextile \<Rightarrow> bool" where
  "hextile_ok width height d \<longleftrightarrow> hx_tiles d = 0 \<or>
     (hx_tilesX d = (width + 15) div 16 \<and> hx_totalTiles d = (width + 15) div 16 * ((height + 15) div 16) \<and>
      hx_tiles d \<le> hx_totalTiles d)"

lemma tile_geometry:
  assumes "hextile_ok width height d" and k: "hx_tiles d = Suc k"
    and t: "tile_at width height k = (tx, ty, tw, th)"
  defines "i \<equiv> int (hx_totalTiles d) - int (hx_tiles d)"
  shows "i mod int (hx_tilesX d) * 16 = int tx \<and> i div int (hx_tilesX d) * 16 = int ty \<and>
    min 16 (x + int width - (x + int tx)) = int tw \<and> min 16 (y + int height - (y + int ty)) = int th \<and>
    0 < tw \<and> 0 < th \<and> tx + tw \<le> width \<and> ty + th \<le> height"
proof -
  define X where "X = (width + 15) div 16"
  define Y where "Y = (height + 15) div 16"
  define j where "j = X * Y - Suc k"
  have XY: "X * 16 \<le> width + 15" "Y * 16 \<le> height + 15"
    unfolding X_def Y_def by (rule div_times_less_eq_dividend)+
  have le: "Suc k \<le> X * Y" and X: "hx_tilesX d = X" and tot: "hx_totalTiles d = X * Y"
    using assms(1) k by (auto simp: hextile_ok_def X_def Y_def)
  have i: "i = int j" using le k tot by (simp add: i_def j_def of_nat_diff)
  have pos: "0 < X" using le by (cases "X = 0") auto
  then have "j mod X < X" by simp
  moreover have "j < X * Y" using le by (simp add: j_def)
  then have "j div X < Y" by (metis less_mult_imp_div_less mult.commute)
  moreover have t': "tx = j mod X * 16" "ty = j div X * 16" "tw = min 16 (width - tx)" "th = min 16 (height - ty)"
    using t unfolding tile_at_def Let_def X_def [symmetric] Y_def [symmetric] j_def [symmetric] by auto
  ultimately have "tx < width" "ty < height" using XY by linarith+
  moreover have "i mod int (hx_tilesX d) * 16 = int tx" "i div int (hx_tilesX d) * 16 = int ty"
    unfolding i X t'(1,2) by (simp_all add: zmod_int zdiv_int)
  ultimately show ?thesis using t'(3,4) by auto
qed

lemma hextile_tile_refines:
  assumes inv: "rx_inv w" and u: "unread w = b # bs" and sz: "size_spec sub tw th bs = Some n" "n \<le> length bs"
    and tile: "hextile_tile sub tx ty (int tw) (int th) d w = (d', w', ds, r)"
  shows "\<exists>c \<le> n. tile_spec sub tx ty tw th d bs = (d', c, ops ds, r) \<and> rx_inv w' \<and> unread w' = drop c bs"
proof -
  have s8: "rQshift8 w = (adv 1 w, uint b)" using inv u by (simp add: ws_simps)
  have i1: "rx_inv (adv 1 w)" "unread (adv 1 w) = bs" using inv u by (simp_all add: ws_simps)
  consider "sub = 0" | "sub \<noteq> 0" "js_and sub 0x01 \<noteq> 0" | "sub \<noteq> 0" "js_and sub 0x01 = 0" by blast
  then show ?thesis
  proof cases
    case 1
    with tile i1 show ?thesis
      by (auto simp: hextile_tile_def s8 tile_spec_def split: if_splits option.splits)
  next
    case 2
    let ?n = "tw * th * 4" and ?w = "adv 1 w"
    have n: "n = ?n" using sz 2 by (simp add: size_spec_def)
    have sh: "rQshiftBytes ?w (int ?n) = (adv ?n ?w, take ?n bs)"
      using rQshiftBytes_eq [OF i1(1), of ?n] i1(2) n sz by simp
    have nn: "int tw * int th * 4 = int ?n" "nat (int tw * int th) = tw * th" "nat (int ?n) = ?n"
      by (simp_all add: nat_mult_distrib)
    let ?w' = "(adv ?n ?w)\<lparr>rQ := opaque (tw * th) (rQi ?w) (rQ ?w)\<rparr>"
    have st: "rx_inv ?w'" "unread ?w' = drop ?n bs"
        "take ?n (drop (nat (rQi ?w)) (rQ ?w')) = opaque (tw * th) 0 (take ?n bs)"
      using raw_step [OF i1(1), of ?n "tw * th"] i1(2) n sz by simp_all
    have "hextile_tile sub tx ty (int tw) (int th) d w = (d, ?w', [BlitImage tx ty (int tw) (int th)
        \<lparr>v_buffer = rQ ?w', v_byteOffset = nat (rQi ?w), v_length = length (take ?n bs)\<rparr> 0], Inr ())"
      using 2 by (simp only: hextile_tile_def s8 Let_def prod.case nn sh if_False if_True not_False_eq_True
          simp_thms) (simp add: adv_def)
    with tile have eq: "d' = d" "w' = ?w'" "r = Inr ()" "ds = [BlitImage tx ty (int tw) (int th)
        \<lparr>v_buffer = rQ ?w', v_byteOffset = nat (rQi ?w), v_length = length (take ?n bs)\<rparr> 0]" by auto
    have "ops ds = [OpPut (opaque (tw * th) 0 (take ?n bs)) tx ty (int tw) (int th)]"
      unfolding eq(4) ops_Cons ops_Nil draw_ops.simps append_Nil2 u8view.select_convs nat_0 add_0_right
        nn(1,3) st(3) by (rule refl)
    then show ?thesis using 2 st(1,2) eq(1-3) n by (simp add: tile_spec_def)
  next
    case 3
    then have "painted_size sub (unread (adv 1 w)) \<le> length (unread (adv 1 w))"
      using sz i1 by (auto simp: size_spec_alt split: if_splits)
    note pr = paint_refines [OF i1(1) this, of tx ty "int tw" "int th" d, unfolded i1(2)]
    obtain d1 c ds1 r1 where sp: "paint_spec sub tx ty (int tw) (int th) d bs = (d1, c, ds1, r1)"
      by (metis surj_pair)
    have "n = painted_size sub bs" using sz(1) 3 by (simp add: size_spec_alt split: if_splits)
    then have c: "c \<le> n" using paint_spec_consumes [OF sp] by simp
    have "hextile_tile sub tx ty (int tw) (int th) d w = (d1, adv c (adv 1 w), ds1, r1)"
      using 3 pr sp by (simp add: hextile_tile_def s8 del: adv_adv)
    with tile have "d1 = d'" "w' = adv c (adv 1 w)" "ds1 = ds" "r1 = r" by auto
    then show ?thesis
      using 3 sp c rx_inv_adv [OF i1(1), of c] unread_adv [OF i1(1), of c] i1(2) sz(2)
      by (simp add: tile_spec_def del: adv_adv)
  qed
qed

lemma hextile_bytes_size:
  assumes inv: "rx_inv w" and u: "unread w = b # bs"
  shows "hextile_bytes sub (int tw) (int th) w = map_option (\<lambda>n. 1 + int n) (size_spec sub tw th bs)"
proof -
  have pk: "uint (last (rQpeekBytes w (2 + int m))) = int (unat (bs ! m)) \<and> \<not> rQwaits w (2 + int m)"
    if "m < length bs" for m
  proof -
    have "rQpeekBytes w (int (Suc (Suc m))) = b # take (Suc m) bs"
      using rQpeekBytes_eq [OF inv, of "Suc (Suc m)"] that u by simp
    moreover have "last (take (Suc m) bs) = bs ! m" using that by (simp add: take_Suc_conv_app_nth)
    moreover have "take (Suc m) bs \<noteq> []" using that by auto
    ultimately show ?thesis using that inv u by (simp add: rQwaits_iff)
  qed
  have wt: "rQwaits w (2 + int m)" if "length bs \<le> m" for m
    using that inv u by (simp add: rQwaits_iff)
  show ?thesis
    using pk [of 0] pk [of 4] pk [of 8] wt [of 0] wt [of 4] wt [of 8]
    by (auto simp: hextile_bytes_def size_spec_def Let_def not_le)
qed

text \<open>One iteration of the loop, by what the item parser says of the unread bytes.\<close>

lemma hextile_step:
  assumes inv: "rx_inv w" and ok: "hextile_ok width height d" "hx_tiles d = Suc k"
    and t: "tile_at width height k = (tx, ty, tw, th)" and u: "unread w = b # bs" and small: "uint b \<le> 30"
    and sz: "size_spec (uint b) tw th bs = Some n" "n \<le> length bs"
    and tile: "hextile_tile (uint b) (x + int tx) (y + int ty) (int tw) (int th) d w = (d1, w1, ds1, r1)"
  shows "hextile_loop x y width height (Suc k) d w =
    (case r1 of
       Inl e \<Rightarrow> (d1, w1, ds1, Throws e)
     | Inr _ \<Rightarrow> (case hextile_loop x y width height k (d1\<lparr>hx_lastsubencoding := uint b, hx_tiles := hx_tiles d1 - 1\<rparr>) w1 of
         (d2, w2, ds2, r) \<Rightarrow> (d2, w2, ds1 @ ds2, r)))"
proof -
  have "\<not> rQwaits w 1" "rQpeek8 w = uint b" "\<not> rQwaits w (1 + int n)" using inv u sz by (simp_all add: ws_simps)
  then show ?thesis
    using small tile_geometry [OF ok t, of x y] hextile_bytes_size [OF inv u, of "uint b" tw th] sz tile
    by (simp add: Let_def split: prod.split sum.split)
qed

text \<open>What an item that is not waiting says about the bytes.\<close>

lemma hextile_item_tileE:
  assumes "hextile_item x y width height k d bs = item" and "item \<noteq> Wait"
    and "\<And>b :: byte. item \<noteq> Fail d 0 [] (JSError ''Illegal hextile subencoding'' [uint b])"
  obtains b bs' tx ty tw th n d1 c os r where "bs = b # bs'" "uint b \<le> 30" "tile_at width height k = (tx, ty, tw, th)"
    "size_spec (uint b) tw th bs' = Some n" "n \<le> length bs'"
    "tile_spec (uint b) (x + int tx) (y + int ty) tw th d bs' = (d1, c, os, r)"
    "item = (case r of Inl e \<Rightarrow> Fail d1 (Suc c) os e
      | Inr _ \<Rightarrow> Ok (d1\<lparr>hx_lastsubencoding := uint b, hx_tiles := hx_tiles d1 - 1\<rparr>) (Suc c) os)"
proof -
  from assms(2) assms(1) obtain b bs' where b: "bs = b # bs'" by (cases bs) (auto simp: hextile_item_def)
  obtain tx ty tw th where t: "tile_at width height k = (tx, ty, tw, th)" by (metis surj_pair)
  have small: "uint b \<le> 30"
  proof (rule ccontr)
    assume "\<not> uint b \<le> 30"
    then have "item = Fail d 0 [] (JSError ''Illegal hextile subencoding'' [uint b])"
      using assms(1) b t by (simp add: hextile_item_def)
    with assms(3) show False by blast
  qed
  with assms(1,2) b t obtain n where n: "size_spec (uint b) tw th bs' = Some n" "n \<le> length bs'"
    by (auto simp: hextile_item_def Let_def split: option.splits if_splits)
  obtain d1 c os r where s: "tile_spec (uint b) (x + int tx) (y + int ty) tw th d bs' = (d1, c, os, r)"
    by (metis surj_pair)
  have "item = (case r of Inl e \<Rightarrow> Fail d1 (Suc c) os e
      | Inr _ \<Rightarrow> Ok (d1\<lparr>hx_lastsubencoding := uint b, hx_tiles := hx_tiles d1 - 1\<rparr>) (Suc c) os)"
    using assms(1) b t small n s by (auto simp: hextile_item_def split: sum.splits)
  from that [OF b small t n s this] show thesis .
qed

lemma hextile_loop_Wait:
  assumes "rx_inv w" and "hextile_ok width height d" "hx_tiles d = Suc k"
    and "hextile_item x y width height k d (unread w) = Wait"
  shows "hextile_loop x y width height (Suc k) d w = (d, w, [], NeedMore)"
proof (cases "unread w")
  case Nil
  with assms show ?thesis by (simp add: ws_simps)
next
  case u: (Cons b bs)
  obtain tx ty tw th where t: "tile_at width height k = (tx, ty, tw, th)" by (metis surj_pair)
  have "\<not> rQwaits w 1" "rQpeek8 w = uint b" using assms(1) u by (simp_all add: ws_simps)
  then show ?thesis
    using assms(1,4) u t tile_geometry [OF assms(2,3) t, of x y] hextile_bytes_size [OF assms(1) u, of "uint b" tw th]
    by (auto simp: hextile_item_def Let_def rQwaits_iff split: option.splits if_splits sum.splits prod.splits)
qed

lemma hextile_tile_step:
  assumes inv: "rx_inv w" and ok: "hextile_ok width height d" "hx_tiles d = Suc k"
    and it: "hextile_item x y width height k d (unread w) = item" "item \<noteq> Wait"
      "\<And>b :: byte. item \<noteq> Fail d 0 [] (JSError ''Illegal hextile subencoding'' [uint b])"
  shows "\<exists>w1 ds1. case item of
      Wait \<Rightarrow> False
    | Fail d1 n os e \<Rightarrow> hextile_loop x y width height (Suc k) d w = (d1, w1, ds1, Throws e) \<and> ops ds1 = os \<and>
        rx_inv w1 \<and> unread w1 = drop n (unread w) \<and> shape d1 = shape d
    | Ok d1 n os \<Rightarrow> hextile_loop x y width height (Suc k) d w =
          (case hextile_loop x y width height k d1 w1 of (d2, w2, ds2, r) \<Rightarrow> (d2, w2, ds1 @ ds2, r)) \<and>
        ops ds1 = os \<and> rx_inv w1 \<and> unread w1 = drop n (unread w) \<and>
        shape d1 = (k, snd (shape d))"
proof -
  from hextile_item_tileE [OF it] obtain b bs tx ty tw th n d1 c os r where
    u: "unread w = b # bs" and small: "uint b \<le> 30" and t: "tile_at width height k = (tx, ty, tw, th)" and
    sz: "size_spec (uint b) tw th bs = Some n" "n \<le> length bs" and
    sp: "tile_spec (uint b) (x + int tx) (y + int ty) tw th d bs = (d1, c, os, r)" and
    item: "item = (case r of Inl e \<Rightarrow> Fail d1 (Suc c) os e
      | Inr _ \<Rightarrow> Ok (d1\<lparr>hx_lastsubencoding := uint b, hx_tiles := hx_tiles d1 - 1\<rparr>) (Suc c) os)" by blast
  obtain d2 w1 ds1 r1 where tile:
    "hextile_tile (uint b) (x + int tx) (y + int ty) (int tw) (int th) d w = (d2, w1, ds1, r1)" by (metis surj_pair)
  from hextile_tile_refines [OF inv u sz tile] sp
  have e: "d2 = d1" "r1 = r" "ops ds1 = os" "rx_inv w1" "unread w1 = drop c bs" by auto
  note st = hextile_step [OF inv ok t u small sz tile]
  show ?thesis
    using st e u item shape_tile_spec [OF sp] ok(2)
    by (intro exI [of _ w1] exI [of _ ds1]) (cases r; auto simp: shape_def)
qed

interpretation hextile_loop: item_loop "hextile_item x y width height" "hextile_loop x y width height"
  "\<lambda>k d. hextile_ok width height d \<and> hx_tiles d = k" for x y width height
proof
  fix d w
  show "hextile_loop x y width height 0 d w = (d, w, [], Done)" by simp
next
  fix w k d
  assume "rx_inv w" "hextile_ok width height d \<and> hx_tiles d = Suc k" "hextile_item x y width height k d (unread w) = Wait"
  then show "hextile_loop x y width height (Suc k) d w = (d, w, [], NeedMore)"
    by (intro hextile_loop_Wait) auto
next
  fix w k d d1 n os e
  assume inv: "rx_inv w" and ok: "hextile_ok width height d \<and> hx_tiles d = Suc k"
    and it: "hextile_item x y width height k d (unread w) = Fail d1 n os e"
  show "\<exists>w1 ds. hextile_loop x y width height (Suc k) d w = (d1, w1, ds, Throws e) \<and> ops ds = os \<and> rx_inv w1 \<and>
      unread w1 = drop n (unread w) \<and> hextile_ok width height d1 \<and> hx_tiles d1 = Suc k"
  proof (cases "\<exists>b :: byte. Fail d1 n os e = Fail d 0 [] (JSError ''Illegal hextile subencoding'' [uint b])")
    case True
    with it inv ok show ?thesis
      by (auto simp: hextile_item_def ws_simps Let_def split: list.splits option.splits if_splits sum.splits prod.splits)
  next
    case False
    then have "\<And>b :: byte. Fail d1 n os e \<noteq> Fail d 0 [] (JSError ''Illegal hextile subencoding'' [uint b])" by blast
    from hextile_tile_step [OF inv conjunct1 [OF ok] conjunct2 [OF ok] it item.distinct(2) this] ok
    show ?thesis by (auto simp: shape_def hextile_ok_def simp del: hextile_loop.simps)
  qed
next
  fix w k d d1 n os
  assume inv: "rx_inv w" and ok: "hextile_ok width height d \<and> hx_tiles d = Suc k"
    and it: "hextile_item x y width height k d (unread w) = Ok d1 n os"
  from hextile_tile_step [OF inv conjunct1 [OF ok] conjunct2 [OF ok] it] obtain w1 ds1 where
    "hextile_loop x y width height (Suc k) d w =
      (case hextile_loop x y width height k d1 w1 of (d2, w2, ds2, r) \<Rightarrow> (d2, w2, ds1 @ ds2, r))"
    "ops ds1 = os" "rx_inv w1" "unread w1 = drop n (unread w)" "shape d1 = (k, snd (shape d))"
    by (auto simp del: hextile_loop.simps)
  moreover from this ok have "hextile_ok width height d1" "hx_tiles d1 = k"
    by (auto simp: shape_def hextile_ok_def)
  ultimately show "\<exists>w1 ds. hextile_loop x y width height (Suc k) d w =
      (case hextile_loop x y width height k d1 w1 of (d2, w2, ds2, r) \<Rightarrow> (d2, w2, ds @ ds2, r)) \<and>
      ops ds = os \<and> rx_inv w1 \<and> unread w1 = drop n (unread w) \<and> hextile_ok width height d1 \<and> hx_tiles d1 = k"
    by blast
qed

section \<open>The decoder meets its contract\<close>

lemma hextile_item_tiles:
  assumes "hextile_item x y width height k d bs = item"
  shows "case item of Wait \<Rightarrow> True | Fail d1 n os e \<Rightarrow> hx_tiles d1 = hx_tiles d
    | Ok d1 n os \<Rightarrow> hx_tiles d1 = hx_tiles d - 1"
  using assms shape_tile_spec
  by (auto simp: hextile_item_def Let_def shape_def split: list.splits prod.splits option.splits sum.splits if_splits)

lemma hextile_repeat_tiles:
  "repeat_items (hextile_item x y width height) k d bs = (k', d', n, os, r) \<Longrightarrow> hx_tiles d = k \<Longrightarrow> hx_tiles d' = k'"
proof (induction k arbitrary: d bs n os)
  case 0
  then show ?case by simp
next
  case (Suc k)
  show ?case
  proof (cases "hextile_item x y width height k d bs")
    case (Ok d1 m os1)
    from hextile_item_tiles [OF this] Suc.prems(2) have "hx_tiles d1 = k" by simp
    with Suc.IH [of d1 "drop m bs"] Suc.prems(1) Ok show ?thesis by (auto split: prod.splits)
  qed (use Suc.prems hextile_item_tiles [of x y width height k d bs] in auto)
qed

lemma hextile_start_ok: "hextile_ok width height d \<Longrightarrow> hextile_ok width height (hextile_start width height d)"
  by (auto simp: hextile_ok_def hextile_start_def Let_def)

interpretation hextile: wire_decoder "hextile_decodeRect x y width height" "hextile_spec x y width height"
  "hextile_ok width height" for x y width height
proof
  fix w d d' w' ds r
  let ?d = "hextile_start width height d"
  assume inv: "rx_inv w" and ok: "hextile_ok width height d"
    and dec: "hextile_decodeRect x y width height d w = (d', w', ds, r)"
  have "hextile_ok width height ?d \<and> hx_tiles ?d = hx_tiles ?d" using hextile_start_ok [OF ok] by simp
  from hextile_loop.loop_refines [OF inv this] dec
  show "\<exists>n\<le>length (unread w). hextile_spec x y width height d (unread w) = (d', n, ops ds, r) \<and>
      rx_inv w' \<and> unread w' = drop n (unread w) \<and> hextile_ok width height d'"
    by (fastforce simp: hextile_decodeRect_def hextile_spec_def Let_def)
next
  fix d bs d' n os r later
  assume "hextile_spec x y width height d bs = (d', n, os, r)" and "r \<noteq> NeedMore"
  then show "hextile_spec x y width height d (bs @ later) = (d', n, os, r)"
    by (auto simp: hextile_spec_def Let_def split: prod.splits dest: hextile_items.repeat_stable [where later = later])
next
  fix d bs d' n os later
  assume "hextile_spec x y width height d bs = (d', n, os, NeedMore)"
  then obtain k where rp: "repeat_items (hextile_item x y width height) (hx_tiles (hextile_start width height d))
      (hextile_start width height d) bs = (k, d', n, os, NeedMore)"
    by (auto simp: hextile_spec_def Let_def split: prod.splits)
  have "hx_tiles d' = k" using hextile_repeat_tiles [OF rp refl] .
  moreover have "0 < k" using hextile_items.repeat_NeedMore [OF rp] .
  ultimately have "hextile_start width height d' = d'" "hx_tiles d' = k" by (auto simp: hextile_start_def)
  with hextile_items.repeat_resume [OF rp, of later]
  show "hextile_spec x y width height d (bs @ later) =
      (case hextile_spec x y width height d' (drop n bs @ later) of (d2, m, os2, r) \<Rightarrow> (d2, n + m, os @ os2, r))"
    by (simp add: hextile_spec_def split: prod.split)
qed

section \<open>Pixels of a painted tile\<close>

definition pixel :: "u8array \<Rightarrow> nat \<Rightarrow> byte list" where
  "pixel data q = take 4 (drop (4 * q) data)"

definition opaque_px :: "byte list \<Rightarrow> byte list" where
  "opaque_px c = [u8_get c 0, u8_get c 1, u8_get c 2, 255]"

lemma length_put_pixel [simp]: "length (put_pixel c data p) = length data"
  by (simp add: put_pixel_def)

lemma length_ge_4: "4 \<le> length xs \<Longrightarrow> \<exists>a b c d r. xs = a # b # c # d # r"
  by (auto simp: numeral_eq_Suc Suc_le_length_iff)

lemma put_pixel_split:
  assumes "4 * q + 4 \<le> length data"
  shows "put_pixel c data (int q * 4) = take (4 * q) data @ opaque_px c @ drop (4 * q + 4) data"
proof -
  have n: "nat (int q * 4) = 4 * q" "nat (int q * 4 + 1) = Suc (4 * q)" "nat (int q * 4 + 2) = Suc (Suc (4 * q))"
      "nat (int q * 4 + 3) = Suc (Suc (Suc (4 * q)))" by auto
  obtain a b d e rest where "drop (4 * q) data = a # b # d # e # rest"
    using assms length_ge_4 [of "drop (4 * q) data"] by (auto simp: le_diff_conv2)
  then have "data = take (4 * q) data @ a # b # d # e # rest" by (metis append_take_drop_id)
  then obtain pre where pre: "length pre = 4 * q" "data = pre @ a # b # d # e # rest"
    using assms by (metis length_take add_leD1 min.absorb2)
  then show ?thesis
    by (simp add: put_pixel_def u8_upd_def n list_update_append opaque_px_def nth_append)
qed

lemma pixel_put:
  assumes "4 * q + 4 \<le> length data" and "4 * q' + 4 \<le> length data"
  shows "pixel (put_pixel c data (int q * 4)) q' = (if q' = q then opaque_px c else pixel data q')"
proof -
  have l: "length (opaque_px c) = 4" by (simp add: opaque_px_def)
  consider "q' < q" | "q' = q" | "q < q'" by linarith
  then show ?thesis
  proof cases
    case 1
    then have "4 * q' + 4 \<le> 4 * q" by simp
    with 1 show ?thesis
      unfolding put_pixel_split [OF assms(1)] pixel_def using assms by (simp add: take_drop min_def)
  next
    case 2
    then show ?thesis unfolding put_pixel_split [OF assms(1)] pixel_def using assms l by simp
  next
    case 3
    then have "4 * q + 4 + (4 * q' - (4 * q + 4)) = 4 * q'" by simp
    with 3 show ?thesis
      unfolding put_pixel_split [OF assms(1)] pixel_def using assms l by (simp add: add.commute)
  qed
qed

lemma paint_pixels:
  assumes "\<forall>i \<in> set is. 0 \<le> f i \<and> 4 * f i + 4 \<le> int (length data)" and "4 * q + 4 \<le> length data"
  shows "length (foldl (\<lambda>data i. put_pixel c data (f i * 4)) data is) = length data \<and>
    pixel (foldl (\<lambda>data i. put_pixel c data (f i * 4)) data is) q =
      (if int q \<in> f ` set is then opaque_px c else pixel data q)"
  using assms
proof (induction "is" arbitrary: data)
  case Nil
  then show ?case by simp
next
  case (Cons i "is")
  then have "0 \<le> f i" "4 * f i + 4 \<le> int (length data)" by simp_all
  then obtain p where p: "f i = int p" "4 * p + 4 \<le> length data"
    by (intro that [of "nat (f i)"]) simp_all
  with Cons.IH [of "put_pixel c data (int p * 4)"] Cons.prems pixel_put [OF p(2) Cons.prems(2), of c]
  show ?case by auto
qed

lemma foldl_foldl_product:
  "foldl (\<lambda>d j. foldl (\<lambda>d i. g j i d) d xs) d ys = foldl (\<lambda>d (j, i). g j i d) d (List.product ys xs)"
proof (induction ys arbitrary: d)
  case Nil
  then show ?case by simp
next
  case (Cons y ys)
  have "foldl (\<lambda>d (j, i). g j i d) e (map (Pair y) xs) = foldl (\<lambda>d i. g y i d) e xs" for e
    by (induction xs arbitrary: e) simp_all
  with Cons show ?case by simp
qed

text \<open>A coloured subrectangle of a tile: colour, position and size, packed into two bytes.\<close>

fun hx_sub_bytes :: "subrect \<Rightarrow> byte list" where
  "hx_sub_bytes (col, sx, sy, sw, sh) = col @ [ToUint8 (sx * 16 + sy), ToUint8 ((sw - 1) * 16 + (sh - 1))]"

fun sub_fits :: "nat \<Rightarrow> nat \<Rightarrow> subrect \<Rightarrow> bool" where
  "sub_fits W H (col, sx, sy, sw, sh) \<longleftrightarrow> length col = 4 \<and> 0 \<le> sx \<and> 0 \<le> sy \<and> 0 < sw \<and> 0 < sh \<and>
     sx + sw \<le> int W \<and> sy + sh \<le> int H"

fun cover :: "nat \<Rightarrow> nat \<Rightarrow> byte list \<Rightarrow> subrect \<Rightarrow> byte list" where
  "cover i j p (col, sx, sy, sw, sh) =
     (if sx \<le> int i \<and> int i < sx + sw \<and> sy \<le> int j \<and> int j < sy + sh then opaque_px col else p)"

lemma tile_index_inj:
  fixes i i' j j' W :: int
  assumes "0 \<le> i" "i < W" "0 \<le> i'" "i' < W" "i + j * W = i' + j' * W"
  shows "i = i' \<and> j = j'"
  by (metis add.right_neutral assms div_mult_self2 div_pos_pos_trivial mod_mult_self2 mod_pos_pos_trivial
      mult.commute order_less_irrefl le_less_trans add.commute add_left_cancel)

lemma tile_index_bound:
  assumes "0 \<le> i" "i < int W" "0 \<le> j" "j < int H" and "4 * W * H \<le> n"
  shows "0 \<le> i + j * int W \<and> 4 * (i + j * int W) + 4 \<le> int n"
proof -
  have "j * int W + int W \<le> int H * int W"
    using mult_right_mono [of "j + 1" "int H" "int W"] assms(4) by (simp add: algebra_simps)
  moreover have "4 * (int H * int W) \<le> int n"
    using assms(5) by (metis of_nat_le_iff of_nat_mult of_nat_numeral mult.assoc mult.commute)
  ultimately show ?thesis using assms(1-3) by simp
qed

lemma paint_pixels_length: "length (foldl (\<lambda>data i. put_pixel c data (f i * 4)) data is) = length data"
  by (induction "is" arbitrary: data) simp_all

lemma subTile_pixels:
  assumes "hx_tileW d = int W" and len: "4 * W * H \<le> length (hx_tileBuffer d)"
    and fits: "sub_fits W H (c, sx, sy, sw, sh)"
  shows "\<exists>buf. subTile d sx sy sw sh (Some c) = (d\<lparr>hx_tileBuffer := buf\<rparr>, Inr ()) \<and>
    length buf = length (hx_tileBuffer d) \<and>
    (\<forall>i<W. \<forall>j<H. pixel buf (i + j * W) = cover i j (pixel (hx_tileBuffer d) (i + j * W)) (c, sx, sy, sw, sh))"
proof -
  let ?ps = "List.product [sy..sy + sh - 1] [sx..sx + sw - 1]"
  let ?f = "\<lambda>(j, i). i + j * int W"
  let ?b = "hx_tileBuffer d"
  let ?buf = "foldl (\<lambda>data p. put_pixel c data (?f p * 4)) ?b ?ps"
  have eq: "subTile d sx sy sw sh (Some c) = (d\<lparr>hx_tileBuffer := ?buf\<rparr>, Inr ())"
    using foldl_foldl_product [of "\<lambda>j i data. put_pixel c data ((i + j * int W) * 4)" "[sx..sx + sw - 1]" ?b "[sy..sy + sh - 1]"]
    by (simp add: subTile_def assms(1) case_prod_unfold)
  have bound: "\<forall>p \<in> set ?ps. 0 \<le> ?f p \<and> 4 * ?f p + 4 \<le> int (length ?b)"
    using fits tile_index_bound [OF _ _ _ _ len] by auto
  have "length ?buf = length ?b \<and> pixel ?buf (i + j * W) =
      cover i j (pixel ?b (i + j * W)) (c, sx, sy, sw, sh)" if "i < W" "j < H" for i j
  proof -
    have "int (4 * (i + j * W) + 4) \<le> int (length ?b)"
      using tile_index_bound [of "int i" W "int j" H, OF _ _ _ _ len] that by simp
    then have q: "4 * (i + j * W) + 4 \<le> length ?b" by (simp only: of_nat_le_iff)
    have "int (i + j * W) \<in> ?f ` set ?ps \<longleftrightarrow> sx \<le> int i \<and> int i < sx + sw \<and> sy \<le> int j \<and> int j < sy + sh"
    proof
      assume "int (i + j * W) \<in> ?f ` set ?ps"
      then obtain j' i' where ji: "j' \<in> {sy..sy + sh - 1}" "i' \<in> {sx..sx + sw - 1}"
          "int i + int j * int W = i' + j' * int W" by auto
      with fits that have "int i = i' \<and> int j = j'"
        by (intro tile_index_inj [of _ "int W"]) auto
      with ji show "sx \<le> int i \<and> int i < sx + sw \<and> sy \<le> int j \<and> int j < sy + sh" by auto
    next
      assume "sx \<le> int i \<and> int i < sx + sw \<and> sy \<le> int j \<and> int j < sy + sh"
      then have "(int j, int i) \<in> set ?ps" by auto
      then show "int (i + j * W) \<in> ?f ` set ?ps" by (rule rev_image_eqI) simp
    qed
    with paint_pixels [OF bound q, of c] show ?thesis by simp
  qed
  moreover have "length ?buf = length ?b" using paint_pixels_length .
  ultimately show ?thesis using eq by blast
qed

lemma sub_fits_coords:
  assumes "sub_fits W H (c, sx, sy, sw, sh)" and "W \<le> 16" and "H \<le> 16"
  shows "js_sar (uint (ToUint8 (sx * 16 + sy))) 4 = sx \<and> js_and (uint (ToUint8 (sx * 16 + sy))) 0x0f = sy \<and>
    js_sar (uint (ToUint8 ((sw - 1) * 16 + (sh - 1)))) 4 + 1 = sw \<and>
    js_and (uint (ToUint8 ((sw - 1) * 16 + (sh - 1)))) 0x0f + 1 = sh"
proof -
  have nib: "js_sar (uint (ToUint8 (a * 16 + b))) 4 = a \<and> js_and (uint (ToUint8 (a * 16 + b))) 0x0f = b"
    if "0 \<le> a" "a < 16" "0 \<le> b" "b < 16" for a b
  proof -
    have "uint (ToUint8 (a * 16 + b)) = a * 16 + b" using that by (simp add: uint_ToUint8)
    with that show ?thesis by (simp add: js_sar_small js_and_masks)
  qed
  show ?thesis using nib [of sx sy] nib [of "sw - 1" "sh - 1"] assms by simp
qed

lemma subrects_pixels:
  assumes "list_all (sub_fits W H) subs" and "W \<le> 16" and "H \<le> 16" and "hx_tileW d = int W"
    and "4 * W * H \<le> length (hx_tileBuffer d)"
  shows "\<exists>buf. subrects_spec True (length subs) d (concat (map hx_sub_bytes subs) @ later) =
      (d\<lparr>hx_tileBuffer := buf\<rparr>, 6 * length subs, Inr ()) \<and> length buf = length (hx_tileBuffer d) \<and>
    (\<forall>i<W. \<forall>j<H. pixel buf (i + j * W) = foldl (cover i j) (pixel (hx_tileBuffer d) (i + j * W)) subs)"
  using assms
proof (induction subs arbitrary: d)
  case Nil
  then show ?case by (auto intro: exI [of _ "hx_tileBuffer d"])
next
  case (Cons s subs)
  obtain c sx sy sw sh where s: "s = (c, sx, sy, sw, sh)" by (metis surj_pair)
  have fits: "sub_fits W H (c, sx, sy, sw, sh)" using Cons.prems(1) s by simp
  have c4: "length c = 4" using fits by simp
  from subTile_pixels [OF Cons.prems(4,5) fits] obtain buf where
    b: "subTile d sx sy sw sh (Some c) = (d\<lparr>hx_tileBuffer := buf\<rparr>, Inr ())" "length buf = length (hx_tileBuffer d)"
      "\<forall>i<W. \<forall>j<H. pixel buf (i + j * W) = cover i j (pixel (hx_tileBuffer d) (i + j * W)) s"
    unfolding s by blast
  let ?rest = "concat (map hx_sub_bytes subs) @ later"
  from Cons.IH [of "d\<lparr>hx_tileBuffer := buf\<rparr>"] Cons.prems b(2) obtain buf2 where
    b2: "subrects_spec True (length subs) (d\<lparr>hx_tileBuffer := buf\<rparr>) ?rest =
        (d\<lparr>hx_tileBuffer := buf2\<rparr>, 6 * length subs, Inr ())" "length buf2 = length buf"
      "\<forall>i<W. \<forall>j<H. pixel buf2 (i + j * W) = foldl (cover i j) (pixel buf (i + j * W)) subs"
    by auto
  have "subrects_spec True (length (s # subs)) d (concat (map hx_sub_bytes (s # subs)) @ later) =
      (d\<lparr>hx_tileBuffer := buf2\<rparr>, 6 * length (s # subs), Inr ())"
    using sub_fits_coords [OF fits Cons.prems(2,3)] b(1) b2(1) c4
    by (simp add: s Let_def)
  then show ?case using b b2 by auto
qed

definition hx_painted_bytes :: "byte list \<Rightarrow> subrect list \<Rightarrow> byte list" where
  "hx_painted_bytes bg subs = 0x1a # bg @ ToUint8 (int (length subs)) # concat (map hx_sub_bytes subs)"

lemma startTile_pixels:
  assumes "4 * W * H \<le> length (hx_tileBuffer d)"
  shows "\<exists>buf. startTile d tx ty (int W) (int H) (Some bg) =
      (d\<lparr>hx_tileX := tx, hx_tileY := ty, hx_tileW := int W, hx_tileH := int H, hx_tileBuffer := buf\<rparr>, Inr ()) \<and>
    length buf = length (hx_tileBuffer d) \<and> (\<forall>i<W. \<forall>j<H. pixel buf (i + j * W) = opaque_px bg)"
proof -
  let ?b = "hx_tileBuffer d"
  let ?buf = "foldl (\<lambda>data i. put_pixel bg data (i * 4)) ?b [0..int W * int H - 1]"
  have bound: "\<forall>i \<in> set [0..int W * int H - 1]. 0 \<le> i \<and> 4 * i + 4 \<le> int (length ?b)"
  proof -
    have "4 * (int W * int H) \<le> int (length ?b)"
      using assms by (metis of_nat_le_iff of_nat_mult of_nat_numeral mult.assoc)
    then show ?thesis by auto
  qed
  have "pixel ?buf (i + j * W) = opaque_px bg" if "i < W" "j < H" for i j
  proof -
    have b: "int i + int j * int W < int W * int H"
      using mult_right_mono [of "int j + 1" "int H" "int W"] that by (simp add: algebra_simps)
    have "int (4 * (i + j * W) + 4) \<le> int (length ?b)"
      using tile_index_bound [of "int i" W "int j" H, OF _ _ _ _ assms] that by simp
    then have q: "4 * (i + j * W) + 4 \<le> length ?b" by (simp only: of_nat_le_iff)
    show ?thesis using paint_pixels [OF bound q, of bg] b by auto
  qed
  moreover have "length ?buf = length ?b" by (rule paint_pixels_length [of bg "\<lambda>i. i"])
  ultimately show ?thesis by (intro exI [of _ ?buf]) (simp add: startTile_def)
qed

lemma one_tile:
  assumes "0 < W" "W \<le> 16" "0 < H" "H \<le> 16"
  shows "(W + 15) div 16 = 1 \<and> (H + 15) div 16 = 1 \<and> tile_at W H 0 = (0, 0, W, H)"
proof -
  have "(n + 15) div 16 = 1" if "0 < n" "n \<le> 16" for n :: nat using that by auto
  with assms show ?thesis by (simp add: tile_at_def)
qed

lemma painted_tile_spec:
  assumes "length bg = 4" and "list_all (sub_fits W H) subs" and "length subs < 256"
    and "W \<le> 16" and "H \<le> 16" and "4 * W * H \<le> length (hx_tileBuffer d)"
  shows "\<exists>d' data. tile_spec 0x1a tx ty W H d (tl (hx_painted_bytes bg subs @ later)) =
      (d', 5 + 6 * length subs, [OpPut data tx ty (int W) (int H)], Inr ()) \<and>
    (\<forall>i<W. \<forall>j<H. pixel data (i + j * W) = foldl (cover i j) (opaque_px bg) subs)"
proof -
  let ?d = "d\<lparr>hx_background := Some bg\<rparr>"
  have bits: "js_and 0x1a 0x01 = 0" "js_and 0x1a 0x02 \<noteq> 0" "js_and 0x1a 0x04 = 0" "js_and 0x1a 0x08 \<noteq> 0" "js_and 0x1a 0x10 \<noteq> 0"
    by code_simp+
  let ?bs = "bg @ ToUint8 (int (length subs)) # concat (map hx_sub_bytes subs) @ later"
  have cnt: "unat (ToUint8 (int (length subs))) = length subs"
    using assms(3) by (simp add: ToUint8_def unat_of_nat)
  have sc: "set_colours 0x1a ?bs d = ?d" "colours_size 0x1a = 4"
    using assms(1) bits by (simp_all add: set_colours_def colours_size_def)
  obtain buf where st: "startTile ?d tx ty (int W) (int H) (Some bg) =
      (?d\<lparr>hx_tileX := tx, hx_tileY := ty, hx_tileW := int W, hx_tileH := int H, hx_tileBuffer := buf\<rparr>, Inr ())"
    "length buf = length (hx_tileBuffer d)" "\<forall>i<W. \<forall>j<H. pixel buf (i + j * W) = opaque_px bg"
    using startTile_pixels [of W H ?d tx ty bg] assms(6) by auto
  let ?d2 = "?d\<lparr>hx_tileX := tx, hx_tileY := ty, hx_tileW := int W, hx_tileH := int H, hx_tileBuffer := buf\<rparr>"
  obtain buf2 where sub: "subrects_spec True (length subs) ?d2 (concat (map hx_sub_bytes subs) @ later) =
      (?d2\<lparr>hx_tileBuffer := buf2\<rparr>, 6 * length subs, Inr ())" "length buf2 = length buf"
    "\<forall>i<W. \<forall>j<H. pixel buf2 (i + j * W) = foldl (cover i j) (pixel buf (i + j * W)) subs"
    using subrects_pixels [OF assms(2,4,5), of ?d2 later] assms(6) st(2) by auto
  have "paint_spec 0x1a tx ty (int W) (int H) d ?bs =
      (?d2\<lparr>hx_tileBuffer := buf2\<rparr>, 5 + 6 * length subs, [finishTile (?d2\<lparr>hx_tileBuffer := buf2\<rparr>)], Inr ())"
    unfolding paint_spec_alt sc using st(1) sub(1) bits cnt assms(1) by simp
  then have ts: "tile_spec 0x1a tx ty W H d ?bs = (?d2\<lparr>hx_tileBuffer := buf2\<rparr>, 5 + 6 * length subs,
      [OpPut (take (nat (int W * int H * 4)) buf2) tx ty (int W) (int H)], Inr ())"
    using bits by (simp add: tile_spec_def finishTile_def whole_view_def)
  have "pixel (take (nat (int W * int H * 4)) buf2) (i + j * W) = pixel buf2 (i + j * W)" if "i < W" "j < H" for i j
  proof -
    have "4 * (int i + int j * int W) + 4 \<le> int (4 * W * H)"
      using tile_index_bound [of "int i" W "int j" H "4 * W * H"] that by simp
    then have "int (4 * (i + j * W) + 4) \<le> int (nat (int W * int H * 4))" by simp
    then have "4 * (i + j * W) + 4 \<le> nat (int W * int H * 4)" by (simp only: of_nat_le_iff)
    then show ?thesis by (simp add: pixel_def drop_take min_def)
  qed
  with ts st(3) sub(3) show ?thesis by (simp add: hx_painted_bytes_def)
qed

section \<open>Properties\<close>

text \<open>
  C3. A painted tile shows what it encodes: for a rectangle of at most 16 by 16 pixels sent as
  a background and coloured subrectangles that lie inside it, however its bytes are cut into
  messages, the decoder makes one blit whose every pixel is the colour of the last
  subrectangle covering it, or the background; it finishes and leaves what follows unread.
\<close>

theorem hextile_paints_tile:
  assumes "rx_inv w" and "cs \<noteq> []" and "unread w @ concat cs = hx_painted_bytes bg subs @ later"
    and "int (length (unread w @ concat cs)) \<le> MAX_RQ_GROW_SIZE"
    and "hx_tiles d = 0" and "length (hx_tileBuffer d) = 1024"
    and "0 < W" "W \<le> 16" "0 < H" "H \<le> 16" and "length bg = 4" and "length subs < 256"
    and "list_all (sub_fits W H) subs"
  shows "\<exists>d' w' ds rest data. feed (hextile_decodeRect x y W H) d w cs = ((d', w', ds, Done), rest) \<and>
    ops ds = [OpPut data x y (int W) (int H)] \<and>
    (\<forall>i<W. \<forall>j<H. pixel data (i + j * W) = foldl (cover i j) (opaque_px bg) subs) \<and>
    unread w' @ concat rest = later"
proof -
  let ?d = "hextile_start W H d"
  define bs where "bs = tl (hx_painted_bytes bg subs @ later)"
  have cons: "hx_painted_bytes bg subs @ later = 0x1a # bs" by (simp add: bs_def hx_painted_bytes_def)
  note one = one_tile [OF assms(7-10)]
  have st: "hx_tiles ?d = 1" "hx_tileBuffer ?d = hx_tileBuffer d"
    using assms(5) one by (simp_all add: hextile_start_def)
  have "4 * W * H \<le> 4 * 16 * 16" using assms(8,10) by (intro mult_le_mono) simp_all
  then have "4 * W * H \<le> length (hx_tileBuffer ?d)" using st(2) assms(6) by simp
  from painted_tile_spec [OF assms(11,13,12,8,10) this, of x y later] obtain d' data where
    ts: "tile_spec 0x1a x y W H ?d bs = (d', 5 + 6 * length subs, [OpPut data x y (int W) (int H)], Inr ())"
    and px: "\<forall>i<W. \<forall>j<H. pixel data (i + j * W) = foldl (cover i j) (opaque_px bg) subs"
    unfolding bs_def by blast
  have len: "length (concat (map hx_sub_bytes subs)) = 6 * length subs"
    using assms(13) by (induction subs) auto
  have "unat (ToUint8 (int (length subs))) = length subs"
    using assms(12) by (simp add: ToUint8_def unat_of_nat)
  moreover have "js_and 0x1a 0x01 = 0" "js_and 0x1a 0x02 \<noteq> 0" "js_and 0x1a 0x04 = 0" "js_and 0x1a 0x08 \<noteq> 0" "js_and 0x1a 0x10 \<noteq> 0"
    by code_simp+
  ultimately have sz: "size_spec 0x1a W H bs = Some (5 + 6 * length subs)" "5 + 6 * length subs \<le> length bs"
    using assms(11) len by (simp_all add: size_spec_def bs_def hx_painted_bytes_def nth_append)
  have it: "hextile_item x y W H 0 ?d (0x1a # bs) =
      Ok (d'\<lparr>hx_lastsubencoding := 0x1a, hx_tiles := hx_tiles d' - 1\<rparr>) (6 + 6 * length subs) [OpPut data x y (int W) (int H)]"
    using ts sz one by (simp add: hextile_item_def)
  have "hextile_spec x y W H d (unread w @ concat cs) =
      (d'\<lparr>hx_lastsubencoding := 0x1a, hx_tiles := hx_tiles d' - 1\<rparr>, 6 + 6 * length subs,
       [OpPut data x y (int W) (int H)], Done)"
    unfolding assms(3) cons hextile_spec_def Let_def st(1) by (simp add: it)
  moreover have "hextile_ok W H d" using assms(5) by (simp add: hextile_ok_def)
  moreover have "6 + 6 * length subs = length (hx_painted_bytes bg subs)"
    using assms(11) len by (simp add: hx_painted_bytes_def)
  then have "drop (6 + 6 * length subs) (unread w @ concat cs) = later"
    unfolding assms(3) by simp
  ultimately show ?thesis using hextile.feed_outcome [OF assms(1) _ assms(2,4)] px by metis
qed

theorem hextile_paints_tile_witness:
  "\<exists>d' w' ds rest data. feed (hextile_decodeRect 3 4 2 2) new_HextileDecoder (small_ws [0x1a, 7, 8, 9])
       [[0, 1, 1], [2, 3, 0, 0x10, 0], [5]] = ((d', w', ds, Done), rest) \<and>
     ops ds = [OpPut data 3 4 2 2] \<and> pixel data 0 = [7, 8, 9, 255] \<and> pixel data 1 = [1, 2, 3, 255] \<and>
     unread w' @ concat rest = [5]"
proof -
  have "hx_tiles new_HextileDecoder = 0" "length (hx_tileBuffer new_HextileDecoder) = 1024"
    by (simp_all add: new_HextileDecoder_def)
  with hextile_paints_tile [of "small_ws [0x1a, 7, 8, 9]" "[[0, 1, 1], [2, 3, 0, 0x10, 0], [5]]" "[7, 8, 9, 0]"
      "[([1, 2, 3, 0], 1, 0, 1, 1)]" "[5]" new_HextileDecoder 2 2 3 4]
  obtain d' w' ds rest data where
    r: "feed (hextile_decodeRect 3 4 2 2) new_HextileDecoder (small_ws [0x1a, 7, 8, 9])
       [[0, 1, 1], [2, 3, 0, 0x10, 0], [5]] = ((d', w', ds, Done), rest)" "ops ds = [OpPut data 3 4 2 2]"
      "\<forall>i<2. \<forall>j<2. pixel data (i + j * 2) = foldl (cover i j) (opaque_px [7, 8, 9, 0]) [([1, 2, 3, 0], 1, 0, 1, 1)]"
      "unread w' @ concat rest = [5]"
    using small_ws_inv [of "[0x1a, 7, 8, 9]"]
    by (auto simp: hx_painted_bytes_def ToUint8_def MAX_RQ_GROW_SIZE_def)
  moreover have "pixel data (0 + 0 * 2) = [7, 8, 9, 255]" "pixel data (1 + 0 * 2) = [1, 2, 3, 255]"
    using r(3) [rule_format, of 0 0] r(3) [rule_format, of 1 0] by (simp_all add: opaque_px_def u8_get_def)
  ultimately show ?thesis by auto
qed

text \<open>
  C20. How the network cuts a Hextile rectangle into messages does not matter: for any bytes,
  well-formed or not, feeding them in any chunks leaves the same decoder state, the same
  drawing, the same outcome (finished, waiting, or the same error) and the same unread bytes as
  feeding them at once.
\<close>

theorem hextile_chunking:
  assumes "rx_inv w" and "hextile_ok width height d" and "cs \<noteq> []"
    and "int (length (unread w)) + int (length (concat cs)) \<le> MAX_RQ_GROW_SIZE"
    and "feed (hextile_decodeRect x y width height) d w cs = ((d1, w1, ds1, r1), rest1)"
    and "feed (hextile_decodeRect x y width height) d w [concat cs] = ((d2, w2, ds2, r2), rest2)"
  shows "d1 = d2 \<and> r1 = r2 \<and> ops ds1 = ops ds2 \<and> unread w1 @ concat rest1 = unread w2"
  using assms by (rule hextile.feed_chunking)

theorem hextile_chunking_witness:
  "\<exists>d1 w1 ds1 r1 rest1 d2 w2 ds2 r2 rest2.
     feed (hextile_decodeRect 0 0 20 1) new_HextileDecoder (small_ws []) [[2, 1], [2, 3, 4, 0], [9]]
       = ((d1, w1, ds1, r1), rest1) \<and>
     feed (hextile_decodeRect 0 0 20 1) new_HextileDecoder (small_ws []) [[2, 1, 2, 3, 4, 0, 9]]
       = ((d2, w2, ds2, r2), rest2) \<and>
     d1 = d2 \<and> r1 = r2 \<and> ops ds1 = ops ds2 \<and> unread w1 @ concat rest1 = unread w2"
proof -
  obtain d1 w1 ds1 r1 rest1 where 1: "feed (hextile_decodeRect 0 0 20 1) new_HextileDecoder (small_ws [])
      [[2, 1], [2, 3, 4, 0], [9]] = ((d1, w1, ds1, r1), rest1)" by (metis surj_pair)
  obtain d2 w2 ds2 r2 rest2 where 2: "feed (hextile_decodeRect 0 0 20 1) new_HextileDecoder (small_ws [])
      [concat [[2, 1], [2, 3, 4, 0], [9]]] = ((d2, w2, ds2, r2), rest2)" by (metis surj_pair)
  have ok: "hextile_ok 20 1 new_HextileDecoder" by (simp add: hextile_ok_def new_HextileDecoder_def)
  have "d1 = d2 \<and> r1 = r2 \<and> ops ds1 = ops ds2 \<and> unread w1 @ concat rest1 = unread w2"
    using small_ws_inv [of "[]"]
    by (intro hextile_chunking [OF _ ok _ _ 1 2]) (simp_all add: MAX_RQ_GROW_SIZE_def)
  with 1 2 show ?thesis by simp
qed

end
