(* ===== verification/Decoder_Phases.thy ===== *)
theory Decoder_Phases
  imports Decoder_Base
begin

text \<open>
  Decoders that read a rectangle in stages and keep the stage they are in, so that a call that has to wait
  is resumed where it stopped. A phase sees the decoder's state and the unread bytes; the specification of such a
  decoder runs phases until one waits, fails or finishes. A rank that every phase decreases bounds their number.
\<close>

datatype 'd phase =
    Await
  | Abort 'd nat "canvas_op list" js_error
  | Finish 'd nat "canvas_op list"
  | Proceed 'd nat "canvas_op list"

primrec phases ::
  "('d \<Rightarrow> byte list \<Rightarrow> 'd phase) \<Rightarrow> nat \<Rightarrow> 'd \<Rightarrow> byte list \<Rightarrow> 'd \<times> nat \<times> canvas_op list \<times> outcome" where
  "phases ph 0 d bs = (d, 0, [], NeedMore)"
| "phases ph (Suc k) d bs =
     (case ph d bs of
        Await \<Rightarrow> (d, 0, [], NeedMore)
      | Abort d' n os e \<Rightarrow> (d', n, os, Throws e)
      | Finish d' n os \<Rightarrow> (d', n, os, Done)
      | Proceed d' n os \<Rightarrow> (case phases ph k d' (drop n bs) of (d2, m, os2, r) \<Rightarrow> (d2, n + m, os @ os2, r)))"

definition phase_spec ::
  "('d \<Rightarrow> byte list \<Rightarrow> 'd phase) \<Rightarrow> ('d \<Rightarrow> nat) \<Rightarrow> 'd \<Rightarrow> byte list \<Rightarrow> 'd \<times> nat \<times> canvas_op list \<times> outcome" where
  "phase_spec ph rank d bs = phases ph (Suc (rank d)) d bs"

lemma rQshiftBytes_0 [ws_simps]: "rx_inv w \<Longrightarrow> rQshiftBytes w 0 = (w, [])"
  using rQshiftBytes_eq [of w 0] by (simp add: ws_simps)

lemma same_call: "\<exists>ds. X = (case X of (d2, w2, ds2, r) \<Rightarrow> (d2, w2, ds @ ds2, r)) \<and> ops ds = []"
  by (intro exI [of _ "[]"]) (simp split: prod.split)

text \<open>What a phase leaves behind.\<close>

fun phase_state :: "'d \<Rightarrow> 'd phase \<Rightarrow> 'd" where
  "phase_state d Await = d"
| "phase_state d (Abort d' n os e) = d'"
| "phase_state d (Finish d' n os) = d'"
| "phase_state d (Proceed d' n os) = d'"

fun phase_reads :: "'d phase \<Rightarrow> nat" where
  "phase_reads Await = 0"
| "phase_reads (Abort d' n os e) = n"
| "phase_reads (Finish d' n os) = n"
| "phase_reads (Proceed d' n os) = n"

text \<open>A call at a phase does what the phase says, and goes on as a call in the state the phase leads to.\<close>

definition follows :: "('d \<Rightarrow> byte list \<Rightarrow> 'd phase) \<Rightarrow> ('d \<Rightarrow> websock \<Rightarrow> 'd decode_result) \<Rightarrow> 'd \<Rightarrow> websock \<Rightarrow> bool" where
  "follows ph dec d w \<longleftrightarrow>
     (case ph d (unread w) of
        Await \<Rightarrow> dec d w = (d, w, [], NeedMore)
      | Abort d' n os e \<Rightarrow> \<exists>ds. dec d w = (d', adv n w, ds, Throws e) \<and> ops ds = os
      | Finish d' n os \<Rightarrow> \<exists>ds. dec d w = (d', adv n w, ds, Done) \<and> ops ds = os
      | Proceed d' n os \<Rightarrow>
          \<exists>ds. dec d w = (case dec d' (adv n w) of (d2, w2, ds2, r) \<Rightarrow> (d2, w2, ds @ ds2, r)) \<and> ops ds = os)"

locale phase_decoder =
  fixes ph :: "'d \<Rightarrow> byte list \<Rightarrow> 'd phase"
    and rank :: "'d \<Rightarrow> nat"
    and ok :: "'d \<Rightarrow> bool"
    and dec :: "'d \<Rightarrow> websock \<Rightarrow> 'd decode_result"
  assumes ph_stable: "ok d \<Longrightarrow> ph d bs \<noteq> Await \<Longrightarrow> ph d (bs @ later) = ph d bs"
    and ph_reads: "ok d \<Longrightarrow> phase_reads (ph d bs) \<le> length bs"
    and ph_ok: "ok d \<Longrightarrow> ok (phase_state d (ph d bs))"
    and ph_rank: "ok d \<Longrightarrow> ph d bs = Proceed d' n os \<Longrightarrow> rank d' < rank d"
    and dec_follows: "rx_inv w \<Longrightarrow> ok d \<Longrightarrow> follows ph dec d w"
begin

abbreviation spec :: "'d \<Rightarrow> byte list \<Rightarrow> 'd \<times> nat \<times> canvas_op list \<times> outcome" where
  "spec \<equiv> phase_spec ph rank"

lemma phases_fuel: "ok d \<Longrightarrow> rank d < k \<Longrightarrow> phases ph k d bs = spec d bs"
proof (induction "rank d" arbitrary: d bs k rule: less_induct)
  case less
  then obtain j where k: "k = Suc j" by (cases k) auto
  show ?case
  proof (cases "ph d bs")
    case (Proceed d' n os)
    have r: "rank d' < rank d" using ph_rank [OF less.prems(1) Proceed] .
    have o': "ok d'" using ph_ok [OF less.prems(1), of bs] Proceed by simp
    have "phases ph j d' (drop n bs) = spec d' (drop n bs)"
      using less.hyps [OF r o'] r less.prems(2) k by simp
    moreover have "phases ph (rank d) d' (drop n bs) = spec d' (drop n bs)"
      using less.hyps [OF r o' r] .
    ultimately show ?thesis by (simp add: k phase_spec_def Proceed)
  qed (simp_all add: k phase_spec_def)
qed

lemma spec_Proceed:
  assumes "ok d" and "ph d bs = Proceed d' n os"
  shows "spec d bs = (case spec d' (drop n bs) of (d2, m, os2, r) \<Rightarrow> (d2, n + m, os @ os2, r))"
proof -
  have "ok d'" using ph_ok [OF assms(1), of bs] assms(2) by simp
  then have "phases ph (rank d) d' (drop n bs) = spec d' (drop n bs)"
    using ph_rank [OF assms] by (rule phases_fuel)
  then show ?thesis using assms(2) by (simp add: phase_spec_def)
qed

lemma spec_simps:
  "ph d bs = Await \<Longrightarrow> spec d bs = (d, 0, [], NeedMore)"
  "ph d bs = Abort d' n os e \<Longrightarrow> spec d bs = (d', n, os, Throws e)"
  "ph d bs = Finish d' n os \<Longrightarrow> spec d bs = (d', n, os, Done)"
  by (simp_all add: phase_spec_def)

lemma proceeds:
  assumes "ok d" and "ph d bs = Proceed d' n os"
  shows "rank d' < rank d" and "ok d'" and "n \<le> length bs" and "ph d (bs @ later) = Proceed d' n os"
  using ph_rank [OF assms] ph_ok [OF assms(1), of bs] ph_reads [OF assms(1), of bs] ph_stable [OF assms(1), of bs later]
    assms(2) by simp_all

lemma spec_stable:
  "ok d \<Longrightarrow> spec d bs = (d', n, os, r) \<Longrightarrow> r \<noteq> NeedMore \<Longrightarrow> spec d (bs @ later) = (d', n, os, r)"
proof (induction "rank d" arbitrary: d bs n os rule: less_induct)
  case less
  show ?case
  proof (cases "ph d bs")
    case Await
    with less.prems show ?thesis by (simp add: spec_simps)
  next
    case (Proceed d1 n1 os1)
    note p = proceeds [OF less.prems(1) Proceed]
    obtain d2 m os2 r2 where s: "spec d1 (drop n1 bs) = (d2, m, os2, r2)" by (metis surj_pair)
    with less.prems(2) spec_Proceed [OF less.prems(1) Proceed]
    have eq: "d2 = d'" "r2 = r" "n = n1 + m" "os = os1 @ os2" by auto
    from less.hyps [OF p(1,2)] s eq less.prems(3) have "spec d1 (drop n1 bs @ later) = (d', m, os2, r)" by simp
    then show ?thesis using spec_Proceed [OF less.prems(1) p(4)] p(3) eq by simp
  qed (use less.prems ph_stable [OF less.prems(1), of bs later] in \<open>auto simp: spec_simps\<close>)
qed

lemma spec_resume:
  "ok d \<Longrightarrow> spec d bs = (d', n, os, NeedMore) \<Longrightarrow>
     spec d (bs @ later) = (case spec d' (drop n bs @ later) of (d2, m, os2, r) \<Rightarrow> (d2, n + m, os @ os2, r))"
proof (induction "rank d" arbitrary: d bs n os rule: less_induct)
  case less
  show ?case
  proof (cases "ph d bs")
    case Await
    with less.prems have "d' = d" "n = 0" "os = []" by (auto simp: spec_simps)
    then show ?thesis by (simp split: prod.split)
  next
    case (Proceed d1 n1 os1)
    note p = proceeds [OF less.prems(1) Proceed]
    obtain d2 m os2 r2 where s: "spec d1 (drop n1 bs) = (d2, m, os2, r2)" by (metis surj_pair)
    with less.prems(2) spec_Proceed [OF less.prems(1) Proceed]
    have eq: "d2 = d'" "r2 = NeedMore" "n = n1 + m" "os = os1 @ os2" by auto
    from less.hyps [OF p(1,2)] s eq have "spec d1 (drop n1 bs @ later) =
        (case spec d' (drop m (drop n1 bs) @ later) of (d2, m', os', r) \<Rightarrow> (d2, m + m', os2 @ os', r))" by simp
    then show ?thesis
      using spec_Proceed [OF less.prems(1) p(4)] p(3) eq by (simp add: add.commute split: prod.split)
  qed (use less.prems in \<open>auto simp: spec_simps\<close>)
qed

lemma spec_refines:
  "rx_inv w \<Longrightarrow> ok d \<Longrightarrow> dec d w = (d', w', ds, r) \<Longrightarrow>
     \<exists>n\<le>length (unread w). spec d (unread w) = (d', n, ops ds, r) \<and> rx_inv w' \<and>
       unread w' = drop n (unread w) \<and> ok d'"
proof (induction "rank d" arbitrary: d w ds rule: less_induct)
  case less
  have o': "ok (phase_state d (ph d (unread w)))" and n: "phase_reads (ph d (unread w)) \<le> length (unread w)"
    using ph_ok ph_reads less.prems(2) by blast+
  show ?case
  proof (cases "ph d (unread w)")
    case Await
    with dec_follows [OF less.prems(1,2)] less.prems show ?thesis by (auto simp: follows_def spec_simps)
  next
    case (Abort d1 n1 os1 e)
    with dec_follows [OF less.prems(1,2)] less.prems o' n show ?thesis by (auto simp: follows_def spec_simps ws_simps)
  next
    case (Finish d1 n1 os1)
    with dec_follows [OF less.prems(1,2)] less.prems o' n show ?thesis by (auto simp: follows_def spec_simps ws_simps)
  next
    case (Proceed d1 n1 os1)
    note p = proceeds [OF less.prems(2) Proceed]
    from dec_follows [OF less.prems(1,2)] Proceed obtain ds1 where
      d: "dec d w = (case dec d1 (adv n1 w) of (d2, w2, ds2, r) \<Rightarrow> (d2, w2, ds1 @ ds2, r))" "ops ds1 = os1"
      by (auto simp: follows_def)
    obtain d2 w2 ds2 r2 where rec: "dec d1 (adv n1 w) = (d2, w2, ds2, r2)" by (metis surj_pair)
    with d less.prems(3) have eq: "d2 = d'" "w2 = w'" "ds = ds1 @ ds2" "r2 = r" by auto
    have i: "rx_inv (adv n1 w)" "unread (adv n1 w) = drop n1 (unread w)"
      using less.prems(1) p(3) by (simp_all add: ws_simps)
    from less.hyps [OF p(1) i(1) p(2)] rec eq obtain m where
      "m \<le> length (unread (adv n1 w))" "spec d1 (unread (adv n1 w)) = (d', m, ops ds2, r)" "rx_inv w'"
      "unread w' = drop m (unread (adv n1 w))" "ok d'" by auto
    then show ?thesis
      using spec_Proceed [OF less.prems(2) Proceed] p(3) d(2) i(2) eq(3)
      by (intro exI [of _ "n1 + m"]) (auto simp: add.commute)
  qed
qed

end

sublocale phase_decoder \<subseteq> wire_decoder dec "phase_spec ph rank" ok
  by unfold_locales (fact spec_refines, fact spec_stable, fact spec_resume)

end
