(* ===== verification/Inflator.thy ===== *)
theory Inflator
  imports JS_Prelude
begin

text \<open>
  The wrapper of \<open>inflator.js\<close> around the vendored pako: a zlib stream that is given input and
  asked for an exact number of bytes. pako itself is the parameter \<open>'p pako\<close> over its state \<open>'p\<close>, with what the
  wrapper relies on, \<open>pako_ok\<close>: it keeps the size of the output array and writes inside it.
\<close>

record 'p zstream =
  strm_input :: "u8array option"
  strm_avail_in :: int
  strm_next_in :: int
  strm_output :: u8array
  strm_avail_out :: int
  strm_next_out :: int
  strm_state :: 'p

record 'p pako =
  pk_init :: 'p
  pk_inflate :: "'p zstream \<Rightarrow> int \<times> 'p zstream"
  pk_reset :: "'p \<Rightarrow> 'p"

record 'p inflator =
  if_strm :: "'p zstream"
  if_chunkSize :: int

definition new_Inflate :: "'p pako \<Rightarrow> 'p inflator" where
  "new_Inflate pk =
     \<lparr>if_strm = \<lparr>strm_input = None, strm_avail_in = 0, strm_next_in = 0, strm_output = u8_new (1024 * 10 * 10),
        strm_avail_out = 0, strm_next_out = 0, strm_state = pk_init pk\<rparr>, if_chunkSize = 1024 * 10 * 10\<rparr>"

definition setInput :: "'p inflator \<Rightarrow> u8array option \<Rightarrow> 'p inflator" where
  "setInput z data =
     z\<lparr>if_strm := (case data of
         None \<Rightarrow> (if_strm z)\<lparr>strm_input := None, strm_avail_in := 0, strm_next_in := 0\<rparr>
       | Some d \<Rightarrow> (if_strm z)\<lparr>strm_input := Some d, strm_avail_in := int (length d), strm_next_in := 0\<rparr>)\<rparr>"

definition inflate :: "'p pako \<Rightarrow> 'p inflator \<Rightarrow> int \<Rightarrow> 'p inflator \<times> (js_error + u8array)" where
  "inflate pk z expected =
     (let z = (if expected > if_chunkSize z
               then z\<lparr>if_chunkSize := expected, if_strm := (if_strm z)\<lparr>strm_output := u8_new expected\<rparr>\<rparr> else z);
          (ret, s) = pk_inflate pk ((if_strm z)\<lparr>strm_next_out := 0, strm_avail_out := expected\<rparr>);
          z = z\<lparr>if_strm := s\<rparr>
      in if ret < 0 then (z, Inl (JSError ''zlib inflate failed'' []))
         else if strm_next_out s \<noteq> expected then (z, Inl (JSError ''Incomplete zlib block'' []))
         else (case u8_view (strm_output s) 0 (strm_next_out s) of
                 Some view \<Rightarrow> (z, Inr view)
               | None \<Rightarrow> (z, Inl RangeError)))"

definition reset :: "'p pako \<Rightarrow> 'p inflator \<Rightarrow> 'p inflator" where
  "reset pk z = z\<lparr>if_strm := (if_strm z)\<lparr>strm_state := pk_reset pk (strm_state (if_strm z))\<rparr>\<rparr>"

section \<open>What pako promises\<close>

definition pako_ok :: "'p pako \<Rightarrow> bool" where
  "pako_ok pk \<longleftrightarrow>
     (\<forall>s. length (strm_output (snd (pk_inflate pk s))) = length (strm_output s) \<and>
          (strm_next_out s = 0 \<longrightarrow> strm_next_out (snd (pk_inflate pk s)) \<le> strm_avail_out s))"

definition inflator_ok :: "'p inflator \<Rightarrow> bool" where
  "inflator_ok z \<longleftrightarrow> int (length (strm_output (if_strm z))) = if_chunkSize z"

lemma inflator_ok_new [simp]: "inflator_ok (new_Inflate pk)"
  by (simp add: inflator_ok_def new_Inflate_def)

lemma inflator_ok_setInput [simp]: "inflator_ok (setInput z data) = inflator_ok z"
  by (simp add: inflator_ok_def setInput_def split: option.split)

lemma inflator_ok_reset [simp]: "inflator_ok (reset pk z) = inflator_ok z"
  by (simp add: inflator_ok_def reset_def)

lemma inflator_ok_inflate:
  assumes "pako_ok pk" and "inflator_ok z"
  shows "inflator_ok (fst (inflate pk z n))"
proof -
  have "length (strm_output (snd (pk_inflate pk s))) = length (strm_output s)" for s
    using assms(1) by (simp add: pako_ok_def)
  then have "length (strm_output s') = length (strm_output s)" if "pk_inflate pk s = (ret, s')" for s ret s'
    using that by (metis snd_conv)
  then show ?thesis
    using assms(2) by (auto simp: inflate_def inflator_ok_def Let_def split: prod.splits option.split)
qed

lemma length_inflate: "inflate pk z n = (z', Inr out) \<Longrightarrow> int (length out) = n \<and> 0 \<le> n"
  by (auto simp: inflate_def u8_view_def Let_def split: prod.splits option.splits if_splits)

text \<open>
  The inflator returns exactly the number of bytes asked for or throws one of its two errors, however large
  the request: the output array always has room, so the view on it never raises.
\<close>

theorem inflate_exact:
  assumes "pako_ok pk" and "inflator_ok z" and "0 \<le> n" and "inflate pk z n = (z', r)"
  shows "inflator_ok z' \<and>
    (case r of Inr out \<Rightarrow> int (length out) = n
     | Inl e \<Rightarrow> e \<in> {JSError ''zlib inflate failed'' [], JSError ''Incomplete zlib block'' []})"
proof -
  have "inflator_ok z'" using inflator_ok_inflate [OF assms(1,2), of n] assms(4) by simp
  moreover have "e \<noteq> RangeError" if "r = Inl e" for e
  proof
    assume "e = RangeError"
    with that assms(4) \<open>inflator_ok z'\<close> have "n > if_chunkSize z'"
      using assms(3)
      by (auto simp: inflate_def u8_view_def inflator_ok_def Let_def split: prod.splits option.splits if_splits)
    moreover have "if_chunkSize z' = max n (if_chunkSize z)"
      using assms(4) by (auto simp: inflate_def Let_def split: prod.splits option.splits if_splits)
    ultimately show False by simp
  qed
  ultimately show ?thesis
    using assms(4) length_inflate [of pk z n z']
    by (auto simp: inflate_def Let_def split: prod.splits option.splits if_splits sum.split)
qed

text \<open>
  A stream that is not compressed, for the concrete instances. As in pako, a call that makes no progress is a buffer error.
\<close>

definition stored :: "unit pako" where
  "stored = \<lparr>pk_init = (), pk_inflate = (\<lambda>s.
     let src = take (min (nat (strm_avail_out s)) (length (strm_output s)))
           (drop (nat (strm_next_in s)) (case strm_input s of None \<Rightarrow> [] | Some d \<Rightarrow> d));
         n = length src
     in (if n = 0 then - 5 else 0, s\<lparr>strm_output := src @ drop n (strm_output s),
          strm_next_in := strm_next_in s + int n, strm_avail_in := strm_avail_in s - int n,
          strm_avail_out := strm_avail_out s - int n,
          strm_next_out := (if 0 \<le> strm_avail_out s then strm_next_out s + int n else strm_avail_out s)\<rparr>)), pk_reset = id\<rparr>"

lemma stored_ok: "pako_ok stored"
  by (auto simp: pako_ok_def stored_def Let_def)

lemma stored_step:
  assumes "strm_input s = Some d" and "0 \<le> strm_next_in s" and "n \<le> length (drop (nat (strm_next_in s)) d)" and "n \<le> length (strm_output s)"
    and "strm_avail_out s = int n" and "strm_next_out s = 0" and "0 < n"
  shows "\<exists>s'. pk_inflate stored s = (0, s') \<and> strm_next_out s' = int n \<and> take n (strm_output s') = take n (drop (nat (strm_next_in s)) d) \<and>
    length (strm_output s') = length (strm_output s) \<and> strm_input s' = Some d \<and> strm_next_in s' = strm_next_in s + int n"
  using assms by (simp add: stored_def Let_def min_def)

lemma stored_inflate_rest:
  assumes ok: "inflator_ok z" and inp: "strm_input (if_strm z) = Some d" and pos: "0 \<le> strm_next_in (if_strm z)"
    and n: "n \<le> length (drop (nat (strm_next_in (if_strm z))) d)" and more: "0 < n"
  shows "\<exists>z'. inflate stored z (int n) = (z', Inr (take n (drop (nat (strm_next_in (if_strm z))) d))) \<and> inflator_ok z' \<and>
    strm_input (if_strm z') = Some d \<and> strm_next_in (if_strm z') = strm_next_in (if_strm z) + int n"
proof -
  define z1 where "z1 = (if int n > if_chunkSize z then z\<lparr>if_chunkSize := int n, if_strm := (if_strm z)\<lparr>strm_output := u8_new (int n)\<rparr>\<rparr> else z)"
  let ?s = "(if_strm z1)\<lparr>strm_next_out := 0, strm_avail_out := int n\<rparr>"
  have z1: "inflator_ok z1" "strm_input (if_strm z1) = Some d" "strm_next_in (if_strm z1) = strm_next_in (if_strm z)"
      "n \<le> length (strm_output (if_strm z1))"
    using ok inp by (auto simp: z1_def inflator_ok_def)
  obtain s' where s': "pk_inflate stored ?s = (0, s')" "strm_next_out s' = int n"
      "take n (strm_output s') = take n (drop (nat (strm_next_in (if_strm z))) d)" "length (strm_output s') = length (strm_output (if_strm z1))"
      "strm_input s' = Some d" "strm_next_in s' = strm_next_in (if_strm z) + int n"
    using stored_step [of ?s d n] z1 pos n more by auto
  have "inflate stored z (int n) = (z1\<lparr>if_strm := s'\<rparr>, Inr (take n (strm_output s')))"
    using s'(1,2,4) z1(4) unfolding inflate_def z1_def [symmetric] by (simp add: u8_view_def Let_def)
  then show ?thesis using s' z1(1) by (simp add: inflator_ok_def)
qed

lemma stored_inflate:
  assumes "inflator_ok z" and "int (length data) \<le> if_chunkSize z" and "data \<noteq> []"
  shows "\<exists>z'. inflate stored (setInput z (Some data)) (int (length data)) = (z', Inr data)"
  using assms
  by (simp add: inflate_def setInput_def stored_def inflator_ok_def u8_view_def Let_def min_def not_less)

lemma if_chunkSize_new [simp]: "if_chunkSize (new_Inflate pk) = 102400"
  by (simp add: new_Inflate_def)

lemma inflate_exact_witness:
  "(case snd (inflate stored (setInput (new_Inflate stored) (Some [1, 2, 3])) 2) of Inr out \<Rightarrow> int (length out) = 2
     | Inl e \<Rightarrow> e \<in> {JSError ''zlib inflate failed'' [], JSError ''Incomplete zlib block'' []})"
proof -
  let ?z = "setInput (new_Inflate stored) (Some [1, 2, 3])"
  obtain z' r where r: "inflate stored ?z 2 = (z', r)" by (metis surj_pair)
  have "inflator_ok ?z" by simp
  from inflate_exact [OF stored_ok this _ r] r show ?thesis by simp
qed

end
