(* ===== verification/Decoders_Zlib.thy ===== *)
theory Decoders_Zlib
  imports Decoder_Phases Inflator
begin

text \<open>
  The Zlib decoder (\<open>decoders/zlib.js\<close>): a length, then that many compressed bytes. The data it makes
  opaque is a view of the inflator's output array, which is written through it.
\<close>

record 'p zlib_decoder =
  zd_zlib :: "'p inflator"
  zd_length :: int

definition new_ZlibDecoder :: "'p pako \<Rightarrow> 'p zlib_decoder" where
  "new_ZlibDecoder pk = \<lparr>zd_zlib = new_Inflate pk, zd_length = 0\<rparr>"

definition write_output :: "'p inflator \<Rightarrow> u8array \<Rightarrow> 'p inflator" where
  "write_output z data =
     z\<lparr>if_strm := (if_strm z)\<lparr>strm_output := data @ drop (length data) (strm_output (if_strm z))\<rparr>\<rparr>"

definition zlib_data ::
  "'p pako \<Rightarrow> int \<Rightarrow> int \<Rightarrow> nat \<Rightarrow> nat \<Rightarrow> 'p zlib_decoder \<Rightarrow> u8array \<Rightarrow> 'p zlib_decoder \<times> draw list \<times> outcome" where
  "zlib_data pk x y width height d data =
     (let d = d\<lparr>zd_length := 0\<rparr>;
          (z, r) = inflate pk (setInput (zd_zlib d) (Some data)) (int width * int height * 4)
      in case r of
           Inl e \<Rightarrow> (d\<lparr>zd_zlib := z\<rparr>, [], Throws e)
         | Inr data \<Rightarrow>
             (let data = opaque (width * height) 0 data
              in (d\<lparr>zd_zlib := setInput (write_output z data) None\<rparr>,
                  [BlitImage x y (int width) (int height) (whole_view data) 0], Done)))"

definition zlib_read ::
  "'p pako \<Rightarrow> int \<Rightarrow> int \<Rightarrow> nat \<Rightarrow> nat \<Rightarrow> 'p zlib_decoder \<Rightarrow> websock \<Rightarrow> 'p zlib_decoder decode_result" where
  "zlib_read pk x y width height d w =
     (if rQwaits w (zd_length d) then (d, w, [], NeedMore)
      else (let (w, data) = rQshiftBytes w (zd_length d); (d, ds, r) = zlib_data pk x y width height d data
            in (d, w, ds, r)))"

definition zlib_decodeRect ::
  "'p pako \<Rightarrow> int \<Rightarrow> int \<Rightarrow> nat \<Rightarrow> nat \<Rightarrow> 'p zlib_decoder \<Rightarrow> websock \<Rightarrow> 'p zlib_decoder decode_result" where
  "zlib_decodeRect pk x y width height d w =
     (if width = 0 \<or> height = 0 then (d, w, [], Done)
      else if zd_length d = 0
      then (if rQwaits w 4 then (d, w, [], NeedMore)
            else (let (w, len) = rQshift32 w in zlib_read pk x y width height (d\<lparr>zd_length := len\<rparr>) w))
      else zlib_read pk x y width height d w)"

section \<open>Phases\<close>

definition zlib_result :: "nat \<Rightarrow> 'p zlib_decoder \<times> draw list \<times> outcome \<Rightarrow> 'p zlib_decoder phase" where
  "zlib_result n res =
     (case res of (d, ds, r) \<Rightarrow> (case r of Throws e \<Rightarrow> Abort d n (ops ds) e | _ \<Rightarrow> Finish d n (ops ds)))"

definition zlib_phase ::
  "'p pako \<Rightarrow> int \<Rightarrow> int \<Rightarrow> nat \<Rightarrow> nat \<Rightarrow> 'p zlib_decoder \<Rightarrow> byte list \<Rightarrow> 'p zlib_decoder phase" where
  "zlib_phase pk x y width height d bs =
     (if width = 0 \<or> height = 0 then Finish d 0 []
      else if zd_length d = 0
      then (if length bs < 4 then Await
            else (let len = be_val (take 4 bs) in
                  if len = 0 then zlib_result 4 (zlib_data pk x y width height d [])
                  else Proceed (d\<lparr>zd_length := len\<rparr>) 4 []))
      else (if int (length bs) < zd_length d then Await
            else (let n = nat (zd_length d) in zlib_result n (zlib_data pk x y width height d (take n bs)))))"

definition zlib_ok :: "'p zlib_decoder \<Rightarrow> bool" where
  "zlib_ok d \<longleftrightarrow> 0 \<le> zd_length d"

lemma zlib_data_outcome: "zlib_data pk x y w h d data \<noteq> (d', ds, NeedMore) \<and> zlib_data pk x y w h d data \<noteq> (d', ds, Hangs)"
  by (simp add: zlib_data_def Let_def split: prod.split sum.split)

lemma zlib_data_length: "zd_length (fst (zlib_data pk x y w h d data)) = 0"
  by (simp add: zlib_data_def Let_def split: prod.split sum.split)

lemma zlib_data_cong: "zlib_data pk x y w h (d\<lparr>zd_length := n\<rparr>) data = zlib_data pk x y w h d data"
  by (simp add: zlib_data_def)

lemma zlib_result_simps [simp]:
  "phase_reads (zlib_result n res) = n" "phase_state d' (zlib_result n res) = fst res" "zlib_result n res \<noteq> Await"
  "zlib_result n res \<noteq> Proceed d m os"
  by (simp_all add: zlib_result_def split: prod.split outcome.split)

interpretation zlib: phase_decoder "zlib_phase pk x y width height" "\<lambda>d. if zd_length d = 0 then 1 else 0" zlib_ok
  "zlib_decodeRect pk x y width height"
  for pk :: "'p pako" and x y width height
proof
  fix d :: "'p zlib_decoder" and bs later :: "byte list" and d' n os e
  let ?ph = "zlib_phase pk x y width height" and ?dec = "zlib_decodeRect pk x y width height"
  assume ok: "zlib_ok d"
  show "?ph d bs \<noteq> Await \<Longrightarrow> ?ph d (bs @ later) = ?ph d bs"
    using ok by (auto simp: zlib_phase_def zlib_ok_def Let_def nat_le_iff split: if_splits)
  show "phase_reads (?ph d bs) \<le> length bs"
    using ok by (auto simp: zlib_phase_def zlib_ok_def Let_def)
  show "zlib_ok (phase_state d (?ph d bs))"
    using ok be_val_bounds [of "take 4 bs"]
    by (auto simp: zlib_phase_def zlib_ok_def zlib_data_length Let_def)
  show "?ph d bs = Proceed d' n os \<Longrightarrow> (if zd_length d' = 0 then 1 else 0) < (if zd_length d = 0 then 1 else 0 :: nat)"
    by (auto simp: zlib_phase_def Let_def split: if_splits)
  fix w :: websock
  assume inv: "rx_inv w"
  have wait: "rQwaits w (zd_length d) \<longleftrightarrow> length (unread w) < nat (zd_length d)"
    using inv ok by (auto simp: ws_simps zlib_ok_def)
  have shift: "rQshiftBytes w (zd_length d) = (adv (nat (zd_length d)) w, take (nat (zd_length d)) (unread w))"
    if "nat (zd_length d) \<le> length (unread w)"
    using rQshiftBytes_eq [OF inv that] ok by (simp add: zlib_ok_def)
  show "follows ?ph ?dec d w"
  proof (cases "?ph d (unread w)")
    case Await
    then have "?dec d w = (d, w, [], NeedMore)"
      using inv wait
      by (auto simp: zlib_phase_def zlib_decodeRect_def zlib_read_def ws_simps Let_def split: if_splits)
    with Await show ?thesis by (simp add: follows_def)
  next
    case (Abort d' n os e)
    then have "\<exists>ds. ?dec d w = (d', adv n w, ds, Throws e) \<and> ops ds = os"
      using inv wait shift
      by (auto simp: zlib_phase_def zlib_decodeRect_def zlib_read_def ws_simps Let_def zlib_data_cong zlib_result_def
        split: if_splits prod.splits outcome.splits)
    with Abort show ?thesis by (simp add: follows_def)
  next
    case (Finish d' n os)
    then have "\<exists>ds. ?dec d w = (d', adv n w, ds, Done) \<and> ops ds = os"
      using inv wait shift zlib_data_outcome [of pk x y width height]
      by (auto simp: zlib_phase_def zlib_decodeRect_def zlib_read_def ws_simps Let_def zlib_data_cong zlib_result_def
        split: if_splits prod.splits outcome.splits)
    with Finish show ?thesis by (simp add: follows_def)
  next
    case (Proceed d' n os)
    then have "\<exists>ds. ?dec d w = (case ?dec d' (adv n w) of (d2, w2, ds2, r) \<Rightarrow> (d2, w2, ds @ ds2, r)) \<and> ops ds = os"
      using inv by (auto simp: zlib_phase_def zlib_decodeRect_def ws_simps Let_def intro!: same_call split: if_splits)
    with Proceed show ?thesis by (simp add: follows_def)
  qed
qed

text \<open>
  A Zlib rectangle decodes to its pixels, made opaque, whatever way the network cuts it: the length is read once,
  the compressed bytes are awaited and handed to the stream in one piece.
\<close>

theorem zlib_draws_pixels:
  assumes "rx_inv w" and "cs \<noteq> []" and "int (length (unread w @ concat cs)) \<le> MAX_RQ_GROW_SIZE"
    and "unread w @ concat cs = be_bytes 4 (int (length data)) @ data @ later" and "data \<noteq> []"
    and "0 < width" and "0 < height"
    and "inflate pk (setInput (zd_zlib d) (Some data)) (int width * int height * 4) = (z, Inr out)" and "zd_length d = 0"
  shows "\<exists>d' w' ds rest. feed (zlib_decodeRect pk x y width height) d w cs = ((d', w', ds, Done), rest) \<and>
    ops ds = [OpPut (opaque (width * height) 0 out) x y (int width) (int height)] \<and> zd_length d' = 0 \<and>
    unread w' @ concat rest = later"
proof -
  let ?bs = "unread w @ concat cs" and ?ph = "zlib_phase pk x y width height"
  let ?d = "d\<lparr>zd_length := int (length data)\<rparr>"
  have "int (length out) = int (width * height * 4)" using length_inflate [OF assms(8)] by simp
  then have len: "length out = width * height * 4"
    by linarith
  have "int (length data) \<le> MAX_RQ_GROW_SIZE" using assms(3,4) by simp
  then have small: "int (length data) mod 256 ^ 4 = int (length data)"
    by (simp add: MAX_RQ_GROW_SIZE_def)
  have ok: "zlib_ok d" "zlib_ok ?d" using assms(9) by (simp_all add: zlib_ok_def)
  have p1: "?ph d ?bs = Proceed ?d 4 []"
    using assms(4-7,9) small by (simp add: zlib_phase_def be_val_be_bytes)
  obtain d' ds where zd: "zlib_data pk x y width height d data = (d', ds, Done)"
      "ops ds = [OpPut (opaque (width * height) 0 out) x y (int width) (int height)]" "zd_length d' = 0"
    using assms(8) len by (simp add: zlib_data_def whole_view_def Let_def nat_mult_distrib)
  have "?ph ?d (drop 4 ?bs) = Finish d' (length data) [OpPut (opaque (width * height) 0 out) x y (int width) (int height)]"
    using assms(4-7) zd by (simp add: zlib_phase_def zlib_data_cong zlib_result_def)
  from zlib.spec_Proceed [OF ok(1) p1] zlib.spec_simps(3) [OF this] have
    "phase_spec ?ph (\<lambda>d. if zd_length d = 0 then 1 else 0) d ?bs =
       (d', 4 + length data, [OpPut (opaque (width * height) 0 out) x y (int width) (int height)], Done)" by simp
  from zlib.feed_outcome [OF assms(1) ok(1) assms(2,3) this] assms(4) zd(3) show ?thesis by auto
qed

theorem zlib_draws_pixels_witness:
  "\<exists>d' w' ds rest. feed (zlib_decodeRect stored 3 4 1 1) (new_ZlibDecoder stored) (small_ws [0, 0]) [[0, 4, 10], [20, 30, 40, 50]] =
      ((d', w', ds, Done), rest) \<and> ops ds = [OpPut [10, 20, 30, 255] 3 4 1 1] \<and> unread w' @ concat rest = [50]"
proof -
  let ?data = "[10, 20, 30, 40 :: byte]"
  obtain z where z: "inflate stored (setInput (new_Inflate stored) (Some ?data)) 4 = (z, Inr ?data)"
    using stored_inflate [OF inflator_ok_new, of ?data stored] by auto
  have "opaque 1 0 ?data = [10, 20, 30, 255]" by (simp add: opaque_def u8_upd_def)
  then show ?thesis
    using zlib_draws_pixels [of "small_ws [0, 0]" "[[0, 4, 10], [20, 30, 40, 50]]" ?data "[50]" 1 1 stored
        "new_ZlibDecoder stored" z ?data 3 4] small_ws_inv [of "[0, 0]"] z
    by (auto simp: new_ZlibDecoder_def MAX_RQ_GROW_SIZE_def be_bytes_4 ToUint8_def)
qed

end
