(* ===== verification/Tight.thy ===== *)
theory Tight
  imports Decoder_Phases Inflator
begin

text \<open>
  The Tight and TightPNG decoders (\<open>decoders/tight.js\<close>, \<open>decoders/tightpng.js\<close>): the compression control with the
  reset of the four streams, fill, JPEG, PNG and the three filters of basic compression. A rectangle is
  resumed from the fields \<open>_ctl\<close>, \<open>_filter\<close>, \<open>_numColors\<close> and \<open>_len\<close>.
\<close>

section \<open>State\<close>

record 'p tight =
  ti_ctl :: "int option"
  ti_filter :: "int option"
  ti_numColors :: int
  ti_palette :: u8array
  ti_len :: int
  ti_zlibs :: "'p inflator list"

definition new_TightDecoder :: "'p pako \<Rightarrow> 'p tight" where
  "new_TightDecoder pk =
     \<lparr>ti_ctl = None, ti_filter = None, ti_numColors = 0, ti_palette = u8_new 1024, ti_len = 0,
      ti_zlibs = replicate 4 (new_Inflate pk)\<rparr>"

section \<open>Pixels\<close>

text \<open>The conversions write a fresh or scratch array of four bytes for each pixel, from index 0 up.\<close>

definition rgb_to_rgbx :: "nat \<Rightarrow> u8array \<Rightarrow> u8array" where
  "rgb_to_rgbx pixels data =
     concat (map (\<lambda>p. [u8_get data (3 * int p), u8_get data (3 * int p + 1), u8_get data (3 * int p + 2), 255]) [0..<pixels])"

definition put_rgb :: "u8array \<Rightarrow> int \<Rightarrow> u8array \<Rightarrow> int \<Rightarrow> u8array" where
  "put_rgb dest dp palette sp =
     u8_upd (u8_upd (u8_upd (u8_upd dest dp (u8_get palette sp)) (dp + 1) (u8_get palette (sp + 1)))
       (dp + 2) (u8_get palette (sp + 2))) (dp + 3) 255"

definition mono_bit :: "nat \<Rightarrow> u8array \<Rightarrow> u8array \<Rightarrow> nat \<Rightarrow> nat \<Rightarrow> nat \<Rightarrow> u8array \<Rightarrow> u8array" where
  "mono_bit width data palette y xb b dest =
     (let w = (width + 7) div 8;
          dp = (int y * int width + int xb * 8 + 7 - int b) * 4;
          sp = js_and (js_sar (uint (u8_get data (int (y * w + xb)))) b) 1 * 3
      in put_rgb dest dp palette sp)"

definition mono_row :: "nat \<Rightarrow> u8array \<Rightarrow> u8array \<Rightarrow> nat \<Rightarrow> u8array \<Rightarrow> u8array" where
  "mono_row width data palette y dest =
     (let w1 = width div 8;
          dest = foldl (\<lambda>dest xb. foldl (\<lambda>dest b. mono_bit width data palette y xb b dest) dest (rev [0..<8])) dest [0..<w1]
      in foldl (\<lambda>dest b. mono_bit width data palette y w1 b dest) dest (rev [8 - width mod 8..<8]))"

definition monoRect :: "nat \<Rightarrow> nat \<Rightarrow> u8array \<Rightarrow> u8array \<Rightarrow> u8array" where
  "monoRect width height data palette =
     foldl (\<lambda>dest y. mono_row width data palette y dest) (u8_new (int (width * height * 4))) [0..<height]"

text \<open>Where the data is too short the index is not a number, and the bytes stored are 0.\<close>

definition paletteRect :: "nat \<Rightarrow> nat \<Rightarrow> u8array \<Rightarrow> u8array \<Rightarrow> u8array" where
  "paletteRect width height data palette =
     concat (map (\<lambda>j. if j < length data
                      then (let sp = uint (data ! j) * 3 in [u8_get palette sp, u8_get palette (sp + 1), u8_get palette (sp + 2), 255])
                      else [0, 0, 0, 255]) [0..<width * height])"

subsection \<open>The gradient filter\<close>

record gradient =
  gr_rgbx :: u8array
  gr_rgbxIndex :: int
  gr_dataIndex :: int
  gr_upperIndex :: int
  gr_left :: u8array
  gr_upper :: u8array
  gr_upperleft :: u8array

definition gradient_store :: "u8array \<Rightarrow> nat \<Rightarrow> int \<Rightarrow> gradient \<Rightarrow> gradient" where
  "gradient_store data c prediction g =
     (let v = ToUint8 (uint (u8_get data (gr_dataIndex g)) + prediction)
      in g\<lparr>gr_dataIndex := gr_dataIndex g + 1, gr_rgbx := u8_upd (gr_rgbx g) (gr_rgbxIndex g) v,
           gr_rgbxIndex := gr_rgbxIndex g + 1, gr_left := (gr_left g)[c := v]\<rparr>)"

definition gradient_alpha :: "gradient \<Rightarrow> gradient" where
  "gradient_alpha g = g\<lparr>gr_rgbx := u8_upd (gr_rgbx g) (gr_rgbxIndex g) 255, gr_rgbxIndex := gr_rgbxIndex g + 1\<rparr>"

definition gradient_first :: "u8array \<Rightarrow> gradient \<Rightarrow> gradient" where
  "gradient_first data g =
     gradient_alpha (foldl (\<lambda>g c. gradient_store data c (uint (gr_left g ! c)) g) g [0..<3])"

definition clamp_byte :: "int \<Rightarrow> int" where
  "clamp_byte p = (if p < 0 then 0 else if p > 255 then 255 else p)"

definition gradient_component :: "u8array \<Rightarrow> gradient \<Rightarrow> nat \<Rightarrow> gradient" where
  "gradient_component data g c =
     (let u = u8_get (gr_rgbx g) (gr_upperIndex g);
          g = g\<lparr>gr_upper := (gr_upper g)[c := u], gr_upperIndex := gr_upperIndex g + 1\<rparr>;
          prediction = clamp_byte (uint (gr_left g ! c) + uint (gr_upper g ! c) - uint (gr_upperleft g ! c));
          v = ToUint8 (uint (u8_get data (gr_dataIndex g)) + prediction)
      in g\<lparr>gr_dataIndex := gr_dataIndex g + 1, gr_rgbx := u8_upd (gr_rgbx g) (gr_rgbxIndex g) v,
           gr_rgbxIndex := gr_rgbxIndex g + 1, gr_upperleft := (gr_upperleft g)[c := gr_upper g ! c],
           gr_left := (gr_left g)[c := v]\<rparr>)"

definition gradient_pixel :: "u8array \<Rightarrow> gradient \<Rightarrow> gradient" where
  "gradient_pixel data g =
     (let g = gradient_alpha (foldl (gradient_component data) g [0..<3])
      in g\<lparr>gr_upperIndex := gr_upperIndex g + 1\<rparr>)"

definition gradient_row :: "nat \<Rightarrow> u8array \<Rightarrow> gradient \<Rightarrow> gradient" where
  "gradient_row width data g =
     (gradient_pixel data ^^ width) (g\<lparr>gr_left := [0, 0, 0], gr_upperleft := [0, 0, 0]\<rparr>)"

definition gradientRect :: "nat \<Rightarrow> nat \<Rightarrow> u8array \<Rightarrow> u8array" where
  "gradientRect width height data =
     (let g = \<lparr>gr_rgbx = u8_new (4 * int width * int height), gr_rgbxIndex = 0, gr_dataIndex = 0, gr_upperIndex = 0,
               gr_left = [0, 0, 0], gr_upper = [0, 0, 0], gr_upperleft = [0, 0, 0]\<rparr>;
          g = (gradient_first data ^^ width) g
      in gr_rgbx ((gradient_row width data ^^ (height - 1)) g))"

section \<open>Reading\<close>

definition tight_length :: "websock \<Rightarrow> websock \<times> int" where
  "tight_length w =
     (let (w, b) = rQshift8 w;
          len = js_and b 0x7f
      in if js_and b 0x80 \<noteq> 0
         then (let (w, b) = rQshift8 w;
                   len = js_or len (js_shl (js_and b 0x7f) 7)
               in if js_and b 0x80 \<noteq> 0
                  then (let (w, b) = rQshift8 w in (w, js_or len (js_shl b 14)))
                  else (w, len))
         else (w, len))"

definition tight_blob :: "'p tight \<Rightarrow> websock \<Rightarrow> 'p tight \<times> websock \<times> u8array option" where
  "tight_blob d w =
     (if rQwaits w (ti_len d) then (d, w, None)
      else (let (w, data) = rQshiftBytes w (ti_len d) in (d\<lparr>ti_len := 0\<rparr>, w, Some data)))"

definition readData :: "'p tight \<Rightarrow> websock \<Rightarrow> 'p tight \<times> websock \<times> u8array option" where
  "readData d w =
     (if ti_len d = 0
      then (if rQwaits w 3 then (d, w, None)
            else (let (w, len) = tight_length w in tight_blob (d\<lparr>ti_len := len\<rparr>) w))
      else tight_blob d w)"

text \<open>The data of a filter: as it is when it is shorter than 12 bytes, else through the stream.\<close>

definition unzip :: "'p pako \<Rightarrow> nat \<Rightarrow> int \<Rightarrow> 'p tight \<Rightarrow> u8array \<Rightarrow> 'p tight \<times> (js_error + u8array)" where
  "unzip pk streamId len d data =
     (let (z, r) = inflate pk (setInput (ti_zlibs d ! streamId) (Some data)) len
      in case r of
           Inl e \<Rightarrow> (d\<lparr>ti_zlibs := (ti_zlibs d)[streamId := z]\<rparr>, Inl e)
         | Inr out \<Rightarrow> (d\<lparr>ti_zlibs := (ti_zlibs d)[streamId := setInput z None]\<rparr>, Inr out))"

definition filter_data ::
  "'p pako \<Rightarrow> nat \<Rightarrow> int \<Rightarrow> 'p tight \<Rightarrow> websock \<Rightarrow> 'p tight \<times> websock \<times> (js_error + u8array) option" where
  "filter_data pk streamId len d w =
     (if len < 12
      then (if rQwaits w len then (d, w, None)
            else (let (w, data) = rQshiftBytes w len in (d, w, Some (Inr data))))
      else (case readData d w of
              (d, w, None) \<Rightarrow> (d, w, None)
            | (d, w, Some data) \<Rightarrow> (let (d, r) = unzip pk streamId len d data in (d, w, Some r))))"

section \<open>The filters and rectangle kinds\<close>

definition draw_data ::
  "'p tight \<times> websock \<times> (js_error + u8array) option \<Rightarrow> ('p tight \<Rightarrow> u8array \<Rightarrow> 'p tight \<times> draw) \<Rightarrow> 'p tight decode_result" where
  "draw_data res f =
     (case res of
        (d, w, None) \<Rightarrow> (d, w, [], NeedMore)
      | (d, w, Some (Inl e)) \<Rightarrow> (d, w, [], Throws e)
      | (d, w, Some (Inr data)) \<Rightarrow> (case f d data of (d, dr) \<Rightarrow> (d, w, [dr], Done)))"

definition blit :: "int \<Rightarrow> int \<Rightarrow> nat \<Rightarrow> nat \<Rightarrow> u8array \<Rightarrow> draw" where
  "blit x y width height px = BlitImage x y (int width) (int height) (whole_view px) 0"

definition copyFilter ::
  "'p pako \<Rightarrow> nat \<Rightarrow> int \<Rightarrow> int \<Rightarrow> nat \<Rightarrow> nat \<Rightarrow> 'p tight \<Rightarrow> websock \<Rightarrow> 'p tight decode_result" where
  "copyFilter pk streamId x y width height d w =
     (let uncompressedSize = int (width * height * 3)
      in if uncompressedSize = 0 then (d, w, [], Done)
         else draw_data (filter_data pk streamId uncompressedSize d w)
                (\<lambda>d data. (d, blit x y width height (rgb_to_rgbx (width * height) data))))"

definition palette_size :: "nat \<Rightarrow> nat \<Rightarrow> int \<Rightarrow> int" where
  "palette_size width height numColors =
     (let bpp = (if numColors \<le> 2 then 1 else 8) in int ((width * bpp + 7) div 8 * height))"

definition palette_rest ::
  "'p pako \<Rightarrow> nat \<Rightarrow> int \<Rightarrow> int \<Rightarrow> nat \<Rightarrow> nat \<Rightarrow> 'p tight \<Rightarrow> websock \<Rightarrow> 'p tight decode_result" where
  "palette_rest pk streamId x y width height d w =
     (let uncompressedSize = palette_size width height (ti_numColors d)
      in if uncompressedSize = 0 then (d, w, [], Done)
         else draw_data (filter_data pk streamId uncompressedSize d w)
                (\<lambda>d data. (d\<lparr>ti_numColors := 0\<rparr>,
                   blit x y width height
                     (if ti_numColors d = 2 then monoRect width height data (ti_palette d)
                      else paletteRect width height data (ti_palette d)))))"

definition paletteFilter ::
  "'p pako \<Rightarrow> nat \<Rightarrow> int \<Rightarrow> int \<Rightarrow> nat \<Rightarrow> nat \<Rightarrow> 'p tight \<Rightarrow> websock \<Rightarrow> 'p tight decode_result" where
  "paletteFilter pk streamId x y width height d w =
     (if ti_numColors d = 0
      then (if rQwaits w 1 then (d, w, [], NeedMore)
            else (let numColors = rQpeek8 w + 1;
                      paletteSize = numColors * 3
                  in if rQwaits w (1 + paletteSize) then (d, w, [], NeedMore)
                     else (let d = d\<lparr>ti_numColors := numColors\<rparr>;
                               w = rQskipBytes w 1
                           in case rQshiftTo w (ti_palette d) paletteSize of
                                (w, Inl e) \<Rightarrow> (d, w, [], Throws e)
                              | (w, Inr p) \<Rightarrow> palette_rest pk streamId x y width height (d\<lparr>ti_palette := p\<rparr>) w)))
      else palette_rest pk streamId x y width height d w)"

definition gradientFilter ::
  "'p pako \<Rightarrow> nat \<Rightarrow> int \<Rightarrow> int \<Rightarrow> nat \<Rightarrow> nat \<Rightarrow> 'p tight \<Rightarrow> websock \<Rightarrow> 'p tight decode_result" where
  "gradientFilter pk streamId x y width height d w =
     (let uncompressedSize = int (width * height * 3)
      in if uncompressedSize = 0 then (d, w, [], Done)
         else draw_data (filter_data pk streamId uncompressedSize d w)
                (\<lambda>d data. (d, blit x y width height (gradientRect width height data))))"

definition fillRect ::
  "int \<Rightarrow> int \<Rightarrow> nat \<Rightarrow> nat \<Rightarrow> 'p tight \<Rightarrow> websock \<Rightarrow> 'p tight decode_result" where
  "fillRect x y width height d w =
     (if rQwaits w 3 then (d, w, [], NeedMore)
      else (let (w, pixel) = rQshiftBytes w 3 in (d, w, [FillRect x y (int width) (int height) (Some pixel)], Done)))"

definition imageRect ::
  "string \<Rightarrow> int \<Rightarrow> int \<Rightarrow> nat \<Rightarrow> nat \<Rightarrow> 'p tight \<Rightarrow> websock \<Rightarrow> 'p tight decode_result" where
  "imageRect mime x y width height d w =
     (case readData d w of
        (d, w, None) \<Rightarrow> (d, w, [], NeedMore)
      | (d, w, Some data) \<Rightarrow> (d, w, [ImageRect x y (int width) (int height) mime data], Done))"

text \<open>A field is cleared once the rectangle is finished.\<close>

definition map_done :: "('d \<Rightarrow> 'd) \<Rightarrow> 'd decode_result \<Rightarrow> 'd decode_result" where
  "map_done f res = (case res of (d, w, ds, Done) \<Rightarrow> (f d, w, ds, Done) | _ \<Rightarrow> res)"

definition end_filter :: "'p tight decode_result \<Rightarrow> 'p tight decode_result" where
  "end_filter res = map_done (\<lambda>d. d\<lparr>ti_filter := None\<rparr>) res"

definition apply_filter ::
  "'p pako \<Rightarrow> int \<Rightarrow> int \<Rightarrow> int \<Rightarrow> nat \<Rightarrow> nat \<Rightarrow> int \<Rightarrow> 'p tight \<Rightarrow> websock \<Rightarrow> 'p tight decode_result" where
  "apply_filter pk ctl x y width height f d w =
     (let streamId = nat (js_and ctl 0x3)
      in end_filter
          (if f = 0 then copyFilter pk streamId x y width height d w
           else if f = 1 then paletteFilter pk streamId x y width height d w
           else if f = 2 then gradientFilter pk streamId x y width height d w
           else (d, w, [], Throws (JSError ''Illegal tight filter received (ctl: '' [f]))))"

definition basicRect ::
  "'p pako \<Rightarrow> int \<Rightarrow> int \<Rightarrow> int \<Rightarrow> nat \<Rightarrow> nat \<Rightarrow> 'p tight \<Rightarrow> websock \<Rightarrow> 'p tight decode_result" where
  "basicRect pk ctl x y width height d w =
     (case ti_filter d of
        None \<Rightarrow>
          if js_and ctl 0x4 \<noteq> 0
          then (if rQwaits w 1 then (d, w, [], NeedMore)
                else (let (w, f) = rQshift8 w
                      in apply_filter pk ctl x y width height f (d\<lparr>ti_filter := Some f\<rparr>) w))
          else apply_filter pk ctl x y width height 0 (d\<lparr>ti_filter := Some 0\<rparr>) w
      | Some f \<Rightarrow> apply_filter pk ctl x y width height f d w)"

section \<open>The decoder\<close>

definition reset_streams :: "'p pako \<Rightarrow> int \<Rightarrow> 'p inflator list \<Rightarrow> 'p inflator list" where
  "reset_streams pk ctl zs =
     foldl (\<lambda>zs i. if js_and (js_sar ctl i) 1 \<noteq> 0 then zs[i := reset pk (zs ! i)] else zs) zs [0..<4]"

definition end_rect :: "'p tight decode_result \<Rightarrow> 'p tight decode_result" where
  "end_rect res = map_done (\<lambda>d. d\<lparr>ti_ctl := None\<rparr>) res"

text \<open>The subclass for TightPNG overrides what is done with PNG and with basic compression.\<close>

definition tight_dispatch ::
  "'p pako \<Rightarrow> bool \<Rightarrow> int \<Rightarrow> int \<Rightarrow> nat \<Rightarrow> nat \<Rightarrow> int \<Rightarrow> 'p tight \<Rightarrow> websock \<Rightarrow> 'p tight decode_result" where
  "tight_dispatch pk png x y width height ctl d w =
     end_rect
       (if ctl = 0x08 then fillRect x y width height d w
        else if ctl = 0x09 then imageRect ''image/jpeg'' x y width height d w
        else if ctl = 0x0A
        then (if png then imageRect ''image/png'' x y width height d w
              else (d, w, [], Throws (JSError ''PNG received in standard Tight rect'' [])))
        else if js_and ctl 0x08 = 0
        then (if png then (d, w, [], Throws (JSError ''BasicCompression received in TightPNG rect'' []))
              else basicRect pk ctl x y width height d w)
        else (d, w, [], Throws (JSError ''Illegal tight compression received (ctl: '' [ctl])))"

definition tight_decodeRect ::
  "'p pako \<Rightarrow> bool \<Rightarrow> int \<Rightarrow> int \<Rightarrow> nat \<Rightarrow> nat \<Rightarrow> 'p tight \<Rightarrow> websock \<Rightarrow> 'p tight decode_result" where
  "tight_decodeRect pk png x y width height d w =
     (case ti_ctl d of
        None \<Rightarrow>
          if rQwaits w 1 then (d, w, [], NeedMore)
          else (let (w, ctl) = rQshift8 w;
                    d = d\<lparr>ti_zlibs := reset_streams pk ctl (ti_zlibs d)\<rparr>;
                    ctl = js_sar ctl 4
                in tight_dispatch pk png x y width height ctl (d\<lparr>ti_ctl := Some ctl\<rparr>) w)
      | Some ctl \<Rightarrow> tight_dispatch pk png x y width height ctl d w)"

text \<open>The subclass for TightPNG.\<close>

definition tightpng_decodeRect ::
  "'p pako \<Rightarrow> int \<Rightarrow> int \<Rightarrow> nat \<Rightarrow> nat \<Rightarrow> 'p tight \<Rightarrow> websock \<Rightarrow> 'p tight decode_result" where
  "tightpng_decodeRect pk = tight_decodeRect pk True"

end
