(* ===== verification/Pixels.thy ===== *)
theory Pixels
  imports JS_Prelude
begin

text \<open>
  Images as the decoders build them, four bytes for each pixel in a byte array, and the shared lemmas on arrays
  that are filled from pixel 0 up.
\<close>

definition rgbx_of :: "nat \<Rightarrow> (nat \<Rightarrow> nat \<Rightarrow> byte) \<Rightarrow> u8array" where
  "rgbx_of n pix = concat (map (\<lambda>k. [pix k 0, pix k 1, pix k 2, 255]) [0..<n])"

lemma upt_3: "[0..<3] = [0, 1, 2::nat]"
  by (simp add: upt_rec numeral_3_eq_3)

lemma length_concat_fixed: "(\<And>k. k < n \<Longrightarrow> length (f k) = m) \<Longrightarrow> length (concat (map f [0..<n])) = m * n"
  by (induction n) simp_all

lemma nth_concat_fixed:
  "(\<And>k. k < n \<Longrightarrow> length (f k) = m) \<Longrightarrow> k < n \<Longrightarrow> c < m \<Longrightarrow> concat (map f [0..<n]) ! (m * k + c) = f k ! c"
proof (induction n)
  case 0
  then show ?case by simp
next
  case (Suc n)
  have l: "length (concat (map f [0..<n])) = m * n" using Suc.prems(1) by (intro length_concat_fixed) simp
  show ?case
  proof (cases "k < n")
    case True
    have "m * k + c < m * Suc k" using Suc.prems(3) by simp
    also have "\<dots> \<le> m * n" using True by (intro mult_le_mono2) simp
    finally show ?thesis using Suc True by (simp add: nth_append l)
  next
    case False
    then have "k = n" using Suc.prems(2) by simp
    then show ?thesis using Suc.prems by (simp add: nth_append l)
  qed
qed

definition put4 :: "u8array \<Rightarrow> int \<Rightarrow> byte \<Rightarrow> byte \<Rightarrow> byte \<Rightarrow> u8array" where
  "put4 r i a b c = u8_upd (u8_upd (u8_upd (u8_upd r i a) (i + 1) b) (i + 2) c) (i + 3) 255"

lemma get_put4:
  assumes "i + 3 < int (length r)" and "0 \<le> i"
  shows "u8_get (put4 r i a b c) j =
    (if j = i then a else if j = i + 1 then b else if j = i + 2 then c else if j = i + 3 then 255 else u8_get r j)"
  using assms by (simp add: put4_def u8_get_upd)

definition chan :: "(nat \<Rightarrow> nat \<Rightarrow> byte) \<Rightarrow> nat \<Rightarrow> nat \<Rightarrow> byte" where
  "chan pix i c = (if c < 3 then pix i c else 255)"

definition decoded :: "nat \<Rightarrow> (nat \<Rightarrow> nat \<Rightarrow> byte) \<Rightarrow> u8array \<Rightarrow> bool" where
  "decoded k pix r \<longleftrightarrow> (\<forall>i<k. \<forall>c<4. u8_get r (int (4 * i + c)) = chan pix i c)"

lemma quad_less: "a < b \<Longrightarrow> 4 * a + 3 < 4 * (b :: nat)"
  by linarith

lemma decoded_put4:
  assumes "decoded k pix r" and "4 * k + 3 < length r"
  shows "decoded (Suc k) pix (put4 r (int (4 * k)) (pix k 0) (pix k 1) (pix k 2))"
  unfolding decoded_def
proof (intro allI impI)
  fix i c
  assume i: "i < Suc k" "c < (4 :: nat)"
  have r: "int (4 * k) + 3 < int (length r)" using assms(2) by linarith
  note get = get_put4 [OF r, of "pix k 0" "pix k 1" "pix k 2" "int (4 * i + c)"]
  show "u8_get (put4 r (int (4 * k)) (pix k 0) (pix k 1) (pix k 2)) (int (4 * i + c)) = chan pix i c"
  proof (cases "i = k")
    case True
    from i have "c = 0 \<or> c = 1 \<or> c = 2 \<or> c = 3" by linarith
    then show ?thesis using get True by (elim disjE) (simp_all add: chan_def)
  next
    case False
    then have "4 * i + c < 4 * k" using i by linarith
    then show ?thesis using get assms(1) i False by (simp add: decoded_def)
  qed
qed

lemma length_rgbx_of [simp]: "length (rgbx_of n pix) = 4 * n"
  unfolding rgbx_of_def by (rule length_concat_fixed) simp

lemma decoded_take:
  assumes "decoded n pix r" and "4 * n \<le> length r"
  shows "take (4 * n) r = rgbx_of n pix"
proof (rule nth_equalityI)
  let ?f = "\<lambda>k. [pix k 0, pix k 1, pix k 2, 255]"
  show "length (take (4 * n) r) = length (rgbx_of n pix)" using assms(2) by simp
  fix i
  assume i: "i < length (take (4 * n) r)"
  define k c where "k = i div 4" and "c = i mod 4"
  have ikc: "i = 4 * k + c" "c < 4" "k < n" using i assms(2) by (auto simp: k_def c_def)
  have "u8_get r (int i) = chan pix k c" using assms(1) ikc by (simp only: decoded_def)
  moreover have "rgbx_of n pix ! i = ?f k ! c"
    unfolding rgbx_of_def ikc(1) by (rule nth_concat_fixed) (use ikc in simp_all)
  moreover have "?f k ! c = chan pix k c"
  proof -
    from ikc(2) have "c = 0 \<or> c = 1 \<or> c = 2 \<or> c = 3" by linarith
    then show ?thesis by (elim disjE) (simp_all add: chan_def)
  qed
  ultimately show "take (4 * n) r ! i = rgbx_of n pix ! i" using i by (simp add: u8_get_nat)
qed

lemma decoded_whole: "decoded n pix r \<Longrightarrow> length r = 4 * n \<Longrightarrow> r = rgbx_of n pix"
  using decoded_take [of n pix r] by simp

lemma decoded_cong: "decoded n pix r \<Longrightarrow> (\<And>k c. k < n \<Longrightarrow> c < 3 \<Longrightarrow> pix k c = pix' k c) \<Longrightarrow> decoded n pix' r"
  by (auto simp: decoded_def chan_def)

lemma length_put4 [simp]: "length (put4 r i a b c) = length r"
  by (simp add: put4_def)

text \<open>Pixels as lists of three bytes.\<close>

definition rgbx_list :: "byte list list \<Rightarrow> u8array" where
  "rgbx_list ps = concat (map (\<lambda>p. p @ [255]) ps)"

lemma rgbx_of_list:
  assumes "\<And>p. p \<in> set ps \<Longrightarrow> length p = 3"
  shows "rgbx_of (length ps) (\<lambda>k c. ps ! k ! c) = rgbx_list ps"
proof -
  have "[ps ! k ! 0, ps ! k ! 1, ps ! k ! 2, 255] = ps ! k @ [255]" if "k < length ps" for k
  proof -
    have "length (ps ! k) = Suc (Suc (Suc 0))" using assms [of "ps ! k"] that by simp
    then obtain a b c where "ps ! k = [a, b, c]" by (auto simp: length_Suc_conv)
    then show ?thesis by (simp add: numeral_2_eq_2)
  qed
  then have "rgbx_of (length ps) (\<lambda>k c. ps ! k ! c) = concat (map (\<lambda>k. ps ! k @ [255]) [0..<length ps])"
    unfolding rgbx_of_def by (intro arg_cong [where f = concat] map_cong) simp_all
  also have "map (\<lambda>k. ps ! k @ [255]) [0..<length ps] = map (\<lambda>p. p @ [255]) ps"
    by (rule nth_equalityI) simp_all
  finally show ?thesis by (simp add: rgbx_list_def)
qed

end
