(* ===== verification/Tight_Pixels.thy ===== *)
theory Tight_Pixels
  imports Tight Pixels
begin

text \<open>
  What the filters of the Tight decoder compute: the gradient filter inverts its encoder, and a two-colour
  rectangle gets at every pixel the colour its bit selects.
\<close>

section \<open>The gradient filter\<close>

text \<open>The encoder's prediction from the left, upper and upper left neighbours, 0 outside the rectangle.\<close>

definition predict :: "nat \<Rightarrow> (nat \<Rightarrow> nat \<Rightarrow> byte) \<Rightarrow> nat \<Rightarrow> nat \<Rightarrow> int" where
  "predict width pix k c =
     (let left = (if k mod width = 0 then 0 else pix (k - 1) c);
          upper = (if k < width then 0 else pix (k - width) c);
          upperleft = (if k mod width = 0 \<or> k < width then 0 else pix (k - width - 1) c)
      in clamp_byte (uint left + uint upper - uint upperleft))"

definition gradient_encode :: "nat \<Rightarrow> nat \<Rightarrow> (nat \<Rightarrow> nat \<Rightarrow> byte) \<Rightarrow> u8array" where
  "gradient_encode width height pix =
     concat (map (\<lambda>k. map (\<lambda>c. pix k c - ToUint8 (predict width pix k c)) [0..<3]) [0..<width * height])"

lemma unpredict: "ToUint8 (uint (v - ToUint8 p) + p) = v"
proof -
  have "word_of_int (uint (v - word_of_int p) + p) = v - word_of_int p + word_of_int p"
    by (simp only: wi_hom_add [symmetric] word_of_int_uint)
  then show ?thesis by (simp add: ToUint8_def)
qed

lemma unpredict_byte: "ToUint8 (uint l + uint (v - l)) = v"
  using unpredict [of v "uint l"] by (simp add: add.commute)

lemma gradient_encode_nth:
  assumes "k < width * height" and "c < 3"
  shows "u8_get (gradient_encode width height pix) (int (3 * k + c)) = pix k c - ToUint8 (predict width pix k c)"
proof -
  let ?f = "\<lambda>k. map (\<lambda>c. pix k c - ToUint8 (predict width pix k c)) [0..<3]"
  have "length (gradient_encode width height pix) = 3 * (width * height)"
    unfolding gradient_encode_def by (rule length_concat_fixed) simp
  moreover have "3 * k + c < 3 * (width * height)" using assms by linarith
  ultimately show ?thesis
    using nth_concat_fixed [of "width * height" ?f 3 k c] assms
    by (simp only: u8_get_nat gradient_encode_def) simp
qed

lemma gradient_pixel_eq:
  assumes "gr_left g = [l0, l1, l2]" and "gr_upperleft g = [k0, k1, k2]" and "length (gr_upper g) = 3"
    and "u8_get (gr_rgbx g) (gr_upperIndex g) = u0" and "u8_get (gr_rgbx g) (gr_upperIndex g + 1) = u1"
    and "u8_get (gr_rgbx g) (gr_upperIndex g + 2) = u2" and "gr_upperIndex g + 2 < gr_rgbxIndex g"
    and "u8_get data (gr_dataIndex g) = v0 - ToUint8 (clamp_byte (uint l0 + uint u0 - uint k0))"
    and "u8_get data (gr_dataIndex g + 1) = v1 - ToUint8 (clamp_byte (uint l1 + uint u1 - uint k1))"
    and "u8_get data (gr_dataIndex g + 2) = v2 - ToUint8 (clamp_byte (uint l2 + uint u2 - uint k2))"
  shows "gradient_pixel data g = g\<lparr>gr_rgbx := put4 (gr_rgbx g) (gr_rgbxIndex g) v0 v1 v2,
    gr_rgbxIndex := gr_rgbxIndex g + 4, gr_dataIndex := gr_dataIndex g + 3, gr_upperIndex := gr_upperIndex g + 4,
    gr_left := [v0, v1, v2], gr_upper := [u0, u1, u2], gr_upperleft := [u0, u1, u2]\<rparr>"
proof -
  obtain a b c where "gr_upper g = [a, b, c]" using assms(3) by (auto simp: numeral_3_eq_3 length_Suc_conv)
  then show ?thesis
    using assms
    by (intro gradient.equality) (simp_all add: gradient_pixel_def gradient_component_def gradient_alpha_def upt_3 Let_def
      unpredict [unfolded add.commute [of "uint _"]] unpredict u8_get_upd put4_def numeral_2_eq_2 add.commute)
qed

lemma gradient_first_eq:
  assumes "gr_left g = [l0, l1, l2]"
    and "u8_get data (gr_dataIndex g) = v0 - ToUint8 (uint l0)"
    and "u8_get data (gr_dataIndex g + 1) = v1 - ToUint8 (uint l1)"
    and "u8_get data (gr_dataIndex g + 2) = v2 - ToUint8 (uint l2)"
  shows "gradient_first data g = g\<lparr>gr_rgbx := put4 (gr_rgbx g) (gr_rgbxIndex g) v0 v1 v2,
    gr_rgbxIndex := gr_rgbxIndex g + 4, gr_dataIndex := gr_dataIndex g + 3, gr_left := [v0, v1, v2]\<rparr>"
  using assms unpredict_byte
  by (intro gradient.equality) (simp_all add: gradient_first_def gradient_store_def gradient_alpha_def upt_3 Let_def
    put4_def numeral_2_eq_2 add.commute)

text \<open>The loop invariant before pixel \<open>x\<close> of row \<open>y\<close>.\<close>

definition pixel_at :: "(nat \<Rightarrow> nat \<Rightarrow> byte) \<Rightarrow> nat \<Rightarrow> u8array" where
  "pixel_at pix k = [pix k 0, pix k 1, pix k 2]"

definition gradient_inv :: "nat \<Rightarrow> nat \<Rightarrow> (nat \<Rightarrow> nat \<Rightarrow> byte) \<Rightarrow> nat \<Rightarrow> nat \<Rightarrow> gradient \<Rightarrow> bool" where
  "gradient_inv width height pix y x g \<longleftrightarrow>
     (let k = y * width + x in
        length (gr_rgbx g) = 4 * (width * height) \<and> gr_rgbxIndex g = int (4 * k) \<and> gr_dataIndex g = int (3 * k) \<and>
        gr_upperIndex g = int (4 * (k - width)) \<and> decoded k pix (gr_rgbx g) \<and> length (gr_upper g) = 3 \<and>
        gr_left g = (if x = 0 then [0, 0, 0] else pixel_at pix (k - 1)) \<and>
        gr_upperleft g = (if x = 0 \<or> y = 0 then [0, 0, 0] else pixel_at pix (k - width - 1)))"

lemma gradient_row_start:
  "gradient_inv width height pix y width g \<Longrightarrow> 0 < width \<Longrightarrow>
     gradient_inv width height pix (Suc y) 0 (g\<lparr>gr_left := [0, 0, 0], gr_upperleft := [0, 0, 0]\<rparr>)"
  by (simp add: gradient_inv_def Let_def add.commute)

lemma gradient_data:
  assumes "y < height" and "x < width" and "c < 3"
  shows "u8_get (gradient_encode width height pix) (int (3 * (y * width + x)) + int c)
    = pix (y * width + x) c - ToUint8 (predict width pix (y * width + x) c)"
proof -
  have "y * width + x < Suc y * width" using assms(2) by simp
  also have "\<dots> \<le> height * width" using assms(1) by (intro mult_le_mono1) simp
  finally have "y * width + x < width * height" by (simp add: mult.commute)
  from gradient_encode_nth [OF this assms(3)] show ?thesis by simp
qed

lemma four_less: "a < b \<Longrightarrow> int (4 * a) + 2 < int (4 * b)"
  by linarith

lemma gradient_step:
  assumes inv: "gradient_inv width height pix y x g" and y: "0 < y" "y < height" and x: "x < width"
  shows "gradient_inv width height pix y (Suc x) (gradient_pixel (gradient_encode width height pix) g)"
proof -
  let ?k = "y * width + x" and ?data = "gradient_encode width height pix"
  have "1 * width \<le> y * width" using y by (intro mult_le_mono1) simp
  then have "width \<le> ?k" by linarith
  moreover have "?k mod width = x" using x by simp
  ultimately have k: "width \<le> ?k" "?k mod width = x" by blast+
  have "?k < Suc y * width" using x by simp
  also have "\<dots> \<le> height * width" using y by (intro mult_le_mono1) simp
  finally have bound: "?k < width * height" by (simp add: mult.commute)
  have g: "length (gr_rgbx g) = 4 * (width * height)" "gr_rgbxIndex g = int (4 * ?k)" "gr_dataIndex g = int (3 * ?k)"
      "gr_upperIndex g = int (4 * (?k - width))" "decoded ?k pix (gr_rgbx g)" "length (gr_upper g) = 3"
    using inv by (simp_all add: gradient_inv_def Let_def)
  define L where "L c = (if x = 0 then 0 else pix (?k - 1) c)" for c
  define K where "K c = (if x = 0 then 0 else pix (?k - width - 1) c)" for c
  have left: "gr_left g = [L 0, L 1, L 2]" and upperleft: "gr_upperleft g = [K 0, K 1, K 2]"
    using inv y by (simp_all add: gradient_inv_def Let_def L_def K_def pixel_at_def)
  have up: "u8_get (gr_rgbx g) (int (4 * (?k - width)) + int c) = pix (?k - width) c" if "c < 3" for c
  proof -
    have "?k - width < ?k" using k(1) x by simp
    then show ?thesis using g(5) that unfolding decoded_def of_nat_add [symmetric] by (simp only: chan_def if_True)
  qed
  have data: "u8_get ?data (int (3 * ?k) + int c) = pix ?k c - ToUint8 (clamp_byte (uint (L c) + uint (pix (?k - width) c) - uint (K c)))"
    if "c < 3" for c
    using gradient_data [OF y(2) x that, of pix] k by (simp add: predict_def L_def K_def Let_def)
  have eq: "gradient_pixel ?data g = g\<lparr>gr_rgbx := put4 (gr_rgbx g) (gr_rgbxIndex g) (pix ?k 0) (pix ?k 1) (pix ?k 2),
      gr_rgbxIndex := gr_rgbxIndex g + 4, gr_dataIndex := gr_dataIndex g + 3, gr_upperIndex := gr_upperIndex g + 4,
      gr_left := [pix ?k 0, pix ?k 1, pix ?k 2],
      gr_upper := [pix (?k - width) 0, pix (?k - width) 1, pix (?k - width) 2],
      gr_upperleft := [pix (?k - width) 0, pix (?k - width) 1, pix (?k - width) 2]\<rparr>"
  proof (rule gradient_pixel_eq [OF left upperleft g(6)])
    have "?k - width < ?k" using k(1) x by simp
    then show "gr_upperIndex g + 2 < gr_rgbxIndex g" unfolding g(2,4) by (rule four_less)
  qed (use up [of 0] up [of 1] up [of 2] data [of 0] data [of 1] data [of 2] g(3,4) in \<open>simp_all del: of_nat_mult of_nat_diff of_nat_add\<close>)
  have "4 * ?k + 3 < length (gr_rgbx g)" unfolding g(1) using bound by (rule quad_less)
  then have "decoded (Suc ?k) pix (put4 (gr_rgbx g) (int (4 * ?k)) (pix ?k 0) (pix ?k 1) (pix ?k 2))"
    by (rule decoded_put4 [OF g(5)])
  then show ?thesis
    using g k y x unfolding gradient_inv_def eq Let_def
    by (simp add: put4_def pixel_at_def Suc_diff_le)
qed

lemma gradient_first_step:
  assumes inv: "gradient_inv width height pix 0 x g" and y: "0 < height" and x: "x < width"
  shows "gradient_inv width height pix 0 (Suc x) (gradient_first (gradient_encode width height pix) g)"
proof -
  let ?data = "gradient_encode width height pix"
  have "x < 1 * width" using x by simp
  also have "\<dots> \<le> height * width" using y by (intro mult_le_mono1) simp
  finally have bound: "x < width * height" by (simp add: mult.commute)
  have g: "length (gr_rgbx g) = 4 * (width * height)" "gr_rgbxIndex g = int (4 * x)" "gr_dataIndex g = int (3 * x)"
      "decoded x pix (gr_rgbx g)"
    using inv by (simp_all add: gradient_inv_def Let_def)
  define L where "L c = (if x = 0 then 0 else pix (x - 1) c)" for c
  have left: "gr_left g = [L 0, L 1, L 2]"
    using inv by (simp add: gradient_inv_def Let_def L_def pixel_at_def)
  have "clamp_byte (uint v) = uint v" for v :: byte using byte_bounds [of v] by (simp add: clamp_byte_def)
  then have data: "u8_get ?data (int (3 * x) + int c) = pix x c - ToUint8 (uint (L c))" if "c < 3" for c
    using gradient_data [OF y x that, of pix] x by (simp add: predict_def L_def Let_def)
  have eq: "gradient_first ?data g = g\<lparr>gr_rgbx := put4 (gr_rgbx g) (gr_rgbxIndex g) (pix x 0) (pix x 1) (pix x 2),
      gr_rgbxIndex := gr_rgbxIndex g + 4, gr_dataIndex := gr_dataIndex g + 3, gr_left := [pix x 0, pix x 1, pix x 2]\<rparr>"
    by (rule gradient_first_eq [OF left])
      (use data [of 0] data [of 1] data [of 2] g(3) in \<open>simp_all only: of_nat_0 of_nat_1 of_nat_numeral add_0_right\<close>, simp_all)
  have "4 * x + 3 < length (gr_rgbx g)" unfolding g(1) using bound by (rule quad_less)
  then have "decoded (Suc x) pix (put4 (gr_rgbx g) (int (4 * x)) (pix x 0) (pix x 1) (pix x 2))"
    by (rule decoded_put4 [OF g(4)])
  then show ?thesis
    using inv x g unfolding eq by (simp add: gradient_inv_def Let_def put4_def pixel_at_def)
qed

lemma funpow_row:
  assumes "\<And>x g. P x g \<Longrightarrow> x < n \<Longrightarrow> P (Suc x) (f g)" and "P 0 g"
  shows "P n ((f ^^ n) g)"
proof -
  have "k \<le> n \<Longrightarrow> P k ((f ^^ k) g)" for k
    by (induction k) (use assms in auto)
  then show ?thesis by simp
qed

text \<open>
  The gradient filter inverts its encoder: from the differences of the pixels to their predictions, modulo 256, it
  computes the pixels, whatever the image.
\<close>

theorem gradient_inverts:
  assumes "0 < width" and "0 < height"
  shows "gradientRect width height (gradient_encode width height pix) = rgbx_of (width * height) pix"
proof -
  let ?data = "gradient_encode width height pix" and ?inv = "gradient_inv width height pix"
  define g0 where "g0 = \<lparr>gr_rgbx = u8_new (4 * int width * int height), gr_rgbxIndex = 0, gr_dataIndex = 0, gr_upperIndex = 0,
               gr_left = [0, 0, 0], gr_upper = [0, 0, 0], gr_upperleft = [0, 0, 0 :: byte]\<rparr>"
  have "?inv 0 0 g0"
    by (simp add: gradient_inv_def g0_def decoded_def nat_mult_distrib)
  then have "?inv 0 width ((gradient_first ?data ^^ width) g0)"
    by (rule funpow_row [of "?inv 0", rotated]) (rule gradient_first_step [OF _ assms(2)])
  moreover have "?inv (Suc y) width (gradient_row width ?data g)" if "?inv y width g" "y < height - 1" for y g
    unfolding gradient_row_def
    by (rule funpow_row [of "?inv (Suc y)"])
      (use that assms in \<open>auto intro: gradient_step gradient_row_start\<close>)
  ultimately have "?inv (height - 1) width ((gradient_row width ?data ^^ (height - 1)) ((gradient_first ?data ^^ width) g0))"
    by (intro funpow_row [of "\<lambda>y. ?inv y width"])
  then have "decoded ((height - 1) * width + width) pix (gradientRect width height ?data)"
      "length (gradientRect width height ?data) = 4 * (width * height)"
    by (simp_all only: gradientRect_def Let_def g0_def [symmetric] gradient_inv_def)
  moreover have "(height - 1) * width + width = width * height" using assms(2) by (cases height) simp_all
  ultimately show ?thesis by (simp only: decoded_whole)
qed

section \<open>Two-colour rectangles\<close>

definition mono_index :: "nat \<Rightarrow> u8array \<Rightarrow> nat \<Rightarrow> int" where
  "mono_index width data k =
     (let y = k div width; x = k mod width; row = (width + 7) div 8
      in uint (u8_get data (int (y * row + x div 8))) div 2 ^ (7 - x mod 8) mod 2)"

lemma sar_bit: "n < 32 \<Longrightarrow> js_and (js_sar (uint (v :: byte)) n) 1 = uint v div 2 ^ n mod 2"
proof -
  assume "n < 32"
  have v: "0 \<le> uint v" "uint v < 256" using byte_bounds [of v] by auto
  have "uint v div 2 ^ n \<le> uint v" using zdiv_mono2 [of "uint v" 1 "2 ^ n"] v(1) by simp
  then have "js_sar (uint v) n = uint v div 2 ^ n" "0 \<le> uint v div 2 ^ n" "uint v div 2 ^ n < 256"
    using v \<open>n < 32\<close> by (simp_all add: js_sar_def ToInt32_nonneg pos_imp_zdiv_nonneg_iff)
  then show ?thesis by (simp add: js_and_def ToInt32_nonneg one_and_eq and_one_eq)
qed

lemma foldl_blocks:
  "foldl (\<lambda>d i. foldl (\<lambda>d j. f (m * i + j) d) d [0..<m]) d [0..<n] = foldl (\<lambda>d k. f k d) d [0..<m * n]"
proof (induction n)
  case 0
  then show ?case by simp
next
  case (Suc n)
  have "[0..<m * Suc n] = [0..<m * n] @ map (\<lambda>j. m * n + j) [0..<m]"
    using upt_add_eq_append [of 0 "m * n" m] map_add_upt [of "m * n" m] by (simp add: add.commute)
  then show ?case using Suc by (simp add: foldl_map)
qed

lemma rev_bits: "r \<le> 8 \<Longrightarrow> rev [8 - r..<8] = map (\<lambda>j. 7 - j) [0..<r]"
  by (rule nth_equalityI) (simp_all add: rev_nth)

definition mono_put :: "nat \<Rightarrow> u8array \<Rightarrow> u8array \<Rightarrow> nat \<Rightarrow> u8array \<Rightarrow> u8array" where
  "mono_put width data palette k dest = put_rgb dest (int k * 4) palette (mono_index width data k * 3)"

lemma mono_bit_put:
  assumes "xb * 8 + j < width" and "j < 8"
  shows "mono_bit width data palette y xb (7 - j) dest = mono_put width data palette (width * y + (8 * xb + j)) dest"
proof -
  have d: "(width * y + (8 * xb + j)) div width = y" "(width * y + (8 * xb + j)) mod width = 8 * xb + j"
    using assms(1) by (simp_all add: div_mult_self3 mult.commute)
  have "(8 * xb + j) div 8 = xb" "(8 * xb + j) mod 8 = j" using assms(2) by simp_all
  moreover have "int y * int width + int xb * 8 + 7 - int (7 - j) = int (width * y + (8 * xb + j))"
    using assms(2) by (simp add: of_nat_diff algebra_simps)
  moreover have "7 - j < 32" by simp
  ultimately show ?thesis
    by (simp only: mono_bit_def mono_put_def mono_index_def d sar_bit Let_def)
qed

lemma foldl_cong': "(\<And>d j. j \<in> set js \<Longrightarrow> f d j = g d j) \<Longrightarrow> foldl f d js = foldl g d js"
  by (rule foldl_cong) simp_all

lemma mono_row_put:
  "mono_row width data palette y dest = foldl (\<lambda>d x. mono_put width data palette (width * y + x) d) dest [0..<width]"
proof -
  let ?w1 = "width div 8" and ?r = "width mod 8" and ?put = "\<lambda>x. mono_put width data palette (width * y + x)"
  have "foldl (\<lambda>dest b. mono_bit width data palette y xb b dest) d (rev [0..<8]) = foldl (\<lambda>d j. ?put (8 * xb + j) d) d [0..<8]"
    if "xb < ?w1" for xb d
  proof -
    have "xb * 8 + j < width" if "j < 8" for j using \<open>xb < ?w1\<close> that by linarith
    then show ?thesis
      using rev_bits [of 8] by (simp only: diff_self_eq_0 order_refl foldl_map) (rule foldl_cong', simp add: mono_bit_put)
  qed
  then have bytes: "foldl (\<lambda>dest xb. foldl (\<lambda>dest b. mono_bit width data palette y xb b dest) dest (rev [0..<8])) dest [0..<?w1]
      = foldl (\<lambda>d x. ?put x d) dest [0..<8 * ?w1]" for dest
    using foldl_blocks [of ?put 8 dest ?w1] by (subst foldl_cong' [where g = "\<lambda>d i. foldl (\<lambda>d j. ?put (8 * i + j) d) d [0..<8]"]) auto
  have "foldl (\<lambda>dest b. mono_bit width data palette y ?w1 b dest) d (rev [8 - ?r..<8]) = foldl (\<lambda>d j. ?put (8 * ?w1 + j) d) d [0..<?r]" for d
  proof -
    have "?w1 * 8 + j < width" if "j < ?r" for j using that div_mult_mod_eq [of width 8] by linarith
    moreover have "?r \<le> 8" "?r < 8" by simp_all
    ultimately show ?thesis
      by (simp only: rev_bits foldl_map) (rule foldl_cong', simp add: mono_bit_put)
  qed
  moreover have "[0..<width] = [0..<8 * ?w1] @ map (\<lambda>j. 8 * ?w1 + j) [0..<?r]"
    using upt_add_eq_append [of 0 "8 * ?w1" ?r] map_add_upt [of "8 * ?w1" ?r] by (simp add: add.commute)
  ultimately show ?thesis by (simp only: mono_row_def Let_def bytes foldl_append foldl_map)
qed

lemma monoRect_put:
  "monoRect width height data palette =
     foldl (\<lambda>d k. mono_put width data palette k d) (u8_new (int (width * height * 4))) [0..<width * height]"
  by (simp only: monoRect_def mono_row_put foldl_blocks)

definition mono_pixel :: "nat \<Rightarrow> u8array \<Rightarrow> u8array \<Rightarrow> nat \<Rightarrow> nat \<Rightarrow> byte" where
  "mono_pixel width data palette k c = u8_get palette (mono_index width data k * 3 + int c)"

lemma mono_put_put4:
  "mono_put width data palette k dest =
     put4 dest (int (4 * k)) (mono_pixel width data palette k 0) (mono_pixel width data palette k 1) (mono_pixel width data palette k 2)"
  by (simp add: mono_put_def put_rgb_def put4_def mono_pixel_def mult.commute)

text \<open>
  A rectangle with a palette of two colours gets at every pixel the colour its bit selects: rows start at a byte,
  the most significant bit is the leftmost pixel, and the pixels past the last full byte are drawn too.
\<close>

theorem monoRect_selects:
  "monoRect width height data palette = rgbx_of (width * height) (mono_pixel width data palette)"
proof -
  let ?pix = "mono_pixel width data palette" and ?put = "mono_put width data palette"
  let ?img = "\<lambda>n. foldl (\<lambda>d k. ?put k d) (u8_new (int (width * height * 4))) [0..<n]"
  have "n \<le> width * height \<Longrightarrow> decoded n ?pix (?img n) \<and> length (?img n) = 4 * (width * height)" for n
  proof (induction n)
    case 0
    then show ?case by (simp add: decoded_def nat_mult_distrib)
  next
    case (Suc n)
    then have "decoded n ?pix (?img n)" "length (?img n) = 4 * (width * height)" by simp_all
    moreover have "4 * n + 3 < 4 * (width * height)" using Suc.prems by linarith
    ultimately have "decoded (Suc n) ?pix (?put n (?img n))" unfolding mono_put_put4 by (intro decoded_put4) simp_all
    then show ?case using Suc by (simp add: mono_put_put4 put4_def)
  qed
  from this [OF order_refl] show ?thesis unfolding monoRect_put by (intro decoded_whole) simp_all
qed

end
