(* ===== verification/Tight_Decoder.thy ===== *)
theory Tight_Decoder
  imports Tight_Pixels
begin

text \<open>
  The Tight decoder read as a sequence of phases: the control byte, the filter byte, the palette, the compact length,
  the data. The phases are shown to describe \<open>decodeRect\<close> (\<open>interpretation tight\<close>), so that a rectangle decodes to the
  same calls on the display however the network cuts its bytes.
\<close>

section \<open>Compact lengths\<close>

text \<open>The value and the number of bytes of a length, seven bits in each of the first two bytes.\<close>

definition length_of :: "byte list \<Rightarrow> int \<times> nat" where
  "length_of bs =
     (let b0 = uint (bs ! 0); b1 = uint (bs ! 1); b2 = uint (bs ! 2)
      in if b0 < 128 then (b0, 1)
         else if b1 < 128 then (b0 mod 128 + b1 * 128, 2)
         else (b0 mod 128 + b1 mod 128 * 128 + b2 * 16384, 3))"

lemma js_or_shl:
  assumes "0 \<le> c" and "c < 2 ^ n" and "0 \<le> x" and "c + x * 2 ^ n < 2147483648" and "n < 32"
  shows "js_or c (js_shl x n) = c + x * 2 ^ n"
proof -
  have "0 \<le> x * 2 ^ n" using assms(3) by simp
  then have "x * 2 ^ n < 2147483648" "c < 2147483648" using assms(1,4) by linarith+
  then show ?thesis
    using assms or_shifted [OF assms(1,2)] by (simp add: js_or_def js_shl_small ToInt32_nonneg)
qed

lemma high_bit: "0 \<le> b \<Longrightarrow> b < 256 \<Longrightarrow> js_and b 0x80 = 0 \<longleftrightarrow> b < 128"
proof -
  assume b: "0 \<le> b" "b < 256"
  have "js_and b 0x80 = b AND 2 ^ 7" using b by (simp add: js_and_def ToInt32_nonneg)
  moreover have "b AND 2 ^ 7 = 0 \<longleftrightarrow> \<not> bit b 7" by (rule and_exp_eq_0_iff_not_bit)
  moreover have "bit b 7 \<longleftrightarrow> odd (b div 128)" by (simp add: bit_iff_odd)
  moreover have "b div 128 = (if b < 128 then 0 else 1)" using b by auto
  ultimately show ?thesis by simp
qed

lemma tight_length_eq:
  assumes inv: "rx_inv w" and len: "3 \<le> length (unread w)"
  shows "tight_length w = (adv (snd (length_of (unread w))) w, fst (length_of (unread w)))"
proof -
  obtain x y z r where u: "unread w = x # y # z # r"
    using len by (cases "unread w" rule: remdups_adj.cases) (auto simp: neq_Nil_conv Suc_le_eq numeral_eq_Suc)
  have b: "0 \<le> uint v" "uint v < 256" for v :: byte using byte_bounds [of v] by auto
  have m: "js_and (uint v) 0x7f = uint v mod 128" for v :: byte using b [of v] by (simp add: js_and_masks)
  have a1: "rx_inv (adv (Suc 0) w)" "unread (adv (Suc 0) w) = y # z # r"
    using inv u by (simp_all add: ws_simps)
  have a2: "rx_inv (adv (Suc (Suc 0)) w)" "unread (adv (Suc (Suc 0)) w) = z # r"
    using inv u by (simp_all add: ws_simps)
  have o1: "js_or (uint x mod 128) (js_shl (uint y mod 128) 7) = uint x mod 128 + uint y mod 128 * 128"
    using js_or_shl [of "uint x mod 128" 7 "uint y mod 128"] b [of y] by simp
  have o1': "uint y < 128 \<Longrightarrow> js_or (uint x mod 128) (js_shl (uint y) 7) = uint x mod 128 + uint y * 128"
    using o1 b [of y] by simp
  have "uint x mod 128 + uint y mod 128 * 128 < 16384" by (simp add: mod_less_divisor order_le_less_trans)
  moreover have "0 \<le> uint x mod 128 + uint y mod 128 * 128" by simp
  ultimately have o2: "js_or (uint x mod 128 + uint y mod 128 * 128) (js_shl (uint z) 14)
      = uint x mod 128 + uint y mod 128 * 128 + uint z * 16384"
    using js_or_shl [of "uint x mod 128 + uint y mod 128 * 128" 14 "uint z"] b [of z] by simp
  show ?thesis
    using inv u a1 a2 b [of x] b [of y] o1 o1' o2
    by (simp add: tight_length_def length_of_def ws_simps high_bit m Let_def numeral_2_eq_2 numeral_3_eq_3)
qed

lemma length_of_bounds: "0 \<le> fst (length_of bs)" "snd (length_of bs) \<le> 3"
  using byte_bounds by (auto simp: length_of_def Let_def)

lemma length_of_append: "3 \<le> length bs \<Longrightarrow> length_of (bs @ later) = length_of bs"
proof -
  assume "3 \<le> length bs"
  then have "0 < length bs" "1 < length bs" "2 < length bs" by linarith+
  then show ?thesis by (simp only: length_of_def nth_append if_True)
qed

section \<open>Phases\<close>

definition map_finish :: "('d \<Rightarrow> 'd) \<Rightarrow> 'd phase \<Rightarrow> 'd phase" where
  "map_finish f p = (case p of Finish d n os \<Rightarrow> Finish (f d) n os | _ \<Rightarrow> p)"

definition blob_phase :: "'p tight \<Rightarrow> byte list \<Rightarrow> ('p tight \<Rightarrow> u8array \<Rightarrow> nat \<Rightarrow> 'p tight phase) \<Rightarrow> 'p tight phase" where
  "blob_phase d bs k =
     (if ti_len d = 0
      then (if length bs < 3 then Await
            else (let (len, n) = length_of bs
                  in if len = 0 then k d [] n else Proceed (d\<lparr>ti_len := len\<rparr>) n []))
      else (if int (length bs) < ti_len d then Await
            else (let n = nat (ti_len d) in k (d\<lparr>ti_len := 0\<rparr>) (take n bs) n)))"

definition data_phase ::
  "'p pako \<Rightarrow> nat \<Rightarrow> int \<Rightarrow> 'p tight \<Rightarrow> byte list \<Rightarrow> ('p tight \<Rightarrow> u8array \<Rightarrow> 'p tight \<times> draw) \<Rightarrow> 'p tight phase" where
  "data_phase pk streamId len d bs f =
     (if len < 12
      then (if int (length bs) < len then Await
            else (let (d', dr) = f d (take (nat len) bs) in Finish d' (nat len) (draw_ops dr)))
      else blob_phase d bs (\<lambda>d data n.
             (case unzip pk streamId len d data of
                (d, Inl e) \<Rightarrow> Abort d n [] e
              | (d, Inr out) \<Rightarrow> (let (d', dr) = f d out in Finish d' n (draw_ops dr)))))"

definition copy_phase :: "'p pako \<Rightarrow> nat \<Rightarrow> int \<Rightarrow> int \<Rightarrow> nat \<Rightarrow> nat \<Rightarrow> 'p tight \<Rightarrow> byte list \<Rightarrow> 'p tight phase" where
  "copy_phase pk streamId x y width height d bs =
     (if width * height * 3 = 0 then Finish d 0 []
      else data_phase pk streamId (int (width * height * 3)) d bs
             (\<lambda>d data. (d, blit x y width height (rgb_to_rgbx (width * height) data))))"

definition gradient_phase :: "'p pako \<Rightarrow> nat \<Rightarrow> int \<Rightarrow> int \<Rightarrow> nat \<Rightarrow> nat \<Rightarrow> 'p tight \<Rightarrow> byte list \<Rightarrow> 'p tight phase" where
  "gradient_phase pk streamId x y width height d bs =
     (if width * height * 3 = 0 then Finish d 0 []
      else data_phase pk streamId (int (width * height * 3)) d bs
             (\<lambda>d data. (d, blit x y width height (gradientRect width height data))))"

definition palette_phase :: "'p pako \<Rightarrow> nat \<Rightarrow> int \<Rightarrow> int \<Rightarrow> nat \<Rightarrow> nat \<Rightarrow> 'p tight \<Rightarrow> byte list \<Rightarrow> 'p tight phase" where
  "palette_phase pk streamId x y width height d bs =
     (if ti_numColors d = 0
      then (if bs = [] \<or> length bs < 1 + 3 * nat (uint (hd bs) + 1) then Await
            else (let n = 3 * nat (uint (hd bs) + 1)
                  in Proceed (d\<lparr>ti_numColors := uint (hd bs) + 1,
                                ti_palette := take n (tl bs) @ drop n (ti_palette d)\<rparr>) (1 + n) []))
      else if palette_size width height (ti_numColors d) = 0 then Finish d 0 []
      else data_phase pk streamId (palette_size width height (ti_numColors d)) d bs
             (\<lambda>d data. (d\<lparr>ti_numColors := 0\<rparr>,
                blit x y width height
                  (if ti_numColors d = 2 then monoRect width height data (ti_palette d)
                   else paletteRect width height data (ti_palette d)))))"

definition filter_phase :: "'p pako \<Rightarrow> int \<Rightarrow> int \<Rightarrow> int \<Rightarrow> nat \<Rightarrow> nat \<Rightarrow> int \<Rightarrow> 'p tight \<Rightarrow> byte list \<Rightarrow> 'p tight phase" where
  "filter_phase pk ctl x y width height f d bs =
     (let streamId = nat (js_and ctl 0x3)
      in map_finish (\<lambda>d. d\<lparr>ti_filter := None\<rparr>)
          (if f = 0 then copy_phase pk streamId x y width height d bs
           else if f = 1 then palette_phase pk streamId x y width height d bs
           else if f = 2 then gradient_phase pk streamId x y width height d bs
           else Abort d 0 [] (JSError ''Illegal tight filter received (ctl: '' [f])))"

definition basic_phase :: "'p pako \<Rightarrow> int \<Rightarrow> int \<Rightarrow> int \<Rightarrow> nat \<Rightarrow> nat \<Rightarrow> 'p tight \<Rightarrow> byte list \<Rightarrow> 'p tight phase" where
  "basic_phase pk ctl x y width height d bs =
     (case ti_filter d of
        None \<Rightarrow>
          if js_and ctl 0x4 \<noteq> 0
          then (if bs = [] then Await else Proceed (d\<lparr>ti_filter := Some (uint (hd bs))\<rparr>) 1 [])
          else Proceed (d\<lparr>ti_filter := Some 0\<rparr>) 0 []
      | Some f \<Rightarrow> filter_phase pk ctl x y width height f d bs)"

definition image_phase :: "string \<Rightarrow> int \<Rightarrow> int \<Rightarrow> nat \<Rightarrow> nat \<Rightarrow> 'p tight \<Rightarrow> byte list \<Rightarrow> 'p tight phase" where
  "image_phase mime x y width height d bs =
     blob_phase d bs (\<lambda>d data n. Finish d n (draw_ops (ImageRect x y (int width) (int height) mime data)))"

definition dispatch_phase ::
  "'p pako \<Rightarrow> bool \<Rightarrow> int \<Rightarrow> int \<Rightarrow> nat \<Rightarrow> nat \<Rightarrow> int \<Rightarrow> 'p tight \<Rightarrow> byte list \<Rightarrow> 'p tight phase" where
  "dispatch_phase pk png x y width height ctl d bs =
     map_finish (\<lambda>d. d\<lparr>ti_ctl := None\<rparr>)
       (if ctl = 0x08
        then (if length bs < 3 then Await else Finish d 3 [OpFill (style_of (take 3 bs)) x y (int width) (int height)])
        else if ctl = 0x09 then image_phase ''image/jpeg'' x y width height d bs
        else if ctl = 0x0A
        then (if png then image_phase ''image/png'' x y width height d bs
              else Abort d 0 [] (JSError ''PNG received in standard Tight rect'' []))
        else if js_and ctl 0x08 = 0
        then (if png then Abort d 0 [] (JSError ''BasicCompression received in TightPNG rect'' [])
              else basic_phase pk ctl x y width height d bs)
        else Abort d 0 [] (JSError ''Illegal tight compression received (ctl: '' [ctl]))"

definition tight_phase ::
  "'p pako \<Rightarrow> bool \<Rightarrow> int \<Rightarrow> int \<Rightarrow> nat \<Rightarrow> nat \<Rightarrow> 'p tight \<Rightarrow> byte list \<Rightarrow> 'p tight phase" where
  "tight_phase pk png x y width height d bs =
     (case ti_ctl d of
        None \<Rightarrow>
          if bs = [] then Await
          else Proceed (d\<lparr>ti_zlibs := reset_streams pk (uint (hd bs)) (ti_zlibs d),
                          ti_ctl := Some (js_sar (uint (hd bs)) 4)\<rparr>) 1 []
      | Some ctl \<Rightarrow> dispatch_phase pk png x y width height ctl d bs)"

definition tight_rank :: "'p tight \<Rightarrow> nat" where
  "tight_rank d = of_bool (ti_ctl d = None) * 8 + of_bool (ti_filter d = None) * 4 + of_bool (ti_numColors d = 0) * 2
     + of_bool (ti_len d = 0)"

definition tight_ok :: "'p tight \<Rightarrow> bool" where
  "tight_ok d \<longleftrightarrow> 0 \<le> ti_len d \<and> 0 \<le> ti_numColors d \<and> length (ti_palette d) = 1024"

section \<open>The phases are a phase decoder\<close>

text \<open>What the interpretation needs of a phase function in a state, and what the callers keep.\<close>

definition sound :: "('p tight \<Rightarrow> byte list \<Rightarrow> 'p tight phase) \<Rightarrow> 'p tight \<Rightarrow> bool" where
  "sound ph d \<longleftrightarrow> (\<forall>bs.
     phase_reads (ph d bs) \<le> length bs \<and> tight_ok (phase_state d (ph d bs)) \<and>
     (\<forall>later. ph d bs \<noteq> Await \<longrightarrow> ph d (bs @ later) = ph d bs) \<and>
     (\<forall>d' n os. ph d bs = Proceed d' n os \<longrightarrow> tight_rank d' < tight_rank d \<and>
        (ti_ctl d \<noteq> None \<longrightarrow> ti_ctl d' = ti_ctl d) \<and> (ti_filter d \<noteq> None \<longrightarrow> ti_filter d' = ti_filter d)))"

definition ended :: "'p tight \<Rightarrow> nat \<Rightarrow> 'p tight phase \<Rightarrow> bool" where
  "ended d n p \<longleftrightarrow>
     (case p of Abort d' m os e \<Rightarrow> m = n \<and> tight_ok d' | Finish d' m os \<Rightarrow> m = n \<and> tight_ok d' | _ \<Rightarrow> False)"

definition does :: "'p tight phase \<Rightarrow> websock \<Rightarrow> 'p tight decode_result \<Rightarrow> bool" where
  "does p w res \<longleftrightarrow>
     (case p of
        Abort d n os e \<Rightarrow> \<exists>ds. res = (d, w, ds, Throws e) \<and> ops ds = os
      | Finish d n os \<Rightarrow> \<exists>ds. res = (d, w, ds, Done) \<and> ops ds = os
      | _ \<Rightarrow> False)"

lemma ended_simps [simp]:
  "ended d n (Abort d' m os e) \<longleftrightarrow> m = n \<and> tight_ok d'" "ended d n (Finish d' m os) \<longleftrightarrow> m = n \<and> tight_ok d'"
  "\<not> ended d n Await" "\<not> ended d n (Proceed d' m os)"
  by (simp_all add: ended_def)

lemma endedD: "ended d n p \<Longrightarrow> phase_reads p = n \<and> tight_ok (phase_state d' p) \<and> p \<noteq> Await \<and> p \<noteq> Proceed d2 m os"
  by (cases p) auto

lemma tight_ok_len: "tight_ok (d\<lparr>ti_len := n\<rparr>) \<longleftrightarrow> 0 \<le> n \<and> 0 \<le> ti_numColors d \<and> length (ti_palette d) = 1024"
  by (simp add: tight_ok_def)

lemma blob_sound:
  assumes ok: "tight_ok d" and k: "\<And>d data n. tight_ok d \<Longrightarrow> ended d n (k d data n)"
  shows "sound (\<lambda>d bs. blob_phase d bs k) d"
proof -
  have d0: "tight_ok (d\<lparr>ti_len := 0\<rparr>)" using ok by (simp add: tight_ok_def)
  note e1 = endedD [OF k [OF ok]] and e2 = endedD [OF k [OF d0]]
  have ok2: "tight_ok (d\<lparr>ti_len := fst (length_of bs)\<rparr>)" for bs
    using ok length_of_bounds(1) [of bs] by (simp add: tight_ok_def)
  have l: "\<not> length bs < 3 \<Longrightarrow> length_of (bs @ later) = length_of bs" for bs later
    using length_of_append [of bs later] by simp
  have t: "\<not> int (length bs) < ti_len d \<Longrightarrow> take (nat (ti_len d)) (bs @ later) = take (nat (ti_len d)) bs" for bs later
    using ok by (simp add: tight_ok_def)
  show ?thesis
  proof (cases "ti_len d = 0")
    case True
    have r: "tight_rank (d\<lparr>ti_len := n\<rparr>) < tight_rank d" if "n \<noteq> 0" for n
      using that True by (simp add: tight_rank_def)
    show ?thesis
      unfolding sound_def
    proof (intro allI conjI impI)
      fix bs :: "byte list"
      have n3: "snd (length_of bs) \<le> 3" by (rule length_of_bounds)
      show "phase_reads (blob_phase d bs k) \<le> length bs"
        using True e1 n3 by (auto simp: blob_phase_def Let_def split: prod.split)
      show "tight_ok (phase_state d (blob_phase d bs k))"
        using True ok e1 ok2 [of bs] by (auto simp: blob_phase_def Let_def split: prod.split)
      show "blob_phase d (bs @ later) k = blob_phase d bs k" if "blob_phase d bs k \<noteq> Await" for later
        using True that l by (auto simp: blob_phase_def split: if_splits)
      fix d' n os
      assume "blob_phase d bs k = Proceed d' n os"
      then have "\<exists>m. m \<noteq> 0 \<and> d' = d\<lparr>ti_len := m\<rparr>"
        using True e1 by (auto simp: blob_phase_def Let_def split: if_splits prod.splits)
      then show "tight_rank d' < tight_rank d" "ti_ctl d' = ti_ctl d" "ti_filter d' = ti_filter d" using r by auto
    qed
  next
    case False
    then show ?thesis
      using e2 t ok by (auto simp: sound_def blob_phase_def Let_def tight_ok_def nat_le_iff split: if_splits)
  qed
qed

lemma blob_follows:
  assumes inv: "rx_inv w" and ok: "tight_ok d"
    and K: "\<And>d w data n. tight_ok d \<Longrightarrow> ended d n (k d data n) \<and> does (k d data n) w (K d w data)"
    and dec: "\<And>d w. dec d w = (case readData d w of (d, w, None) \<Rightarrow> (d, w, [], NeedMore) | (d, w, Some data) \<Rightarrow> K d w data)"
  shows "follows (\<lambda>d bs. blob_phase d bs k) dec d w"
proof (cases "ti_len d = 0")
  case True
  show ?thesis
  proof (cases "length (unread w) < 3")
    case True2: True
    with True inv show ?thesis by (simp add: follows_def blob_phase_def dec readData_def ws_simps)
  next
    case False
    obtain len n where l: "length_of (unread w) = (len, n)" by (metis surj_pair)
    have t: "tight_length w = (adv n w, len)" using tight_length_eq [OF inv] False l by simp
    have i: "rx_inv (adv n w)" using inv False length_of_bounds(2) [of "unread w"] l by (simp add: ws_simps)
    show ?thesis
    proof (cases "len = 0")
      case zero: True
      have d: "d\<lparr>ti_len := 0\<rparr> = d" using True by simp
      have "dec d w = K d (adv n w) []"
        using True False inv t zero i by (simp add: dec readData_def tight_blob_def ws_simps d)
      moreover have "ended d n (k d [] n)" "does (k d [] n) (adv n w) (K d (adv n w) [])" using K [OF ok] by blast+
      ultimately show ?thesis
        using True False l zero by (cases "k d [] n") (auto simp: follows_def blob_phase_def does_def)
    next
      case nonzero: False
      let ?d = "d\<lparr>ti_len := len\<rparr>"
      have "dec d w = dec ?d (adv n w)"
        using True False nonzero inv t by (simp add: dec readData_def ws_simps)
      then show ?thesis
        using True False l nonzero by (simp add: follows_def blob_phase_def same_call)
    qed
  qed
next
  case False
  let ?n = "nat (ti_len d)" and ?d = "d\<lparr>ti_len := 0\<rparr>"
  have okd: "tight_ok ?d" using ok by (simp add: tight_ok_def)
  show ?thesis
  proof (cases "int (length (unread w)) < ti_len d")
    case True
    with False inv show ?thesis
      by (simp add: follows_def blob_phase_def dec readData_def tight_blob_def ws_simps)
  next
    case enough: False
    have "rQshiftBytes w (ti_len d) = (adv ?n w, take ?n (unread w))"
      using rQshiftBytes_eq [OF inv, of ?n] ok enough by (simp add: tight_ok_def nat_le_iff)
    then have "dec d w = K ?d (adv ?n w) (take ?n (unread w))"
      using False enough inv by (simp add: dec readData_def tight_blob_def ws_simps)
    moreover have "ended ?d ?n (k ?d (take ?n (unread w)) ?n)"
        "does (k ?d (take ?n (unread w)) ?n) (adv ?n w) (K ?d (adv ?n w) (take ?n (unread w)))"
      using K [OF okd] by blast+
    ultimately show ?thesis
      using False enough by (cases "k ?d (take ?n (unread w)) ?n") (auto simp: follows_def blob_phase_def does_def Let_def)
  qed
qed

lemma sound_cong: "(\<And>bs. ph d bs = ph' d bs) \<Longrightarrow> sound ph d = sound ph' d"
  by (simp add: sound_def)

lemma follows_cong:
  assumes "follows ph dec d w" and "\<And>bs. ph' d bs = ph d bs" and "dec' d w = dec d w"
    and "\<And>d' n os. ph d (unread w) = Proceed d' n os \<Longrightarrow> dec' d' (adv n w) = dec d' (adv n w)"
  shows "follows ph' dec' d w"
  using assms(1,3,4) unfolding follows_def assms(2)
  by (cases "ph d (unread w)") simp_all

lemma map_finish_simps [simp]:
  "phase_reads (map_finish g p) = phase_reads p" "map_finish g p = Await \<longleftrightarrow> p = Await"
  "map_finish g p = Proceed d n os \<longleftrightarrow> p = Proceed d n os"
  by (cases p; simp add: map_finish_def)+

lemma map_finish_ok: "(\<And>d. tight_ok (g d) = tight_ok d) \<Longrightarrow> tight_ok (phase_state d (map_finish g p)) = tight_ok (phase_state d p)"
  by (cases p) (simp_all add: map_finish_def)

lemma sound_map:
  assumes "sound ph d" and g: "\<And>d. tight_ok (g d) = tight_ok d"
  shows "sound (\<lambda>d bs. map_finish g (ph d bs)) d"
proof -
  have "ph d (bs @ later) = ph d bs" if "ph d bs \<noteq> Await" for bs later
    using assms(1) that unfolding sound_def by blast
  then show ?thesis
    using assms(1) unfolding sound_def by (simp add: map_finish_ok [OF g])
qed

lemma map_done_prepend:
  "map_done g (case X of (d2, w2, ds2, r) \<Rightarrow> (d2, w2, ds @ ds2, r)) = (case map_done g X of (d2, w2, ds2, r) \<Rightarrow> (d2, w2, ds @ ds2, r))"
  by (simp add: map_done_def split: prod.split outcome.split)

lemma follows_map:
  assumes "follows ph dec d w"
  shows "follows (\<lambda>d bs. map_finish g (ph d bs)) (\<lambda>d w. map_done g (dec d w)) d w"
proof (cases "ph d (unread w)")
  case (Proceed d' n os)
  with assms obtain ds where "dec d w = (case dec d' (adv n w) of (d2, w2, ds2, r) \<Rightarrow> (d2, w2, ds @ ds2, r))" "ops ds = os"
    by (auto simp: follows_def)
  then show ?thesis using Proceed by (auto simp: follows_def map_finish_def map_done_prepend)
qed (use assms in \<open>auto simp: follows_def map_finish_def map_done_def\<close>)

subsection \<open>Data\<close>

lemma blob_proceeds:
  assumes "\<And>d data n d' m os. k d data n \<noteq> Proceed d' m os" and "blob_phase d bs k = Proceed d' n os"
  shows "\<exists>m. d' = d\<lparr>ti_len := m\<rparr>"
  using assms by (auto simp: blob_phase_def Let_def split: if_splits prod.splits)

lemma unzip_ok: "tight_ok (fst (unzip pk streamId len d data)) = tight_ok d"
  by (simp add: unzip_def tight_ok_def split: prod.split sum.split)

definition unzipped ::
  "'p pako \<Rightarrow> nat \<Rightarrow> int \<Rightarrow> ('p tight \<Rightarrow> u8array \<Rightarrow> 'p tight \<times> draw) \<Rightarrow> 'p tight \<Rightarrow> u8array \<Rightarrow> nat \<Rightarrow> 'p tight phase" where
  "unzipped pk streamId len f d data n =
     (case unzip pk streamId len d data of
        (d, Inl e) \<Rightarrow> Abort d n [] e
      | (d, Inr out) \<Rightarrow> (let (d', dr) = f d out in Finish d' n (draw_ops dr)))"

lemma data_phase_alt:
  "data_phase pk streamId len d bs f =
     (if len < 12
      then (if int (length bs) < len then Await
            else (let (d', dr) = f d (take (nat len) bs) in Finish d' (nat len) (draw_ops dr)))
      else blob_phase d bs (unzipped pk streamId len f))"
  by (simp add: data_phase_def unzipped_def [abs_def])

lemma data_proceeds:
  assumes "data_phase pk streamId len d bs f = Proceed d' n os"
  shows "\<exists>m. d' = d\<lparr>ti_len := m\<rparr>"
proof -
  have "unzipped pk streamId len f d data n \<noteq> Proceed d' m os" for d data n d' m os
    by (simp add: unzipped_def split: prod.split sum.split)
  from blob_proceeds [OF this] assms show ?thesis
    by (auto simp: data_phase_alt split: if_splits prod.splits)
qed

lemma unzipped_ended:
  assumes "\<And>d data. tight_ok d \<Longrightarrow> tight_ok (fst (f d data))" and "tight_ok d"
  shows "ended d n (unzipped pk streamId len f d data n)"
  using unzip_ok [of pk streamId len d data] assms
  by (auto simp: unzipped_def split: prod.splits sum.splits) (metis fst_conv)+

lemma data_sound:
  assumes ok: "tight_ok d" and f: "\<And>d data. tight_ok d \<Longrightarrow> tight_ok (fst (f d data))" and len: "0 \<le> len"
  shows "sound (\<lambda>d bs. data_phase pk streamId len d bs f) d"
proof (cases "len < 12")
  case True
  have "tight_ok d'" if "f d data = (d', dr)" for d' data dr using f [of d data] that ok by simp
  then show ?thesis
    using True len ok by (auto simp: sound_def data_phase_alt nat_le_iff split: prod.split)
next
  case False
  have "sound (\<lambda>d bs. blob_phase d bs (unzipped pk streamId len f)) d"
    by (rule blob_sound [OF ok]) (rule unzipped_ended [OF f])
  then show ?thesis using False by (simp add: data_phase_alt)
qed

lemma data_follows:
  assumes inv: "rx_inv w" and ok: "tight_ok d" and f: "\<And>d data. tight_ok d \<Longrightarrow> tight_ok (fst (f d data))" and len: "0 \<le> len"
  shows "follows (\<lambda>d bs. data_phase pk streamId len d bs f) (\<lambda>d w. draw_data (filter_data pk streamId len d w) f) d w"
proof (cases "len < 12")
  case True
  have "rQshiftBytes w len = (adv (nat len) w, take (nat len) (unread w))" if "nat len \<le> length (unread w)"
    using rQshiftBytes_eq [OF inv that] len by simp
  then show ?thesis
    using True len inv
    by (auto simp: follows_def data_phase_alt draw_data_def filter_data_def ws_simps nat_le_iff split: prod.split)
next
  case False
  let ?K = "\<lambda>d w data. let (d, r) = unzip pk streamId len d data in draw_data (d, w, Some r) f"
  have "follows (\<lambda>d bs. blob_phase d bs (unzipped pk streamId len f)) (\<lambda>d w. draw_data (filter_data pk streamId len d w) f) d w"
  proof (rule blob_follows [OF inv ok, where K = ?K], intro conjI)
    fix d :: "'a tight" and w data n
    assume "tight_ok d"
    then show "ended d n (unzipped pk streamId len f d data n)" by (intro unzipped_ended f)
    show "does (unzipped pk streamId len f d data n) w (?K d w data)"
      by (auto simp: does_def unzipped_def draw_data_def split: prod.split sum.split)
  next
    fix d :: "'a tight" and w
    show "draw_data (filter_data pk streamId len d w) f =
        (case readData d w of (d, w, None) \<Rightarrow> (d, w, [], NeedMore) | (d, w, Some data) \<Rightarrow> ?K d w data)"
      using False by (auto simp: filter_data_def draw_data_def split: prod.split option.split)
  qed
  then show ?thesis using False by (simp add: data_phase_alt)
qed

subsection \<open>Filters\<close>

text \<open>A phase function is right for a decoder in a state: what the interpretation asks of it.\<close>

definition right :: "('p tight \<Rightarrow> byte list \<Rightarrow> 'p tight phase) \<Rightarrow> ('p tight \<Rightarrow> websock \<Rightarrow> 'p tight decode_result) \<Rightarrow> 'p tight \<Rightarrow> bool" where
  "right ph dec d \<longleftrightarrow> sound ph d \<and> (\<forall>w. rx_inv w \<longrightarrow> follows ph dec d w)"

lemma right_cong:
  assumes "right ph dec d" and "\<And>bs. ph' d bs = ph d bs" and "\<And>w. dec' d w = dec d w"
    and "\<And>bs d' n os. ph d bs = Proceed d' n os \<Longrightarrow> \<forall>w. dec' d' w = dec d' w"
  shows "right ph' dec' d"
proof -
  have "sound ph' d" using assms(1) sound_cong [of ph' d ph] assms(2) by (simp add: right_def)
  moreover have "follows ph' dec' d w" if "rx_inv w" for w
    using assms(1) that assms(4) unfolding right_def
    by (intro follows_cong [of ph dec d w ph' dec', OF _ assms(2) assms(3)]) blast+
  ultimately show ?thesis by (simp add: right_def)
qed

lemma right_map:
  assumes "right ph dec d" and "\<And>d. tight_ok (g d) = tight_ok d"
  shows "right (\<lambda>d bs. map_finish g (ph d bs)) (\<lambda>d w. map_done g (dec d w)) d"
  unfolding right_def
proof (intro conjI allI impI)
  show "sound (\<lambda>d bs. map_finish g (ph d bs)) d"
    using assms(1) by (intro sound_map assms(2)) (simp add: right_def)
  show "follows (\<lambda>d bs. map_finish g (ph d bs)) (\<lambda>d w. map_done g (dec d w)) d w" if "rx_inv w" for w
    using assms(1) that by (intro follows_map) (simp add: right_def)
qed

lemma right_data:
  assumes "tight_ok d" and "\<And>d data. tight_ok d \<Longrightarrow> tight_ok (fst (f d data))" and "0 \<le> len"
  shows "right (\<lambda>d bs. data_phase pk streamId len d bs f) (\<lambda>d w. draw_data (filter_data pk streamId len d w) f) d"
  using data_sound [OF assms] data_follows [OF _ assms] by (simp add: right_def)

lemma right_empty: "tight_ok d \<Longrightarrow> right (\<lambda>d bs. Finish d 0 []) (\<lambda>d w. (d, w, [], Done)) d"
  by (simp add: right_def sound_def follows_def ws_simps)

lemma right_throws: "tight_ok d \<Longrightarrow> right (\<lambda>d bs. Abort d 0 [] e) (\<lambda>d w. (d, w, [], Throws e)) d"
  by (simp add: right_def sound_def follows_def ws_simps)

lemma right_copy:
  assumes "tight_ok d"
  shows "right (copy_phase pk streamId x y width height) (copyFilter pk streamId x y width height) d"
proof (cases "width * height * 3 = 0")
  case True
  then have "int (width * height * 3) = 0" by (simp only: of_nat_0)
  from right_empty [OF assms] show ?thesis
    by (rule right_cong) (use True \<open>int (width * height * 3) = 0\<close> in \<open>simp_all only: copy_phase_def copyFilter_def Let_def if_True of_nat_0 phase.distinct simp_thms\<close>)
next
  case False
  then have "int (width * height * 3) \<noteq> 0" by (simp only: of_nat_eq_0_iff not_False_eq_True)
  have "right (\<lambda>d bs. data_phase pk streamId (int (width * height * 3)) d bs (\<lambda>d data. (d, blit x y width height (rgb_to_rgbx (width * height) data))))
      (\<lambda>d w. draw_data (filter_data pk streamId (int (width * height * 3)) d w) (\<lambda>d data. (d, blit x y width height (rgb_to_rgbx (width * height) data)))) d"
    by (rule right_data [OF assms]) simp_all
  then show ?thesis
    by (rule right_cong) (use False \<open>int (width * height * 3) \<noteq> 0\<close> in \<open>simp_all only: copy_phase_def copyFilter_def Let_def if_False simp_thms\<close>)
qed

lemma right_gradient:
  assumes "tight_ok d"
  shows "right (gradient_phase pk streamId x y width height) (gradientFilter pk streamId x y width height) d"
proof (cases "width * height * 3 = 0")
  case True
  then have "int (width * height * 3) = 0" by (simp only: of_nat_0)
  from right_empty [OF assms] show ?thesis
    by (rule right_cong) (use True \<open>int (width * height * 3) = 0\<close> in \<open>simp_all only: gradient_phase_def gradientFilter_def Let_def if_True of_nat_0 phase.distinct simp_thms\<close>)
next
  case False
  then have "int (width * height * 3) \<noteq> 0" by (simp only: of_nat_eq_0_iff not_False_eq_True)
  have "right (\<lambda>d bs. data_phase pk streamId (int (width * height * 3)) d bs (\<lambda>d data. (d, blit x y width height (gradientRect width height data))))
      (\<lambda>d w. draw_data (filter_data pk streamId (int (width * height * 3)) d w) (\<lambda>d data. (d, blit x y width height (gradientRect width height data)))) d"
    by (rule right_data [OF assms]) simp_all
  then show ?thesis
    by (rule right_cong) (use False \<open>int (width * height * 3) \<noteq> 0\<close> in \<open>simp_all only: gradient_phase_def gradientFilter_def Let_def if_False simp_thms\<close>)
qed

lemma byte_succ: "uint (v :: byte) + 1 \<noteq> 0"
  using byte_bounds [of v] by linarith

lemma right_palette:
  assumes "tight_ok d"
  shows "right (palette_phase pk streamId x y width height) (paletteFilter pk streamId x y width height) d"
proof (cases "ti_numColors d = 0")
  case True
  have n: "0 \<le> uint v" "uint v < 256" for v :: byte using byte_bounds [of v] by auto
  have "tight_rank (d\<lparr>ti_numColors := uint v + 1, ti_palette := p\<rparr>) < tight_rank d" for v :: byte and p
    using True by (simp add: tight_rank_def byte_succ)
  moreover have "tight_ok (d\<lparr>ti_numColors := uint v + 1, ti_palette := take k bs @ drop k (ti_palette d)\<rparr>)"
    if "k \<le> 768" "k \<le> length bs" for v :: byte and k bs
    using assms that n [of v] by (simp add: tight_ok_def)
  moreover have "3 * nat (uint v + 1) \<le> 768" for v :: byte using n [of v] by simp
  ultimately have "sound (palette_phase pk streamId x y width height) d"
    using True assms
    by (auto simp: sound_def palette_phase_def Let_def neq_Nil_conv)
  moreover have "follows (palette_phase pk streamId x y width height) (paletteFilter pk streamId x y width height) d w"
    if inv: "rx_inv w" for w
  proof (cases "unread w = [] \<or> length (unread w) < 1 + 3 * nat (uint (hd (unread w)) + 1)")
    case True2: True
    have "int (length (unread w)) < 4 + uint (hd (unread w)) * 3"
      if "length (unread w) < Suc (3 * nat (uint (hd (unread w)) + 1))"
      using that n(1) [of "hd (unread w)"] by linarith
    with True True2 inv have "paletteFilter pk streamId x y width height d w = (d, w, [], NeedMore)"
      by (auto simp: paletteFilter_def ws_simps Let_def)
    with True True2 show ?thesis by (simp add: follows_def palette_phase_def)
  next
    case False
    define k where "k = 3 * nat (uint (hd (unread w)) + 1)"
    let ?p = "take k (tl (unread w)) @ drop k (ti_palette d)"
    let ?d = "d\<lparr>ti_numColors := uint (hd (unread w)) + 1, ti_palette := ?p\<rparr>"
    have k: "(uint (hd (unread w)) + 1) * 3 = int k" using n by (simp add: k_def)
    have i: "rx_inv (adv 1 w)" "unread (adv 1 w) = tl (unread w)" using inv False by (simp_all add: ws_simps drop_Suc)
    have "k \<le> 768" using n [of "hd (unread w)"] unfolding k_def by linarith
    then have "k \<le> length (ti_palette d)" using assms by (simp add: tight_ok_def)
    then have s: "rQshiftTo (adv 1 w) (ti_palette d) (int k) = (adv (1 + k) w, Inr ?p)"
    proof -
      have "k \<le> length (unread (adv 1 w))" using False unfolding i(2) k_def length_tl by linarith
      from rQshiftTo_eq [OF i(1) this \<open>k \<le> length (ti_palette d)\<close>] show ?thesis by (simp only: i(2) adv_adv)
    qed
    have "rQskipBytes w 1 = adv 1 w" using rQskipBytes_eq [of w 1] by simp
    then have "paletteFilter pk streamId x y width height d w = palette_rest pk streamId x y width height ?d (adv (1 + k) w)"
    proof -
      have "\<not> rQwaits w 1" "\<not> rQwaits w (1 + int k)" using inv False by (auto simp: ws_simps k_def)
      moreover have "rQpeek8 w = uint (hd (unread w))" using inv False by (simp add: ws_simps)
      moreover have pal: "ti_palette (d\<lparr>ti_numColors := c\<rparr>) = ti_palette d" for c by simp
      ultimately show ?thesis
        using \<open>rQskipBytes w 1 = adv 1 w\<close> s k True by (simp only: paletteFilter_def Let_def if_True if_False simp_thms
          split sum.case pal)
    qed
    also have "\<dots> = paletteFilter pk streamId x y width height ?d (adv (1 + k) w)"
      by (simp add: paletteFilter_def byte_succ)
    finally show ?thesis using True False by (simp add: follows_def palette_phase_def same_call k_def Let_def)
  qed
  ultimately show ?thesis by (simp add: right_def)
next
  case False
  let ?len = "palette_size width height (ti_numColors d)"
  let ?f = "\<lambda>d data. (d\<lparr>ti_numColors := 0\<rparr>, blit x y width height
     (if ti_numColors d = 2 then monoRect width height data (ti_palette d) else paletteRect width height data (ti_palette d)))"
  show ?thesis
  proof (cases "?len = 0")
    case True
    from right_empty [OF assms] show ?thesis
      by (rule right_cong) (use False True in \<open>simp_all add: palette_phase_def paletteFilter_def palette_rest_def\<close>)
  next
    case nonzero: False
    have f: "tight_ok d \<Longrightarrow> tight_ok (fst (?f d data))" for d :: "'a tight" and data
      by (simp add: tight_ok_def)
    have base: "right (\<lambda>d bs. data_phase pk streamId ?len d bs ?f) (\<lambda>d w. draw_data (filter_data pk streamId ?len d w) ?f) d"
      by (rule right_data [OF assms f]) (simp_all add: palette_size_def Let_def)
    show ?thesis
    proof (rule right_cong [OF base])
      fix bs
      show "palette_phase pk streamId x y width height d bs = data_phase pk streamId ?len d bs ?f"
        using False nonzero by (simp only: palette_phase_def if_False)
      show "paletteFilter pk streamId x y width height d w = draw_data (filter_data pk streamId ?len d w) ?f" for w
        using False nonzero by (simp only: paletteFilter_def palette_rest_def if_False Let_def)
      fix d' n os
      assume "data_phase pk streamId ?len d bs ?f = Proceed d' n os"
      then obtain m where "d' = d\<lparr>ti_len := m\<rparr>" using data_proceeds by blast
      then show "\<forall>w. paletteFilter pk streamId x y width height d' w = draw_data (filter_data pk streamId ?len d' w) ?f"
        using False nonzero by (simp add: paletteFilter_def palette_rest_def)
    qed
  qed
qed

subsection \<open>Rectangles\<close>

lemma right_filter:
  assumes "tight_ok d"
  shows "right (filter_phase pk ctl x y width height f) (apply_filter pk ctl x y width height f) d"
proof -
  let ?s = "nat (js_and ctl 0x3)"
  let ?ph = "\<lambda>d bs. if f = 0 then copy_phase pk ?s x y width height d bs
     else if f = 1 then palette_phase pk ?s x y width height d bs
     else if f = 2 then gradient_phase pk ?s x y width height d bs
     else Abort d 0 [] (JSError ''Illegal tight filter received (ctl: '' [f])"
  let ?dec = "\<lambda>d w. if f = 0 then copyFilter pk ?s x y width height d w
     else if f = 1 then paletteFilter pk ?s x y width height d w
     else if f = 2 then gradientFilter pk ?s x y width height d w
     else (d, w, [], Throws (JSError ''Illegal tight filter received (ctl: '' [f]))"
  have "right ?ph ?dec d"
    using right_copy [OF assms] right_palette [OF assms] right_gradient [OF assms] right_throws [OF assms]
    by (cases "f = 0"; cases "f = 1"; cases "f = 2") simp_all
  from right_map [OF this, of "\<lambda>d. d\<lparr>ti_filter := None\<rparr>"] show ?thesis
    by (simp add: filter_phase_def [abs_def] apply_filter_def [abs_def] end_filter_def tight_ok_def Let_def)
qed

lemma right_kept:
  assumes "right ph dec d" and "ph d bs = Proceed d' n os"
  shows "(ti_ctl d \<noteq> None \<longrightarrow> ti_ctl d' = ti_ctl d) \<and> (ti_filter d \<noteq> None \<longrightarrow> ti_filter d' = ti_filter d)"
  using assms unfolding right_def sound_def by blast

lemma right_basic:
  assumes "tight_ok d"
  shows "right (basic_phase pk ctl x y width height) (basicRect pk ctl x y width height) d"
proof (cases "ti_filter d")
  case None
  have ok: "tight_ok (d\<lparr>ti_filter := f\<rparr>)" for f using assms by (simp add: tight_ok_def)
  have "tight_rank (d\<lparr>ti_filter := Some f\<rparr>) < tight_rank d" for f using None by (simp add: tight_rank_def)
  with None ok assms have "sound (basic_phase pk ctl x y width height) d"
    by (auto simp: sound_def basic_phase_def neq_Nil_conv)
  moreover have "follows (basic_phase pk ctl x y width height) (basicRect pk ctl x y width height) d w" if "rx_inv w" for w
    using None that by (auto simp: follows_def basic_phase_def basicRect_def ws_simps Let_def same_call)
  ultimately show ?thesis by (simp add: right_def)
next
  case (Some f)
  show ?thesis
  proof (rule right_cong [OF right_filter [OF assms, of pk ctl x y width height f]])
    fix bs d' n os
    assume "filter_phase pk ctl x y width height f d bs = Proceed d' n os"
    from right_kept [OF right_filter [OF assms] this] Some
    show "\<forall>w. basicRect pk ctl x y width height d' w = apply_filter pk ctl x y width height f d' w"
      by (simp add: basicRect_def)
  qed (use Some in \<open>simp_all add: basic_phase_def basicRect_def\<close>)
qed

lemma right_image:
  assumes "tight_ok d"
  shows "right (image_phase mime x y width height) (imageRect mime x y width height) d"
proof -
  let ?k = "\<lambda>d data n. Finish d n (draw_ops (ImageRect x y (int width) (int height) mime data))"
  let ?K = "\<lambda>d w data. (d, w, [ImageRect x y (int width) (int height) mime data], Done)"
  have "sound (\<lambda>d bs. blob_phase d bs ?k) d" by (rule blob_sound [OF assms]) simp
  moreover have "follows (\<lambda>d bs. blob_phase d bs ?k) (imageRect mime x y width height) d w" if "rx_inv w" for w
    by (rule blob_follows [OF that assms, where K = ?K]) (simp_all add: does_def imageRect_def split: prod.split option.split)
  ultimately show ?thesis by (simp add: right_def image_phase_def [abs_def])
qed

lemma right_fill:
  assumes "tight_ok d"
  shows "right (\<lambda>d bs. if length bs < 3 then Await else Finish d 3 [OpFill (style_of (take 3 bs)) x y (int width) (int height)])
    (fillRect x y width height) d"
proof -
  have "rQshiftBytes w 3 = (adv 3 w, take 3 (unread w))" if "rx_inv w" "3 \<le> length (unread w)" for w
    using rQshiftBytes_eq [OF that] by simp
  then show ?thesis
    using assms by (auto simp: right_def sound_def follows_def fillRect_def ws_simps Let_def)
qed

lemma right_dispatch:
  assumes "tight_ok d"
  shows "right (dispatch_phase pk png x y width height ctl) (tight_dispatch pk png x y width height ctl) d"
proof -
  let ?fill = "\<lambda>d bs. if length bs < 3 then Await else Finish d 3 [OpFill (style_of (take 3 bs)) x y (int width) (int height)]"
  let ?ph = "\<lambda>d bs. if ctl = 0x08 then ?fill d bs
     else if ctl = 0x09 then image_phase ''image/jpeg'' x y width height d bs
     else if ctl = 0x0A
     then (if png then image_phase ''image/png'' x y width height d bs
           else Abort d 0 [] (JSError ''PNG received in standard Tight rect'' []))
     else if js_and ctl 0x08 = 0
     then (if png then Abort d 0 [] (JSError ''BasicCompression received in TightPNG rect'' [])
           else basic_phase pk ctl x y width height d bs)
     else Abort d 0 [] (JSError ''Illegal tight compression received (ctl: '' [ctl])"
  let ?dec = "\<lambda>d w. if ctl = 0x08 then fillRect x y width height d w
     else if ctl = 0x09 then imageRect ''image/jpeg'' x y width height d w
     else if ctl = 0x0A
     then (if png then imageRect ''image/png'' x y width height d w
           else (d, w, [], Throws (JSError ''PNG received in standard Tight rect'' [])))
     else if js_and ctl 0x08 = 0
     then (if png then (d, w, [], Throws (JSError ''BasicCompression received in TightPNG rect'' []))
           else basicRect pk ctl x y width height d w)
     else (d, w, [], Throws (JSError ''Illegal tight compression received (ctl: '' [ctl]))"
  have "right ?ph ?dec d"
  proof (cases "ctl = 0x08")
    case True
    then show ?thesis using right_fill [OF assms] by simp
  next
    case False
    then show ?thesis
      using right_image [OF assms] right_basic [OF assms] right_throws [OF assms]
      by (cases "ctl = 0x09"; cases "ctl = 0x0A"; cases "js_and ctl 0x08 = 0"; cases png) simp_all
  qed
  from right_map [OF this, of "\<lambda>d. d\<lparr>ti_ctl := None\<rparr>"] show ?thesis
    by (simp add: dispatch_phase_def [abs_def] tight_dispatch_def [abs_def] end_rect_def tight_ok_def)
qed

lemma right_tight:
  assumes "tight_ok d"
  shows "right (tight_phase pk png x y width height) (tight_decodeRect pk png x y width height) d"
proof (cases "ti_ctl d")
  case None
  have ok: "tight_ok (d\<lparr>ti_zlibs := zs, ti_ctl := c\<rparr>)" for zs c using assms by (simp add: tight_ok_def)
  have "tight_rank (d\<lparr>ti_zlibs := zs, ti_ctl := Some c\<rparr>) < tight_rank d" for zs c
    using None by (simp add: tight_rank_def)
  with None ok assms have "sound (tight_phase pk png x y width height) d"
    by (auto simp: sound_def tight_phase_def neq_Nil_conv)
  moreover have "follows (tight_phase pk png x y width height) (tight_decodeRect pk png x y width height) d w"
    if "rx_inv w" for w
    using None that by (auto simp: follows_def tight_phase_def tight_decodeRect_def ws_simps Let_def same_call)
  ultimately show ?thesis by (simp add: right_def)
next
  case (Some ctl)
  show ?thesis
  proof (rule right_cong [OF right_dispatch [OF assms, of pk png x y width height ctl]])
    fix bs d' n os
    assume "dispatch_phase pk png x y width height ctl d bs = Proceed d' n os"
    from right_kept [OF right_dispatch [OF assms] this] Some
    show "\<forall>w. tight_decodeRect pk png x y width height d' w = tight_dispatch pk png x y width height ctl d' w"
      by (simp add: tight_decodeRect_def)
  qed (use Some in \<open>simp_all add: tight_phase_def tight_decodeRect_def\<close>)
qed

interpretation tight: phase_decoder "tight_phase pk png x y width height" tight_rank tight_ok
  "tight_decodeRect pk png x y width height"
  for pk :: "'p pako" and png x y width height
proof
  fix d :: "'p tight" and bs later :: "byte list" and d' n os and w :: websock
  assume "tight_ok d"
  note r = right_tight [OF this, of pk png x y width height, unfolded right_def sound_def]
  show "tight_phase pk png x y width height d bs \<noteq> Await \<Longrightarrow>
      tight_phase pk png x y width height d (bs @ later) = tight_phase pk png x y width height d bs"
    using r by blast
  show "phase_reads (tight_phase pk png x y width height d bs) \<le> length bs" using r by blast
  show "tight_ok (phase_state d (tight_phase pk png x y width height d bs))" using r by blast
  show "tight_phase pk png x y width height d bs = Proceed d' n os \<Longrightarrow> tight_rank d' < tight_rank d" using r by blast
  show "rx_inv w \<Longrightarrow> follows (tight_phase pk png x y width height) (tight_decodeRect pk png x y width height) d w"
    using r by blast
qed

section \<open>Properties\<close>

definition compact_length :: "nat \<Rightarrow> byte list" where
  "compact_length n =
     (if n < 128 then [of_nat n]
      else if n < 16384 then [of_nat (n mod 128 + 128), of_nat (n div 128)]
      else [of_nat (n mod 128 + 128), of_nat (n div 128 mod 128 + 128), of_nat (n div 16384)])"

lemma uint_of_nat_byte: "n < 256 \<Longrightarrow> uint (of_nat n :: byte) = int n"
  by (simp add: unsigned_of_nat take_bit_eq_mod)

lemma length_of_compact:
  assumes "n < 4194304" and "3 \<le> length (compact_length n @ rest)"
  shows "length_of (compact_length n @ rest) = (int n, length (compact_length n))"
proof -
  have d: "n div 16384 < 256" "n div 128 mod 128 + 128 < 256" "n mod 128 + 128 < 256" using assms(1) by simp_all
  have "n = n mod 128 + 128 * (n div 128 mod 128 + 128 * (n div 128 div 128))" by (simp only: mod_mult_div_eq)
  then have n: "n = n mod 128 + n div 128 mod 128 * 128 + n div 16384 * 16384" by (simp add: div_mult2_eq [symmetric])
  have u: "uint (of_nat (m mod 128 + 128) :: byte) = int (m mod 128) + 128" for m
    by (subst uint_of_nat_byte) simp_all
  then have v: "uint (of_nat (m mod 128) + 128 :: byte) = int (m mod 128) + 128" for m by (metis of_nat_add of_nat_numeral)
  have m: "(int (m mod 128) + 128) mod 128 = int (m mod 128)" for m by (simp add: zmod_int)
  have g: "\<not> int (m mod 128) + 128 < 128" for m by simp
  consider "n < 128" | "128 \<le> n" "n < 16384" | "16384 \<le> n" by linarith
  then show ?thesis
  proof cases
    case 1
    then show ?thesis by (simp add: compact_length_def length_of_def uint_of_nat_byte)
  next
    case 2
    then have "n div 128 < 128" by (simp add: div_less_iff_less_mult)
    moreover have "int (n mod 128) + int (n div 128) * 128 = int n"
      using div_mult_mod_eq [of n 128] by linarith
    ultimately show ?thesis
      using 2 by (simp only: compact_length_def length_of_def if_False if_True not_less append_Cons nth_Cons_0 nth_Cons_Suc
        One_nat_def u m g Let_def uint_of_nat_byte) (simp add: uint_of_nat_byte v)
  next
    case 3
    then have "\<not> n < 128" "\<not> n < 16384" by simp_all
    moreover have "int (n mod 128) + int (n div 128 mod 128) * 128 + int (n div 16384) * 16384 = int n"
      using n by (metis of_nat_add of_nat_mult of_nat_numeral)
    ultimately show ?thesis
      using d(1) by (simp only: compact_length_def length_of_def if_False append_Cons nth_Cons_0 nth_Cons_Suc
        One_nat_def numeral_2_eq_2 u m g Let_def uint_of_nat_byte) (simp add: mod_simps v)
  qed
qed

lemma ctl_bits:
  assumes "s < 4" and "uint b div 16 = 4 + int s"
  shows "js_sar (uint (b :: byte)) 4 = 4 + int s" "js_and (4 + int s) 8 = 0" "js_and (4 + int s) 4 \<noteq> 0"
    "nat (js_and (4 + int s) 3) = s"
proof -
  have b: "0 \<le> uint b" "uint b < 256" using byte_bounds [of b] by auto
  then show "js_sar (uint b) 4 = 4 + int s" using assms(2) by (simp add: js_sar_def ToInt32_nonneg)
  from assms(1) have "s = 0 \<or> s = 1 \<or> s = 2 \<or> s = 3" by linarith
  then show "js_and (4 + int s) 8 = 0" "js_and (4 + int s) 4 \<noteq> 0" "nat (js_and (4 + int s) 3) = s"
    by (elim disjE; simp add: js_and_def ToInt32_nonneg)+
qed

definition tight_idle :: "'p tight \<Rightarrow> bool" where
  "tight_idle d \<longleftrightarrow> ti_ctl d = None \<and> ti_filter d = None \<and> ti_numColors d = 0 \<and> ti_len d = 0 \<and> length (ti_palette d) = 1024"

lemma ops_blit: "length px = width * height * 4 \<Longrightarrow> draw_ops (blit x y width height px) = [OpPut px x y (int width) (int height)]"
  by (simp add: blit_def whole_view_def nat_mult_distrib)

lemma gradient_rect_phase:
  assumes "uint (b :: byte) div 16 = 4 + int s" and "s < 4" and "12 \<le> width * height * 3"
    and "ti_ctl e = Some (4 + int s)" and "ti_filter e = Some 2"
  shows "tight_phase pk False x y width height e bs =
    map_finish (\<lambda>d. d\<lparr>ti_ctl := None\<rparr>) (map_finish (\<lambda>d. d\<lparr>ti_filter := None\<rparr>)
      (blob_phase e bs (unzipped pk s (int (width * height * 3)) (\<lambda>d data. (d, blit x y width height (gradientRect width height data))))))"
proof -
  have "int 4 \<le> int (height * width)" using assms(3) by (simp only: of_nat_le_iff) simp
  then have "\<not> int height * int width < 4" by simp
  moreover have "0 < width" "0 < height" using assms(3) by (auto intro!: Nat.gr0I)
  moreover have "s \<noteq> 4" "s \<noteq> 5" "s \<noteq> 6" using assms(2) by simp_all
  ultimately show ?thesis
    using assms(3-5) ctl_bits [OF assms(2,1)]
    by (simp add: tight_phase_def dispatch_phase_def basic_phase_def filter_phase_def gradient_phase_def data_phase_alt Let_def)
qed

lemma gradient_rect_finish:
  assumes "uint (b :: byte) div 16 = 4 + int s" and "s < 4" and "12 \<le> width * height * 3" and "data \<noteq> []"
    and "ti_ctl e = Some (4 + int s)" and "ti_filter e = Some 2" and "ti_len e = int (length data)"
    and "inflate pk (setInput (ti_zlibs e ! s) (Some data)) (int (width * height * 3)) = (z, Inr (gradient_encode width height pix))"
  shows "tight_phase pk False x y width height e (data @ later) =
    Finish (e\<lparr>ti_len := 0, ti_zlibs := (ti_zlibs e)[s := setInput z None], ti_filter := None, ti_ctl := None\<rparr>) (length data)
      [OpPut (rgbx_of (width * height) pix) x y (int width) (int height)]"
proof -
  have pos: "0 < width" "0 < height" using assms(3) by (auto intro!: Nat.gr0I)
  have "unzip pk s (int (width * height * 3)) (e\<lparr>ti_len := 0\<rparr>) data =
      (e\<lparr>ti_len := 0, ti_zlibs := (ti_zlibs e)[s := setInput z None]\<rparr>, Inr (gradient_encode width height pix))"
    using assms(8) by (simp add: unzip_def)
  then show ?thesis
    using assms(4,7) pos
    by (auto simp: gradient_rect_phase [OF assms(1-3,5,6)] blob_phase_def unzipped_def map_finish_def gradient_inverts ops_blit)
qed

lemma tight_gradient_spec:
  assumes ctl: "uint b div 16 = 4 + int s" "s < 4"
    and data: "2 \<le> length data" "length data < 4194304" "12 \<le> width * height * 3" and idle: "tight_idle d"
    and inflated: "inflate pk (setInput (reset_streams pk (uint b) (ti_zlibs d) ! s) (Some data)) (int (width * height * 3)) =
      (z, Inr (gradient_encode width height pix))"
  shows "\<exists>d'. phase_spec (tight_phase pk False x y width height) tight_rank d (b # 2 # compact_length (length data) @ data @ later) =
      (d', 2 + (length (compact_length (length data)) + length data),
       [OpPut (rgbx_of (width * height) pix) x y (int width) (int height)], Done) \<and> tight_idle d'"
proof -
  let ?ph = "tight_phase pk False x y width height" and ?n = "length data" and ?c = "compact_length (length data)"
  let ?spec = "phase_spec ?ph tight_rank"
  let ?os = "[OpPut (rgbx_of (width * height) pix) x y (int width) (int height)]"
  define d1 where "d1 = d\<lparr>ti_zlibs := reset_streams pk (uint b) (ti_zlibs d), ti_ctl := Some (4 + int s)\<rparr>"
  define d2 where "d2 = d1\<lparr>ti_filter := Some 2\<rparr>"
  define d3 where "d3 = d2\<lparr>ti_len := int ?n\<rparr>"
  define d4 where "d4 = d3\<lparr>ti_len := 0, ti_zlibs := (ti_zlibs d3)[s := setInput z None], ti_filter := None, ti_ctl := None\<rparr>"
  note bits = ctl_bits [OF ctl(2,1)] and fields = d1_def d2_def d3_def d4_def
  have ok: "tight_ok d" "tight_ok d1" "tight_ok d2" "tight_ok d3"
    using idle by (simp_all add: tight_idle_def tight_ok_def fields)
  have l: "length_of (?c @ data @ later) = (int ?n, length ?c)" "3 \<le> length (?c @ data @ later)"
    using data(1) by (intro length_of_compact data(2), auto simp: compact_length_def)
  have s: "s \<noteq> 4" "s \<noteq> 5" "s \<noteq> 6" using ctl(2) by simp_all
  have p0: "?ph d (b # 2 # ?c @ data @ later) = Proceed d1 1 []"
    using idle bits(1) by (simp add: tight_phase_def tight_idle_def d1_def)
  have p1: "?ph d1 (2 # ?c @ data @ later) = Proceed d2 1 []"
    using idle bits s by (simp add: tight_phase_def dispatch_phase_def basic_phase_def fields map_finish_def tight_idle_def)
  have d2: "ti_ctl d2 = Some (4 + int s)" "ti_filter d2 = Some 2" by (simp_all add: fields)
  have p2: "?ph d2 (?c @ data @ later) = Proceed d3 (length ?c) []"
    unfolding gradient_rect_phase [OF ctl data(3) d2]
    using idle l data(1) by (auto simp: fields blob_phase_def map_finish_def tight_idle_def)
  have p3: "?ph d3 (data @ later) = Finish d4 ?n ?os"
    unfolding d4_def by (rule gradient_rect_finish [OF ctl data(3)]) (use data(1) inflated in \<open>auto simp: d1_def d2_def d3_def\<close>)
  have s2: "?spec d2 (?c @ data @ later) = (d4, length ?c + ?n, ?os, Done)"
    using tight.spec_Proceed [OF ok(3) p2] tight.spec_simps(3) [OF p3] by simp
  have s1: "?spec d1 (2 # ?c @ data @ later) = (d4, 1 + (length ?c + ?n), ?os, Done)"
    using tight.spec_Proceed [OF ok(2) p1] s2 by simp
  show ?thesis using tight.spec_Proceed [OF ok(1) p0] s1 idle by (simp add: tight_idle_def fields)
qed

text \<open>
  C5. A Tight rectangle compressed with the gradient filter draws the image it was made from, whatever way the network cuts
  the message: the residuals of every channel, sent through a zlib stream, are turned back into the image's pixels.
\<close>

theorem tight_gradient_draws:
  assumes "rx_inv w" and "cs \<noteq> []" and "int (length (unread w @ concat cs)) \<le> MAX_RQ_GROW_SIZE"
    and stream: "unread w @ concat cs = b # 2 # compact_length (length data) @ data @ later"
    and ctl: "uint b div 16 = 4 + int s" "s < 4"
    and data: "2 \<le> length data" "length data < 4194304" "12 \<le> width * height * 3" and idle: "tight_idle d"
    and inflated: "inflate pk (setInput (reset_streams pk (uint b) (ti_zlibs d) ! s) (Some data)) (int (width * height * 3)) =
      (z, Inr (gradient_encode width height pix))"
  shows "\<exists>d' w' ds rest. feed (tight_decodeRect pk False x y width height) d w cs = ((d', w', ds, Done), rest) \<and>
    ops ds = [OpPut (rgbx_of (width * height) pix) x y (int width) (int height)] \<and> tight_idle d' \<and>
    unread w' @ concat rest = later"
proof -
  obtain d' where s: "phase_spec (tight_phase pk False x y width height) tight_rank d (unread w @ concat cs) =
      (d', 2 + (length (compact_length (length data)) + length data),
       [OpPut (rgbx_of (width * height) pix) x y (int width) (int height)], Done)" "tight_idle d'"
    unfolding stream using tight_gradient_spec [OF ctl data idle inflated] by metis
  have "tight_ok d" using idle by (simp add: tight_idle_def tight_ok_def)
  from tight.feed_outcome [OF assms(1) this assms(2,3) s(1)] s(2) show ?thesis by (auto simp: stream)
qed

text \<open>A rectangle of two by two pixels, explicit filter 2, on stream 1, in three messages.\<close>

definition corners :: "nat \<Rightarrow> nat \<Rightarrow> byte" where
  "corners k c = of_nat (40 * k + c)"

lemma tight_gradient_draws_witness:
  "\<exists>d' w' ds rest. feed (tight_decodeRect stored False 5 6 2 2) (new_TightDecoder stored) (small_ws [])
      [[0x50], 2 # 12 # take 4 (gradient_encode 2 2 corners), drop 4 (gradient_encode 2 2 corners) @ [77]] =
      ((d', w', ds, Done), rest) \<and>
    ops ds = [OpPut [0, 1, 2, 255, 40, 41, 42, 255, 80, 81, 82, 255, 120, 121, 122, 255] 5 6 2 2] \<and>
    unread w' @ concat rest = [77]"
proof -
  let ?data = "gradient_encode 2 2 corners" and ?d = "new_TightDecoder stored"
  have len: "length ?data = 12" unfolding gradient_encode_def by (simp add: upt_3 upt_rec)
  then have ne: "?data \<noteq> []" by (metis list.size(3) zero_neq_numeral)
  from len have c: "compact_length (length ?data) = [12]" by (simp add: compact_length_def)
  have zs: "reset_streams stored (uint (0x50 :: byte)) (ti_zlibs ?d) ! 1 = new_Inflate stored"
    by (simp add: reset_streams_def new_TightDecoder_def upt_rec js_and_def js_sar_def ToInt32_nonneg)
  obtain z where z: "inflate stored (setInput (new_Inflate stored) (Some ?data)) (int (2 * 2 * 3)) = (z, Inr ?data)"
    using stored_inflate [OF inflator_ok_new, of ?data stored] ne by (auto simp: len if_chunkSize_new)
  have "rgbx_of 4 corners = [0, 1, 2, 255, 40, 41, 42, 255, 80, 81, 82, 255, 120, 121, 122, 255]"
    by (simp add: rgbx_of_def corners_def upt_rec)
  then show ?thesis
    using tight_gradient_draws [of "small_ws []" "[[0x50], 2 # 12 # take 4 ?data, drop 4 ?data @ [77]]" "0x50" ?data "[77]" 1 2 2
        ?d stored z corners 5 6] small_ws_inv [of "[]"] z zs len c
    by (auto simp: tight_idle_def new_TightDecoder_def MAX_RQ_GROW_SIZE_def)
qed

end
