(* ===== verification/Zrle.thy ===== *)
theory Zrle
  imports Decoders_Zlib
begin

text \<open>
  The ZRLE decoder (\<open>decoders/zrle.js\<close>): a rectangle is a zlib block whose content is a sequence of tiles of at
  most 64 by 64 pixels, each raw, solid, palette-packed or run-length encoded. The two buffers are fields that every
  tile reuses. A run length is read until a byte differs from 255, so on a stream that never ends the
  decoder does not return: its operations are partial, with \<open>None\<close> for that.
\<close>

record 'p zrle =
  zr_length :: int
  zr_inflator :: "'p inflator"
  zr_pixelBuffer :: u8array
  zr_tileBuffer :: u8array

definition new_ZRLEDecoder :: "'p pako \<Rightarrow> 'p zrle" where
  "new_ZRLEDecoder pk =
     \<lparr>zr_length = 0, zr_inflator = new_Inflate pk, zr_pixelBuffer = u8_new (64 * 64 * 4), zr_tileBuffer = u8_new (64 * 64 * 4)\<rparr>"

section \<open>Reading the stream\<close>

definition zr_byte :: "'p pako \<Rightarrow> 'p zrle \<Rightarrow> 'p zrle \<times> (js_error + int)" where
  "zr_byte pk d =
     (case inflate pk (zr_inflator d) 1 of
        (z, Inl e) \<Rightarrow> (d\<lparr>zr_inflator := z\<rparr>, Inl e)
      | (z, Inr bytes) \<Rightarrow> (d\<lparr>zr_inflator := z\<rparr>, Inr (uint (u8_get bytes 0))))"

definition pixel_store :: "u8array \<Rightarrow> nat \<Rightarrow> u8array \<Rightarrow> u8array" where
  "pixel_store buffer k data =
     (let i = 4 * int k; j = 3 * int k
      in u8_upd (u8_upd (u8_upd (u8_upd data i (u8_get buffer j)) (i + 1) (u8_get buffer (j + 1)))
           (i + 2) (u8_get buffer (j + 2))) (i + 3) 255)"

definition readPixels :: "'p pako \<Rightarrow> nat \<Rightarrow> 'p zrle \<Rightarrow> 'p zrle \<times> (js_error + unit)" where
  "readPixels pk pixels d =
     (case inflate pk (zr_inflator d) (int (3 * pixels)) of
        (z, Inl e) \<Rightarrow> (d\<lparr>zr_inflator := z\<rparr>, Inl e)
      | (z, Inr buffer) \<Rightarrow>
          (d\<lparr>zr_inflator := z, zr_pixelBuffer := foldl (\<lambda>data k. pixel_store buffer k data) (zr_pixelBuffer d) [0..<pixels]\<rparr>, Inr ()))"

partial_function (option) readRLELength_loop :: "'p pako \<Rightarrow> int \<Rightarrow> 'p zrle \<Rightarrow> ('p zrle \<times> (js_error + int)) option" where
  "readRLELength_loop pk len d =
     (case zr_byte pk d of
        (d, Inl e) \<Rightarrow> Some (d, Inl e)
      | (d, Inr current) \<Rightarrow>
          if current = 255 then readRLELength_loop pk (len + current) d else Some (d, Inr (len + current)))"

definition readRLELength :: "'p pako \<Rightarrow> 'p zrle \<Rightarrow> ('p zrle \<times> (js_error + int)) option" where
  "readRLELength pk d =
     (case readRLELength_loop pk 0 d of
        None \<Rightarrow> None
      | Some (d, Inl e) \<Rightarrow> Some (d, Inl e)
      | Some (d, Inr len) \<Rightarrow> Some (d, Inr (len + 1)))"

section \<open>Tiles\<close>

definition copy4 :: "u8array \<Rightarrow> int \<Rightarrow> u8array \<Rightarrow> int \<Rightarrow> u8array" where
  "copy4 data i src j =
     u8_upd (u8_upd (u8_upd (u8_upd data i (u8_get src j)) (i + 1) (u8_get src (j + 1)))
       (i + 2) (u8_get src (j + 2))) (i + 3) (u8_get src (j + 3))"

text \<open>A run stores the pixel at index \<open>p\<close> of the pixel buffer from pixel \<open>i\<close> of the tile on.\<close>

definition store_run :: "int \<Rightarrow> int \<Rightarrow> int \<Rightarrow> 'p zrle \<Rightarrow> 'p zrle" where
  "store_run i p len d =
     d\<lparr>zr_tileBuffer := foldl (\<lambda>data j. copy4 data ((i + int j) * 4) (zr_pixelBuffer d) (p * 4)) (zr_tileBuffer d) [0..<nat len]\<rparr>"

definition getBitsPerPixelInPalette :: "int \<Rightarrow> nat option" where
  "getBitsPerPixelInPalette paletteSize =
     (if paletteSize \<le> 2 then Some 1 else if paletteSize \<le> 4 then Some 2 else if paletteSize \<le> 16 then Some 4 else None)"

text \<open>The state of the loops: shift, the byte being unpacked, and the offset in the tile.\<close>

primrec palette_row :: "'p pako \<Rightarrow> nat \<Rightarrow> nat \<Rightarrow> int \<times> int \<times> int \<Rightarrow> 'p zrle \<Rightarrow> 'p zrle \<times> (js_error + int \<times> int \<times> int)" where
  "palette_row pk bpp 0 s d = (d, Inr s)"
| "palette_row pk bpp (Suc n) s d =
     (case s of (shift, encoded, offset) \<Rightarrow>
       (case (if shift < 0 then (case zr_byte pk d of (d, r) \<Rightarrow> (d, 8 - int bpp, r)) else (d, shift, Inr encoded)) of
          (d, shift, Inl e) \<Rightarrow> (d, Inl e)
        | (d, shift, Inr encoded) \<Rightarrow>
            (let indexInPalette = js_and (js_sar encoded (nat shift)) (2 ^ bpp - 1)
             in palette_row pk bpp n (shift - int bpp, encoded, offset + 4)
                  (d\<lparr>zr_tileBuffer := copy4 (zr_tileBuffer d) offset (zr_pixelBuffer d) (indexInPalette * 4)\<rparr>))))"

primrec palette_rows :: "'p pako \<Rightarrow> nat \<Rightarrow> nat \<Rightarrow> nat \<Rightarrow> int \<Rightarrow> int \<Rightarrow> 'p zrle \<Rightarrow> 'p zrle \<times> (js_error + unit)" where
  "palette_rows pk bpp tilew 0 encoded offset d = (d, Inr ())"
| "palette_rows pk bpp tilew (Suc n) encoded offset d =
     (case palette_row pk bpp tilew (8 - int bpp, encoded, offset) d of
        (d, Inl e) \<Rightarrow> (d, Inl e)
      | (d, Inr (shift, encoded, offset)) \<Rightarrow>
          if shift < 8 - int bpp \<and> 0 < n
          then (case zr_byte pk d of
                  (d, Inl e) \<Rightarrow> (d, Inl e)
                | (d, Inr encoded) \<Rightarrow> palette_rows pk bpp tilew n encoded offset d)
          else palette_rows pk bpp tilew n encoded offset d)"

text \<open>The palette sizes of the packed tiles, 2 to 16, all have a number of bits.\<close>

definition decodePaletteTile :: "'p pako \<Rightarrow> nat \<Rightarrow> nat \<Rightarrow> nat \<Rightarrow> 'p zrle \<Rightarrow> 'p zrle \<times> (js_error + unit)" where
  "decodePaletteTile pk paletteSize tilew tileh d =
     (case readPixels pk paletteSize d of
        (d, Inl e) \<Rightarrow> (d, Inl e)
      | (d, Inr _) \<Rightarrow>
          (case zr_byte pk d of
             (d, Inl e) \<Rightarrow> (d, Inl e)
           | (d, Inr encoded) \<Rightarrow>
               palette_rows pk (case getBitsPerPixelInPalette (int paletteSize) of Some b \<Rightarrow> b | None \<Rightarrow> 0) tilew tileh encoded 0 d))"

partial_function (option) RLETile_loop :: "'p pako \<Rightarrow> int \<Rightarrow> int \<Rightarrow> 'p zrle \<Rightarrow> ('p zrle \<times> (js_error + unit)) option" where
  "RLETile_loop pk tileSize i d =
     (if i < tileSize
      then (case readPixels pk 1 d of
              (d, Inl e) \<Rightarrow> Some (d, Inl e)
            | (d, Inr _) \<Rightarrow>
                (case readRLELength pk d of
                   None \<Rightarrow> None
                 | Some (d, Inl e) \<Rightarrow> Some (d, Inl e)
                 | Some (d, Inr len) \<Rightarrow> RLETile_loop pk tileSize (i + len) (store_run i 0 len d)))
      else Some (d, Inr ()))"

definition decodeRLETile :: "'p pako \<Rightarrow> nat \<Rightarrow> 'p zrle \<Rightarrow> ('p zrle \<times> (js_error + unit)) option" where
  "decodeRLETile pk tileSize d = RLETile_loop pk (int tileSize) 0 d"

definition palette_run :: "nat \<Rightarrow> int \<Rightarrow> int \<Rightarrow> int \<Rightarrow> int \<Rightarrow> 'p zrle \<Rightarrow> 'p zrle \<times> (js_error + unit)" where
  "palette_run paletteSize tileSize offset indexInPalette len d =
     (if indexInPalette > int paletteSize
      then (d, Inl (JSError ''Too big index in palette: '' [indexInPalette, int paletteSize]))
      else if offset + len > tileSize
      then (d, Inl (JSError ''Too big rle length in palette mode: '' [len, tileSize - offset]))
      else (store_run offset indexInPalette len d, Inr ()))"

partial_function (option) RLEPaletteTile_loop ::
  "'p pako \<Rightarrow> nat \<Rightarrow> int \<Rightarrow> int \<Rightarrow> 'p zrle \<Rightarrow> ('p zrle \<times> (js_error + unit)) option" where
  "RLEPaletteTile_loop pk paletteSize tileSize offset d =
     (if offset < tileSize
      then (case zr_byte pk d of
              (d, Inl e) \<Rightarrow> Some (d, Inl e)
            | (d, Inr indexInPalette) \<Rightarrow>
                (case (if indexInPalette \<ge> 128 then readRLELength pk d else Some (d, Inr 1)) of
                   None \<Rightarrow> None
                 | Some (d, Inl e) \<Rightarrow> Some (d, Inl e)
                 | Some (d, Inr len) \<Rightarrow>
                     (case palette_run paletteSize tileSize offset
                         (if indexInPalette \<ge> 128 then indexInPalette - 128 else indexInPalette) len d of
                        (d, Inl e) \<Rightarrow> Some (d, Inl e)
                      | (d, Inr _) \<Rightarrow> RLEPaletteTile_loop pk paletteSize tileSize (offset + len) d)))
      else Some (d, Inr ()))"

definition decodeRLEPaletteTile :: "'p pako \<Rightarrow> nat \<Rightarrow> nat \<Rightarrow> 'p zrle \<Rightarrow> ('p zrle \<times> (js_error + unit)) option" where
  "decodeRLEPaletteTile pk paletteSize tileSize d =
     (case readPixels pk paletteSize d of
        (d, Inl e) \<Rightarrow> Some (d, Inl e)
      | (d, Inr _) \<Rightarrow> RLEPaletteTile_loop pk paletteSize (int tileSize) 0 d)"

section \<open>Rectangles\<close>

type_synonym tile = "int \<times> int \<times> nat \<times> nat"

definition draw_tile :: "tile \<Rightarrow> ('p zrle \<Rightarrow> u8array) \<Rightarrow> 'p zrle \<times> (js_error + unit) \<Rightarrow> 'p zrle \<times> (js_error + draw)" where
  "draw_tile t buffer res =
     (case t of (tx, ty, tw, th) \<Rightarrow>
       (case res of
          (d, Inl e) \<Rightarrow> (d, Inl e)
        | (d, Inr _) \<Rightarrow> (d, Inr (BlitImage tx ty (int tw) (int th) (whole_view (buffer d)) 0))))"

definition decode_tile :: "'p pako \<Rightarrow> tile \<Rightarrow> 'p zrle \<Rightarrow> ('p zrle \<times> (js_error + draw)) option" where
  "decode_tile pk t d =
     (case t of (tx, ty, tw, th) \<Rightarrow>
       let tileSize = tw * th in
       (case zr_byte pk d of
          (d, Inl e) \<Rightarrow> Some (d, Inl e)
        | (d, Inr subencoding) \<Rightarrow>
            if subencoding = 0 then Some (draw_tile t zr_pixelBuffer (readPixels pk tileSize d))
            else if subencoding = 1
            then (case readPixels pk 1 d of
                    (d, Inl e) \<Rightarrow> Some (d, Inl e)
                  | (d, Inr _) \<Rightarrow>
                      (let background = zr_pixelBuffer d
                       in Some (d, Inr (FillRect tx ty (int tw) (int th)
                            (Some [u8_get background 0, u8_get background 1, u8_get background 2])))))
            else if subencoding \<ge> 2 \<and> subencoding \<le> 16
            then Some (draw_tile t zr_tileBuffer (decodePaletteTile pk (nat subencoding) tw th d))
            else if subencoding = 128
            then map_option (draw_tile t zr_tileBuffer) (decodeRLETile pk tileSize d)
            else if subencoding \<ge> 130 \<and> subencoding \<le> 255
            then map_option (draw_tile t zr_tileBuffer) (decodeRLEPaletteTile pk (nat (subencoding - 128)) tileSize d)
            else Some (d, Inl (JSError ''Unknown subencoding: '' [subencoding]))))"

text \<open>The tiles of a rectangle, row by row; the last of a row or column is what is left.\<close>

definition tiles_of :: "int \<Rightarrow> int \<Rightarrow> nat \<Rightarrow> nat \<Rightarrow> tile list" where
  "tiles_of x y width height =
     concat (map (\<lambda>r. map (\<lambda>c. (x + 64 * int c, y + 64 * int r, min 64 (width - 64 * c), min 64 (height - 64 * r)))
       [0..<(width + 63) div 64]) [0..<(height + 63) div 64])"

primrec decode_tiles :: "'p pako \<Rightarrow> tile list \<Rightarrow> 'p zrle \<Rightarrow> ('p zrle \<times> draw list \<times> outcome) option" where
  "decode_tiles pk [] d = Some (d\<lparr>zr_length := 0\<rparr>, [], Done)"
| "decode_tiles pk (t # ts) d =
     (case decode_tile pk t d of
        None \<Rightarrow> None
      | Some (d, Inl e) \<Rightarrow> Some (d, [], Throws e)
      | Some (d, Inr dr) \<Rightarrow>
          (case decode_tiles pk ts d of None \<Rightarrow> None | Some (d, ds, r) \<Rightarrow> Some (d, dr # ds, r)))"

definition zrle_data ::
  "'p pako \<Rightarrow> int \<Rightarrow> int \<Rightarrow> nat \<Rightarrow> nat \<Rightarrow> 'p zrle \<Rightarrow> websock \<Rightarrow> 'p zrle decode_result option" where
  "zrle_data pk x y width height d w =
     (if rQwaits w (zr_length d) then Some (d, w, [], NeedMore)
      else (let (w, data) = rQshiftBytes w (zr_length d);
                d = d\<lparr>zr_inflator := setInput (zr_inflator d) (Some data)\<rparr>
            in map_option (\<lambda>(d, ds, r). (d, w, ds, r)) (decode_tiles pk (tiles_of x y width height) d)))"

definition zrle_decodeRect ::
  "'p pako \<Rightarrow> int \<Rightarrow> int \<Rightarrow> nat \<Rightarrow> nat \<Rightarrow> 'p zrle \<Rightarrow> websock \<Rightarrow> 'p zrle decode_result option" where
  "zrle_decodeRect pk x y width height d w =
     (if zr_length d = 0
      then (if rQwaits w 4 then Some (d, w, [], NeedMore)
            else (let (w, len) = rQshift32 w in zrle_data pk x y width height (d\<lparr>zr_length := len\<rparr>) w))
      else zrle_data pk x y width height d w)"

end
