(* ===== verification/Jpeg.thy ===== *)
theory Jpeg
  imports Decoder_Base
begin

text \<open>
  The JPEG decoder (\<open>decoders/jpeg.js\<close>): a rectangle is a JPEG file read segment by segment, put together again for
  the browser; tables that a file leaves out are taken from the last file that had them.
\<close>

record jpeg =
  jp_cachedQuantTables :: "u8array list"
  jp_cachedHuffmanTables :: "u8array list"
  jp_segments :: "u8array list"

definition new_JPEGDecoder :: jpeg where
  "new_JPEGDecoder = \<lparr>jp_cachedQuantTables = [], jp_cachedHuffmanTables = [], jp_segments = []\<rparr>"

section \<open>Segments\<close>

text \<open>\<open>data.at(-n)\<close>; an index outside the array is \<open>undefined\<close>, equal to no number.\<close>

definition at_end :: "u8array \<Rightarrow> nat \<Rightarrow> byte option" where
  "at_end data n = (if n \<le> length data then Some (data ! (length data - n)) else None)"

definition ends_in_marker :: "u8array \<Rightarrow> bool" where
  "ends_in_marker data \<longleftrightarrow>
     at_end data 2 = Some 0xFF \<and> at_end data 1 \<noteq> Some 0x00 \<and>
     \<not> (case at_end data 1 of None \<Rightarrow> False | Some b \<Rightarrow> uint b \<ge> 0xD0 \<and> uint b \<le> 0xD7)"

text \<open>The search for the end of a scan returns the extra bytes that belong to its segment.\<close>

function scan_end :: "websock \<Rightarrow> int \<Rightarrow> int \<Rightarrow> websock \<times> (js_error + int option)" where
  "scan_end w len extra =
     (case rQwait w (len - 2 + extra) 4 of
        (w', Inl e) \<Rightarrow> (w', Inl e)
      | (w', Inr waits) \<Rightarrow>
          if waits then (w', Inr None)
          else if ends_in_marker (rQpeekBytes w (len - 2 + extra)) then (w, Inr (Some (extra - 2)))
          else scan_end w len (extra + 1))"
  by pat_completeness auto
termination
  by (relation "measure (\<lambda>(w, len, extra). nat (rQlen w - rQi w - (len - 2 + extra) + 1))")
    (auto simp: rQwait_def split: if_splits)

declare scan_end.simps [simp del]

definition segment_of :: "int \<Rightarrow> int \<Rightarrow> int \<Rightarrow> int \<Rightarrow> websock \<Rightarrow> websock \<times> (js_error + u8array option)" where
  "segment_of marker type len extra w =
     (let (w, data) = rQshiftBytes w (len - 2 + extra)
      in (w, Inr (Some ([ToUint8 marker, ToUint8 type, ToUint8 (js_sar len 8), ToUint8 len] @ data))))"

definition readSegment :: "websock \<Rightarrow> websock \<times> (js_error + u8array option)" where
  "readSegment w =
     (if rQwaits w 2 then (w, Inr None)
      else (let (w, marker) = rQshift8 w
            in if marker \<noteq> 0xFF then (w, Inl (JSError ''Illegal JPEG marker received (byte: '' [marker]))
               else (let (w, type) = rQshift8 w
                     in if type \<ge> 0xD0 \<and> type \<le> 0xD9 \<or> type = 0x01 then (w, Inr (Some [ToUint8 marker, ToUint8 type]))
                        else (case rQwait w 2 2 of
                                (w, Inl e) \<Rightarrow> (w, Inl e)
                              | (w, Inr waits) \<Rightarrow>
                                  if waits then (w, Inr None)
                                  else (let (w, len) = rQshift16 w
                                        in if len < 2 then (w, Inl (JSError ''Illegal JPEG length received (length: '' [len]))
                                           else (case rQwait w (len - 2) 4 of
                                                   (w, Inl e) \<Rightarrow> (w, Inl e)
                                                 | (w, Inr waits) \<Rightarrow>
                                                     if waits then (w, Inr None)
                                                     else if type = 0xDA
                                                     then (case scan_end w len 2 of
                                                             (w, Inl e) \<Rightarrow> (w, Inl e)
                                                           | (w, Inr None) \<Rightarrow> (w, Inr None)
                                                           | (w, Inr (Some extra)) \<Rightarrow> segment_of marker type len extra w)
                                                     else segment_of marker type len 0 w))))))"

lemma scan_end_keeps:
  "scan_end w len extra = (w', Inr (Some e)) \<Longrightarrow> rQi w' = rQi w \<and> rQlen w' = rQlen w \<and> extra - 2 \<le> e"
proof (induction w len extra rule: scan_end.induct)
  case (1 w len extra)
  from 1(2) show ?case
    using 1(1) by (subst (asm) scan_end.simps) (fastforce simp: rQwait_def split: if_splits)
qed

lemma rQshift_loop_pos: "rQi (fst (rQshift_loop n w res)) = rQi w + int n \<and> rQlen (fst (rQshift_loop n w res)) = rQlen w"
  by (induction n arbitrary: w res) simp_all

lemma rQshift_pos:
  "rQshift8 w = (w', v) \<Longrightarrow> rQi w' = rQi w + 1 \<and> rQlen w' = rQlen w"
  "rQshift16 w = (w', v) \<Longrightarrow> rQi w' = rQi w + 2 \<and> rQlen w' = rQlen w"
  using rQshift_loop_pos [of 1 w 0] rQshift_loop_pos [of 2 w 0]
  by (auto simp: rQshift8_def rQshift16_def rQshift_def)

lemma rQwait_pos: "rQwait w n g = (w', Inr False) \<Longrightarrow> w' = w \<and> n \<le> rQlen w - rQi w"
  by (auto simp: rQwait_def split: if_splits)

lemma readSegment_progress:
  assumes "readSegment w = (w', Inr (Some seg))"
  shows "nat (rQlen w' - rQi w') < nat (rQlen w - rQi w)"
proof -
  have "2 \<le> rQlen w - rQi w" using assms by (auto simp: readSegment_def rQwaits_def rQwait_def split: if_splits)
  moreover have "rQi w < rQi w' \<and> rQlen w' = rQlen w"
    using assms unfolding readSegment_def segment_of_def rQshiftBytes_def Let_def
    by (auto split: if_splits prod.splits sum.splits option.splits dest!: rQshift_pos rQwait_pos scan_end_keeps)
  ultimately show ?thesis by linarith
qed

section \<open>Files\<close>

definition seg_type :: "u8array \<Rightarrow> int option" where
  "seg_type s = (if 1 < length s then Some (uint (s ! 1)) else None)"

function read_file :: "jpeg \<Rightarrow> websock \<Rightarrow> jpeg \<times> websock \<times> (js_error + bool)" where
  "read_file d w =
     (case readSegment w of
        (w', Inl e) \<Rightarrow> (d, w', Inl e)
      | (w', Inr None) \<Rightarrow> (d, w', Inr False)
      | (w', Inr (Some segment)) \<Rightarrow>
          (let d = d\<lparr>jp_segments := jp_segments d @ [segment]\<rparr>
           in if seg_type segment = Some 0xD9 then (d, w', Inr True) else read_file d w'))"
  by pat_completeness auto
termination
  by (relation "measure (\<lambda>(d, w). nat (rQlen w - rQi w))") (auto dest!: readSegment_progress [OF sym])

declare read_file.simps [simp del]

definition findIndex :: "('a \<Rightarrow> bool) \<Rightarrow> 'a list \<Rightarrow> nat option" where
  "findIndex P xs = (let i = length (takeWhile (\<lambda>x. \<not> P x) xs) in if i < length xs then Some i else None)"

definition splice_in :: "nat \<Rightarrow> 'a list \<Rightarrow> 'a list \<Rightarrow> 'a list" where
  "splice_in i ys xs = take i xs @ ys @ drop i xs"

definition is_SOF :: "u8array \<Rightarrow> bool" where
  "is_SOF s \<longleftrightarrow> seg_type s = Some 0xC0 \<or> seg_type s = Some 0xC2"

definition finish_file :: "int \<Rightarrow> int \<Rightarrow> nat \<Rightarrow> nat \<Rightarrow> jpeg \<Rightarrow> jpeg \<times> draw list \<times> outcome" where
  "finish_file x y width height d =
     (let huffmanTables = filter (\<lambda>s. seg_type s = Some 0xC4) (jp_segments d);
          quantTables = filter (\<lambda>s. seg_type s = Some 0xDB) (jp_segments d)
      in case findIndex is_SOF (jp_segments d) of
           None \<Rightarrow> (d, [], Throws (JSError ''Illegal JPEG image without SOF'' []))
         | Some sofIndex \<Rightarrow>
             (let d = (if quantTables = [] then d\<lparr>jp_segments := splice_in (sofIndex + 1) (jp_cachedQuantTables d) (jp_segments d)\<rparr> else d);
                  d = (if huffmanTables = [] then d\<lparr>jp_segments := splice_in (sofIndex + 1) (jp_cachedHuffmanTables d) (jp_segments d)\<rparr> else d);
                  data = concat (jp_segments d);
                  d = (if huffmanTables \<noteq> [] then d\<lparr>jp_cachedHuffmanTables := huffmanTables\<rparr> else d);
                  d = (if quantTables \<noteq> [] then d\<lparr>jp_cachedQuantTables := quantTables\<rparr> else d)
              in (d\<lparr>jp_segments := []\<rparr>, [ImageRect x y (int width) (int height) ''image/jpeg'' data], Done)))"

definition jpeg_decodeRect :: "int \<Rightarrow> int \<Rightarrow> nat \<Rightarrow> nat \<Rightarrow> jpeg \<Rightarrow> websock \<Rightarrow> jpeg decode_result" where
  "jpeg_decodeRect x y width height d w =
     (case read_file d w of
        (d, w, Inl e) \<Rightarrow> (d, w, [], Throws e)
      | (d, w, Inr ended) \<Rightarrow>
          if ended then (let (d, ds, r) = finish_file x y width height d in (d, w, ds, r)) else (d, w, [], NeedMore))"

section \<open>Reading well-formed files\<close>

text \<open>A segment in front of \<open>rest\<close>: a scan goes up to the first marker that is no restart marker.\<close>

definition scan_ok :: "int \<Rightarrow> byte list \<Rightarrow> byte list \<Rightarrow> bool" where
  "scan_ok len body rest \<longleftrightarrow>
     (let text = body @ take 2 rest in 2 \<le> length rest \<and> ends_in_marker text \<and>
        (\<forall>k\<in>{nat len..<length text}. \<not> ends_in_marker (take k text)))"

definition segment_ok :: "u8array \<Rightarrow> byte list \<Rightarrow> bool" where
  "segment_ok s rest \<longleftrightarrow>
     (case s of
        f # t # body \<Rightarrow> f = 0xFF \<and>
          (if uint t \<ge> 0xD0 \<and> uint t \<le> 0xD9 \<or> uint t = 0x01 then body = []
           else (case body of
                   b0 # b1 # body \<Rightarrow>
                     (let len = be_val [b0, b1]
                      in 2 \<le> len \<and> (if t = 0xDA then len - 2 \<le> int (length body) \<and> scan_ok len body rest
                                        else int (length body) = len - 2))
                 | _ \<Rightarrow> False))
      | _ \<Rightarrow> False)"

lemma rQwait_enough: "rx_inv w \<Longrightarrow> n \<le> int (length (unread w)) \<Longrightarrow> rQwait w n g = (w, Inr False)"
  by (simp add: rQwait_def length_unread)

lemma scan_end_found:
  assumes inv: "rx_inv w" and u: "unread w = body @ rest" and ok: "scan_ok len body rest" and len: "2 \<le> len" "len - 2 \<le> int (length body)"
  shows "2 \<le> extra \<Longrightarrow> len - 2 + extra \<le> int (length body) + 2 \<Longrightarrow>
    scan_end w len extra = (w, Inr (Some (int (length body) + 2 - len)))"
proof (induction "nat (int (length body) + 4 - len - extra)" arbitrary: extra rule: less_induct)
  case less
  let ?text = "body @ take 2 rest"
  have l2: "2 \<le> length rest" using ok by (simp add: scan_ok_def Let_def)
  define k where "k = nat (len - 2 + extra)"
  have k: "int k = len - 2 + extra" "k \<le> length body + 2" "nat len \<le> k" using less.prems len by (auto simp: k_def)
  have peek: "rQpeekBytes w (len - 2 + extra) = take k ?text"
  proof -
    have "k \<le> length (unread w)" using k(2) l2 u by simp
    then have "rQpeekBytes w (int k) = take k (unread w)" using inv by (rule rQpeekBytes_eq [rotated])
    also have "\<dots> = take k ?text" using k(2) l2 by (auto simp: u take_append min_def)
    finally show ?thesis by (simp add: k(1))
  qed
  have wait: "rQwait w (len - 2 + extra) 4 = (w, Inr False)" using less.prems l2 u by (intro rQwait_enough inv) simp
  show ?case
  proof (cases "k = length body + 2")
    case True
    then have "ends_in_marker (take k ?text)" using ok l2 by (simp add: scan_ok_def Let_def)
    then have "scan_end w len extra = (w, Inr (Some (extra - 2)))" by (subst scan_end.simps) (simp add: wait peek del: take_append)
    moreover have "extra - 2 = int (length body) + 2 - len" using True k(1) by simp
    ultimately show ?thesis by simp
  next
    case False
    then have "k \<in> {nat len..<length ?text}" using k l2 by simp
    then have "\<not> ends_in_marker (take k ?text)" using ok by (simp add: scan_ok_def Let_def)
    then have "scan_end w len extra = scan_end w len (extra + 1)" by (subst scan_end.simps) (simp add: wait peek)
    also have "\<dots> = (w, Inr (Some (int (length body) + 2 - len)))"
      using False k(1,2) less.prems by (intro less.hyps) auto
    finally show ?thesis .
  qed
qed

lemma two_bytes: "ToUint8 (js_sar (be_val [b0, b1]) 8) = b0" "ToUint8 (be_val [b0, b1]) = b1"
proof -
  have b: "0 \<le> uint b0" "uint b0 < 256" "0 \<le> uint b1" "uint b1 < 256" using byte_bounds [of b0] byte_bounds [of b1] by auto
  have v: "be_val [b0, b1] = uint b0 * 256 + uint b1" by (simp add: be_val_def)
  have "js_sar (be_val [b0, b1]) 8 = uint b0" using b by (simp add: v js_sar_def ToInt32_nonneg)
  then show "ToUint8 (js_sar (be_val [b0, b1]) 8) = b0" by simp
  have "ToUint8 (uint b0 * 256 + uint b1) = ToUint8 (uint b1)" by (simp only: ToUint8_eq_iff) simp
  also have "\<dots> = b1" by simp
  finally show "ToUint8 (be_val [b0, b1]) = b1" by (simp add: v)
qed

lemma readSegment_ok:
  assumes inv: "rx_inv w" and u: "unread w = s @ rest" and ok: "segment_ok s rest"
  shows "readSegment w = (adv (length s) w, Inr (Some s))"
proof -
  obtain t body where s: "s = 0xFF # t # body" using ok by (auto simp: segment_ok_def split: list.splits)
  have a1: "rx_inv (adv (Suc 0) w)" "unread (adv (Suc 0) w) = t # body @ rest" using inv u s by (simp_all add: ws_simps)
  have a2: "rx_inv (adv 2 w)" "unread (adv 2 w) = body @ rest" using inv u s by (simp_all add: ws_simps)
  have r1: "\<not> rQwaits w 2" "rQshift8 w = (adv (Suc 0) w, 0xFF)" using inv u s by (simp_all add: ws_simps)
  have r2: "rQshift8 (adv (Suc 0) w) = (adv 2 w, uint t)" using a1 by (simp add: ws_simps numeral_2_eq_2)
  show ?thesis
  proof (cases "uint t \<ge> 0xD0 \<and> uint t \<le> 0xD9 \<or> uint t = 0x01")
    case True
    then have "body = []" using ok by (simp add: segment_ok_def s)
    with True r1 r2 show ?thesis by (simp add: readSegment_def s numeral_2_eq_2 ToUint8_def)
  next
    case False
    then obtain b0 b1 data where b: "body = b0 # b1 # data" using ok by (auto simp: segment_ok_def s split: list.splits)
    let ?len = "be_val [b0, b1]"
    have len: "2 \<le> ?len" "t = 0xDA \<Longrightarrow> ?len - 2 \<le> int (length data) \<and> scan_ok ?len data rest"
        "t \<noteq> 0xDA \<Longrightarrow> int (length data) = ?len - 2"
      using ok False by (simp_all add: segment_ok_def s b Let_def)
    have a4: "rx_inv (adv 4 w)" "unread (adv 4 w) = data @ rest" using inv u s b by (simp_all add: ws_simps)
    have r3: "rQwait (adv 2 w) 2 2 = (adv 2 w, Inr False)" using a2 b by (intro rQwait_enough) simp_all
    have r4: "rQshift16 (adv 2 w) = (adv 4 w, ?len)" using a2 b by (simp add: ws_simps)
    have r5: "rQwait (adv 4 w) (?len - 2) 4 = (adv 4 w, Inr False)"
      using a4 len by (intro rQwait_enough) (cases "t = 0xDA"; simp)+
    have seg: "segment_of 0xFF (uint t) ?len extra (adv 4 w) = (adv (length s) w, Inr (Some s))" if "?len - 2 + extra = int (length data)" for extra
    proof -
      have "rQshiftBytes (adv 4 w) (int (length data)) = (adv (length data) (adv 4 w), data)"
        using rQshiftBytes_eq [OF a4(1), of "length data"] a4(2) by simp
      moreover have "ToUint8 255 = 255" "length s = 4 + length data" by (simp_all add: ToUint8_def s b)
      ultimately show ?thesis using that by (simp add: segment_of_def two_bytes) (simp add: s b)
    qed
    have t: "uint t = 0xDA \<longleftrightarrow> t = 0xDA" by (simp add: word_uint_eq_iff)
    show ?thesis
    proof (cases "t = 0xDA")
      case True
      have "scan_end (adv 4 w) ?len 2 = (adv 4 w, Inr (Some (int (length data) + 2 - ?len)))"
        using len True by (intro scan_end_found [OF a4]) simp_all
      with r1 r2 r3 r4 r5 False len t True seg [of "int (length data) + 2 - ?len"] show ?thesis
        by (simp add: readSegment_def)
    next
      case no_scan: False
      with r1 r2 r3 r4 r5 False len t seg [of 0] show ?thesis by (auto simp: readSegment_def)
    qed
  qed
qed

primrec segments_ok :: "u8array list \<Rightarrow> byte list \<Rightarrow> bool" where
  "segments_ok [] rest = True"
| "segments_ok (s # segs) rest = (segment_ok s (concat segs @ rest) \<and> segments_ok segs rest)"

lemma read_file_ok:
  assumes "rx_inv w" and "unread w = concat segs @ rest" and "segs \<noteq> []"
    and "segments_ok segs rest"
    and "\<And>s. s \<in> set (butlast segs) \<Longrightarrow> seg_type s \<noteq> Some 0xD9" and "seg_type (last segs) = Some 0xD9"
  shows "read_file d w = (d\<lparr>jp_segments := jp_segments d @ segs\<rparr>, adv (length (concat segs)) w, Inr True)"
  using assms
proof (induction segs arbitrary: w d)
  case Nil
  then show ?case by simp
next
  case (Cons s segs)
  have u: "unread w = s @ concat segs @ rest" using Cons.prems(2) by simp
  have "segment_ok s (concat segs @ rest)" using Cons.prems(4) by simp
  with Cons.prems(1) u have r: "readSegment w = (adv (length s) w, Inr (Some s))" by (rule readSegment_ok)
  show ?case
  proof (cases "segs = []")
    case True
    with r Cons.prems(6) show ?thesis by (subst read_file.simps) simp
  next
    case False
    have a: "rx_inv (adv (length s) w)" "unread (adv (length s) w) = concat segs @ rest"
      using Cons.prems(1) u by (simp_all add: ws_simps)
    have "seg_type s \<noteq> Some 0xD9" using Cons.prems(5) [of s] False by simp
    moreover have "read_file (d\<lparr>jp_segments := jp_segments d @ [s]\<rparr>) (adv (length s) w) =
        (d\<lparr>jp_segments := (jp_segments d @ [s]) @ segs\<rparr>, adv (length (concat segs)) (adv (length s) w), Inr True)"
    proof -
      have "segments_ok segs rest" using Cons.prems(4) by simp
      moreover have "seg_type s \<noteq> Some 0xD9" if "s \<in> set (butlast segs)" for s using Cons.prems(5) [of s] that False by simp
      ultimately show ?thesis using Cons.IH [OF a False] Cons.prems(6) False by simp
    qed
    ultimately show ?thesis using r by (subst read_file.simps) (simp add: Let_def)
  qed
qed

section \<open>Properties\<close>

definition tables :: "int \<Rightarrow> u8array list \<Rightarrow> u8array list" where
  "tables type segs = filter (\<lambda>s. seg_type s = Some type) segs"

text \<open>The segments of a file in front of \<open>rest\<close>, with the end of the image only at its end.\<close>

definition file_ok :: "u8array list \<Rightarrow> byte list \<Rightarrow> bool" where
  "file_ok segs rest \<longleftrightarrow> segs \<noteq> [] \<and> seg_type (last segs) = Some 0xD9 \<and> (\<forall>s\<in>set (butlast segs). seg_type s \<noteq> Some 0xD9) \<and>
     segments_ok segs rest"

lemma decode_file:
  assumes "rx_inv w" and "unread w = concat segs @ rest" and "file_ok segs rest" and "jp_segments d = []"
  shows "jpeg_decodeRect x y width height d w =
    (case finish_file x y width height (d\<lparr>jp_segments := segs\<rparr>) of (d, ds, r) \<Rightarrow> (d, adv (length (concat segs)) w, ds, r))"
  using read_file_ok [OF assms(1,2), of d] assms(3,4) by (simp add: jpeg_decodeRect_def file_ok_def Let_def split: prod.split)

lemma findIndex_Some: "P x \<Longrightarrow> (\<And>y. y \<in> set pre \<Longrightarrow> \<not> P y) \<Longrightarrow> findIndex P (pre @ x # post) = Some (length pre)"
  by (simp add: findIndex_def)

text \<open>
  JPEG rectangles survive a server that sends its tables only once: a file is handed on as it came, and a later file without
  tables gets those of the last file that had them, right behind its frame header, Huffman tables before quantization tables.
\<close>

theorem jpeg_reuses_tables:
  assumes "rx_inv w" and "unread w = concat segs @ concat (pre @ sof # post) @ later" and "jp_segments d = []"
    and "file_ok segs (concat (pre @ sof # post) @ later)" and "file_ok (pre @ sof # post) later"
    and "\<exists>s\<in>set segs. is_SOF s" and "tables 0xDB segs \<noteq> []" and "tables 0xC4 segs \<noteq> []"
    and "is_SOF sof" and "\<forall>s\<in>set pre. \<not> is_SOF s" and "tables 0xDB (pre @ sof # post) = []" and "tables 0xC4 (pre @ sof # post) = []"
  shows "\<exists>d1 w1 d2 w2. jpeg_decodeRect x y width height d w =
      (d1, w1, [ImageRect x y (int width) (int height) ''image/jpeg'' (concat segs)], Done) \<and>
    jpeg_decodeRect x' y' width' height' d1 w1 =
      (d2, w2, [ImageRect x' y' (int width') (int height') ''image/jpeg''
         (concat (pre @ sof # tables 0xC4 segs @ tables 0xDB segs @ post))], Done) \<and>
    rx_inv w2 \<and> unread w2 = later"
proof -
  let ?w1 = "adv (length (concat segs)) w" and ?segs2 = "pre @ sof # post"
  have w1: "rx_inv ?w1" "unread ?w1 = concat ?segs2 @ later" using assms(1,2) by (simp_all add: ws_simps)
  obtain i where i: "findIndex is_SOF segs = Some i"
    using split_list_first_prop [OF assms(6)] findIndex_Some [of is_SOF] by metis
  let ?d1 = "d\<lparr>jp_segments := [], jp_cachedHuffmanTables := tables 0xC4 segs, jp_cachedQuantTables := tables 0xDB segs\<rparr>"
  have "finish_file x y width height (d\<lparr>jp_segments := segs\<rparr>) =
      (?d1, [ImageRect x y (int width) (int height) ''image/jpeg'' (concat segs)], Done)"
    using assms(7,8) i by (simp add: finish_file_def tables_def Let_def)
  with decode_file [OF assms(1,2,4,3)] have one: "jpeg_decodeRect x y width height d w =
      (?d1, ?w1, [ImageRect x y (int width) (int height) ''image/jpeg'' (concat segs)], Done)" by simp
  have "findIndex is_SOF ?segs2 = Some (length pre)" using assms(9,10) by (intro findIndex_Some) simp_all
  then obtain d2 where "finish_file x' y' width' height' (?d1\<lparr>jp_segments := ?segs2\<rparr>) =
      (d2, [ImageRect x' y' (int width') (int height') ''image/jpeg'' (concat (pre @ sof # tables 0xC4 segs @ tables 0xDB segs @ post))], Done)"
    using assms(11,12) by (simp add: finish_file_def tables_def splice_in_def Let_def)
  with decode_file [OF w1 assms(5), of ?d1 x' y' width' height'] have two: "jpeg_decodeRect x' y' width' height' ?d1 ?w1 =
      (d2, adv (length (concat ?segs2)) ?w1, [ImageRect x' y' (int width') (int height') ''image/jpeg''
         (concat (pre @ sof # tables 0xC4 segs @ tables 0xDB segs @ post))], Done)" by simp
  have "length (concat ?segs2) \<le> length (unread ?w1)" unfolding w1(2) by simp
  then have "rx_inv (adv (length (concat ?segs2)) ?w1)" "unread (adv (length (concat ?segs2)) ?w1) = later"
    using w1(1) by (simp_all only: rx_inv_adv unread_adv) (simp add: w1(2))
  with one two show ?thesis by blast
qed

lemma jpeg_reuses_tables_witness:
  "\<exists>d1 w1 d2 w2. jpeg_decodeRect 0 0 8 8 new_JPEGDecoder
      (recv_ws ([0xFF, 0xD8, 0xFF, 0xDB, 0, 3, 1, 0xFF, 0xC4, 0, 3, 2, 0xFF, 0xC0, 0, 2, 0xFF, 0xD9] @
        [0xFF, 0xD8, 0xFF, 0xC0, 0, 2, 0xFF, 0xD9] @ [5])) =
      (d1, w1, [ImageRect 0 0 8 8 ''image/jpeg'' [0xFF, 0xD8, 0xFF, 0xDB, 0, 3, 1, 0xFF, 0xC4, 0, 3, 2, 0xFF, 0xC0, 0, 2, 0xFF, 0xD9]], Done) \<and>
    jpeg_decodeRect 8 0 8 8 d1 w1 =
      (d2, w2, [ImageRect 8 0 8 8 ''image/jpeg'' [0xFF, 0xD8, 0xFF, 0xC0, 0, 2, 0xFF, 0xC4, 0, 3, 2, 0xFF, 0xDB, 0, 3, 1, 0xFF, 0xD9]], Done) \<and>
    rx_inv w2 \<and> unread w2 = [5]"
proof -
  let ?segs = "[[0xFF, 0xD8], [0xFF, 0xDB, 0, 3, 1], [0xFF, 0xC4, 0, 3, 2], [0xFF, 0xC0, 0, 2], [0xFF, 0xD9]] :: u8array list"
  let ?pre = "[[0xFF, 0xD8]] :: u8array list" and ?sof = "[0xFF, 0xC0, 0, 2] :: u8array" and ?post = "[[0xFF, 0xD9]] :: u8array list"
  let ?w = "recv_ws (concat ?segs @ concat (?pre @ ?sof # ?post) @ [5])"
  have w: "rx_inv ?w" "unread ?w = concat ?segs @ concat (?pre @ ?sof # ?post) @ [5]"
    using recv_ws_inv [of "concat ?segs @ concat (?pre @ ?sof # ?post) @ [5]"] by (simp_all add: MAX_RQ_GROW_SIZE_def)
  have f1: "file_ok ?segs (concat (?pre @ ?sof # ?post) @ [5])"
    by (simp add: file_ok_def seg_type_def segment_ok_def be_val_def)
  have f2: "file_ok (?pre @ ?sof # ?post) [5]"
    by (simp add: file_ok_def seg_type_def segment_ok_def be_val_def)
  have "\<exists>s\<in>set ?segs. is_SOF s" "is_SOF ?sof" "\<forall>s\<in>set ?pre. \<not> is_SOF s" by (simp_all add: is_SOF_def seg_type_def)
  with jpeg_reuses_tables [OF w _ f1 f2, of new_JPEGDecoder 0 0 8 8 8 0 8 8] show ?thesis
    by (simp add: new_JPEGDecoder_def tables_def seg_type_def)
qed

end
