(* ===== verification/H264.thy ===== *)
theory H264
  imports Decoder_Phases "HOL-Library.AList"
begin

text \<open>
  The H.264 decoder (\<open>decoders/h264.js\<close>): a parser that cuts a payload into frames, a context for each rectangle
  with the browser's \<open>VideoDecoder\<close>, and at most 64 contexts. The calls on the \<open>VideoDecoder\<close> are the log of its
  context; what it answers arrives as the events \<open>handleFrame\<close> and \<open>vd_close\<close>. \<open>decode\<close> keeps the profile it last parsed in
  \<open>self\<close>, the global object, which all contexts share and where the fields are undefined at first.
\<close>

section \<open>Parser\<close>

text \<open>A field that is \<open>null\<close>, a byte, or \<open>undefined\<close> as read past the end of the data.\<close>

datatype jsnum = JNull | JUndef | JNum int

record h264_parser =
  ps_data :: u8array
  ps_index :: nat
  ps_profileIdc :: jsnum
  ps_constraintSet :: jsnum
  ps_levelIdc :: jsnum

definition new_H264Parser :: "u8array \<Rightarrow> h264_parser" where
  "new_H264Parser data =
     \<lparr>ps_data = data, ps_index = 0, ps_profileIdc = JNull, ps_constraintSet = JNull, ps_levelIdc = JNull\<rparr>"

definition byte_at :: "u8array \<Rightarrow> nat \<Rightarrow> jsnum" where
  "byte_at data i = (if i < length data then JNum (uint (data ! i)) else JUndef)"

definition getStartSequenceLen :: "u8array \<Rightarrow> nat \<Rightarrow> nat" where
  "getStartSequenceLen data index =
     (if byte_at data index = JNum 0 \<and> byte_at data (index + 1) = JNum 0 \<and> byte_at data (index + 2) = JNum 0 \<and>
         byte_at data (index + 3) = JNum 1 then 4
      else if byte_at data index = JNum 0 \<and> byte_at data (index + 1) = JNum 0 \<and> byte_at data (index + 2) = JNum 1 then 3
      else 0)"

definition indexOfNextNalUnit :: "u8array \<Rightarrow> nat \<Rightarrow> nat option" where
  "indexOfNextNalUnit data index = List.find (\<lambda>i. getStartSequenceLen data i \<noteq> 0) [index..<length data]"

definition parseSps :: "h264_parser \<Rightarrow> nat \<Rightarrow> h264_parser" where
  "parseSps p index =
     p\<lparr>ps_profileIdc := byte_at (ps_data p) index, ps_constraintSet := byte_at (ps_data p) (index + 1),
       ps_levelIdc := byte_at (ps_data p) (index + 2)\<rparr>"

text \<open>Slice and key of the unit; a first byte past the end counts as 0.\<close>

definition parseNalUnit :: "h264_parser \<Rightarrow> nat \<Rightarrow> h264_parser \<times> (js_error + bool \<times> bool)" where
  "parseNalUnit p index =
     (let firstByte = uint (u8_get (ps_data p) (int index))
      in if js_and firstByte 0x80 \<noteq> 0
         then (p, Inl (JSError ''H264 parsing sanity check failed, forbidden zero bit is set'' []))
         else (let unitType = js_and firstByte 0x1f
               in if unitType = 1 then (p, Inr (True, False))
                  else if unitType = 5 then (p, Inr (True, True))
                  else if unitType = 7 then (parseSps p (index + 1), Inr (False, False))
                  else (p, Inr (False, False))))"

lemma start_len: "getStartSequenceLen data i \<noteq> 0 \<Longrightarrow> i < length data"
  by (auto simp: getStartSequenceLen_def byte_at_def split: if_splits)

lemma next_nal: "indexOfNextNalUnit data i = Some j \<Longrightarrow> i \<le> j \<and> j < length data"
  by (auto simp: indexOfNextNalUnit_def find_Some_iff)

lemma parseNalUnit_keeps: "parseNalUnit p i = (p', r) \<Longrightarrow> ps_data p' = ps_data p \<and> ps_index p' = ps_index p"
  by (auto simp: parseNalUnit_def parseSps_def Let_def split: if_splits)

function parse_loop :: "h264_parser \<Rightarrow> bool \<Rightarrow> h264_parser \<times> (js_error + bool)" where
  "parse_loop p isKey =
     (if ps_index p < length (ps_data p)
      then (let startSequenceLen = getStartSequenceLen (ps_data p) (ps_index p)
            in if startSequenceLen = 0 then (p, Inl (JSError ''Invalid start sequence in bit stream'' []))
               else (case parseNalUnit p (ps_index p + startSequenceLen) of
                       (p', Inl e) \<Rightarrow> (p', Inl e)
                     | (p', Inr (slc, key)) \<Rightarrow>
                         (let p' = p'\<lparr>ps_index := (case indexOfNextNalUnit (ps_data p) (ps_index p + startSequenceLen) of
                                                  None \<Rightarrow> length (ps_data p) | Some i \<Rightarrow> i)\<rparr>;
                              isKey = (isKey \<or> key)
                          in if slc then (p', Inr isKey) else parse_loop p' isKey)))
      else (p, Inr isKey))"
  by pat_completeness auto
termination
proof (relation "measure (\<lambda>(p, isKey). length (ps_data p) - ps_index p)")
  fix p :: h264_parser and isKey and l x y p' k z u v w
  assume i: "ps_index p < length (ps_data p)" "l = getStartSequenceLen (ps_data p) (ps_index p)" "l \<noteq> 0"
    and n: "(x, y) = parseNalUnit p (ps_index p + l)" "y = Inr z" "(u, v) = z"
      "p' = x\<lparr>ps_index := case indexOfNextNalUnit (ps_data p) (ps_index p + l) of None \<Rightarrow> length (ps_data p) | Some i \<Rightarrow> i\<rparr>"
  have "ps_data x = ps_data p" using parseNalUnit_keeps [OF n(1) [symmetric]] by simp
  then show "((p', k), p, isKey) \<in> measure (\<lambda>(p, isKey). length (ps_data p) - ps_index p)"
    using i n(4) next_nal [of "ps_data p" "ps_index p + l"] by (auto split: option.splits)
qed auto

declare parse_loop.simps [simp del]

definition h264_parse :: "h264_parser \<Rightarrow> h264_parser \<times> (js_error + (u8array \<times> bool) option)" where
  "h264_parse p =
     (case parse_loop p False of
        (p', Inl e) \<Rightarrow> (p', Inl e)
      | (p', Inr isKey) \<Rightarrow>
          if ps_index p = ps_index p' then (p', Inr None)
          else (p', Inr (Some (u8_sub (ps_data p') (int (ps_index p)) (int (ps_index p')), isKey))))"

lemma parse_loop_index:
  "parse_loop p k = (p', Inr k') \<Longrightarrow> ps_data p' = ps_data p \<and> ps_index p \<le> ps_index p' \<and>
     (ps_index p \<le> length (ps_data p) \<longrightarrow> ps_index p' \<le> length (ps_data p)) \<and>
     (ps_index p < length (ps_data p) \<longrightarrow> ps_index p < ps_index p')"
proof (induction p k arbitrary: p' k' rule: parse_loop.induct)
  case (1 p k)
  show ?case
  proof (cases "ps_index p < length (ps_data p)")
    case False
    with 1(2) show ?thesis by (simp add: parse_loop.simps)
  next
    case True
    let ?l = "getStartSequenceLen (ps_data p) (ps_index p)"
    have l: "?l \<noteq> 0"
    proof
      assume "?l = 0"
      with 1(2) True show False by (subst (asm) parse_loop.simps) (simp add: Let_def)
    qed
    obtain q slc key where q: "parseNalUnit p (ps_index p + ?l) = (q, Inr (slc, key))"
      using 1(2) True l by (subst (asm) parse_loop.simps) (auto simp: Let_def split: prod.splits sum.splits)
    let ?next = "case indexOfNextNalUnit (ps_data p) (ps_index p + ?l) of None \<Rightarrow> length (ps_data p) | Some i \<Rightarrow> i"
    let ?q = "q\<lparr>ps_index := ?next\<rparr>"
    have d: "ps_data ?q = ps_data p" using parseNalUnit_keeps [OF q] by simp
    have n: "ps_index p < ?next" "?next \<le> length (ps_data p)"
      using True l next_nal [of "ps_data p" "ps_index p + ?l"] by (auto split: option.splits)
    show ?thesis
    proof (cases slc)
      case True2: True
      with 1(2) True l q have "p' = ?q" by (subst (asm) parse_loop.simps) (simp add: Let_def)
      with d n show ?thesis by simp
    next
      case False
      with 1(2) True l q have "parse_loop ?q (k \<or> key) = (p', Inr k')" by (subst (asm) parse_loop.simps) (simp add: Let_def)
      with 1(1) [OF True refl l q [symmetric] refl refl refl refl False, of p' k'] d n show ?thesis by simp
    qed
  qed
qed

lemma h264_parse_Some:
  assumes "h264_parse p = (p', Inr (Some (frame, key)))"
  shows "ps_data p' = ps_data p" and "ps_index p < ps_index p'" and "ps_index p' \<le> length (ps_data p)"
    and "frame = take (ps_index p' - ps_index p) (drop (ps_index p) (ps_data p))"
proof -
  obtain k where k: "parse_loop p False = (p', Inr k)" "ps_index p \<noteq> ps_index p'"
      "frame = u8_sub (ps_data p') (int (ps_index p)) (int (ps_index p'))"
    using assms(1) by (auto simp: h264_parse_def split: prod.splits sum.splits if_splits)
  have "ps_index p < length (ps_data p)"
  proof (rule ccontr)
    assume "\<not> ps_index p < length (ps_data p)"
    with k(1,2) show False by (simp add: parse_loop.simps)
  qed
  then show i: "ps_data p' = ps_data p" "ps_index p < ps_index p'" "ps_index p' \<le> length (ps_data p)"
    using parse_loop_index [OF k(1)] by auto
  show "frame = take (ps_index p' - ps_index p) (drop (ps_index p) (ps_data p))"
    using i k(3) u8_sub_in_range [of "int (ps_index p)" "int (ps_index p')" "ps_data p"] by (simp add: nat_diff_distrib)
qed

section \<open>Contexts\<close>

datatype vd_state = Unconfigured | Configured | Closed

datatype vd_call =
    VNew
  | VConfigure string nat nat
  | VDecode nat bool u8array     \<comment> \<open>timestamp, key frame, data\<close>

record pending_frame =
  pf_id :: nat
  pf_timestamp :: nat
  pf_ready :: bool
  pf_keep :: bool

record h264_context =
  hc_lastUsed :: nat
  hc_width :: nat
  hc_height :: nat
  hc_decoder :: "vd_state option"
  hc_pendingFrames :: "pending_frame list"
  hc_calls :: "vd_call list"

definition new_H264Context :: "nat \<Rightarrow> nat \<Rightarrow> h264_context" where
  "new_H264Context width height =
     \<lparr>hc_lastUsed = 0, hc_width = width, hc_height = height, hc_decoder = None, hc_pendingFrames = [], hc_calls = []\<rparr>"

text \<open>The three fields of \<open>self\<close>, and the number of pending frames made, which names the next one.\<close>

record h264_global =
  hg_profileIdc :: jsnum
  hg_constraintSet :: jsnum
  hg_levelIdc :: jsnum
  hg_made :: nat

definition hex_digit :: "nat \<Rightarrow> char" where
  "hex_digit n = ''0123456789abcdef'' ! n"

text \<open>\<open>toString(16).padStart(2, '0')\<close> of a byte; null and undefined have no methods.\<close>

fun hex_byte :: "jsnum \<Rightarrow> string option" where
  "hex_byte (JNum n) = Some [hex_digit (nat n div 16), hex_digit (nat n mod 16)]"
| "hex_byte _ = None"

definition configureDecoder :: "h264_global \<Rightarrow> h264_context \<Rightarrow> h264_context \<times> (js_error + unit)" where
  "configureDecoder g c =
     (let c = (if hc_decoder c = None \<or> hc_decoder c = Some Closed
               then c\<lparr>hc_decoder := Some Unconfigured, hc_calls := hc_calls c @ [VNew]\<rparr> else c)
      in case (hex_byte (hg_profileIdc g), hex_byte (hg_constraintSet g), hex_byte (hg_levelIdc g)) of
           (Some a, Some b, Some l) \<Rightarrow>
             (c\<lparr>hc_decoder := Some Configured,
                hc_calls := hc_calls c @ [VConfigure (''avc1.'' @ a @ b @ l) (hc_width c) (hc_height c)]\<rparr>, Inr ())
         | _ \<Rightarrow> (c, Inl TypeError))"

definition preparePendingFrame :: "nat \<Rightarrow> h264_global \<Rightarrow> h264_context \<Rightarrow> h264_global \<times> h264_context \<times> nat" where
  "preparePendingFrame timestamp g c =
     (let f = \<lparr>pf_id = hg_made g, pf_timestamp = timestamp, pf_ready = False, pf_keep = False\<rparr>
      in (g\<lparr>hg_made := hg_made g + 1\<rparr>, c\<lparr>hc_pendingFrames := hc_pendingFrames c @ [f]\<rparr>, hg_made g))"

definition keep_params :: "h264_parser \<Rightarrow> h264_global \<Rightarrow> h264_global" where
  "keep_params p g =
     (if ps_profileIdc p \<noteq> JNull
      then g\<lparr>hg_profileIdc := ps_profileIdc p, hg_constraintSet := ps_constraintSet p, hg_levelIdc := ps_levelIdc p\<rparr> else g)"

text \<open>What is done with one frame; the result is the last frame prepared.\<close>

definition decode_frame ::
  "nat \<Rightarrow> h264_global \<Rightarrow> h264_context \<Rightarrow> nat option \<Rightarrow> u8array \<Rightarrow> bool \<Rightarrow> h264_global \<times> h264_context \<times> (js_error + nat option)" where
  "decode_frame timestamp g c result frame key =
     (let send = (\<lambda>c. let (g, c, f) = preparePendingFrame timestamp g c
                      in (g, c\<lparr>hc_calls := hc_calls c @ [VDecode timestamp key frame]\<rparr>, Inr (Some f)))
      in if hc_decoder c \<noteq> Some Configured
         then (if \<not> key then (g, c, Inr result)
               else if hg_profileIdc g = JNull then (g, c, Inr result)
               else (case configureDecoder g c of (c, Inl e) \<Rightarrow> (g, c, Inl e) | (c, Inr _) \<Rightarrow> send c))
         else send c)"

function decode_loop ::
  "nat \<Rightarrow> h264_parser \<Rightarrow> h264_global \<Rightarrow> h264_context \<Rightarrow> nat option \<Rightarrow> h264_global \<times> h264_context \<times> (js_error + nat option)" where
  "decode_loop timestamp p g c result =
     (case h264_parse p of
        (p', Inl e) \<Rightarrow> (g, c, Inl e)
      | (p', Inr None) \<Rightarrow> (g, c, Inr result)
      | (p', Inr (Some (frame, key))) \<Rightarrow>
          (case decode_frame timestamp (keep_params p' g) c result frame key of
             (g, c, Inl e) \<Rightarrow> (g, c, Inl e)
           | (g, c, Inr result) \<Rightarrow> decode_loop timestamp p' g c result))"
  by pat_completeness auto
termination
proof (relation "measure (\<lambda>(t, p, g, c, r). length (ps_data p) - ps_index p)")
  fix t p g c r and p' x frame key y z u v w q
  assume "(p', x) = h264_parse p" "x = Inr y" "y = Some z" "(frame, key) = z"
  then have "h264_parse p = (p', Inr (Some (frame, key)))" by simp
  from h264_parse_Some(1-3) [OF this]
  show "((t, p', u, v, w), t, p, g, c, r) \<in> measure (\<lambda>(t, p, g, c, r). length (ps_data p) - ps_index p)" by auto
qed auto

declare decode_loop.simps [simp del]


definition keep_frame :: "nat \<Rightarrow> pending_frame list \<Rightarrow> pending_frame list" where
  "keep_frame i fs = map (\<lambda>f. if pf_id f = i then f\<lparr>pf_keep := True\<rparr> else f) fs"

text \<open>\<open>decode\<close>: the frame the caller gets, or an error; the last frame of a payload is kept.\<close>

definition h264_decode ::
  "nat \<Rightarrow> h264_global \<Rightarrow> h264_context \<Rightarrow> u8array \<Rightarrow> h264_global \<times> h264_context \<times> (js_error + nat option)" where
  "h264_decode timestamp g c payload =
     (case decode_loop timestamp (new_H264Parser payload) g c None of
        (g, c, Inl e) \<Rightarrow> (g, c, Inl e)
      | (g, c, Inr None) \<Rightarrow> (g, c, Inr None)
      | (g, c, Inr (Some f)) \<Rightarrow> (g, c\<lparr>hc_pendingFrames := keep_frame f (hc_pendingFrames c)\<rparr>, Inr (Some f)))"

text \<open>
  The browser's callback with a decoded frame: the oldest pending frame becomes ready (and is named, with whether the frame
  is closed at once).
\<close>

definition h264_handleFrame :: "h264_context \<Rightarrow> nat \<Rightarrow> h264_context \<times> (js_error + nat \<times> bool)" where
  "h264_handleFrame c timestamp =
     (case hc_pendingFrames c of
        [] \<Rightarrow> (c, Inl (JSError ''Pending frame queue empty when receiving frame from decoder'' []))
      | oldest # rest \<Rightarrow>
          (let c = c\<lparr>hc_pendingFrames := rest\<rparr>
           in if pf_timestamp oldest \<noteq> timestamp
              then (c, Inl (JSError ''Video frame timestamp mismatch'' [int timestamp, int (pf_timestamp oldest)]))
              else (c, Inr (pf_id oldest, \<not> pf_keep oldest))))"

text \<open>The browser closes a decoder that failed, and calls \<open>_handleError\<close>, which throws into the browser.\<close>

definition h264_handleError :: "h264_context \<Rightarrow> h264_context \<times> (js_error + unit)" where
  "h264_handleError c = (c\<lparr>hc_decoder := Some Closed\<rparr>, Inl (JSError ''Failed to decode frame'' []))"

section \<open>Decoder\<close>

type_synonym context_id = "int \<times> int \<times> nat \<times> nat"

record h264 =
  h4_tick :: nat
  h4_contexts :: "(context_id \<times> h264_context) list"  \<comment> \<open>in order of creation\<close>
  h4_global :: h264_global

definition new_H264Decoder :: "h264_global \<Rightarrow> h264" where
  "new_H264Decoder g = \<lparr>h4_tick = 0, h4_contexts = [], h4_global = g\<rparr>"

definition findOldestContextId :: "(context_id \<times> h264_context) list \<Rightarrow> context_id option" where
  "findOldestContextId cs =
     map_option fst
       (foldl (\<lambda>old (k, c). case old of
                 None \<Rightarrow> Some (k, hc_lastUsed c)
               | Some (_, t) \<Rightarrow> if hc_lastUsed c < t then Some (k, hc_lastUsed c) else old) None cs)"

definition createContext :: "context_id \<Rightarrow> h264 \<Rightarrow> h264" where
  "createContext i d =
     (let cs = (if length (h4_contexts d) \<ge> 64
                then (case findOldestContextId (h4_contexts d) of
                        None \<Rightarrow> h4_contexts d | Some k \<Rightarrow> AList.delete k (h4_contexts d))
                else h4_contexts d)
      in d\<lparr>h4_contexts := AList.update i (case i of (x, y, w, h) \<Rightarrow> new_H264Context w h) cs\<rparr>)"

text \<open>\<open>_getContext\<close> leaves the context in the table under its name.\<close>

definition getContext :: "context_id \<Rightarrow> h264 \<Rightarrow> h264" where
  "getContext i d = (case map_of (h4_contexts d) i of Some _ \<Rightarrow> d | None \<Rightarrow> createContext i d)"

definition resetContext :: "context_id \<Rightarrow> h264 \<Rightarrow> h264" where
  "resetContext i d = d\<lparr>h4_contexts := AList.delete i (h4_contexts d)\<rparr>"

definition resetAllContexts :: "h264 \<Rightarrow> h264" where
  "resetAllContexts d = d\<lparr>h4_contexts := []\<rparr>"

definition set_context :: "context_id \<Rightarrow> h264_context \<Rightarrow> h264 \<Rightarrow> h264" where
  "set_context i c d = d\<lparr>h4_contexts := AList.update i c (h4_contexts d)\<rparr>"

text \<open>A whole rectangle, once its bytes are there.\<close>

definition h264_apply :: "nat \<Rightarrow> context_id \<Rightarrow> int \<Rightarrow> u8array \<Rightarrow> h264 \<Rightarrow> h264 \<times> draw list \<times> outcome" where
  "h264_apply now i flags payload d =
     (let d = (if js_and flags 2 \<noteq> 0 then resetAllContexts d
               else if js_and flags 1 \<noteq> 0 then resetContext i d else d);
          d = getContext i d;
          c = (the (map_of (h4_contexts d) i))\<lparr>hc_lastUsed := h4_tick d\<rparr>;
          d = set_context i c (d\<lparr>h4_tick := h4_tick d + 1\<rparr>)
      in if payload = [] then (d, [], Done)
         else (case h264_decode now (h4_global d) c payload of
                 (g, c, r) \<Rightarrow>
                   (let d = set_context i c (d\<lparr>h4_global := g\<rparr>)
                    in case r of
                         Inl e \<Rightarrow> (d, [], Throws e)
                       | Inr None \<Rightarrow> (d, [], Done)
                       | Inr (Some f) \<Rightarrow>
                           (d, [case i of (x, y, w, h) \<Rightarrow> VideoFrame x y (int w) (int h) f], Done))))"

definition h264_decodeRect :: "nat \<Rightarrow> int \<Rightarrow> int \<Rightarrow> nat \<Rightarrow> nat \<Rightarrow> h264 \<Rightarrow> websock \<Rightarrow> h264 decode_result" where
  "h264_decodeRect now x y width height d w =
     (if rQwaits w 8 then (d, w, [], NeedMore)
      else (let (w, len) = rQshift32 w;
                (w, flags) = rQshift32 w
            in case rQwait w len 8 of
                 (w, Inl e) \<Rightarrow> (d, w, [], Throws e)
               | (w, Inr True) \<Rightarrow> (d, w, [], NeedMore)
               | (w, Inr False) \<Rightarrow>
                   (let (w, payload) = (if len \<noteq> 0 then rQshiftBytes w len else (w, []));
                        (d, ds, r) = h264_apply now (x, y, width, height) flags payload d
                    in (d, w, ds, r))))"

section \<open>Frames\<close>

text \<open>Frames are cut from the payload one after the other.\<close>

definition await_frame :: "nat \<Rightarrow> nat \<Rightarrow> pending_frame" where
  "await_frame t i = \<lparr>pf_id = i, pf_timestamp = t, pf_ready = False, pf_keep = False\<rparr>"

lemma decode_frame_configured:
  assumes "hc_decoder c = Some Configured"
  shows "decode_frame t g c r frame key =
    (g\<lparr>hg_made := hg_made g + 1\<rparr>,
     c\<lparr>hc_pendingFrames := hc_pendingFrames c @ [await_frame t (hg_made g)],
       hc_calls := hc_calls c @ [VDecode t key frame]\<rparr>, Inr (Some (hg_made g)))"
  using assms by (simp add: decode_frame_def preparePendingFrame_def await_frame_def Let_def)

lemma keep_params_made [simp]: "hg_made (keep_params p g) = hg_made g"
  by (simp add: keep_params_def)

lemma h264_parse_None:
  assumes "h264_parse p = (p', Inr None)" and "ps_index p \<le> length (ps_data p)"
  shows "ps_index p = length (ps_data p)"
proof (rule ccontr)
  assume "ps_index p \<noteq> length (ps_data p)"
  with assms(2) have l: "ps_index p < length (ps_data p)" by simp
  from assms(1) obtain k where "parse_loop p False = (p', Inr k)" "ps_index p = ps_index p'"
    by (auto simp: h264_parse_def split: prod.splits sum.splits if_splits)
  with l parse_loop_index [of p False p' k] show False by simp
qed

lemma decode_loop_sends:
  assumes "decode_loop t p g c r = (g', c', Inr r')" and "hc_decoder c = Some Configured"
    and "ps_index p \<le> length (ps_data p)"
  shows "\<exists>fs. hc_calls c' = hc_calls c @ map (\<lambda>(key, frame). VDecode t key frame) fs \<and>
    concat (map snd fs) = drop (ps_index p) (ps_data p) \<and> (\<forall>(key, frame) \<in> set fs. frame \<noteq> []) \<and>
    hc_pendingFrames c' = hc_pendingFrames c @ map (await_frame t) [hg_made g..<hg_made g + length fs] \<and>
    hg_made g' = hg_made g + length fs \<and> r' = (if fs = [] then r else Some (hg_made g' - 1)) \<and> hc_decoder c' = Some Configured"
  using assms
proof (induction t p g c r arbitrary: g' c' r' rule: decode_loop.induct)
  case (1 t p g c r)
  obtain p' x where x: "h264_parse p = (p', x)" by fastforce
  show ?case
  proof (cases x)
    case (Inl e)
    with 1(2) x show ?thesis by (subst (asm) decode_loop.simps) simp
  next
    case (Inr y)
    show ?thesis
    proof (cases y)
      case None
      with 1(2) x Inr have e: "g' = g" "c' = c" "r' = r" by (subst (asm) decode_loop.simps, simp)+
      have "ps_index p = length (ps_data p)" using h264_parse_None [OF x [unfolded Inr None] 1(4)] .
      with e 1(3) show ?thesis by (intro exI [of _ "[]"]) simp
    next
      case (Some z)
      obtain frame key where z: "z = (frame, key)" by fastforce
      note s = h264_parse_Some [OF x [unfolded Inr Some z]]
      let ?g = "(keep_params p' g)\<lparr>hg_made := hg_made g + 1\<rparr>"
      let ?c = "c\<lparr>hc_pendingFrames := hc_pendingFrames c @ [await_frame t (hg_made g)], hc_calls := hc_calls c @ [VDecode t key frame]\<rparr>"
      have f: "decode_frame t (keep_params p' g) c r frame key = (?g, ?c, Inr (Some (hg_made g)))"
        using decode_frame_configured [OF 1(3), of t "keep_params p' g"] by simp
      have "decode_loop t p' ?g ?c (Some (hg_made g)) = (g', c', Inr r')"
        using 1(2) x Inr Some z f by (subst (asm) decode_loop.simps) simp
      from 1(1) [OF x [symmetric] Inr Some z [symmetric] f [symmetric] refl refl this] 1(3) s
      obtain fs where fs: "hc_calls c' = hc_calls ?c @ map (\<lambda>(key, frame). VDecode t key frame) fs"
          "concat (map snd fs) = drop (ps_index p') (ps_data p')" "\<forall>(key, frame) \<in> set fs. frame \<noteq> []"
          "hc_pendingFrames c' = hc_pendingFrames ?c @ map (await_frame t) [hg_made ?g..<hg_made ?g + length fs]"
          "hg_made g' = hg_made ?g + length fs" "r' = (if fs = [] then Some (hg_made g) else Some (hg_made g' - 1))"
          "hc_decoder c' = Some Configured" by auto
      have "frame @ drop (ps_index p') (ps_data p') = drop (ps_index p) (ps_data p)"
        using s append_take_drop_id [of "ps_index p' - ps_index p" "drop (ps_index p) (ps_data p)"] by simp
      moreover have "frame \<noteq> []" using s by simp
      moreover have "[hg_made g..<hg_made g + Suc (length fs)] = hg_made g # [hg_made ?g..<hg_made ?g + length fs]"
        by (simp add: upt_conv_Cons del: upt_Suc)
      ultimately show ?thesis using fs by (intro exI [of _ "(key, frame) # fs"]) (auto simp del: upt_Suc)
    qed
  qed
qed

text \<open>One call: what it sends, awaits and answers.\<close>

lemma h264_decode_sends:
  assumes "h264_decode t g c payload = (g', c', Inr r)" and "hc_decoder c = Some Configured"
    and "\<forall>f \<in> set (hc_pendingFrames c). pf_id f < hg_made g" and "payload \<noteq> []"
  shows "\<exists>fs. hc_calls c' = hc_calls c @ map (\<lambda>(key, frame). VDecode t key frame) fs \<and> fs \<noteq> [] \<and>
    concat (map snd fs) = payload \<and> (\<forall>(key, frame) \<in> set fs. frame \<noteq> []) \<and>
    hc_pendingFrames c' = hc_pendingFrames c @ map (await_frame t) [hg_made g..<hg_made g + length fs - 1]
      @ [(await_frame t (hg_made g' - 1))\<lparr>pf_keep := True\<rparr>] \<and>
    hg_made g' = hg_made g + length fs \<and> r = Some (hg_made g' - 1) \<and> hc_decoder c' = Some Configured"
proof -
  obtain c2 r2 where l: "decode_loop t (new_H264Parser payload) g c None = (g', c2, Inr r2)"
    using assms(1) by (auto simp: h264_decode_def split: prod.splits sum.splits option.splits)
  from decode_loop_sends [OF l assms(2)] obtain fs where
    fs: "hc_calls c2 = hc_calls c @ map (\<lambda>(key, frame). VDecode t key frame) fs"
      "concat (map snd fs) = payload" "\<forall>(key, frame) \<in> set fs. frame \<noteq> []"
      "hc_pendingFrames c2 = hc_pendingFrames c @ map (await_frame t) [hg_made g..<hg_made g + length fs]"
      "hg_made g' = hg_made g + length fs" "r2 = (if fs = [] then None else Some (hg_made g' - 1))" "hc_decoder c2 = Some Configured"
    by (auto simp: new_H264Parser_def)
  have n: "fs \<noteq> []" using fs(2) assms(4) by auto
  let ?i = "hg_made g' - 1"
  have r: "r = Some ?i" "c' = c2\<lparr>hc_pendingFrames := keep_frame ?i (hc_pendingFrames c2)\<rparr>"
    using assms(1) l fs(6) n by (simp_all add: h264_decode_def)
  have split: "[hg_made g..<hg_made g + length fs] = [hg_made g..<?i] @ [?i]"
    using n fs(5) by (cases fs) simp_all
  have k: "keep_frame ?i xs = xs" if "\<forall>f \<in> set xs. pf_id f < ?i" for xs
    using that by (auto simp: keep_frame_def intro!: map_idI)
  have "keep_frame ?i (hc_pendingFrames c2) = keep_frame ?i (hc_pendingFrames c) @
      keep_frame ?i (map (await_frame t) [hg_made g..<?i]) @ keep_frame ?i [await_frame t ?i]"
    by (simp add: fs(4) split keep_frame_def)
  moreover have "\<forall>f \<in> set (hc_pendingFrames c). pf_id f < ?i" using assms(3) n fs(5) by (cases fs) auto
  moreover have "\<forall>f \<in> set (map (await_frame t) [hg_made g..<?i]). pf_id f < ?i" by (auto simp: await_frame_def)
  moreover have "keep_frame ?i [await_frame t ?i] = [(await_frame t ?i)\<lparr>pf_keep := True\<rparr>]"
    by (simp add: keep_frame_def await_frame_def)
  ultimately have "keep_frame ?i (hc_pendingFrames c2) =
      hc_pendingFrames c @ map (await_frame t) [hg_made g..<?i] @ [(await_frame t ?i)\<lparr>pf_keep := True\<rparr>]"
    using k by simp
  then show ?thesis using fs n r by (intro exI [of _ fs]) simp
qed


section \<open>Contexts\<close>

definition h264_ok :: "h264 \<Rightarrow> bool" where
  "h264_ok d \<longleftrightarrow> distinct (map fst (h4_contexts d)) \<and> length (h4_contexts d) \<le> 64 \<and>
     (\<forall>(i, c) \<in> set (h4_contexts d). hc_lastUsed c < h4_tick d)"

lemma oldest_fold:
  fixes cs :: "(context_id \<times> h264_context) list"
  defines "f \<equiv> \<lambda>old (k, c). case old of None \<Rightarrow> Some (k, hc_lastUsed c)
     | Some (_, t) \<Rightarrow> if hc_lastUsed c < t then Some (k, hc_lastUsed c) else old"
  shows "\<exists>k t. foldl f (Some (k0, t0)) cs = Some (k, t) \<and> t \<le> t0 \<and> (\<forall>(i, c) \<in> set cs. t \<le> hc_lastUsed c) \<and>
     (k = k0 \<and> t = t0 \<or> (\<exists>c. (k, c) \<in> set cs \<and> hc_lastUsed c = t))"
proof (induction cs arbitrary: k0 t0)
  case Nil
  then show ?case by simp
next
  case (Cons a cs)
  obtain i c where a: "a = (i, c)" by fastforce
  show ?case
  proof (cases "hc_lastUsed c < t0")
    case True
    with Cons [of i "hc_lastUsed c"] show ?thesis by (force simp: a f_def)
  next
    case False
    with Cons [of k0 t0] show ?thesis by (force simp: a f_def)
  qed
qed

lemma findOldestContextId_oldest:
  assumes "cs \<noteq> []"
  shows "\<exists>k c. findOldestContextId cs = Some k \<and> (k, c) \<in> set cs \<and> (\<forall>(i, c') \<in> set cs. hc_lastUsed c \<le> hc_lastUsed c')"
proof -
  obtain k0 c0 cs' where cs: "cs = (k0, c0) # cs'" using assms by (cases cs) auto
  show ?thesis
    using oldest_fold [of k0 "hc_lastUsed c0" cs'] by (fastforce simp: cs findOldestContextId_def)
qed

lemma update_fresh: "k \<notin> fst ` set xs \<Longrightarrow> AList.update k v xs = xs @ [(k, v)]"
  by (induction xs) auto

lemma set_update_distinct:
  "distinct (map fst xs) \<Longrightarrow> set (AList.update k v xs) = insert (k, v) {p \<in> set xs. fst p \<noteq> k}"
  by (induction xs) (auto simp: image_iff)

lemma set_delete: "set (AList.delete k xs) = {p \<in> set xs. fst p \<noteq> k}"
  by (auto simp: AList.delete_eq)

lemma length_update_in: "k \<in> fst ` set xs \<Longrightarrow> length (AList.update k v xs) = length xs"
  by (induction xs) auto

lemma length_delete_in: "k \<in> fst ` set xs \<Longrightarrow> length (AList.delete k xs) < length xs"
  by (auto simp: AList.delete_eq intro: length_filter_less)

text \<open>The table loses at most its least recently used context, and only for a new one when it is full.\<close>

definition evicts :: "context_id \<Rightarrow> h264 \<Rightarrow> context_id \<Rightarrow> bool" where
  "evicts i d k \<longleftrightarrow> length (h4_contexts d) = 64 \<and> i \<notin> fst ` set (h4_contexts d) \<and>
     (\<exists>c. (k, c) \<in> set (h4_contexts d) \<and> (\<forall>(j, c') \<in> set (h4_contexts d). hc_lastUsed c \<le> hc_lastUsed c'))"

lemma getContext_cases:
  assumes "h264_ok d"
  shows "\<exists>cs. getContext i d = d\<lparr>h4_contexts := cs\<rparr> \<and> distinct (map fst cs) \<and> length cs \<le> 64 \<and> i \<in> fst ` set cs \<and>
    (\<forall>(j, c) \<in> set cs. j \<noteq> i \<longrightarrow> (j, c) \<in> set (h4_contexts d)) \<and>
    (\<forall>(j, c) \<in> set (h4_contexts d). (j, c) \<in> set cs \<or> evicts i d j)"
proof (cases "map_of (h4_contexts d) i")
  case (Some c)
  then have "i \<in> fst ` set (h4_contexts d)" by (force dest: map_of_SomeD)
  then show ?thesis
    using assms Some by (intro exI [of _ "h4_contexts d"]) (auto simp: getContext_def h264_ok_def)
next
  case None
  then have new: "i \<notin> fst ` set (h4_contexts d)" by (simp add: map_of_eq_None_iff)
  let ?new = "case i of (x, y, w, h) \<Rightarrow> new_H264Context w h"
  show ?thesis
  proof (cases "length (h4_contexts d) \<ge> 64")
    case False
    then have "getContext i d = d\<lparr>h4_contexts := h4_contexts d @ [(i, ?new)]\<rparr>"
      using None new by (simp add: getContext_def createContext_def update_fresh)
    then show ?thesis
      using False assms new by (intro exI [of _ "h4_contexts d @ [(i, ?new)]"]) (auto simp: h264_ok_def)
  next
    case True
    then have "h4_contexts d \<noteq> []" by auto
    from findOldestContextId_oldest [OF this] obtain k c where
      k: "findOldestContextId (h4_contexts d) = Some k" "(k, c) \<in> set (h4_contexts d)"
        "\<forall>(j, c') \<in> set (h4_contexts d). hc_lastUsed c \<le> hc_lastUsed c'" by blast
    have l: "length (h4_contexts d) = 64" using True assms by (simp add: h264_ok_def)
    let ?cs = "AList.delete k (h4_contexts d)"
    have "k \<in> fst ` set (h4_contexts d)" using k(2) by force
    then have len: "length ?cs < 64" using length_delete_in [of k "h4_contexts d"] l by simp
    have fresh: "i \<notin> fst ` set ?cs" using new by (auto simp: set_delete)
    have dist: "distinct (map fst ?cs)" using assms by (simp add: h264_ok_def AList.distinct_delete)
    have e: "evicts i d k" using k l new by (auto simp: evicts_def)
    have "getContext i d = d\<lparr>h4_contexts := ?cs @ [(i, ?new)]\<rparr>"
      using None True k(1) fresh by (simp add: getContext_def createContext_def update_fresh)
    then show ?thesis
      using len fresh dist e by (intro exI [of _ "?cs @ [(i, ?new)]"]) (auto simp: set_delete)
  qed
qed

definition after_reset :: "context_id \<Rightarrow> int \<Rightarrow> h264 \<Rightarrow> h264" where
  "after_reset i flags d =
     (if js_and flags 2 \<noteq> 0 then resetAllContexts d else if js_and flags 1 \<noteq> 0 then resetContext i d else d)"

lemma after_reset_ok: "h264_ok d \<Longrightarrow> h264_ok (after_reset i flags d)"
  by (auto simp: after_reset_def h264_ok_def resetAllContexts_def resetContext_def set_delete AList.distinct_delete
      intro: le_trans [OF AList.length_delete_le])

lemma decode_frame_lastUsed: "decode_frame t g c r frame key = (g', c', x) \<Longrightarrow> hc_lastUsed c' = hc_lastUsed c"
  by (auto simp: decode_frame_def preparePendingFrame_def configureDecoder_def Let_def
      split: if_splits option.splits prod.splits sum.splits)

lemma decode_loop_lastUsed: "decode_loop t p g c r = (g', c', x) \<Longrightarrow> hc_lastUsed c' = hc_lastUsed c"
proof (induction t p g c r arbitrary: g' c' x rule: decode_loop.induct)
  case (1 t p g c r)
  show ?case
  proof (cases "h264_parse p")
    case (Pair p' y)
    show ?thesis
    proof (cases "\<exists>frame key. y = Inr (Some (frame, key))")
      case False
      with 1(2) Pair show ?thesis
        by (subst (asm) decode_loop.simps) (auto split: sum.splits option.splits)
    next
      case True
      then obtain frame key where y: "y = Inr (Some (frame, key))" by blast
      obtain g2 c2 z where d: "decode_frame t (keep_params p' g) c r frame key = (g2, c2, z)" by (metis prod_cases3)
      show ?thesis
      proof (cases z)
        case (Inl e)
        with 1(2) Pair y d have "c' = c2" by (subst (asm) decode_loop.simps) simp
        with decode_frame_lastUsed [OF d] show ?thesis by simp
      next
        case (Inr r2)
        with 1(2) Pair y d have "decode_loop t p' g2 c2 r2 = (g', c', x)" by (subst (asm) decode_loop.simps) simp
        from 1(1) [OF Pair [symmetric] y refl refl d [symmetric] refl Inr this] decode_frame_lastUsed [OF d]
        show ?thesis by simp
      qed
    qed
  qed
qed

lemma h264_decode_lastUsed: "h264_decode t g c payload = (g', c', r) \<Longrightarrow> hc_lastUsed c' = hc_lastUsed c"
  by (auto simp: h264_decode_def dest: decode_loop_lastUsed split: prod.splits sum.splits option.splits)

text \<open>A rectangle changes the table only under its own name.\<close>

lemma h264_apply_table:
  assumes "h264_ok d" and "h264_apply now i flags payload d = (d', ds, r)"
  shows "\<exists>cs c. getContext i (after_reset i flags d) = (after_reset i flags d)\<lparr>h4_contexts := cs\<rparr> \<and>
    h4_contexts d' = AList.update i c cs \<and> hc_lastUsed c = h4_tick d \<and> h4_tick d' = h4_tick d + 1"
proof -
  have t: "h4_tick (after_reset i flags d) = h4_tick d"
    by (simp add: after_reset_def resetAllContexts_def resetContext_def)
  obtain cs where cs: "getContext i (after_reset i flags d) = (after_reset i flags d)\<lparr>h4_contexts := cs\<rparr>"
    using getContext_cases [OF after_reset_ok [OF assms(1)]] by blast
  let ?c = "(the (map_of cs i))\<lparr>hc_lastUsed := h4_tick d\<rparr>"
  obtain g c2 x where dec: "h264_decode now (h4_global (after_reset i flags d)) ?c payload = (g, c2, x)" by (metis prod_cases3)
  have "hc_lastUsed c2 = h4_tick d" using h264_decode_lastUsed [OF dec] by simp
  moreover have "h4_contexts d' = AList.update i (if payload = [] then ?c else c2) cs \<and> h4_tick d' = h4_tick d + 1"
    using assms(2) dec
    by (auto simp: h264_apply_def after_reset_def [symmetric] cs t set_context_def Let_def
        split: if_splits sum.splits option.splits prod.splits)
  ultimately show ?thesis using cs by (intro exI [of _ cs] exI [of _ "if payload = [] then ?c else c2"]) simp
qed

lemma h264_apply_contexts:
  assumes ok: "h264_ok d" and ap: "h264_apply now i flags payload d = (d', ds, r)"
  shows "h264_ok d'" and "\<exists>c. (i, c) \<in> set (h4_contexts d') \<and> hc_lastUsed c = h4_tick d" and "h4_tick d' = h4_tick d + 1"
    and "\<And>j c. (j, c) \<in> set (h4_contexts d') \<Longrightarrow> j \<noteq> i \<Longrightarrow> (j, c) \<in> set (h4_contexts (after_reset i flags d))"
    and "\<And>j c. (j, c) \<in> set (h4_contexts (after_reset i flags d)) \<Longrightarrow> j \<noteq> i \<Longrightarrow>
      (j, c) \<in> set (h4_contexts d') \<or> evicts i (after_reset i flags d) j"
proof -
  let ?d = "after_reset i flags d"
  obtain cs c where t: "getContext i ?d = ?d\<lparr>h4_contexts := cs\<rparr>" "h4_contexts d' = AList.update i c cs"
      "hc_lastUsed c = h4_tick d" "h4_tick d' = h4_tick d + 1"
    using h264_apply_table [OF assms] by blast
  obtain cs2 where "getContext i ?d = ?d\<lparr>h4_contexts := cs2\<rparr>" "distinct (map fst cs2)" "length cs2 \<le> 64" "i \<in> fst ` set cs2"
      "\<forall>(j, c) \<in> set cs2. j \<noteq> i \<longrightarrow> (j, c) \<in> set (h4_contexts ?d)"
      "\<forall>(j, c) \<in> set (h4_contexts ?d). (j, c) \<in> set cs2 \<or> evicts i ?d j"
    using getContext_cases [OF after_reset_ok [OF ok], of i i flags] by blast
  moreover from this(1) t(1) have "cs2 = cs" by (metis h264.select_convs(2) h264.surjective h264.update_convs(2))
  ultimately have g: "distinct (map fst cs)" "length cs \<le> 64" "i \<in> fst ` set cs"
      "\<And>j c. (j, c) \<in> set cs \<Longrightarrow> j \<noteq> i \<Longrightarrow> (j, c) \<in> set (h4_contexts ?d)"
      "\<And>j c. (j, c) \<in> set (h4_contexts ?d) \<Longrightarrow> (j, c) \<in> set cs \<or> evicts i ?d j"
    by (auto split: prod.splits)
  note s = set_update_distinct [OF g(1), of i c]
  have "h4_tick ?d = h4_tick d" by (simp add: after_reset_def resetAllContexts_def resetContext_def)
  then have lt: "\<And>j c. (j, c) \<in> set (h4_contexts ?d) \<Longrightarrow> hc_lastUsed c < h4_tick d"
    using after_reset_ok [OF ok, of i flags] by (auto simp: h264_ok_def)
  show "h264_ok d'"
  proof (unfold h264_ok_def, intro conjI)
    show "distinct (map fst (h4_contexts d'))" using g(1) t(2) by (simp add: AList.distinct_update)
    show "length (h4_contexts d') \<le> 64" using g(2,3) t(2) by (simp add: length_update_in)
    show "\<forall>(j, c) \<in> set (h4_contexts d'). hc_lastUsed c < h4_tick d'"
    proof clarify
      fix x y w h b
      assume "((x, y, w, h), b) \<in> set (h4_contexts d')"
      then have "((x, y, w, h), b) = (i, c) \<or> ((x, y, w, h), b) \<in> set cs \<and> (x, y, w, h) \<noteq> i" using s t(2) by auto
      then show "hc_lastUsed b < h4_tick d'"
      proof
        assume "((x, y, w, h), b) \<in> set cs \<and> (x, y, w, h) \<noteq> i"
        then have "((x, y, w, h), b) \<in> set (h4_contexts ?d)" by (intro g(4)) simp_all
        from lt [OF this] t(4) show ?thesis by simp
      qed (use t in simp)
    qed
  qed
  show "\<exists>c. (i, c) \<in> set (h4_contexts d') \<and> hc_lastUsed c = h4_tick d" using s t by auto
  show "h4_tick d' = h4_tick d + 1" using t by simp
  show "\<And>j c. (j, c) \<in> set (h4_contexts d') \<Longrightarrow> j \<noteq> i \<Longrightarrow> (j, c) \<in> set (h4_contexts ?d)" using s t(2) g(4) by auto
  show "\<And>j c. (j, c) \<in> set (h4_contexts ?d) \<Longrightarrow> j \<noteq> i \<Longrightarrow> (j, c) \<in> set (h4_contexts d') \<or> evicts i ?d j"
    using s t(2) g(5) by auto
qed


section \<open>A rectangle from the wire\<close>

definition h264_phase :: "nat \<Rightarrow> int \<Rightarrow> int \<Rightarrow> nat \<Rightarrow> nat \<Rightarrow> h264 \<Rightarrow> byte list \<Rightarrow> h264 phase" where
  "h264_phase now x y width height d bs =
     (if length bs < 8 then Await
      else (let len = nat (be_val (take 4 bs)); flags = be_val (take 4 (drop 4 bs))
            in if length bs < 8 + len then Await
               else (case h264_apply now (x, y, width, height) flags (take len (drop 8 bs)) d of
                       (d', ds, Throws e) \<Rightarrow> Abort d' (8 + len) (ops ds) e
                     | (d', ds, _) \<Rightarrow> Finish d' (8 + len) (ops ds))))"

lemma h264_apply_outcome: "h264_apply now i flags payload d = (d', ds, r) \<Longrightarrow> r \<noteq> NeedMore \<and> r \<noteq> Hangs"
  by (auto simp: h264_apply_def Let_def split: if_splits prod.splits sum.splits option.splits)

lemma be_val_nonneg: "0 \<le> be_val bs"
  using be_val_bounds [of bs] by simp

lemma h264_decodeRect_eq:
  assumes "rx_inv w" and "8 \<le> length (unread w)"
  defines lenD: "len \<equiv> nat (be_val (take 4 (unread w)))" and flagsD: "flags \<equiv> be_val (take 4 (drop 4 (unread w)))"
  shows "h264_decodeRect now x y width height d w =
    (if length (unread w) < 8 + len then (d, w, [], NeedMore)
     else (case h264_apply now (x, y, width, height) flags (take len (drop 8 (unread w))) d of
             (d', ds, r) \<Rightarrow> (d', adv (8 + len) w, ds, r)))"
proof -
  note i8 = assms(1) rx_inv_adv [OF assms(1), of 8] rx_inv_adv [OF assms(1), of 4]
  have s: "rQshift32 w = (adv 4 w, int len)" "rQshift32 (adv 4 w) = (adv 8 w, flags)"
    using assms be_val_nonneg [of "take 4 (unread w)"] i8 by (simp_all add: ws_simps lenD flagsD)
  have undo: "(adv 8 w)\<lparr>rQi := rQi (adv 8 w) - 8\<rparr> = w" by (simp add: adv_def)
  have l8: "rQlen (adv 8 w) - rQi (adv 8 w) = int (length (unread w)) - 8" "\<not> rQi (adv 8 w) < 8"
    using length_unread [OF assms(1)] assms(1) by (simp_all add: adv_def rx_inv_def)
  show ?thesis
    using assms(1,2) i8 s undo l8
    by (auto simp: h264_decodeRect_def ws_simps Let_def rQwait_def split: prod.splits)
qed

interpretation h264: phase_decoder "h264_phase now x y width height" "\<lambda>_. 0" h264_ok "h264_decodeRect now x y width height"
  for now x y width height
proof
  fix d :: h264 and bs later :: "byte list" and d' n os e
  let ?ph = "h264_phase now x y width height" and ?dec = "h264_decodeRect now x y width height"
  assume ok: "h264_ok d"
  show "?ph d bs \<noteq> Await \<Longrightarrow> ?ph d (bs @ later) = ?ph d bs"
    by (auto simp: h264_phase_def Let_def split: if_splits)
  show "phase_reads (?ph d bs) \<le> length bs"
    by (auto simp: h264_phase_def Let_def split: prod.splits outcome.splits)
  show "h264_ok (phase_state d (?ph d bs))"
    using ok h264_apply_contexts(1) [OF ok]
    by (auto simp: h264_phase_def Let_def split: prod.splits outcome.splits)
  show "?ph d bs = Proceed d' n os \<Longrightarrow> (0 :: nat) < 0"
    by (auto simp: h264_phase_def Let_def split: if_splits prod.splits outcome.splits)
  fix w :: websock
  assume inv: "rx_inv w"
  show "follows ?ph ?dec d w"
  proof (cases "length (unread w) < 8")
    case True
    then show ?thesis using inv by (simp add: follows_def h264_phase_def h264_decodeRect_def ws_simps)
  next
    case False
    then have "8 \<le> length (unread w)" by simp
    note e = h264_decodeRect_eq [OF inv this, of now x y width height d]
    obtain d' ds r where a: "h264_apply now (x, y, width, height) (be_val (take 4 (drop 4 (unread w))))
        (take (nat (be_val (take 4 (unread w)))) (drop 8 (unread w))) d = (d', ds, r)" by (metis prod_cases3)
    show ?thesis
      using False e a h264_apply_outcome [OF a]
      by (cases r) (auto simp: follows_def h264_phase_def Let_def)
  qed
qed


section \<open>Well-formed payloads\<close>

text \<open>A byte stream of units: it begins with a start sequence, and no unit has the forbidden bit.\<close>

definition nal_stream :: "u8array \<Rightarrow> bool" where
  "nal_stream data \<longleftrightarrow> getStartSequenceLen data 0 \<noteq> 0 \<and>
     (\<forall>i \<in> set [0..<length data]. getStartSequenceLen data i \<noteq> 0 \<longrightarrow>
        js_and (uint (u8_get data (int (i + getStartSequenceLen data i)))) 0x80 = 0)"

definition at_unit :: "h264_parser \<Rightarrow> bool" where
  "at_unit p \<longleftrightarrow> nal_stream (ps_data p) \<and>
     (ps_index p = length (ps_data p) \<or> getStartSequenceLen (ps_data p) (ps_index p) \<noteq> 0)"

lemma parseNalUnit_succeeds:
  "js_and (uint (u8_get (ps_data p) (int i))) 0x80 = 0 \<Longrightarrow> \<exists>q s k. parseNalUnit p i = (q, Inr (s, k))"
  by (auto simp: parseNalUnit_def Let_def)

lemma parse_loop_succeeds: "at_unit p \<Longrightarrow> \<exists>p' k'. parse_loop p k = (p', Inr k') \<and> at_unit p'"
proof (induction p k rule: parse_loop.induct)
  case (1 p k)
  show ?case
  proof (cases "ps_index p < length (ps_data p)")
    case False
    with 1(2) show ?thesis by (simp add: parse_loop.simps)
  next
    case True
    let ?l = "getStartSequenceLen (ps_data p) (ps_index p)"
    have l: "?l \<noteq> 0" using 1(2) True by (auto simp: at_unit_def)
    have "js_and (uint (u8_get (ps_data p) (int (ps_index p + ?l)))) 0x80 = 0"
      using 1(2) True l by (simp add: at_unit_def nal_stream_def)
    then obtain q slc key where q: "parseNalUnit p (ps_index p + ?l) = (q, Inr (slc, key))"
      using parseNalUnit_succeeds by blast
    let ?next = "case indexOfNextNalUnit (ps_data p) (ps_index p + ?l) of None \<Rightarrow> length (ps_data p) | Some i \<Rightarrow> i"
    let ?q = "q\<lparr>ps_index := ?next\<rparr>"
    have "ps_data q = ps_data p" using parseNalUnit_keeps [OF q] by simp
    moreover have "getStartSequenceLen (ps_data p) i \<noteq> 0"
      if "indexOfNextNalUnit (ps_data p) (ps_index p + ?l) = Some i" for i
      using that by (auto simp: indexOfNextNalUnit_def find_Some_iff)
    ultimately have u: "at_unit ?q" using 1(2) by (auto simp: at_unit_def split: option.splits)
    show ?thesis
    proof (cases slc)
      case True2: True
      with True l q u show ?thesis by (subst parse_loop.simps) (simp add: Let_def)
    next
      case False
      from 1(1) [OF True refl l q [symmetric] refl refl refl refl False u]
      obtain p' k' where "parse_loop ?q (k \<or> key) = (p', Inr k')" "at_unit p'" by blast
      with False True l q show ?thesis by (subst parse_loop.simps) (simp add: Let_def)
    qed
  qed
qed

lemma decode_loop_succeeds:
  "at_unit p \<Longrightarrow> hc_decoder c = Some Configured \<Longrightarrow> \<exists>g' c' r'. decode_loop t p g c r = (g', c', Inr r')"
proof (induction t p g c r rule: decode_loop.induct)
  case (1 t p g c r)
  obtain p' k where pl: "parse_loop p False = (p', Inr k)" "at_unit p'" using parse_loop_succeeds [OF 1(2)] by blast
  show ?case
  proof (cases "ps_index p = ps_index p'")
    case True
    with pl have "h264_parse p = (p', Inr None)" by (simp add: h264_parse_def)
    then show ?thesis by (subst decode_loop.simps) simp
  next
    case False
    with pl obtain frame where x: "h264_parse p = (p', Inr (Some (frame, k)))" by (simp add: h264_parse_def)
    note f = decode_frame_configured [OF 1(3), of t "keep_params p' g" r frame k]
    from 1(1) [OF x [symmetric] refl refl refl f [symmetric] refl refl pl(2)] 1(3) x f
    show ?thesis by (subst decode_loop.simps) simp
  qed
qed

lemma nal_stream_Nil: "nal_stream bs \<Longrightarrow> bs \<noteq> []"
  by (auto simp: nal_stream_def getStartSequenceLen_def byte_at_def split: if_splits)

lemma h264_decode_succeeds:
  assumes "nal_stream payload" and "hc_decoder c = Some Configured"
  shows "\<exists>g' c' r. h264_decode t g c payload = (g', c', Inr r)"
proof -
  have "at_unit (new_H264Parser payload)" using assms(1) by (simp add: at_unit_def new_H264Parser_def nal_stream_def)
  from decode_loop_succeeds [OF this assms(2)] obtain g' c' r where
    "decode_loop t (new_H264Parser payload) g c None = (g', c', Inr r)" by blast
  then show ?thesis by (cases r) (simp_all add: h264_decode_def)
qed


section \<open>Properties\<close>

text \<open>
  C7. A rectangle of a configured context, with any well-formed payload, however the network cuts it: the payload goes to the
  browser's decoder whole and in order, as non-empty frames; one frame is drawn, the last, and it alone is kept.
\<close>

theorem h264_draws_payload:
  assumes "rx_inv w" and "h264_ok d" and "cs \<noteq> []" and "int (length (unread w @ concat cs)) \<le> MAX_RQ_GROW_SIZE"
    and "unread w @ concat cs = be_bytes 4 (int (length payload)) @ be_bytes 4 0 @ payload @ later"
    and "nal_stream payload"
    and "map_of (h4_contexts d) (x, y, width, height) = Some c" and "hc_decoder c = Some Configured"
    and "\<forall>f \<in> set (hc_pendingFrames c). pf_id f < hg_made (h4_global d)"
  shows "\<exists>d' w' ds rest c' fs f. feed (h264_decodeRect now x y width height) d w cs = ((d', w', ds, Done), rest) \<and>
    ops ds = [OpFrame f 0 0 (int width) (int height) x y (int width) (int height)] \<and> unread w' @ concat rest = later \<and>
    map_of (h4_contexts d') (x, y, width, height) = Some c' \<and>
    hc_calls c' = hc_calls c @ map (\<lambda>(key, frame). VDecode now key frame) fs \<and>
    concat (map snd fs) = payload \<and> (\<forall>(key, frame) \<in> set fs. frame \<noteq> []) \<and>
    map pf_keep (hc_pendingFrames c') = map pf_keep (hc_pendingFrames c) @ replicate (length fs - 1) False @ [True] \<and>
    pf_id (last (hc_pendingFrames c')) = f"
proof -
  let ?bs = "unread w @ concat cs" and ?i = "(x, y, width, height)"
  let ?c = "c\<lparr>hc_lastUsed := h4_tick d\<rparr>"
  have "int (length payload) \<le> MAX_RQ_GROW_SIZE" using assms(4,5) by simp
  then have len: "nat (be_val (be_bytes 4 (int (length payload)))) = length payload"
    by (simp add: be_val_be_bytes MAX_RQ_GROW_SIZE_def)
  obtain g' c' r where dec: "h264_decode now (h4_global d) ?c payload = (g', c', Inr r)"
    using h264_decode_succeeds [OF assms(6), of ?c now "h4_global d"] assms(8) by auto
  note n = nal_stream_Nil [OF assms(6)]
  from h264_decode_sends [OF dec _ _ n] assms(8,9) obtain fs where
    fs: "hc_calls c' = hc_calls c @ map (\<lambda>(key, frame). VDecode now key frame) fs" "fs \<noteq> []"
      "concat (map snd fs) = payload" "\<forall>(key, frame) \<in> set fs. frame \<noteq> []"
      "hc_pendingFrames c' = hc_pendingFrames c @
         map (await_frame now) [hg_made (h4_global d)..<hg_made (h4_global d) + length fs - 1] @
         [(await_frame now (hg_made g' - 1))\<lparr>pf_keep := True\<rparr>]"
      "r = Some (hg_made g' - 1)" by auto
  let ?f = "hg_made g' - 1"
  have ap: "\<exists>d' ds. h264_apply now ?i 0 payload d = (d', ds, Done) \<and> map_of (h4_contexts d') ?i = Some c' \<and>
      ops ds = [OpFrame ?f 0 0 (int width) (int height) x y (int width) (int height)]"
    using n dec fs(6) assms(7)
    by (simp add: h264_apply_def js_and_def ToInt32_nonneg getContext_def set_context_def AList.update_conv' Let_def)
  then obtain d' ds where ap: "h264_apply now ?i 0 payload d = (d', ds, Done)" "map_of (h4_contexts d') ?i = Some c'"
      "ops ds = [OpFrame ?f 0 0 (int width) (int height) x y (int width) (int height)]" by blast
  have "h264_phase now x y width height d ?bs = Finish d' (8 + length payload) (ops ds)"
    using assms(5) len ap by (simp add: h264_phase_def be_val_be_bytes)
  from h264.spec_simps(3) [OF this] h264.feed_outcome [OF assms(1,2,3,4)]
  obtain w' ds' rest where fd: "feed (h264_decodeRect now x y width height) d w cs = ((d', w', ds', Done), rest)"
      "ops ds' = ops ds" "unread w' @ concat rest = drop (8 + length payload) ?bs" by blast
  have "map pf_keep (hc_pendingFrames c') = map pf_keep (hc_pendingFrames c) @ replicate (length fs - 1) False @ [True]"
    by (simp add: fs(5) await_frame_def map_replicate_const comp_def)
  moreover have "pf_id (last (hc_pendingFrames c')) = ?f" by (simp add: fs(5) await_frame_def)
  moreover have "unread w' @ concat rest = later" using fd(3) assms(5) by simp
  ultimately show ?thesis using fd ap fs by (intro exI conjI) auto
qed


definition configured :: "nat \<Rightarrow> nat \<Rightarrow> h264_context" where
  "configured width height = (new_H264Context width height)\<lparr>hc_decoder := Some Configured\<rparr>"

definition fresh_global :: h264_global where
  "fresh_global = \<lparr>hg_profileIdc = JUndef, hg_constraintSet = JUndef, hg_levelIdc = JUndef, hg_made = 0\<rparr>"

theorem h264_draws_payload_witness:
  "\<exists>d' w' ds rest c' fs f.
    feed (h264_decodeRect 5 0 0 16 16)
      ((new_H264Decoder fresh_global)\<lparr>h4_tick := 1, h4_contexts := [((0, 0, 16, 16), configured 16 16)]\<rparr>)
      (small_ws [0, 0, 0]) [[10, 0, 0, 0, 0, 0, 0, 1, 0x65], [7, 0, 0, 1, 0x41, 3]] = ((d', w', ds, Done), rest) \<and>
    ops ds = [OpFrame f 0 0 16 16 0 0 16 16] \<and> unread w' @ concat rest = [] \<and>
    map_of (h4_contexts d') (0, 0, 16, 16) = Some c' \<and> hc_calls c' = map (\<lambda>(key, frame). VDecode 5 key frame) fs \<and>
    concat (map snd fs) = [0, 0, 1, 0x65, 7, 0, 0, 1, 0x41, 3]"
proof -
  let ?d = "(new_H264Decoder fresh_global)\<lparr>h4_tick := 1, h4_contexts := [((0, 0, 16, 16), configured 16 16)]\<rparr>"
  let ?p = "[0, 0, 1, 0x65, 7, 0, 0, 1, 0x41, 3 :: byte]"
  have ok: "h264_ok ?d" by (simp add: h264_ok_def new_H264Decoder_def configured_def new_H264Context_def)
  have nal: "nal_stream ?p" by code_simp
  have b: "be_bytes 4 (int (length ?p)) = [0, 0, 0, 10]" "be_bytes 4 0 = [0, 0, 0, 0]" by (simp_all add: be_bytes_4 ToUint8_def)
  show ?thesis
    using h264_draws_payload [of "small_ws [0, 0, 0]" ?d "[[10, 0, 0, 0, 0, 0, 0, 1, 0x65], [7, 0, 0, 1, 0x41, 3]]" ?p "[]" 0 0 16 16
        "configured 16 16" 5] small_ws_inv [of "[0, 0, 0]"] ok nal b
    by (simp add: MAX_RQ_GROW_SIZE_def new_H264Decoder_def configured_def new_H264Context_def) blast
qed

text \<open>
  C24. There are never more than 64 contexts and each rectangle has at most one; the rectangle just decoded has the latest
  stamp, and unless the message asks for a reset every other context survives, except the one used least recently, when the
  table was full and the rectangle was new.
\<close>

theorem h264_keeps_recent:
  assumes "rx_inv w" and "h264_ok d" and "h264_decodeRect now x y width height d w = (d', w', ds, r)"
  shows "length (h4_contexts d') \<le> 64 \<and> distinct (map fst (h4_contexts d')) \<and>
    (r \<noteq> NeedMore \<longrightarrow>
      (\<exists>c. ((x, y, width, height), c) \<in> set (h4_contexts d') \<and> hc_lastUsed c = h4_tick d \<and>
           (\<forall>(j, c') \<in> set (h4_contexts d'). hc_lastUsed c' \<le> hc_lastUsed c)) \<and>
      (be_val (take 4 (drop 4 (unread w))) = 0 \<longrightarrow>
         (\<forall>(j, c) \<in> set (h4_contexts d). j \<noteq> (x, y, width, height) \<longrightarrow>
            (j, c) \<in> set (h4_contexts d') \<or> evicts (x, y, width, height) d j)))"
proof (cases "r = NeedMore")
  case True
  have "h264_ok d'" using h264.refines [OF assms] by blast
  with True show ?thesis by (simp add: h264_ok_def)
next
  case False
  let ?i = "(x, y, width, height)" and ?flags = "be_val (take 4 (drop 4 (unread w)))"
  have l: "8 \<le> length (unread w)"
    using False assms by (rule_tac ccontr) (simp add: h264_decodeRect_def ws_simps)
  then obtain payload where ap: "h264_apply now ?i ?flags payload d = (d', ds, r)"
    using h264_decodeRect_eq [OF assms(1) l, of now x y width height d] assms(3) False
    by (auto split: if_splits prod.splits)
  note c = h264_apply_contexts [OF assms(2) ap]
  have ok: "length (h4_contexts d') \<le> 64" "distinct (map fst (h4_contexts d'))"
      "\<And>j c. (j, c) \<in> set (h4_contexts d') \<Longrightarrow> hc_lastUsed c \<le> h4_tick d"
    using c(1,3) by (auto simp: h264_ok_def)
  have keep: "(j, c) \<in> set (h4_contexts d') \<or> evicts ?i d j"
    if "?flags = 0" "(j, c) \<in> set (h4_contexts d)" "j \<noteq> ?i" for j c
    using c(5) [of j c] that by (simp add: after_reset_def js_and_def ToInt32_nonneg)
  obtain ci where ci: "(?i, ci) \<in> set (h4_contexts d')" "hc_lastUsed ci = h4_tick d" using c(2) by blast
  have "\<forall>(j, c') \<in> set (h4_contexts d'). hc_lastUsed c' \<le> hc_lastUsed ci" using ok(3) ci(2) by auto
  with ci have "\<exists>c. (?i, c) \<in> set (h4_contexts d') \<and> hc_lastUsed c = h4_tick d \<and>
      (\<forall>(j, c') \<in> set (h4_contexts d'). hc_lastUsed c' \<le> hc_lastUsed c)" by blast
  moreover have "?flags = 0 \<longrightarrow> (\<forall>(j, c) \<in> set (h4_contexts d). j \<noteq> ?i \<longrightarrow>
      (j, c) \<in> set (h4_contexts d') \<or> evicts ?i d j)" using keep by blast
  ultimately show ?thesis using ok(1,2) by blast
qed

theorem h264_keeps_recent_witness:
  "\<exists>d' w' ds. h264_decodeRect 5 0 0 16 16 ((new_H264Decoder fresh_global)\<lparr>h4_tick := 3\<rparr>) (small_ws [0, 0, 0, 0, 0, 0, 0, 0]) =
      (d', w', ds, Done) \<and> (\<exists>c. ((0, 0, 16, 16), c) \<in> set (h4_contexts d') \<and> hc_lastUsed c = 3)"
proof -
  let ?d = "(new_H264Decoder fresh_global)\<lparr>h4_tick := 3\<rparr>" and ?bs = "[0, 0, 0, 0, 0, 0, 0, 0 :: byte]"
  have w: "rx_inv (small_ws ?bs)" "unread (small_ws ?bs) = ?bs" using small_ws_inv [of ?bs] by simp_all
  have ok: "h264_ok ?d" by (simp add: h264_ok_def new_H264Decoder_def)
  obtain d' w' ds r where e: "h264_decodeRect 5 0 0 16 16 ?d (small_ws ?bs) = (d', w', ds, r)" by (metis prod_cases4)
  have r: "r = Done"
    using e h264_decodeRect_eq [OF w(1), of 5 0 0 16 16 ?d] w(2)
    by (auto simp: h264_apply_def be_val_def Let_def split: prod.splits)
  from h264_keeps_recent [OF w(1) ok e] r e show ?thesis by (auto simp: new_H264Decoder_def)
qed

text \<open>
  A key frame that comes before any parameter set in the page's lifetime: the profile is kept in the global object, where it
  is undefined and not null, so the check for a missing one passes, a decoder is made and its configuration throws.
\<close>

theorem h264_missing_profile_throws:
  assumes "h264_parse (new_H264Parser payload) = (p, Inr (Some (frame, True)))" and "ps_profileIdc p = JNull"
    and "hg_profileIdc g = JUndef" and "hc_decoder c = None"
  shows "\<exists>c'. h264_decode now g c payload = (g, c', Inl TypeError) \<and>
    hc_decoder c' = Some Unconfigured \<and> hc_calls c' = hc_calls c @ [VNew]"
  using assms
  by (simp add: h264_decode_def decode_loop.simps [of now "new_H264Parser payload"] decode_frame_def keep_params_def
      configureDecoder_def Let_def)

theorem h264_missing_profile_throws_witness:
  "\<exists>c'. h264_decode 5 fresh_global (new_H264Context 16 16) [0, 0, 1, 0x65, 7] = (fresh_global, c', Inl TypeError)"
proof -
  have "h264_parse (new_H264Parser [0, 0, 1, 0x65, 7]) =
      ((new_H264Parser [0, 0, 1, 0x65, 7])\<lparr>ps_index := 5\<rparr>, Inr (Some ([0, 0, 1, 0x65, 7], True)))" by code_simp
  then show ?thesis
    using h264_missing_profile_throws [of "[0, 0, 1, 0x65, 7]" _ "[0, 0, 1, 0x65, 7]" fresh_global "new_H264Context 16 16" 5]
    by (auto simp: new_H264Parser_def fresh_global_def new_H264Context_def)
qed

end
