(* ===== verification/Strings.thy ===== *)
theory Strings
  imports JS_Prelude
begin

text \<open>
  String and integer conversions (\<open>util/strings.js\<close>, \<open>util/int.js\<close>). A JavaScript string is a
  list of UTF-16 code units. \<open>encodeURIComponent\<close> and \<open>decodeURIComponent\<close> are ECMAScript's
  UTF-8 transforms between code units and percent-encoded bytes; composed with \<open>escape\<close> and
  \<open>unescape\<close> they map between code units and strings of characters below 256, one per byte.
\<close>

type_synonym js_string = "int list"

definition toUnsigned32bit :: "int \<Rightarrow> int" where
  "toUnsigned32bit toConvert = js_shr toConvert 0"

definition toSigned32bit_int :: "int \<Rightarrow> int" where
  "toSigned32bit_int toConvert = js_or toConvert 0"

section \<open>Encoding\<close>

definition high_surrogate :: "int \<Rightarrow> bool" where
  "high_surrogate c \<longleftrightarrow> 0xd800 \<le> c \<and> c \<le> 0xdbff"

definition low_surrogate :: "int \<Rightarrow> bool" where
  "low_surrogate c \<longleftrightarrow> 0xdc00 \<le> c \<and> c \<le> 0xdfff"

text \<open>The UTF-8 bytes of a code point.\<close>

definition utf8_point :: "int \<Rightarrow> int list" where
  "utf8_point cp =
     (if cp < 0x80 then [cp]
      else if cp < 0x800 then [0xc0 + cp div 64, 0x80 + cp mod 64]
      else if cp < 0x10000 then [0xe0 + cp div 4096, 0x80 + cp div 64 mod 64, 0x80 + cp mod 64]
      else [0xf0 + cp div 262144, 0x80 + cp div 4096 mod 64, 0x80 + cp div 64 mod 64, 0x80 + cp mod 64])"

text \<open>A surrogate that is not part of a pair is a \<open>URIError\<close>: None.\<close>

fun encodeUTF8 :: "js_string \<Rightarrow> int list option" where
  "encodeUTF8 [] = Some []"
| "encodeUTF8 (c # cs) =
     (if low_surrogate c then None
      else if high_surrogate c then
        (case cs of
           [] \<Rightarrow> None
         | d # ds \<Rightarrow>
             if low_surrogate d
             then map_option (append (utf8_point ((c - 0xd800) * 1024 + (d - 0xdc00) + 0x10000))) (encodeUTF8 ds)
             else None)
      else map_option (append (utf8_point c)) (encodeUTF8 cs))"

section \<open>Decoding\<close>

definition continuation :: "int \<Rightarrow> bool" where
  "continuation b \<longleftrightarrow> 0x80 \<le> b \<and> b \<le> 0xbf"

text \<open>
  One code point off the front of a byte string: its length is read off the first byte, the
  others must be continuation bytes, and overlong forms, surrogates and values beyond the
  last code point are rejected.
\<close>

fun utf8_next :: "int list \<Rightarrow> (int \<times> int list) option" where
  "utf8_next [] = None"
| "utf8_next (b # bs) =
     (if b < 0x80 then Some (b, bs)
      else if 0xc0 \<le> b \<and> b < 0xe0 then
        (case bs of
           b1 # bs1 \<Rightarrow>
             (let cp = (b - 0xc0) * 64 + (b1 - 0x80) in
              if continuation b1 \<and> 0x80 \<le> cp then Some (cp, bs1) else None)
         | _ \<Rightarrow> None)
      else if 0xe0 \<le> b \<and> b < 0xf0 then
        (case bs of
           b1 # b2 # bs2 \<Rightarrow>
             (let cp = (b - 0xe0) * 4096 + (b1 - 0x80) * 64 + (b2 - 0x80) in
              if continuation b1 \<and> continuation b2 \<and> 0x800 \<le> cp \<and> \<not> (0xd800 \<le> cp \<and> cp \<le> 0xdfff)
              then Some (cp, bs2) else None)
         | _ \<Rightarrow> None)
      else if 0xf0 \<le> b \<and> b < 0xf8 then
        (case bs of
           b1 # b2 # b3 # bs3 \<Rightarrow>
             (let cp = (b - 0xf0) * 262144 + (b1 - 0x80) * 4096 + (b2 - 0x80) * 64 + (b3 - 0x80) in
              if continuation b1 \<and> continuation b2 \<and> continuation b3 \<and> 0x10000 \<le> cp \<and> cp \<le> 0x10ffff
              then Some (cp, bs3) else None)
         | _ \<Rightarrow> None)
      else None)"

definition utf16 :: "int \<Rightarrow> js_string" where
  "utf16 cp =
     (if cp < 0x10000 then [cp]
      else [(cp - 0x10000) div 1024 + 0xd800, (cp - 0x10000) mod 1024 + 0xdc00])"

lemma utf8_next_shorter: "utf8_next bs = Some (cp, bs') \<Longrightarrow> length bs' < length bs"
  by (cases bs) (auto simp: Let_def split: if_splits list.splits)

function decode_points :: "int list \<Rightarrow> js_string option" where
  "decode_points bs =
     (if bs = [] then Some []
      else
        (case utf8_next bs of
           None \<Rightarrow> None
         | Some (cp, bs') \<Rightarrow> map_option (append (utf16 cp)) (decode_points bs')))"
  by pat_completeness auto
termination
  by (relation "measure length") (auto dest: utf8_next_shorter)

declare decode_points.simps [simp del]

text \<open>The \<open>URIError\<close> of a malformed string is swallowed when Latin-1 is allowed, else rethrown.\<close>

definition decodeUTF8 :: "js_string \<Rightarrow> bool \<Rightarrow> js_error + js_string" where
  "decodeUTF8 utf8string allowLatin1 =
     (case decode_points utf8string of
        Some s \<Rightarrow> Inr s
      | None \<Rightarrow> if allowLatin1 then Inr utf8string else Inl (JSError ''URIError'' []))"

section \<open>Round trip\<close>

definition code_unit :: "int \<Rightarrow> bool" where
  "code_unit c \<longleftrightarrow> 0 \<le> c \<and> c \<le> 0xffff"

lemma split_64:
  fixes cp :: int
  shows "cp div 64 div 64 * 4096 + cp div 64 mod 64 * 64 + cp mod 64 = cp"
proof -
  have "cp div 64 * 64 + cp mod 64 = cp" "cp div 64 div 64 * 64 + cp div 64 mod 64 = cp div 64"
    by (rule div_mult_mod_eq)+
  then show ?thesis by linarith
qed

lemma div_4096: "(cp :: int) div 4096 = cp div 64 div 64" "(cp :: int) div 262144 = cp div 64 div 64 div 64"
  by (simp_all flip: zdiv_zmult2_eq)

definition scalar_value :: "int \<Rightarrow> bool" where
  "scalar_value cp \<longleftrightarrow> 0 \<le> cp \<and> cp \<le> 0x10ffff \<and> \<not> (0xd800 \<le> cp \<and> cp \<le> 0xdfff)"

lemma utf8_next_point:
  assumes "scalar_value cp"
  shows "utf8_next (utf8_point cp @ rest) = Some (cp, rest)"
proof -
  define q where "q = cp div 64"
  define r where "r = cp mod 64"
  define t where "t = q div 64"
  define u where "u = q mod 64"
  define v where "v = t div 64"
  define x where "x = t mod 64"
  have eq: "cp = q * 64 + r" "q = t * 64 + u" "t = v * 64 + x" and b: "0 \<le> r" "r < 64" "0 \<le> u" "u < 64" "0 \<le> x" "x < 64"
    by (simp_all add: q_def r_def t_def u_def v_def x_def)
  have form: "utf8_point cp =
     (if cp < 0x80 then [cp] else if cp < 0x800 then [0xc0 + q, 0x80 + r]
      else if cp < 0x10000 then [0xe0 + t, 0x80 + u, 0x80 + r]
      else [0xf0 + v, 0x80 + x, 0x80 + u, 0x80 + r])"
    by (simp add: utf8_point_def div_4096 q_def r_def t_def u_def v_def x_def)
  have cp: "0 \<le> cp" "cp \<le> 0x10ffff" "\<not> (0xd800 \<le> cp \<and> cp \<le> 0xdfff)"
    using assms by (auto simp: scalar_value_def)
  consider "cp < 0x80" | "0x80 \<le> cp" "cp < 0x800" | "0x800 \<le> cp" "cp < 0x10000" | "0x10000 \<le> cp" by linarith
  then show ?thesis
  proof cases
    case 1
    then show ?thesis by (simp add: form)
  next
    case 2
    then have "2 \<le> q" "q < 32" using eq b by linarith+
    moreover have "q * 64 + r = cp" using eq by simp
    ultimately show ?thesis using 2 b by (simp add: form continuation_def)
  next
    case 3
    then have "0 \<le> t" "t < 16" using eq b by linarith+
    moreover have "t * 4096 + u * 64 + r = cp" using eq by simp
    ultimately show ?thesis using 3 cp b by (auto simp: form continuation_def)
  next
    case 4
    then have "0 \<le> v" "v < 8" using eq b cp by linarith+
    moreover have "v * 262144 + x * 4096 + u * 64 + r = cp" using eq by simp
    ultimately show ?thesis using 4 cp b by (simp add: form continuation_def)
  qed
qed

lemma utf8_point_not_Nil: "utf8_point cp \<noteq> []"
  by (simp add: utf8_point_def)

lemma decode_point:
  assumes "scalar_value cp"
  shows "decode_points (utf8_point cp @ rest) = map_option (append (utf16 cp)) (decode_points rest)"
  using utf8_next_point [OF assms, of rest] utf8_point_not_Nil [of cp]
  by (subst decode_points.simps) simp

lemma decode_encode:
  "list_all code_unit s \<Longrightarrow> encodeUTF8 s = Some bs \<Longrightarrow> decode_points bs = Some s"
proof (induction s arbitrary: bs rule: encodeUTF8.induct)
  case 1
  then show ?case by (simp add: decode_points.simps)
next
  case (2 c cs)
  have unit: "0 \<le> c" "c \<le> 0xffff" using 2(3) by (auto simp: code_unit_def)
  show ?case
  proof (cases "high_surrogate c")
    case True
    then have nl: "\<not> low_surrogate c" by (auto simp: high_surrogate_def low_surrogate_def)
    with True 2(4) obtain d ds bs' where d: "cs = d # ds" "low_surrogate d" "encodeUTF8 ds = Some bs'"
      "bs = utf8_point ((c - 0xd800) * 1024 + (d - 0xdc00) + 0x10000) @ bs'"
      by (auto split: list.splits if_splits)
    let ?cp = "(c - 0xd800) * 1024 + (d - 0xdc00) + 0x10000"
    have b: "0 \<le> c - 0xd800" "c - 0xd800 < 1024" "0 \<le> d - 0xdc00" "d - 0xdc00 < 1024"
      using True d(2) by (auto simp: high_surrogate_def low_surrogate_def)
    then have "scalar_value ?cp" "0x10000 \<le> ?cp" by (auto simp: scalar_value_def)
    moreover have "(?cp - 0x10000) div 1024 = c - 0xd800" "(?cp - 0x10000) mod 1024 = d - 0xdc00"
    proof -
      have e: "?cp - 0x10000 = (d - 0xdc00) + (c - 0xd800) * 1024" by simp
      show "(?cp - 0x10000) div 1024 = c - 0xd800" unfolding e using b by (subst div_mult_self1) simp_all
      show "(?cp - 0x10000) mod 1024 = d - 0xdc00" unfolding e using b by (subst mod_mult_self1) simp
    qed
    then have "utf16 ?cp = [c, d]" using \<open>0x10000 \<le> ?cp\<close> by (simp add: utf16_def)
    moreover have "decode_points bs' = Some ds"
      using 2(1,3) nl True d by simp
    ultimately show ?thesis using d by (simp add: decode_point)
  next
    case False
    with 2(4) obtain bs' where d: "\<not> low_surrogate c" "encodeUTF8 cs = Some bs'" "bs = utf8_point c @ bs'"
      by (auto split: if_splits)
    have "scalar_value c" "utf16 c = [c]"
      using unit False d(1) by (auto simp: scalar_value_def utf16_def high_surrogate_def low_surrogate_def)
    moreover have "decode_points bs' = Some cs" using 2(2,3) False d by simp
    ultimately show ?thesis using d by (simp add: decode_point)
  qed
qed

text \<open>Every byte of an encoding is a character code below 256.\<close>

lemma utf8_point_bytes:
  assumes "0 \<le> cp" "cp \<le> 0x10ffff"
  shows "list_all (\<lambda>b. 0 \<le> b \<and> b < 256) (utf8_point cp)"
proof -
  have "cp div 64 mod 64 < 64" "cp mod 64 < 64" "cp div 4096 mod 64 < 64" by simp_all
  moreover have "cp < 0x800 \<Longrightarrow> cp div 64 < 32" "cp < 0x10000 \<Longrightarrow> cp div 4096 < 16" "cp div 262144 < 8"
    using assms by auto
  ultimately show ?thesis using assms by (auto simp: utf8_point_def)
qed

section \<open>Properties\<close>

text \<open>
  C31. UTF-8 survives the round trip: a string of UTF-16 code units that \<open>encodeUTF8\<close> accepts
  (surrogates only in pairs) is returned unchanged by \<open>decodeUTF8\<close>, with or without the Latin-1
  fallback, astral characters included.
\<close>

theorem utf8_roundtrip:
  assumes "list_all code_unit s" and "encodeUTF8 s = Some bs"
  shows "decodeUTF8 bs allowLatin1 = Inr s"
  using decode_encode [OF assms] by (simp add: decodeUTF8_def)

theorem utf8_roundtrip_witness:
  "encodeUTF8 [0x41, 0xe9, 0x20ac, 0xd83d, 0xde00] =
     Some [0x41, 0xc3, 0xa9, 0xe2, 0x82, 0xac, 0xf0, 0x9f, 0x98, 0x80] \<and>
   decodeUTF8 [0x41, 0xc3, 0xa9, 0xe2, 0x82, 0xac, 0xf0, 0x9f, 0x98, 0x80] False =
     Inr [0x41, 0xe9, 0x20ac, 0xd83d, 0xde00]"
proof -
  have e: "encodeUTF8 [0x41, 0xe9, 0x20ac, 0xd83d, 0xde00] =
     Some [0x41, 0xc3, 0xa9, 0xe2, 0x82, 0xac, 0xf0, 0x9f, 0x98, 0x80]"
    by (simp add: low_surrogate_def high_surrogate_def utf8_point_def)
  with utf8_roundtrip [OF _ e, of False] show ?thesis by (simp add: code_unit_def)
qed

end
