(* ===== verification/Rfb_Messages.thy ===== *)
theory Rfb_Messages
  imports Websock Strings
begin

text \<open>
  The client-to-server messages, \<open>RFB.messages\<close> and the constants of \<open>rfb.js\<close> and
  \<open>encodings.js\<close>. Messages made of numbers only cannot fail; those that carry a byte string go
  through \<open>sQpushBytes\<close>, so they may raise its error or, as \<open>None\<close>, not return.
\<close>

section \<open>Constants\<close>

definition encodingRaw :: int where "encodingRaw = 0"
definition encodingCopyRect :: int where "encodingCopyRect = 1"
definition encodingRRE :: int where "encodingRRE = 2"
definition encodingHextile :: int where "encodingHextile = 5"
definition encodingZlib :: int where "encodingZlib = 6"
definition encodingTight :: int where "encodingTight = 7"
definition encodingZRLE :: int where "encodingZRLE = 16"
definition encodingTightPNG :: int where "encodingTightPNG = - 260"
definition encodingJPEG :: int where "encodingJPEG = 21"
definition encodingH264 :: int where "encodingH264 = 50"
definition pseudoEncodingQualityLevel0 :: int where "pseudoEncodingQualityLevel0 = - 32"
definition pseudoEncodingDesktopSize :: int where "pseudoEncodingDesktopSize = - 223"
definition pseudoEncodingLastRect :: int where "pseudoEncodingLastRect = - 224"
definition pseudoEncodingCursor :: int where "pseudoEncodingCursor = - 239"
definition pseudoEncodingQEMUExtendedKeyEvent :: int where "pseudoEncodingQEMUExtendedKeyEvent = - 258"
definition pseudoEncodingQEMULedEvent :: int where "pseudoEncodingQEMULedEvent = - 261"
definition pseudoEncodingDesktopName :: int where "pseudoEncodingDesktopName = - 307"
definition pseudoEncodingExtendedDesktopSize :: int where "pseudoEncodingExtendedDesktopSize = - 308"
definition pseudoEncodingXvp :: int where "pseudoEncodingXvp = - 309"
definition pseudoEncodingFence :: int where "pseudoEncodingFence = - 312"
definition pseudoEncodingContinuousUpdates :: int where "pseudoEncodingContinuousUpdates = - 313"
definition pseudoEncodingExtendedMouseButtons :: int where "pseudoEncodingExtendedMouseButtons = - 316"
definition pseudoEncodingCompressLevel0 :: int where "pseudoEncodingCompressLevel0 = - 256"
definition pseudoEncodingVMwareCursor :: int where "pseudoEncodingVMwareCursor = 0x574d5664"
definition pseudoEncodingExtendedClipboard :: int where "pseudoEncodingExtendedClipboard = 0xc0a1e5ce"

lemmas encoding_defs = encodingRaw_def encodingCopyRect_def encodingRRE_def encodingHextile_def encodingZlib_def
  encodingTight_def encodingZRLE_def encodingTightPNG_def encodingJPEG_def encodingH264_def
  pseudoEncodingQualityLevel0_def pseudoEncodingDesktopSize_def pseudoEncodingLastRect_def
  pseudoEncodingCursor_def pseudoEncodingQEMUExtendedKeyEvent_def pseudoEncodingQEMULedEvent_def
  pseudoEncodingDesktopName_def pseudoEncodingExtendedDesktopSize_def pseudoEncodingXvp_def
  pseudoEncodingFence_def pseudoEncodingContinuousUpdates_def pseudoEncodingExtendedMouseButtons_def
  pseudoEncodingCompressLevel0_def pseudoEncodingVMwareCursor_def pseudoEncodingExtendedClipboard_def

definition extendedClipboardFormatText :: int where "extendedClipboardFormatText = 1"
definition extendedClipboardActionCaps :: int where "extendedClipboardActionCaps = js_shl 1 24"
definition extendedClipboardActionRequest :: int where "extendedClipboardActionRequest = js_shl 1 25"
definition extendedClipboardActionPeek :: int where "extendedClipboardActionPeek = js_shl 1 26"
definition extendedClipboardActionNotify :: int where "extendedClipboardActionNotify = js_shl 1 27"
definition extendedClipboardActionProvide :: int where "extendedClipboardActionProvide = js_shl 1 28"

section \<open>Messages\<close>

definition b2i :: "bool \<Rightarrow> int" where
  "b2i b = (if b then 1 else 0)"

definition keyEvent :: "websock \<Rightarrow> int \<Rightarrow> int \<Rightarrow> websock" where
  "keyEvent sock keysym down =
     ws_flush (sQpush32 (sQpush16 (sQpush8 (sQpush8 sock 4) down) 0) keysym)"

definition getRFBkeycode :: "int \<Rightarrow> int" where
  "getRFBkeycode keycode =
     (let upperByte = js_sar keycode 8;
          lowerByte = js_and keycode 0x00ff
      in if upperByte = 0xe0 \<and> lowerByte < 0x7f then js_or lowerByte 0x80 else keycode)"

definition QEMUExtendedKeyEvent :: "websock \<Rightarrow> int \<Rightarrow> bool \<Rightarrow> int \<Rightarrow> websock" where
  "QEMUExtendedKeyEvent sock keysym down keycode =
     (let sock = sQpush8 sock 255;
          sock = sQpush8 sock 0;
          sock = sQpush16 sock (b2i down);
          sock = sQpush32 sock keysym;
          sock = sQpush32 sock (getRFBkeycode keycode)
      in ws_flush sock)"

definition pointerEvent :: "websock \<Rightarrow> int \<Rightarrow> int \<Rightarrow> int \<Rightarrow> websock" where
  "pointerEvent sock x y msk =
     (let sock = sQpush8 sock 5;
          sock = sQpush8 sock (js_and msk 0x7f);
          sock = sQpush16 sock x;
          sock = sQpush16 sock y
      in ws_flush sock)"

definition extendedPointerEvent :: "websock \<Rightarrow> int \<Rightarrow> int \<Rightarrow> int \<Rightarrow> websock \<times> (js_error + unit)" where
  "extendedPointerEvent sock x y msk =
     (let sock = sQpush8 sock 5;
          higherBits = js_and (js_sar msk 7) 0xff
      in if js_and higherBits 0xfc \<noteq> 0 then (sock, Inl (JSError ''Invalid mouse button mask'' [msk]))
         else
           (let sock = sQpush8 sock (js_or (js_and msk 0x7f) 0x80);
                sock = sQpush16 sock x;
                sock = sQpush16 sock y;
                sock = sQpush8 sock higherBits
            in (ws_flush sock, Inr ())))"

definition buildExtendedClipboardFlags :: "int list \<Rightarrow> int list \<Rightarrow> u8array" where
  "buildExtendedClipboardFlags actions formats =
     (let actionFlag = foldl js_or 0 actions;
          formatFlag = foldl js_or 0 formats
      in [ToUint8 (js_sar actionFlag 24), 0x00, 0x00, ToUint8 formatFlag])"

definition clientCutText :: "websock \<Rightarrow> u8array \<Rightarrow> bool \<Rightarrow> (websock \<times> (js_error + unit)) option" where
  "clientCutText sock data extended =
     (let sock = sQpush8 sock 6;
          sock = sQpush8 sock 0;
          sock = sQpush8 sock 0;
          sock = sQpush8 sock 0;
          len = (if extended then toUnsigned32bit (- int (length data)) else int (length data));
          sock = sQpush32 sock len
      in case sQpushBytes sock data of
           None \<Rightarrow> None
         | Some (sock, Inl e) \<Rightarrow> Some (sock, Inl e)
         | Some (sock, Inr _) \<Rightarrow> Some (ws_flush sock, Inr ()))"

text \<open>\<open>replace(/\r\n|\r|\n/gm, "\r\n")\<close>: the alternatives are tried in order at each position.\<close>

fun crlf :: "js_string \<Rightarrow> js_string" where
  "crlf [] = []"
| "crlf (c # cs) =
     (if c = 13 then 13 # 10 # (case cs of d # ds \<Rightarrow> if d = 10 then crlf ds else crlf cs | [] \<Rightarrow> [])
      else if c = 10 then 13 # 10 # crlf cs
      else c # crlf cs)"

text \<open>The data of one \<open>Provide\<close> format: a big-endian size and the NUL-terminated text.\<close>

definition provide_data :: "js_string \<Rightarrow> byte list option" where
  "provide_data inData =
     map_option (\<lambda>text. map ToUint8 [js_and (js_sar (int (length text)) 24) 0xff,
         js_and (js_sar (int (length text)) 16) 0xff, js_and (js_sar (int (length text)) 8) 0xff,
         js_and (int (length text)) 0xff] @ map ToUint8 text)
       (encodeUTF8 (crlf inData @ [0]))"

primrec provide_collect :: "(int \<times> js_string) list \<Rightarrow> js_error + byte list" where
  "provide_collect [] = Inr []"
| "provide_collect (fi # fs) =
     (if fst fi \<noteq> extendedClipboardFormatText
      then Inl (JSError ''Unsupported extended clipboard format for Provide message.'' [])
      else
        (case provide_data (snd fi) of
           None \<Rightarrow> Inl (JSError ''URIError'' [])
         | Some bs \<Rightarrow> (case provide_collect fs of Inl e \<Rightarrow> Inl e | Inr rest \<Rightarrow> Inr (bs @ rest))))"

text \<open>\<open>deflate\<close> is what a fresh \<open>Deflator\<close> makes of its input (pako, a vendored library).\<close>

definition extendedClipboardProvide ::
  "(byte list \<Rightarrow> js_error + byte list) \<Rightarrow> websock \<Rightarrow> (int \<times> js_string) list \<Rightarrow>
     (websock \<times> (js_error + unit)) option" where
  "extendedClipboardProvide deflate sock inData =
     (case provide_collect inData of
        Inl e \<Rightarrow> Some (sock, Inl e)
      | Inr dataToDeflate \<Rightarrow>
          (case deflate dataToDeflate of
             Inl e \<Rightarrow> Some (sock, Inl e)
           | Inr deflatedData \<Rightarrow>
               clientCutText sock
                 (buildExtendedClipboardFlags [extendedClipboardActionProvide] (map fst inData) @ deflatedData) True))"

definition extendedClipboardNotify :: "websock \<Rightarrow> int list \<Rightarrow> (websock \<times> (js_error + unit)) option" where
  "extendedClipboardNotify sock formats =
     clientCutText sock (buildExtendedClipboardFlags [extendedClipboardActionNotify] formats) True"

definition extendedClipboardRequest :: "websock \<Rightarrow> int list \<Rightarrow> (websock \<times> (js_error + unit)) option" where
  "extendedClipboardRequest sock formats =
     clientCutText sock (buildExtendedClipboardFlags [extendedClipboardActionRequest] formats) True"

text \<open>
  The formats are a dictionary from property names to sizes, given as its entries in the order
  \<open>Object.keys\<close> and \<open>sort\<close> leave them (numeric names ascending). \<open>1 << key\<close> converts a name
  to a number, which is 0 for a name that is not a numeral.
\<close>

definition digit :: "char \<Rightarrow> nat option" where
  "digit c = (if of_char c \<in> {48..57 :: nat} then Some (of_char c - 48) else None)"

fun decimal :: "nat \<Rightarrow> string \<Rightarrow> nat option" where
  "decimal acc [] = Some acc"
| "decimal acc (c # cs) = (case digit c of None \<Rightarrow> None | Some d \<Rightarrow> decimal (acc * 10 + d) cs)"

definition caps_shift :: "string \<Rightarrow> int" where
  "caps_shift key = js_shl 1 (case decimal 0 key of None \<Rightarrow> 0 | Some n \<Rightarrow> n)"

definition extendedClipboardCaps ::
  "websock \<Rightarrow> int list \<Rightarrow> (string \<times> int) list \<Rightarrow> (websock \<times> (js_error + unit)) option" where
  "extendedClipboardCaps sock actions formats =
     (let data = buildExtendedClipboardFlags actions [];
          sizes = concat (map (\<lambda>(key, size). [ToUint8 (js_sar size 24), ToUint8 (js_sar size 16),
                     ToUint8 (js_sar size 8), ToUint8 (js_sar size 0)]) formats);
          flags = foldl (\<lambda>f (key, size). ToUint8 (js_or (uint f) (caps_shift key))) (data ! 3) formats
      in clientCutText sock (data[3 := flags] @ sizes) True)"

definition setDesktopSize :: "websock \<Rightarrow> int \<Rightarrow> int \<Rightarrow> int \<Rightarrow> int \<Rightarrow> websock" where
  "setDesktopSize sock width height scr flags =
     (let sock = sQpush8 sock 251;
          sock = sQpush8 sock 0;
          sock = sQpush16 sock width;
          sock = sQpush16 sock height;
          sock = sQpush8 sock 1;
          sock = sQpush8 sock 0;
          sock = sQpush32 sock scr;
          sock = sQpush16 sock 0;
          sock = sQpush16 sock 0;
          sock = sQpush16 sock width;
          sock = sQpush16 sock height;
          sock = sQpush32 sock flags
      in ws_flush sock)"

definition clientFence :: "websock \<Rightarrow> int \<Rightarrow> int list \<Rightarrow> (websock \<times> (js_error + unit)) option" where
  "clientFence sock flags payload =
     (let sock = sQpush8 sock 248;
          sock = sQpush8 sock 0;
          sock = sQpush8 sock 0;
          sock = sQpush8 sock 0;
          sock = sQpush32 sock flags;
          sock = sQpush8 sock (int (length payload))
      in case sQpushString sock payload of
           None \<Rightarrow> None
         | Some (sock, Inl e) \<Rightarrow> Some (sock, Inl e)
         | Some (sock, Inr _) \<Rightarrow> Some (ws_flush sock, Inr ()))"

definition enableContinuousUpdates :: "websock \<Rightarrow> bool \<Rightarrow> int \<Rightarrow> int \<Rightarrow> int \<Rightarrow> int \<Rightarrow> websock" where
  "enableContinuousUpdates sock enable x y width height =
     (let sock = sQpush8 sock 150;
          sock = sQpush8 sock (b2i enable);
          sock = sQpush16 sock x;
          sock = sQpush16 sock y;
          sock = sQpush16 sock width;
          sock = sQpush16 sock height
      in ws_flush sock)"

definition pixelFormat :: "websock \<Rightarrow> int \<Rightarrow> bool \<Rightarrow> websock" where
  "pixelFormat sock depth trueColor =
     (let bpp = (if depth > 16 then 32 else if depth > 8 then 16 else 8);
          bits = depth div 3;
          sock = sQpush8 sock 0;
          sock = sQpush8 sock 0;
          sock = sQpush8 sock 0;
          sock = sQpush8 sock 0;
          sock = sQpush8 sock bpp;
          sock = sQpush8 sock depth;
          sock = sQpush8 sock 0;
          sock = sQpush8 sock (if trueColor then 1 else 0);
          sock = sQpush16 sock (js_shl 1 (nat bits) - 1);
          sock = sQpush16 sock (js_shl 1 (nat bits) - 1);
          sock = sQpush16 sock (js_shl 1 (nat bits) - 1);
          sock = sQpush8 sock (bits * 0);
          sock = sQpush8 sock (bits * 1);
          sock = sQpush8 sock (bits * 2);
          sock = sQpush8 sock 0;
          sock = sQpush8 sock 0;
          sock = sQpush8 sock 0
      in ws_flush sock)"

definition clientEncodings :: "websock \<Rightarrow> int list \<Rightarrow> websock" where
  "clientEncodings sock encodings =
     (let sock = sQpush8 sock 2;
          sock = sQpush8 sock 0;
          sock = sQpush16 sock (int (length encodings));
          sock = foldl sQpush32 sock encodings
      in ws_flush sock)"

definition fbUpdateRequest :: "websock \<Rightarrow> bool \<Rightarrow> int \<Rightarrow> int \<Rightarrow> int \<Rightarrow> int \<Rightarrow> websock" where
  "fbUpdateRequest sock incremental x y w h =
     (let sock = sQpush8 sock 3;
          sock = sQpush8 sock (if incremental then 1 else 0);
          sock = sQpush16 sock x;
          sock = sQpush16 sock y;
          sock = sQpush16 sock w;
          sock = sQpush16 sock h
      in ws_flush sock)"

definition messages_xvpOp :: "websock \<Rightarrow> int \<Rightarrow> int \<Rightarrow> websock" where
  "messages_xvpOp sock ver op =
     (let sock = sQpush8 sock 250;
          sock = sQpush8 sock 0;
          sock = sQpush8 sock ver;
          sock = sQpush8 sock op
      in ws_flush sock)"

section \<open>Wire formats\<close>

text \<open>The pushes on an open socket, as rewrite rules on the outgoing stream.\<close>

named_theorems tx_simps \<open>the outgoing stream of an open socket\<close>

lemma sQpush8_tx [tx_simps]:
  "tx_ready w \<Longrightarrow> tx_ready (sQpush8 w v)" "tx_ready w \<Longrightarrow> outgoing (sQpush8 w v) = outgoing w @ be_bytes 1 v"
  by (simp_all add: sQpush8_ready)

lemma sQpush16_tx [tx_simps]:
  "tx_ready w \<Longrightarrow> tx_ready (sQpush16 w v)" "tx_ready w \<Longrightarrow> outgoing (sQpush16 w v) = outgoing w @ be_bytes 2 v"
  by (simp_all add: sQpush16_ready)

lemma sQpush32_tx [tx_simps]:
  "tx_ready w \<Longrightarrow> tx_ready (sQpush32 w v)" "tx_ready w \<Longrightarrow> outgoing (sQpush32 w v) = outgoing w @ be_bytes 4 v"
  by (simp_all add: sQpush32_ready)

lemma ws_flush_tx [tx_simps]:
  "tx_ready w \<Longrightarrow> tx_ready (ws_flush w)" "tx_ready w \<Longrightarrow> outgoing (ws_flush w) = outgoing w"
  by (simp_all add: ws_flush_ready)

lemma push32s_tx [tx_simps]:
  "tx_ready w \<Longrightarrow> tx_ready (foldl sQpush32 w vs) \<and> outgoing (foldl sQpush32 w vs) = outgoing w @ concat (map (be_bytes 4) vs)"
  by (induction vs arbitrary: w) (simp_all add: tx_simps)

lemma sQpushBytes_txE:
  assumes "tx_ready w"
  obtains w' where "sQpushBytes w bs = Some (w', Inr ())" "tx_ready w'" "outgoing w' = outgoing w @ bs"
  using sQpushBytes_loop_ready [OF assms, of 0 bs] by (auto simp: sQpushBytes_def)

text \<open>A message is sent: the socket stays open, its bytes are appended and nothing else.\<close>

definition sends :: "websock \<Rightarrow> websock \<Rightarrow> byte list \<Rightarrow> bool" where
  "sends w w' bs \<longleftrightarrow> tx_ready w' \<and> outgoing w' = outgoing w @ bs"

lemma clientCutText_sends:
  assumes "tx_ready w"
  shows "\<exists>w'. clientCutText w data ext = Some (w', Inr ()) \<and>
    sends w w' ([6, 0, 0, 0] @ be_bytes 4 (if ext then - int (length data) else int (length data)) @ data)"
proof -
  let ?len = "if ext then toUnsigned32bit (- int (length data)) else int (length data)"
  let ?w = "sQpush32 (sQpush8 (sQpush8 (sQpush8 (sQpush8 w 6) 0) 0) 0) ?len"
  have r: "tx_ready ?w" using assms by (simp add: tx_simps)
  then obtain w' where w': "sQpushBytes ?w data = Some (w', Inr ())" "tx_ready w'" "outgoing w' = outgoing ?w @ data"
    by (rule sQpushBytes_txE)
  have m: "be_bytes 4 (toUnsigned32bit v) = be_bytes 4 v" for v
  proof -
    have "be_val (be_bytes 4 (toUnsigned32bit v)) = be_val (be_bytes 4 v)"
      by (simp add: be_val_be_bytes toUnsigned32bit_def js_shr_def ToUint32_def)
    then show ?thesis by (metis be_bytes_be_val length_be_bytes)
  qed
  have "outgoing ?w = outgoing w @ [6, 0, 0, 0] @ be_bytes 4 (if ext then - int (length data) else int (length data))"
    using assms by (simp add: tx_simps m ToUint8_def)
  with w' show ?thesis
    by (auto simp: clientCutText_def Let_def sends_def tx_simps)
qed

lemma clientFence_sends:
  assumes "tx_ready w"
  shows "\<exists>w'. clientFence w flags payload = Some (w', Inr ()) \<and>
    sends w w' ([248, 0, 0, 0] @ be_bytes 4 flags @ [ToUint8 (int (length payload))] @ map ToUint8 payload)"
proof -
  let ?w = "sQpush8 (sQpush32 (sQpush8 (sQpush8 (sQpush8 (sQpush8 w 248) 0) 0) 0) flags) (int (length payload))"
  have r: "tx_ready ?w" using assms by (simp add: tx_simps)
  then obtain w' where w': "sQpushBytes ?w (map ToUint8 payload) = Some (w', Inr ())" "tx_ready w'"
      "outgoing w' = outgoing ?w @ map ToUint8 payload"
    by (rule sQpushBytes_txE)
  have "outgoing ?w = outgoing w @ [248, 0, 0, 0] @ be_bytes 4 flags @ [ToUint8 (int (length payload))]"
    using assms by (simp add: tx_simps ToUint8_def)
  with w' show ?thesis
    by (auto simp: clientFence_def Let_def sends_def tx_simps sQpushString_def)
qed

text \<open>The flags of an extended clipboard message: its action, and its formats.\<close>

lemma clipboard_flags:
  "buildExtendedClipboardFlags [extendedClipboardActionNotify] fs = [8, 0, 0, ToUint8 (foldl js_or 0 fs)]"
  "buildExtendedClipboardFlags [extendedClipboardActionRequest] fs = [2, 0, 0, ToUint8 (foldl js_or 0 fs)]"
  "buildExtendedClipboardFlags [extendedClipboardActionProvide] fs = [16, 0, 0, ToUint8 (foldl js_or 0 fs)]"
  by (simp_all add: buildExtendedClipboardFlags_def extendedClipboardActionNotify_def extendedClipboardActionRequest_def
    extendedClipboardActionProvide_def js_or_def js_shl_def js_sar_def ToInt32_nonneg ToUint8_def)

lemma sar_byte: "k \<le> 24 \<Longrightarrow> ToUint8 (js_sar v k) = ToUint8 (v div 2 ^ k)"
  by (simp add: js_sar_def ToUint8_eq_iff ToInt32_byte_at)

lemma size_bytes: "[ToUint8 (js_sar v 24), ToUint8 (js_sar v 16), ToUint8 (js_sar v 8), ToUint8 (js_sar v 0)] = be_bytes 4 v"
  by (simp add: sar_byte be_bytes_4)

lemma extendedPointerEvent_sends:
  assumes "tx_ready w" and "0 \<le> msk" and "msk < 512"
  shows "\<exists>w'. extendedPointerEvent w x y msk = (w', Inr ()) \<and>
    sends w w' ([5, ToUint8 (msk mod 128 + 128)] @ be_bytes 2 x @ be_bytes 2 y @ [ToUint8 (msk div 128)])"
proof -
  have h: "js_and (js_sar msk 7) 0xff = msk div 128"
    using assms by (simp add: js_sar_small js_and_masks)
  have "js_and msk 0x7f = msk mod 128" using assms by (simp add: js_and_masks)
  moreover have "js_or (msk mod 128) 0x80 = msk mod 128 + 128"
  proof -
    have "(msk mod 128) OR 128 = msk mod 128 + 128"
      using or_shifted [of "msk mod 128" 7 1] by simp
    then show ?thesis using assms by (simp add: js_or_def ToInt32_nonneg)
  qed
  moreover have "msk div 128 \<in> {0, 1, 2, 3}" using assms(2,3) by auto
  then have "js_and (msk div 128) 0xfc = 0" by (auto simp: js_and_def ToInt32_nonneg)
  ultimately show ?thesis
    using assms(1) by (simp add: extendedPointerEvent_def Let_def h sends_def tx_simps ToUint8_def)
qed

text \<open>An extended clipboard message is a cut text of negative length.\<close>

definition clip_bytes :: "byte list \<Rightarrow> byte list" where
  "clip_bytes data = [6, 0, 0, 0] @ be_bytes 4 (- int (length data)) @ data"

lemma clip_sends:
  "tx_ready w \<Longrightarrow> \<exists>w'. clientCutText w data True = Some (w', Inr ()) \<and> sends w w' (clip_bytes data)"
  using clientCutText_sends [of w data True] by (simp add: clip_bytes_def)

lemma low_byte: "ToUint8 (js_and x 0xff) = ToUint8 x"
  using ToInt32_byte_at [of 0 x] by (simp add: js_and_def ToInt32_nonneg ToUint8_eq_iff and_255)

lemma ToUint8_ToInt32: "ToUint8 (ToInt32 c) = ToUint8 c"
  using ToInt32_byte_at [of 0 c] by (simp add: ToUint8_eq_iff)

definition text_entry :: "int list \<Rightarrow> byte list" where
  "text_entry u = be_bytes 4 (int (length u)) @ map ToUint8 u"

lemma provide_collect_texts:
  assumes "list_all2 (\<lambda>t u. encodeUTF8 (crlf t @ [0]) = Some u) texts us"
  shows "provide_collect (map (Pair extendedClipboardFormatText) texts) = Inr (concat (map text_entry us))"
  using assms
proof (induction rule: list_all2_induct)
  case (Cons t ts u us)
  have "provide_data t = Some (text_entry u)"
    using Cons(1)
    by (simp add: provide_data_def low_byte text_entry_def ToUint8_ToInt32 js_sar_def [of _ 0] flip: size_bytes)
  with Cons show ?case by simp
qed simp

lemma text_flags: "foldl js_or 0 (map fst (map (Pair extendedClipboardFormatText) (texts :: js_string list))) = (if texts = [] then 0 else 1)"
proof -
  have o: "js_or 0 1 = 1" "js_or 1 1 = 1" by (simp_all add: js_or_def ToInt32_nonneg)
  have one: "foldl js_or 1 (map (\<lambda>_. 1) ts) = 1" for ts :: "js_string list"
    by (induction ts) (simp_all add: o)
  show ?thesis by (cases texts) (simp_all add: o one comp_def extendedClipboardFormatText_def)
qed

lemma provide_sends:
  assumes "tx_ready w" and "list_all2 (\<lambda>t u. encodeUTF8 (crlf t @ [0]) = Some u) texts us" and "deflate (concat (map text_entry us)) = Inr z"
  shows "\<exists>w'. extendedClipboardProvide deflate w (map (Pair extendedClipboardFormatText) texts) = Some (w', Inr ()) \<and>
    sends w w' (clip_bytes ([16, 0, 0, if texts = [] then 0 else 1] @ z))"
proof -
  have "buildExtendedClipboardFlags [extendedClipboardActionProvide] (map fst (map (Pair extendedClipboardFormatText) texts)) =
      [16, 0, 0, if texts = [] then 0 else 1]"
    unfolding clipboard_flags text_flags by (simp add: ToUint8_def)
  then have "extendedClipboardProvide deflate w (map (Pair extendedClipboardFormatText) texts) =
      clientCutText w ([16, 0, 0, if texts = [] then 0 else 1] @ z) True"
    using provide_collect_texts [OF assms(2)] assms(3) by (simp add: extendedClipboardProvide_def)
  then show ?thesis using clip_sends [OF assms(1)] by simp
qed

lemma caps_flags: "ToUint8 (js_or (uint f) c) = f OR ToUint8 c"
proof -
  have "js_or (uint f) c = uint f OR ToInt32 c" by (simp add: js_or_def)
  moreover have "(word_of_int (uint f OR m) :: byte) = f OR word_of_int m" for m
    by (rule bit_word_eqI) (simp add: bit_simps bit_uint_iff)
  ultimately have "ToUint8 (js_or (uint f) c) = f OR ToUint8 (ToInt32 c)" by (simp add: ToUint8_def)
  then show ?thesis by (simp add: ToUint8_ToInt32)
qed

lemma zero_byte: "ToUint8 0 = 0"
  by (simp add: ToUint8_def)

lemma caps_sends:
  assumes "tx_ready w"
  shows "\<exists>w'. extendedClipboardCaps w actions fmts = Some (w', Inr ()) \<and>
    sends w w' (clip_bytes ([ToUint8 (js_sar (foldl js_or 0 actions) 24), 0, 0,
      foldl (\<lambda>f k. f OR ToUint8 (caps_shift k)) 0 (map fst fmts)] @ concat (map (be_bytes 4) (map snd fmts))))"
proof -
  have "extendedClipboardCaps w actions fmts = clientCutText w ([ToUint8 (js_sar (foldl js_or 0 actions) 24), 0, 0,
      foldl (\<lambda>f k. f OR ToUint8 (caps_shift k)) 0 (map fst fmts)] @ concat (map (be_bytes 4) (map snd fmts))) True"
    by (simp add: extendedClipboardCaps_def Let_def caps_flags size_bytes buildExtendedClipboardFlags_def foldl_map case_prod_beta'
      comp_def zero_byte)
  then show ?thesis using clip_sends [OF assms] by simp
qed

text \<open>The five extended messages together.\<close>

lemma extended_messages:
  assumes "tx_ready w"
  shows "(0 \<le> msk \<and> msk < 512 \<longrightarrow> (\<exists>w'. extendedPointerEvent w x y msk = (w', Inr ()) \<and>
      sends w w' ([5, ToUint8 (msk mod 128 + 128)] @ be_bytes 2 x @ be_bytes 2 y @ [ToUint8 (msk div 128)]))) \<and>
    (\<exists>w'. extendedClipboardNotify w fs = Some (w', Inr ()) \<and>
      sends w w' (clip_bytes [8, 0, 0, ToUint8 (foldl js_or 0 fs)])) \<and>
    (\<exists>w'. extendedClipboardRequest w fs = Some (w', Inr ()) \<and>
      sends w w' (clip_bytes [2, 0, 0, ToUint8 (foldl js_or 0 fs)])) \<and>
    (list_all2 (\<lambda>t u. encodeUTF8 (crlf t @ [0]) = Some u) texts us \<and> deflate (concat (map text_entry us)) = Inr z \<longrightarrow>
      (\<exists>w'. extendedClipboardProvide deflate w (map (Pair extendedClipboardFormatText) texts) = Some (w', Inr ()) \<and>
        sends w w' (clip_bytes ([16, 0, 0, if texts = [] then 0 else 1] @ z)))) \<and>
    (\<exists>w'. extendedClipboardCaps w actions fmts = Some (w', Inr ()) \<and>
      sends w w' (clip_bytes ([ToUint8 (js_sar (foldl js_or 0 actions) 24), 0, 0,
        foldl (\<lambda>f k. f OR ToUint8 (caps_shift k)) 0 (map fst fmts)] @ concat (map (be_bytes 4) (map snd fmts)))))"
  using extendedPointerEvent_sends [OF assms, of msk x y] provide_sends [OF assms, of texts us deflate z]
    caps_sends [OF assms, of actions fmts] clip_sends [OF assms, of "[8, 0, 0, ToUint8 (foldl js_or 0 fs)]"]
    clip_sends [OF assms, of "[2, 0, 0, ToUint8 (foldl js_or 0 fs)]"]
  unfolding extendedClipboardNotify_def extendedClipboardRequest_def clipboard_flags by blast

text \<open>
  C22. On an open socket every client message is the message of the protocol: type byte,
  padding, and each field big-endian at its width, whatever was queued before and however the
  send queue has to be flushed on the way. This includes the extended pointer event (buttons 0
  to 6 in the mask byte, under the marker bit 128, and buttons 7 and 8 in a last byte) and the
  extended clipboard: a cut text of negative length, whose data are the flags (the action in the
  first byte, the formats in the last), and then for a Provide the compressed texts (each in UTF-8
  with CRLF line ends and a final zero, after its length) and for a Caps the sizes of the formats.
\<close>

theorem messages_wire_format:
  assumes "tx_ready w"
  shows "sends w (keyEvent w keysym down) ([4, ToUint8 down, 0, 0] @ be_bytes 4 keysym) \<and>
    sends w (QEMUExtendedKeyEvent w keysym pressed code)
      ([255, 0] @ be_bytes 2 (b2i pressed) @ be_bytes 4 keysym @ be_bytes 4 (getRFBkeycode code)) \<and>
    sends w (pointerEvent w x y msk) ([5, ToUint8 (js_and msk 0x7f)] @ be_bytes 2 x @ be_bytes 2 y) \<and>
    sends w (setDesktopSize w width height scr flags)
      ([251, 0] @ be_bytes 2 width @ be_bytes 2 height @ [1, 0] @ be_bytes 4 scr @ [0, 0, 0, 0] @
       be_bytes 2 width @ be_bytes 2 height @ be_bytes 4 flags) \<and>
    sends w (enableContinuousUpdates w enable x y width height)
      ([150, ToUint8 (b2i enable)] @ be_bytes 2 x @ be_bytes 2 y @ be_bytes 2 width @ be_bytes 2 height) \<and>
    sends w (pixelFormat w 24 True)
      [0, 0, 0, 0, 32, 24, 0, 1, 0, 255, 0, 255, 0, 255, 0, 8, 16, 0, 0, 0] \<and>
    sends w (pixelFormat w 8 True)
      [0, 0, 0, 0, 8, 8, 0, 1, 0, 3, 0, 3, 0, 3, 0, 2, 4, 0, 0, 0] \<and>
    sends w (clientEncodings w encs)
      ([2, 0] @ be_bytes 2 (int (length encs)) @ concat (map (be_bytes 4) encs)) \<and>
    sends w (fbUpdateRequest w inc x y width height)
      ([3, ToUint8 (b2i inc)] @ be_bytes 2 x @ be_bytes 2 y @ be_bytes 2 width @ be_bytes 2 height) \<and>
    sends w (messages_xvpOp w ver op) [250, 0, ToUint8 ver, ToUint8 op] \<and>
    (\<exists>w'. clientCutText w data ext = Some (w', Inr ()) \<and> sends w w'
      ([6, 0, 0, 0] @ be_bytes 4 (if ext then - int (length data) else int (length data)) @ data)) \<and>
    (\<exists>w'. clientFence w flags payload = Some (w', Inr ()) \<and> sends w w'
      ([248, 0, 0, 0] @ be_bytes 4 flags @ [ToUint8 (int (length payload))] @ map ToUint8 payload)) \<and>
    (0 \<le> msk \<and> msk < 512 \<longrightarrow> (\<exists>w'. extendedPointerEvent w x y msk = (w', Inr ()) \<and>
      sends w w' ([5, ToUint8 (msk mod 128 + 128)] @ be_bytes 2 x @ be_bytes 2 y @ [ToUint8 (msk div 128)]))) \<and>
    (\<exists>w'. extendedClipboardNotify w fs = Some (w', Inr ()) \<and>
      sends w w' (clip_bytes [8, 0, 0, ToUint8 (foldl js_or 0 fs)])) \<and>
    (\<exists>w'. extendedClipboardRequest w fs = Some (w', Inr ()) \<and>
      sends w w' (clip_bytes [2, 0, 0, ToUint8 (foldl js_or 0 fs)])) \<and>
    (list_all2 (\<lambda>t u. encodeUTF8 (crlf t @ [0]) = Some u) texts us \<and> deflate (concat (map text_entry us)) = Inr z \<longrightarrow>
      (\<exists>w'. extendedClipboardProvide deflate w (map (Pair extendedClipboardFormatText) texts) = Some (w', Inr ()) \<and>
        sends w w' (clip_bytes ([16, 0, 0, if texts = [] then 0 else 1] @ z)))) \<and>
    (\<exists>w'. extendedClipboardCaps w actions fmts = Some (w', Inr ()) \<and>
      sends w w' (clip_bytes ([ToUint8 (js_sar (foldl js_or 0 actions) 24), 0, 0,
        foldl (\<lambda>f k. f OR ToUint8 (caps_shift k)) 0 (map fst fmts)] @ concat (map (be_bytes 4) (map snd fmts)))))"
  using assms clientCutText_sends [OF assms, of data ext] clientFence_sends [OF assms, of flags payload]
    extended_messages [OF assms, of msk x y fs texts us deflate z actions fmts]
  by (simp add: sends_def tx_simps keyEvent_def QEMUExtendedKeyEvent_def pointerEvent_def setDesktopSize_def
      enableContinuousUpdates_def pixelFormat_def clientEncodings_def fbUpdateRequest_def messages_xvpOp_def
      Let_def b2i_def be_bytes_2 js_shl_small ToUint8_def)

theorem messages_wire_format_witness:
  "outgoing (keyEvent (small_ws []) 0xffe3 1) = [4, 1, 0, 0, 0, 0, 0xff, 0xe3] \<and>
   outgoing (fbUpdateRequest (small_ws []) True 0 0 640 480) = [3, 1, 0, 0, 0, 0, 2, 128, 1, 224] \<and>
   outgoing (fst (extendedPointerEvent (small_ws []) 5 6 257)) = [5, 129, 0, 5, 0, 6, 2] \<and>
   map_option (\<lambda>(w, _). outgoing w) (extendedClipboardProvide Inr (small_ws []) [(1, [104, 105])]) =
     Some [6, 0, 0, 0, 255, 255, 255, 245, 16, 0, 0, 1, 0, 0, 0, 3, 104, 105, 0]"
proof -
  let ?w = "small_ws []"
  have ready: "tx_ready ?w" using small_ws_ready [of "[]"] by simp
  note m = messages_wire_format [where w = ?w, OF ready]
  have k: "sends ?w (keyEvent ?w 0xffe3 1) ([4, ToUint8 1, 0, 0] @ be_bytes 4 0xffe3)" by (rule conjunct1 [OF m])
  have f: "sends ?w (fbUpdateRequest ?w True 0 0 640 480)
      ([3, ToUint8 (b2i True)] @ be_bytes 2 0 @ be_bytes 2 0 @ be_bytes 2 640 @ be_bytes 2 480)" 
    using messages_wire_format [where w = ?w and inc = True and x = 0 and y = 0 and width = 640 and height = 480, OF ready]
    by (simp only: simp_thms)
  have "\<exists>w'. extendedPointerEvent ?w 5 6 257 = (w', Inr ()) \<and>
      sends ?w w' ([5, ToUint8 (257 mod 128 + 128)] @ be_bytes 2 5 @ be_bytes 2 6 @ [ToUint8 (257 div 128)])"
    using messages_wire_format [where w = ?w and msk = 257 and x = 5 and y = 6, OF ready] by simp
  then obtain wp where p: "extendedPointerEvent ?w 5 6 257 = (wp, Inr ())"
    "sends ?w wp ([5, ToUint8 (257 mod 128 + 128)] @ be_bytes 2 5 @ be_bytes 2 6 @ [ToUint8 (257 div 128)])" by blast
  have u: "encodeUTF8 (crlf [104, 105] @ [0]) = Some [104, 105, 0]" by code_simp
  then have l: "list_all2 (\<lambda>t u. encodeUTF8 (crlf t @ [0]) = Some u) [[104, 105]] [[104, 105, 0]] \<and>
      Inr (concat (map text_entry [[104, 105, 0]])) = (Inr (text_entry [104, 105, 0]) :: js_error + byte list)"
    by (simp only: list_all2_Cons list.map concat.simps append_Nil2) simp
  have "\<exists>w'. extendedClipboardProvide Inr ?w (map (Pair extendedClipboardFormatText) [[104, 105]]) = Some (w', Inr ()) \<and>
      sends ?w w' (clip_bytes ([16, 0, 0, if [[104, 105 :: int]] = [] then 0 else 1] @ text_entry [104, 105, 0]))"
    using messages_wire_format [where w = ?w and texts = "[[104, 105]]" and us = "[[104, 105, 0]]" and deflate = Inr
      and z = "text_entry [104, 105, 0]", OF ready] l by (simp only: simp_thms)
  then obtain wc where c: "extendedClipboardProvide Inr ?w [(extendedClipboardFormatText, [104, 105])] = Some (wc, Inr ())"
    "sends ?w wc (clip_bytes ([16, 0, 0, 1] @ text_entry [104, 105, 0]))" by auto
  show ?thesis using k f p c small_ws_ready [of "[]"]
    by (simp add: sends_def be_bytes_2 be_bytes_4 ToUint8_def b2i_def clip_bytes_def text_entry_def extendedClipboardFormatText_def)
qed

end
