(* ===== verification/Rfb_State.thy ===== *)
theory Rfb_State
  imports Display Decoder_Base Rfb_Messages
begin

text \<open>
  The RFB object of \<open>rfb.js\<close>: its fields, the connection state machine, the viewport
  plumbing and the messages the other methods share. Numbers that JavaScript keeps as the
  decimals 3.3, 3.7 and 3.8 are tenths. Dispatched events are logged in order. What the page
  provides (element sizes, the clock, codec support) is an argument, the record \<open>env\<close>.
\<close>

section \<open>State\<close>

datatype conn_state = NoState | Connecting | Connected | Disconnecting | Disconnected

datatype init_state = NoInit | ProtocolVersion | Security | Authentication | SecurityResult
  | SecurityReason | ClientInitialisation | ServerInitialisation

datatype event =
    EvConnect
  | EvDisconnect bool                          \<comment> \<open>clean\<close>
  | EvCredentialsRequired "string list"
  | EvSecurityFailure int "js_string option"   \<comment> \<open>status, reason\<close>
  | EvDesktopName js_string
  | EvCapabilities bool                        \<comment> \<open>power\<close>
  | EvClippingViewport bool
  | EvBell
  | EvClipboard js_string

record credentials =
  cr_username :: "js_string option"
  cr_password :: "js_string option"
  cr_target :: "js_string option"
  cr_ardCredentials :: "byte list option"
  cr_ardPublicKey :: "byte list option"

record cursor_image =
  cu_rgba :: "int list"
  cu_hotx :: int
  cu_hoty :: int
  cu_w :: int
  cu_h :: int

record env =
  env_now :: int
  env_screen :: "rat \<times> rat"                   \<comment> \<open>\<open>getBoundingClientRect\<close> of the screen element\<close>
  env_client :: "int \<times> int"                   \<comment> \<open>its client size\<close>
  env_h264 :: bool                             \<comment> \<open>\<open>supportsWebCodecsH264Decode\<close>\<close>

record 'd rfb =
  rf_sock :: websock
  rf_display :: display
  rf_decoders :: 'd
  rf_url :: "string option"
  rf_rawChannel :: "channel option"
  rf_wsProtocols :: "string list"
  rf_credentials :: credentials
  rf_shared :: bool
  rf_repeaterID :: js_string
  rf_connectionState :: conn_state
  rf_initState :: init_state
  rf_authScheme :: int
  rf_cleanDisconnect :: bool
  rf_rsaaes :: "bool option"                   \<comment> \<open>the RA2 object, with \<open>hasStarted\<close>\<close>
  rf_version :: int
  rf_tightVNC :: bool
  rf_veNCryptState :: int
  rf_veNCryptSubtypesLength :: int
  rf_xvpVer :: int
  rf_fbWidth :: int
  rf_fbHeight :: int
  rf_fbName :: js_string
  rf_fbDepth :: int
  rf_power :: bool
  rf_supportsFence :: bool
  rf_supportsContinuousUpdates :: bool
  rf_enabledContinuousUpdates :: bool
  rf_supportsSetDesktopSize :: bool
  rf_screenID :: int
  rf_screenFlags :: int
  rf_pendingRemoteResize :: bool
  rf_lastResize :: int
  rf_resizeTimeout :: "int option"             \<comment> \<open>delay of the pending timer\<close>
  rf_qemuExtKeyEventSupported :: bool
  rf_extendedPointerEventSupported :: bool
  rf_clipboardText :: "js_string option"
  rf_clipboardActions :: "int \<Rightarrow> bool"
  rf_clipboardFormats :: "int \<Rightarrow> bool"
  rf_flushing :: bool
  rf_disconnTimer :: bool
  rf_mouseMoveTimer :: "int option"            \<comment> \<open>delay of the pending timer\<close>
  rf_mousePos :: "rat \<times> rat"
  rf_mouseButtonMask :: int
  rf_mouseLastMoveTime :: int
  rf_viewportDragging :: bool
  rf_viewportDragPos :: "rat \<times> rat"
  rf_viewportHasMoved :: bool
  rf_dragViewport :: bool
  rf_wheelDeltaX :: rat
  rf_wheelDeltaY :: rat
  rf_FBU_rects :: nat
  rf_FBU_x :: int
  rf_FBU_y :: int
  rf_FBU_width :: nat
  rf_FBU_height :: nat
  rf_FBU_encoding :: "int option"
  rf_remoteCapsLock :: "bool option"
  rf_remoteNumLock :: "bool option"
  rf_viewOnly :: bool
  rf_clipViewport :: bool
  rf_clippingViewport :: bool
  rf_scaleViewport :: bool
  rf_resizeSession :: bool
  rf_showDotCursor :: bool
  rf_qualityLevel :: int
  rf_compressionLevel :: int
  rf_cursorImage :: cursor_image
  rf_cursorShown :: "cursor_image option"      \<comment> \<open>argument of the last \<open>_cursor.change\<close>\<close>
  rf_securityContext :: string
  rf_securityStatus :: int
  rf_expectedClient :: "(int \<times> int) option"
  rf_ardRequest :: "(byte list \<times> int \<times> byte list \<times> byte list) option"
      \<comment> \<open>pending key exchange: generator, key length, prime, server key\<close>
  rf_resumes :: nat                            \<comment> \<open>pending calls of \<open>_resumeAuthentication\<close>\<close>
  rf_grabbed :: bool                           \<comment> \<open>keyboard grabbed\<close>
  rf_attached :: bool                          \<comment> \<open>elements and listeners installed in the page\<close>
  rf_events :: "event list"

text \<open>What a handler answers: a truth value, an exception, or nothing because it never returns.\<close>

datatype ret = Ret bool | Throw js_error | Hang

definition dispatch :: "'d rfb \<Rightarrow> event \<Rightarrow> 'd rfb" where
  "dispatch r ev = r\<lparr>rf_events := rf_events r @ [ev]\<rparr>"

definition with_sock :: "'d rfb \<Rightarrow> (websock \<Rightarrow> websock) \<Rightarrow> 'd rfb" where
  "with_sock r f = r\<lparr>rf_sock := f (rf_sock r)\<rparr>"

text \<open>A send that carries bytes, then the rest of the method.\<close>

definition sending :: "'d rfb \<Rightarrow> (websock \<times> (js_error + unit)) option \<Rightarrow> ('d rfb \<Rightarrow> 'd rfb \<times> ret) \<Rightarrow> 'd rfb \<times> ret" where
  "sending r sent rest =
     (case sent of
        None \<Rightarrow> (r, Hang)
      | Some (w, Inl e) \<Rightarrow> (r\<lparr>rf_sock := w\<rparr>, Throw e)
      | Some (w, Inr _) \<Rightarrow> rest (r\<lparr>rf_sock := w\<rparr>))"

section \<open>Connection state\<close>

text \<open>The transition check of \<open>_updateConnectionState\<close>, including the refusal of a repeated state.\<close>

definition transition_ok :: "conn_state \<Rightarrow> conn_state \<Rightarrow> bool" where
  "transition_ok oldstate state \<longleftrightarrow>
     state \<noteq> oldstate \<and> oldstate \<noteq> Disconnected \<and>
     (case state of
        Connected \<Rightarrow> oldstate = Connecting
      | Disconnected \<Rightarrow> oldstate = Disconnecting
      | Connecting \<Rightarrow> oldstate = NoState
      | Disconnecting \<Rightarrow> oldstate = Connected \<or> oldstate = Connecting
      | NoState \<Rightarrow> False)"

definition enter_state :: "'d rfb \<Rightarrow> conn_state \<Rightarrow> 'd rfb" where
  "enter_state r state =
     (let r = r\<lparr>rf_connectionState := state\<rparr>
      in if rf_disconnTimer r \<and> state \<noteq> Disconnecting
         then (with_sock r (\<lambda>w. ws_off w ''close''))\<lparr>rf_disconnTimer := False\<rparr> else r)"

text \<open>Clearing the two timers cancels their callbacks but leaves the fields that name them.\<close>

definition rfb_disconnect :: "'d rfb \<Rightarrow> 'd rfb" where
  "rfb_disconnect r = (with_sock r ws_close)\<lparr>rf_attached := False, rf_grabbed := False\<rparr>"

text \<open>The three transitions that do not open a connection.\<close>

definition leaveConnectionState :: "'d rfb \<Rightarrow> conn_state \<Rightarrow> 'd rfb" where
  "leaveConnectionState r state =
     (if \<not> transition_ok (rf_connectionState r) state then r
      else
        (let r = enter_state r state in
         case state of
           Connected \<Rightarrow> dispatch r EvConnect
         | Disconnecting \<Rightarrow> (rfb_disconnect r)\<lparr>rf_disconnTimer := True\<rparr>
         | Disconnected \<Rightarrow> dispatch r (EvDisconnect (rf_cleanDisconnect r))
         | _ \<Rightarrow> r))"

definition fail :: "'d rfb \<Rightarrow> 'd rfb" where
  "fail r =
     (let r = r\<lparr>rf_cleanDisconnect := False\<rparr>;
          r = leaveConnectionState r Disconnecting
      in leaveConnectionState r Disconnected)"

text \<open>\<open>return this._fail(...)\<close>\<close>

definition failing :: "'d rfb \<Rightarrow> 'd rfb \<times> ret" where
  "failing r = (fail r, Ret False)"

definition socketOpen :: "'d rfb \<Rightarrow> 'd rfb" where
  "socketOpen r =
     (if rf_connectionState r = Connecting \<and> rf_initState r = NoInit
      then r\<lparr>rf_initState := ProtocolVersion\<rparr> else fail r)"

definition cursor_none :: cursor_image where
  "cursor_none = \<lparr>cu_rgba = [], cu_hotx = 0, cu_hoty = 0, cu_w = 0, cu_h = 0\<rparr>"

definition cursor_dot :: cursor_image where
  "cursor_dot = \<lparr>cu_rgba = [255, 255, 255, 255, 0, 0, 0, 255, 255, 255, 255, 255, 0, 0, 0, 255, 0, 0, 0, 0,
     0, 0, 0, 255, 255, 255, 255, 255, 0, 0, 0, 255, 255, 255, 255, 255], cu_hotx = 1, cu_hoty = 1, cu_w = 3, cu_h = 3\<rparr>"

fun alphas :: "int list \<Rightarrow> int list" where
  "alphas (a # b # c # d # rest) = d # alphas rest"
| "alphas _ = []"

definition shouldShowDotCursor :: "'d rfb \<Rightarrow> bool" where
  "shouldShowDotCursor r \<longleftrightarrow> rf_showDotCursor r \<and> list_all (\<lambda>a. a = 0) (alphas (cu_rgba (rf_cursorImage r)))"

definition refreshCursor :: "'d rfb \<Rightarrow> 'd rfb" where
  "refreshCursor r =
     (if rf_connectionState r \<noteq> Connecting \<and> rf_connectionState r \<noteq> Connected then r
      else r\<lparr>rf_cursorShown := Some (if shouldShowDotCursor r then cursor_dot else rf_cursorImage r)\<rparr>)"

definition updateCursor :: "'d rfb \<Rightarrow> int list \<Rightarrow> int \<Rightarrow> int \<Rightarrow> int \<Rightarrow> int \<Rightarrow> 'd rfb" where
  "updateCursor r rgba hotx hoty w h =
     refreshCursor (r\<lparr>rf_cursorImage := \<lparr>cu_rgba = rgba, cu_hotx = hotx, cu_hoty = hoty, cu_w = w, cu_h = h\<rparr>\<rparr>)"

text \<open>\<open>newWebSocket\<close> is the browser's \<open>WebSocket\<close> constructor.\<close>

definition rfb_connect :: "(string \<Rightarrow> string list \<Rightarrow> channel) \<Rightarrow> 'd rfb \<Rightarrow> 'd rfb \<times> (js_error + unit)" where
  "rfb_connect newWebSocket r =
     (let (w, res) =
        (case rf_url r of
           Some url \<Rightarrow> ws_open newWebSocket (rf_sock r) url (rf_wsProtocols r)
         | None \<Rightarrow>
             (case rf_rawChannel r of
                None \<Rightarrow> (rf_sock r, Inl TypeError)
              | Some ch \<Rightarrow> ws_attach (rf_sock r) ch));
          r = r\<lparr>rf_sock := w\<rparr>
      in case res of
           Inl e \<Rightarrow> (r, Inl e)
         | Inr _ \<Rightarrow>
             if rf_url r = None \<and> readyState w = ''closed''
             then (r, Inl (JSError ''Cannot use already closed WebSocket/RTCDataChannel'' []))
             else
               (let r = (if rf_url r = None \<and> readyState w = ''open'' then socketOpen r else r)
                in (refreshCursor (r\<lparr>rf_attached := True\<rparr>), Inr ())))"

definition updateConnectionState ::
  "(string \<Rightarrow> string list \<Rightarrow> channel) \<Rightarrow> 'd rfb \<Rightarrow> conn_state \<Rightarrow> 'd rfb \<times> (js_error + unit)" where
  "updateConnectionState newWebSocket r state =
     (if state = Connecting \<and> transition_ok (rf_connectionState r) state
      then rfb_connect newWebSocket (enter_state r state)
      else (leaveConnectionState r state, Inr ()))"

definition socketClose :: "'d rfb \<Rightarrow> 'd rfb" where
  "socketClose r =
     (let r =
        (case rf_connectionState r of
           Connecting \<Rightarrow> fail r
         | Connected \<Rightarrow> leaveConnectionState (leaveConnectionState r Disconnecting) Disconnected
         | Disconnecting \<Rightarrow> leaveConnectionState r Disconnected
         | Disconnected \<Rightarrow> fail r
         | NoState \<Rightarrow> fail r)
      in (with_sock r (\<lambda>w. ws_off w ''close''))\<lparr>rf_rawChannel := None\<rparr>)"

text \<open>The three seconds after \<open>disconnecting\<close> are over.\<close>

definition disconnTimeout :: "'d rfb \<Rightarrow> 'd rfb" where
  "disconnTimeout r = leaveConnectionState r Disconnected"

text \<open>\<open>disconnect()\<close>; the RA2 object's own \<open>disconnect\<close> rejects its pending promises.\<close>

definition user_disconnect :: "'d rfb \<Rightarrow> 'd rfb" where
  "user_disconnect r =
     (let r = leaveConnectionState r Disconnecting
      in with_sock r (\<lambda>w. ws_off (ws_off (ws_off w ''error'') ''message'') ''open''))"

definition setCapability_power :: "'d rfb \<Rightarrow> bool \<Rightarrow> 'd rfb" where
  "setCapability_power r val = dispatch (r\<lparr>rf_power := val\<rparr>) (EvCapabilities val)"

definition setDesktopName :: "'d rfb \<Rightarrow> js_string \<Rightarrow> 'd rfb" where
  "setDesktopName r name = dispatch (r\<lparr>rf_fbName := name\<rparr>) (EvDesktopName name)"

definition new_RFB ::
  "'d \<Rightarrow> display \<Rightarrow> credentials \<Rightarrow> bool \<Rightarrow> js_string \<Rightarrow> string list \<Rightarrow> string option \<Rightarrow> channel option \<Rightarrow> 'd rfb" where
  "new_RFB decs disp creds shared repeaterID wsProtocols url rawChannel =
     \<lparr>rf_sock = ws_on (ws_on (ws_on (ws_on new_Websock ''open'' 1) ''close'' 2) ''message'' 3) ''error'' 4,
      rf_display = disp, rf_decoders = decs, rf_url = url, rf_rawChannel = rawChannel, rf_wsProtocols = wsProtocols,
      rf_credentials = creds, rf_shared = shared, rf_repeaterID = repeaterID,
      rf_connectionState = NoState, rf_initState = NoInit, rf_authScheme = -1, rf_cleanDisconnect = True,
      rf_rsaaes = None, rf_version = 0, rf_tightVNC = False, rf_veNCryptState = 0, rf_veNCryptSubtypesLength = 0,
      rf_xvpVer = 0, rf_fbWidth = 0, rf_fbHeight = 0, rf_fbName = [], rf_fbDepth = 0, rf_power = False,
      rf_supportsFence = False, rf_supportsContinuousUpdates = False, rf_enabledContinuousUpdates = False,
      rf_supportsSetDesktopSize = False, rf_screenID = 0, rf_screenFlags = 0, rf_pendingRemoteResize = False,
      rf_lastResize = 0, rf_resizeTimeout = None, rf_qemuExtKeyEventSupported = False,
      rf_extendedPointerEventSupported = False, rf_clipboardText = None, rf_clipboardActions = (\<lambda>_. False),
      rf_clipboardFormats = (\<lambda>_. False), rf_flushing = False, rf_disconnTimer = False, rf_mouseMoveTimer = None, rf_mousePos = (0, 0),
      rf_mouseButtonMask = 0, rf_mouseLastMoveTime = 0, rf_viewportDragging = False, rf_viewportDragPos = (0, 0),
      rf_viewportHasMoved = False, rf_dragViewport = False, rf_wheelDeltaX = 0, rf_wheelDeltaY = 0,
      rf_FBU_rects = 0, rf_FBU_x = 0, rf_FBU_y = 0, rf_FBU_width = 0, rf_FBU_height = 0, rf_FBU_encoding = None,
      rf_remoteCapsLock = None, rf_remoteNumLock = None, rf_viewOnly = False, rf_clipViewport = False,
      rf_clippingViewport = False, rf_scaleViewport = False, rf_resizeSession = False, rf_showDotCursor = False,
      rf_qualityLevel = 6, rf_compressionLevel = 2, rf_cursorImage = cursor_none, rf_cursorShown = None,
      rf_securityContext = [], rf_securityStatus = 0, rf_expectedClient = None, rf_ardRequest = None, rf_resumes = 0, rf_grabbed = False,
      rf_attached = False, rf_events = []\<rparr>"

text \<open>
  The constructor connects before it sets the properties, so the dot cursor it was asked for
  shows with the next refresh only.
\<close>

definition construct_RFB ::
  "(string \<Rightarrow> string list \<Rightarrow> channel) \<Rightarrow> 'd \<Rightarrow> display \<Rightarrow> credentials \<Rightarrow> bool \<Rightarrow> js_string \<Rightarrow> string list \<Rightarrow>
     string option \<Rightarrow> channel option \<Rightarrow> bool option \<Rightarrow> js_error + 'd rfb" where
  "construct_RFB newWebSocket decs disp creds shared repeaterID wsProtocols url rawChannel showDotCursor =
     (if url = None \<and> rawChannel = None
      then Inl (JSError ''Must specify URL, WebSocket or RTCDataChannel'' [])
      else
        (case updateConnectionState newWebSocket
                (new_RFB decs disp creds shared repeaterID wsProtocols url rawChannel) Connecting of
           (r, Inl e) \<Rightarrow> Inl e
         | (r, Inr _) \<Rightarrow> Inr (r\<lparr>rf_showDotCursor := (showDotCursor = Some True)\<rparr>)))"

section \<open>Viewport, scaling and remote resize\<close>

definition saveExpectedClientSize :: "env \<Rightarrow> 'd rfb \<Rightarrow> 'd rfb" where
  "saveExpectedClientSize env r = r\<lparr>rf_expectedClient := Some (env_client env)\<rparr>"

definition setClippingViewport :: "'d rfb \<Rightarrow> bool \<Rightarrow> 'd rfb" where
  "setClippingViewport r on =
     (if on = rf_clippingViewport r then r
      else dispatch (r\<lparr>rf_clippingViewport := on\<rparr>) (EvClippingViewport on))"

definition updateClip :: "env \<Rightarrow> 'd rfb \<Rightarrow> 'd rfb \<times> (js_error + unit)" where
  "updateClip env r =
     (let curClip = clipViewport (rf_display r);
          newClip = (rf_clipViewport r \<and> \<not> rf_scaleViewport r);
          (d, res) = (if curClip \<noteq> newClip then set_clipViewport (rf_display r) newClip else (rf_display r, Inr ()));
          r = r\<lparr>rf_display := d\<rparr>
      in case res of
           Inl e \<Rightarrow> (r, Inl e)
         | Inr _ \<Rightarrow>
             (let (r, res) =
                (if newClip then
                   (case viewportChangeSize (rf_display r) (Some (fst (env_screen env))) (Some (snd (env_screen env))) of
                      (d, Inl e) \<Rightarrow> (r\<lparr>rf_display := d\<rparr>, Inl e)
                    | (d, Inr _) \<Rightarrow>
                        (setClippingViewport (r\<lparr>rf_display := d\<rparr>)
                          (fst (env_screen env) < of_int (fbWidth d) \<or> snd (env_screen env) < of_int (fbHeight d)), Inr ()))
                 else (setClippingViewport r False, Inr ()))
              in case res of
                   Inl e \<Rightarrow> (r, Inl e)
                 | Inr _ \<Rightarrow> (if curClip \<noteq> newClip then saveExpectedClientSize env r else r, Inr ())))"

definition updateScale :: "env \<Rightarrow> 'd rfb \<Rightarrow> 'd rfb" where
  "updateScale env r =
     (if \<not> rf_scaleViewport r then r\<lparr>rf_display := rescale (rf_display r) 1\<rparr>
      else r\<lparr>rf_display := autoscale (rf_display r) (fst (env_screen env)) (snd (env_screen env))\<rparr>)"

definition requestRemoteResize :: "env \<Rightarrow> 'd rfb \<Rightarrow> 'd rfb" where
  "requestRemoteResize env r =
     (if \<not> rf_resizeSession r then r
      else if rf_viewOnly r then r
      else if \<not> rf_supportsSetDesktopSize r then r
      else if rf_pendingRemoteResize r then r
      else if env_now env - rf_lastResize r < 100
      then r\<lparr>rf_resizeTimeout := Some (100 - (env_now env - rf_lastResize r))\<rparr>
      else
        (let r = r\<lparr>rf_resizeTimeout := None\<rparr>;
             (w, h) = env_screen env
         in if w = of_int (rf_fbWidth r) \<and> h = of_int (rf_fbHeight r) then r
            else
              (let r = r\<lparr>rf_pendingRemoteResize := True, rf_lastResize := env_now env\<rparr>
               in with_sock r (\<lambda>s. setDesktopSize s \<lfloor>w\<rfloor> \<lfloor>h\<rfloor> (rf_screenID r) (rf_screenFlags r)))))"

definition updateContinuousUpdates :: "'d rfb \<Rightarrow> 'd rfb" where
  "updateContinuousUpdates r =
     (if \<not> rf_enabledContinuousUpdates r then r
      else with_sock r (\<lambda>w. enableContinuousUpdates w True 0 0 (rf_fbWidth r) (rf_fbHeight r)))"

definition rfb_resize :: "env \<Rightarrow> 'd rfb \<Rightarrow> int \<Rightarrow> int \<Rightarrow> 'd rfb \<times> (js_error + unit)" where
  "rfb_resize env r width height =
     (let r = r\<lparr>rf_fbWidth := width, rf_fbHeight := height\<rparr>;
          (d, res) = resize (rf_display r) width height;
          r = r\<lparr>rf_display := d\<rparr>
      in case res of
           Inl e \<Rightarrow> (r, Inl e)
         | Inr _ \<Rightarrow>
             (case updateClip env r of
                (r, Inl e) \<Rightarrow> (r, Inl e)
              | (r, Inr _) \<Rightarrow>
                  (saveExpectedClientSize env (updateContinuousUpdates (updateScale env r)), Inr ())))"

section \<open>Encodings offered to the server\<close>

definition sendEncodings :: "env \<Rightarrow> 'd rfb \<Rightarrow> 'd rfb" where
  "sendEncodings env r =
     (let encs =
        [encodingCopyRect] @
        (if rf_fbDepth r = 24 then
           (if env_h264 env then [encodingH264] else []) @
           [encodingTight, encodingTightPNG, encodingZRLE, encodingJPEG, encodingHextile, encodingRRE, encodingZlib]
         else []) @
        [encodingRaw,
         pseudoEncodingQualityLevel0 + rf_qualityLevel r, pseudoEncodingCompressLevel0 + rf_compressionLevel r,
         pseudoEncodingDesktopSize, pseudoEncodingLastRect, pseudoEncodingQEMUExtendedKeyEvent,
         pseudoEncodingQEMULedEvent, pseudoEncodingExtendedDesktopSize, pseudoEncodingXvp, pseudoEncodingFence,
         pseudoEncodingContinuousUpdates, pseudoEncodingDesktopName, pseudoEncodingExtendedClipboard,
         pseudoEncodingExtendedMouseButtons] @
        (if rf_fbDepth r = 24 then [pseudoEncodingVMwareCursor, pseudoEncodingCursor] else [])
      in with_sock r (\<lambda>w. clientEncodings w encs))"

section \<open>The connection state\<close>

lemma state_with_sock [simp]: "rf_connectionState (with_sock r f) = rf_connectionState r"
  by (simp add: with_sock_def)

lemma state_dispatch [simp]: "rf_connectionState (dispatch r ev) = rf_connectionState r"
  by (simp add: dispatch_def)

lemma state_leave:
  "rf_connectionState (leaveConnectionState r s) =
     (if transition_ok (rf_connectionState r) s then s else rf_connectionState r)"
  by (auto simp: leaveConnectionState_def enter_state_def rfb_disconnect_def Let_def split: conn_state.splits)

lemma leave_Connected: "rf_connectionState (leaveConnectionState r Connected) \<noteq> Connecting"
  by (auto simp: state_leave transition_ok_def)

lemma state_fail:
  "rf_connectionState (fail r) = (if rf_connectionState r = NoState then NoState else Disconnected)"
  by (cases "rf_connectionState r") (simp_all add: fail_def state_leave transition_ok_def)

end
