(* ===== verification/Rfb_Handshake.thy ===== *)
theory Rfb_Handshake
  imports Rfb_State
begin

text \<open>
  The handshake of \<open>rfb.js\<close>: protocol version, security type, authentication, result, client
  and server initialisation, one method per state, and the loop of \<open>_handleMessage\<close> that runs
  them. The cryptographic primitives (DES, Diffie-Hellman, AES, random numbers) are the record
  \<open>crypto\<close>. The ARD key exchange and the RA2 exchange finish asynchronously: starting them is
  recorded in the state and their completion is an operation of its own.
\<close>

record crypto =
  cy_genDES :: "js_string \<Rightarrow> byte list \<Rightarrow> byte list"
  cy_dh :: "byte list \<Rightarrow> byte list \<Rightarrow> byte list \<Rightarrow> byte list \<times> byte list"  \<comment> \<open>g, p, A: own public key, secret\<close>
  cy_desCbc :: "byte list \<Rightarrow> byte list \<Rightarrow> byte list \<Rightarrow> byte list"             \<comment> \<open>key, iv, data\<close>
  cy_ardEncrypt :: "byte list \<Rightarrow> byte list \<Rightarrow> byte list"                   \<comment> \<open>AES-ECB under MD5 of the secret\<close>
  cy_random :: "nat \<Rightarrow> byte list"

section \<open>Reading and waiting\<close>

definition waiting :: "'d rfb \<Rightarrow> int \<Rightarrow> int \<Rightarrow> ('d rfb \<Rightarrow> 'd rfb \<times> ret) \<Rightarrow> 'd rfb \<times> ret" where
  "waiting r num goback rest =
     (case rQwait (rf_sock r) num goback of
        (w, Inl e) \<Rightarrow> (r\<lparr>rf_sock := w\<rparr>, Throw e)
      | (w, Inr True) \<Rightarrow> (r\<lparr>rf_sock := w\<rparr>, Ret False)
      | (w, Inr False) \<Rightarrow> rest (r\<lparr>rf_sock := w\<rparr>))"

definition reading :: "(websock \<Rightarrow> websock \<times> 'a) \<Rightarrow> 'd rfb \<Rightarrow> ('a \<Rightarrow> 'd rfb \<Rightarrow> 'd rfb \<times> ret) \<Rightarrow> 'd rfb \<times> ret" where
  "reading rd r rest = (case rd (rf_sock r) of (w, x) \<Rightarrow> rest x (r\<lparr>rf_sock := w\<rparr>))"

definition shiftBytes :: "int \<Rightarrow> websock \<Rightarrow> websock \<times> u8array" where
  "shiftBytes n w = rQshiftBytes w n"

definition shiftStr :: "int \<Rightarrow> websock \<Rightarrow> websock \<times> byte list" where
  "shiftStr n w = rQshiftStr w n"

primrec shift32s :: "nat \<Rightarrow> websock \<Rightarrow> websock \<times> int list" where
  "shift32s 0 w = (w, [])"
| "shift32s (Suc n) w =
     (case rQshift32 w of (w, x) \<Rightarrow> (case shift32s n w of (w, xs) \<Rightarrow> (w, x # xs)))"

definition chars :: "string \<Rightarrow> byte list" where
  "chars s = map of_char s"

definition js_chars :: "string \<Rightarrow> js_string" where
  "js_chars s = map of_char s"

definition URIError :: js_error where
  "URIError = JSError ''URIError'' []"

definition credentialsRequired :: "'d rfb \<Rightarrow> string list \<Rightarrow> 'd rfb \<times> ret" where
  "credentialsRequired r types = (dispatch r (EvCredentialsRequired types), Ret False)"

section \<open>Protocol version\<close>

text \<open>The version the server announces, in tenths; 0 is a repeater, None an unknown one.\<close>

definition server_version :: "byte list \<Rightarrow> int option" where
  "server_version sversion =
     (if sversion = chars ''000.000'' then Some 0
      else if sversion \<in> set (map chars [''003.003'', ''003.006'']) then Some 33
      else if sversion = chars ''003.007'' then Some 37
      else if sversion \<in> set (map chars [''003.008'', ''003.889'', ''004.000'', ''004.001'', ''005.000'']) then Some 38
      else None)"

definition rfbMaxVersion :: int where "rfbMaxVersion = 38"

definition cversion :: "int \<Rightarrow> js_string" where
  "cversion v = js_chars ''00'' @ [48 + v div 10] @ js_chars ''.00'' @ [48 + v mod 10]"

definition negotiateProtocolVersion :: "'d rfb \<Rightarrow> 'd rfb \<times> ret" where
  "negotiateProtocolVersion r =
     waiting r 12 0 (\<lambda>r.
       reading (shiftStr 12) r (\<lambda>str r.
         case server_version (take 7 (drop 4 str)) of
           None \<Rightarrow> failing r
         | Some v \<Rightarrow>
             if v = 0 then
               (let repeaterID = js_chars ''ID:'' @ rf_repeaterID r;
                    repeaterID = repeaterID @ replicate (250 - length repeaterID) 0
                in sending r (sQpushString (rf_sock r) repeaterID)
                     (\<lambda>r. (with_sock r ws_flush, Ret True)))
             else
               (let r = r\<lparr>rf_version := (if v > rfbMaxVersion then rfbMaxVersion else v)\<rparr>
                in sending r (sQpushString (rf_sock r) (js_chars ''RFB '' @ cversion (rf_version r) @ [10]))
                     (\<lambda>r. ((with_sock r ws_flush)\<lparr>rf_initState := Security\<rparr>, Ret False)))))"

section \<open>Security type\<close>

definition securityTypeNone :: int where "securityTypeNone = 1"
definition securityTypeVNCAuth :: int where "securityTypeVNCAuth = 2"
definition securityTypeRA2ne :: int where "securityTypeRA2ne = 6"
definition securityTypeTight :: int where "securityTypeTight = 16"
definition securityTypeVeNCrypt :: int where "securityTypeVeNCrypt = 19"
definition securityTypeXVP :: int where "securityTypeXVP = 22"
definition securityTypeARD :: int where "securityTypeARD = 30"
definition securityTypeMSLogonII :: int where "securityTypeMSLogonII = 113"
definition securityTypeUnixLogon :: int where "securityTypeUnixLogon = 129"
definition securityTypePlain :: int where "securityTypePlain = 256"

lemmas security_defs = securityTypeNone_def securityTypeVNCAuth_def securityTypeRA2ne_def securityTypeTight_def
  securityTypeVeNCrypt_def securityTypeXVP_def securityTypeARD_def securityTypeMSLogonII_def
  securityTypeUnixLogon_def securityTypePlain_def

definition isSupportedSecurityType :: "int \<Rightarrow> bool" where
  "isSupportedSecurityType type \<longleftrightarrow>
     type \<in> set [securityTypeNone, securityTypeVNCAuth, securityTypeRA2ne, securityTypeTight, securityTypeVeNCrypt,
       securityTypeXVP, securityTypeARD, securityTypeMSLogonII, securityTypePlain]"

definition negotiateSecurity :: "'d rfb \<Rightarrow> 'd rfb \<times> ret" where
  "negotiateSecurity r =
     (if rf_version r \<ge> 37 then
        reading rQshift8 r (\<lambda>numTypes r.
          waiting r numTypes 1 (\<lambda>r.
            if numTypes = 0 then
              (r\<lparr>rf_initState := SecurityReason, rf_securityContext := ''no security types'', rf_securityStatus := 1\<rparr>,
               Ret True)
            else
              reading (shiftBytes numTypes) r (\<lambda>types r.
                (case find isSupportedSecurityType (map uint types) of
                   None \<Rightarrow> failing (r\<lparr>rf_authScheme := -1\<rparr>)
                 | Some type \<Rightarrow>
                     (let r = r\<lparr>rf_authScheme := type\<rparr>;
                          r = with_sock r (\<lambda>w. ws_flush (sQpush8 w type))
                      in (r\<lparr>rf_initState := Authentication\<rparr>, Ret True))))))
      else
        waiting r 4 0 (\<lambda>r.
          reading rQshift32 r (\<lambda>scheme r.
            (let r = r\<lparr>rf_authScheme := scheme\<rparr> in
             if scheme = 0 then
               (r\<lparr>rf_initState := SecurityReason, rf_securityContext := ''authentication scheme'', rf_securityStatus := 1\<rparr>,
                Ret True)
             else (r\<lparr>rf_initState := Authentication\<rparr>, Ret True)))))"

definition handleSecurityReason :: "'d rfb \<Rightarrow> 'd rfb \<times> ret" where
  "handleSecurityReason r =
     waiting r 4 0 (\<lambda>r.
       reading rQshift32 r (\<lambda>strlen r.
         if strlen > 0 then
           waiting r strlen 4 (\<lambda>r.
             reading (shiftStr strlen) r (\<lambda>reason r.
               if reason \<noteq> [] then failing (dispatch r (EvSecurityFailure (rf_securityStatus r) (Some (map uint reason))))
               else failing (dispatch r (EvSecurityFailure (rf_securityStatus r) None))))
         else failing (dispatch r (EvSecurityFailure (rf_securityStatus r) None))))"

section \<open>Authentication\<close>

definition negotiateStdVNCAuth :: "crypto \<Rightarrow> 'd rfb \<Rightarrow> 'd rfb \<times> ret" where
  "negotiateStdVNCAuth cy r =
     waiting r 16 0 (\<lambda>r.
       case cr_password (rf_credentials r) of
         None \<Rightarrow> credentialsRequired r [''password'']
       | Some password \<Rightarrow>
           reading (shiftBytes 16) r (\<lambda>challenge r.
             sending r (sQpushBytes (rf_sock r) (cy_genDES cy password challenge))
               (\<lambda>r. ((with_sock r ws_flush)\<lparr>rf_initState := SecurityResult\<rparr>, Ret True))))"

text \<open>\<open>negotiateXvpAuth\<close> continues with VNC authentication, its new scheme.\<close>

definition negotiateXvpAuth :: "crypto \<Rightarrow> 'd rfb \<Rightarrow> 'd rfb \<times> ret" where
  "negotiateXvpAuth cy r =
     (case (cr_username (rf_credentials r), cr_password (rf_credentials r), cr_target (rf_credentials r)) of
        (Some username, Some password, Some target) \<Rightarrow>
          (let r = with_sock r (\<lambda>w. sQpush8 (sQpush8 w (int (length username))) (int (length target)))
           in sending r (sQpushString (rf_sock r) username) (\<lambda>r.
                sending r (sQpushString (rf_sock r) target) (\<lambda>r.
                  negotiateStdVNCAuth cy ((with_sock r ws_flush)\<lparr>rf_authScheme := securityTypeVNCAuth\<rparr>))))
      | _ \<Rightarrow> credentialsRequired r [''username'', ''password'', ''target''])"

definition veNCrypt_subtypes :: "'d rfb \<Rightarrow> 'd rfb \<times> ret" where
  "veNCrypt_subtypes r =
     waiting r (4 * rf_veNCryptSubtypesLength r) 0 (\<lambda>r.
       reading (shift32s (nat (rf_veNCryptSubtypesLength r))) r (\<lambda>subtypes r.
         (case find (\<lambda>type. type \<noteq> securityTypeVeNCrypt \<and> isSupportedSecurityType type) subtypes of
            None \<Rightarrow> failing (r\<lparr>rf_authScheme := -1\<rparr>)
          | Some type \<Rightarrow>
              (let r = r\<lparr>rf_authScheme := type\<rparr>;
                   r = with_sock r (\<lambda>w. ws_flush (sQpush32 w type))
               in (r\<lparr>rf_veNCryptState := 4\<rparr>, Ret True)))))"

definition veNCrypt_length :: "'d rfb \<Rightarrow> 'd rfb \<times> ret" where
  "veNCrypt_length r =
     waiting r 1 0 (\<lambda>r.
       reading rQshift8 r (\<lambda>subtypesLength r.
         if subtypesLength < 1 then failing r
         else veNCrypt_subtypes (r\<lparr>rf_veNCryptSubtypesLength := subtypesLength, rf_veNCryptState := 3\<rparr>)))"

definition veNCrypt_ack :: "'d rfb \<Rightarrow> 'd rfb \<times> ret" where
  "veNCrypt_ack r =
     waiting r 1 0 (\<lambda>r.
       reading rQshift8 r (\<lambda>res r.
         if res \<noteq> 0 then failing r
         else veNCrypt_length (r\<lparr>rf_veNCryptState := 2\<rparr>)))"

text \<open>The four stages fall through; a later call enters at the stage it was waiting in.\<close>

definition negotiateVeNCryptAuth :: "'d rfb \<Rightarrow> 'd rfb \<times> ret" where
  "negotiateVeNCryptAuth r =
     (if rf_veNCryptState r = 0 then
        waiting r 2 0 (\<lambda>r.
          reading rQshift8 r (\<lambda>major r.
            reading rQshift8 r (\<lambda>minor r.
              if \<not> (major = 0 \<and> minor = 2) then failing r
              else
                (let r = with_sock r (\<lambda>w. ws_flush (sQpush8 (sQpush8 w 0) 2))
                 in veNCrypt_ack (r\<lparr>rf_veNCryptState := 1\<rparr>)))))
      else if rf_veNCryptState r = 1 then veNCrypt_ack r
      else if rf_veNCryptState r = 2 then veNCrypt_length r
      else if rf_veNCryptState r = 3 then veNCrypt_subtypes r
      else (r, Ret False))"

definition negotiatePlainAuth :: "'d rfb \<Rightarrow> 'd rfb \<times> ret" where
  "negotiatePlainAuth r =
     (case (cr_username (rf_credentials r), cr_password (rf_credentials r)) of
        (Some username, Some password) \<Rightarrow>
          (case (encodeUTF8 username, encodeUTF8 password) of
             (Some user, Some pass) \<Rightarrow>
               (let r = with_sock r (\<lambda>w. sQpush32 (sQpush32 w (int (length user))) (int (length pass)))
                in sending r (sQpushString (rf_sock r) user) (\<lambda>r.
                     sending r (sQpushString (rf_sock r) pass) (\<lambda>r.
                       ((with_sock r ws_flush)\<lparr>rf_initState := SecurityResult\<rparr>, Ret True))))
           | _ \<Rightarrow> (r, Throw URIError))
      | _ \<Rightarrow> credentialsRequired r [''username'', ''password''])"

definition negotiateTightUnixAuth :: "'d rfb \<Rightarrow> 'd rfb \<times> ret" where
  "negotiateTightUnixAuth r =
     (case (cr_username (rf_credentials r), cr_password (rf_credentials r)) of
        (Some username, Some password) \<Rightarrow>
          (let r = with_sock r (\<lambda>w. sQpush32 (sQpush32 w (int (length username))) (int (length password)))
           in sending r (sQpushString (rf_sock r) username) (\<lambda>r.
                sending r (sQpushString (rf_sock r) password) (\<lambda>r.
                  ((with_sock r ws_flush)\<lparr>rf_initState := SecurityResult\<rparr>, Ret True))))
      | _ \<Rightarrow> credentialsRequired r [''username'', ''password''])"

text \<open>Apple's authentication: the second call, when the key exchange is done, sends the result.\<close>

definition negotiateARDAuth :: "'d rfb \<Rightarrow> 'd rfb \<times> ret" where
  "negotiateARDAuth r =
     (let c = rf_credentials r in
      if cr_username c = None \<or> cr_password c = None then credentialsRequired r [''username'', ''password'']
      else
        (case (cr_ardPublicKey c, cr_ardCredentials c) of
           (Some publicKey, Some encrypted) \<Rightarrow>
             sending r (sQpushBytes (rf_sock r) encrypted) (\<lambda>r.
               sending r (sQpushBytes (rf_sock r) publicKey) (\<lambda>r.
                 (let r = with_sock r ws_flush;
                      r = r\<lparr>rf_credentials := (rf_credentials r)\<lparr>cr_ardCredentials := None, cr_ardPublicKey := None\<rparr>\<rparr>
                  in (r\<lparr>rf_initState := SecurityResult\<rparr>, Ret True))))
         | _ \<Rightarrow>
             waiting r 4 0 (\<lambda>r.
               reading (shiftBytes 2) r (\<lambda>generator r.
                 reading rQshift16 r (\<lambda>keyLength r.
                   waiting r (keyLength * 2) 4 (\<lambda>r.
                     reading (shiftBytes keyLength) r (\<lambda>prime r.
                       reading (shiftBytes keyLength) r (\<lambda>serverPublicKey r.
                         (r\<lparr>rf_ardRequest := Some (generator, keyLength, prime, serverPublicKey)\<rparr>, Ret False)))))))))"

text \<open>A name of at most \<open>n\<close> bytes written over random padding, NUL-terminated.\<close>

definition pad_name :: "nat \<Rightarrow> js_string \<Rightarrow> byte list \<Rightarrow> byte list" where
  "pad_name n name noise = (let name = take n name in map ToUint8 name @ [0] @ drop (length name + 1) noise)"

text \<open>A missing value converts to the string \<open>undefined\<close>.\<close>

definition js_text :: "js_string option \<Rightarrow> js_string" where
  "js_text s = (case s of None \<Rightarrow> js_chars ''undefined'' | Some t \<Rightarrow> t)"

definition ARDAuthAsync :: "crypto \<Rightarrow> 'd rfb \<Rightarrow> 'd rfb \<times> ret" where
  "ARDAuthAsync cy r =
     (case rf_ardRequest r of
        None \<Rightarrow> (r, Ret False)
      | Some (generator, keyLength, prime, serverPublicKey) \<Rightarrow>
          (let (clientPublicKey, sharedKey) = cy_dh cy generator prime serverPublicKey;
               c = rf_credentials r
           in case (encodeUTF8 (js_text (cr_username c)), encodeUTF8 (js_text (cr_password c))) of
                (Some username, Some password) \<Rightarrow>
                  (let noise = cy_random cy 128;
                       names = pad_name 63 username (take 64 noise) @ pad_name 63 password (drop 64 noise);
                       encrypted = cy_ardEncrypt cy sharedKey names
                   in (r\<lparr>rf_ardRequest := None, rf_resumes := rf_resumes r + 1,
                         rf_credentials := c\<lparr>cr_ardCredentials := Some encrypted, cr_ardPublicKey := Some clientPublicKey\<rparr>\<rparr>,
                       Ret False))
              | _ \<Rightarrow> (r\<lparr>rf_ardRequest := None\<rparr>, Throw URIError)))"

primrec tunnel_caps :: "nat \<Rightarrow> websock \<Rightarrow> websock \<times> (int \<times> byte list \<times> byte list) list" where
  "tunnel_caps 0 w = (w, [])"
| "tunnel_caps (Suc n) w =
     (let (w, capCode) = rQshift32 w;
          (w, capVendor) = rQshiftStr w 4;
          (w, capSignature) = rQshiftStr w 8;
          (w, caps) = tunnel_caps n w
      in (w, (capCode, capVendor, capSignature) # caps))"

definition noTunnel :: "byte list \<times> byte list" where
  "noTunnel = (chars ''TGHT'', chars ''NOTUNNEL'')"

definition negotiateTightTunnels :: "'d rfb \<Rightarrow> nat \<Rightarrow> 'd rfb" where
  "negotiateTightTunnels r numTunnels =
     (let (w, caps) = tunnel_caps numTunnels (rf_sock r);
          r = r\<lparr>rf_sock := w\<rparr>;
          types = map_of (rev caps);
          types = (if types 1 = Some (chars ''SICR'', chars ''SCHANNEL'') then types(0 \<mapsto> noTunnel) else types)
      in case types 0 of
           Some cap \<Rightarrow> if cap \<noteq> noTunnel then fail r else with_sock r (\<lambda>w. ws_flush (sQpush32 w 0))
         | None \<Rightarrow> fail r)"

primrec subauth_caps :: "nat \<Rightarrow> websock \<Rightarrow> websock \<times> byte list list" where
  "subauth_caps 0 w = (w, [])"
| "subauth_caps (Suc n) w =
     (let (w, capNum) = rQshift32 w;
          (w, capabilities) = rQshiftStr w 12;
          (w, caps) = subauth_caps n w
      in (w, capabilities # caps))"

definition tight_subauth :: "'d rfb \<Rightarrow> 'd rfb \<times> ret" where
  "tight_subauth r =
     waiting r 4 0 (\<lambda>r.
       reading rQshift32 r (\<lambda>subAuthCount r.
         if subAuthCount = 0 then (r\<lparr>rf_initState := SecurityResult\<rparr>, Ret True)
         else
           waiting r (16 * subAuthCount) 4 (\<lambda>r.
             reading (subauth_caps (nat subAuthCount)) r (\<lambda>types r.
               if chars ''STDVNOAUTH__'' \<in> set types then
                 ((with_sock r (\<lambda>w. ws_flush (sQpush32 w 1)))\<lparr>rf_initState := SecurityResult\<rparr>, Ret True)
               else if chars ''STDVVNCAUTH_'' \<in> set types then
                 ((with_sock r (\<lambda>w. ws_flush (sQpush32 w 2)))\<lparr>rf_authScheme := securityTypeVNCAuth\<rparr>, Ret True)
               else if chars ''TGHTULGNAUTH'' \<in> set types then
                 ((with_sock r (\<lambda>w. ws_flush (sQpush32 w 129)))\<lparr>rf_authScheme := securityTypeUnixLogon\<rparr>, Ret True)
               else failing r))))"

definition negotiateTightAuth :: "'d rfb \<Rightarrow> 'd rfb \<times> ret" where
  "negotiateTightAuth r =
     (if \<not> rf_tightVNC r then
        waiting r 4 0 (\<lambda>r.
          reading rQshift32 r (\<lambda>numTunnels r.
            if numTunnels > 0 then
              waiting r (16 * numTunnels) 4 (\<lambda>r.
                (negotiateTightTunnels (r\<lparr>rf_tightVNC := True\<rparr>) (nat numTunnels), Ret False))
            else tight_subauth (r\<lparr>rf_tightVNC := True\<rparr>)))
      else tight_subauth r)"

text \<open>
  The RA2 exchange reads from the socket on its own; starting it only marks it started, and
  \<open>RA2_finished\<close> is its outcome: an error message, a normal disconnect, or success.
\<close>

definition negotiateRA2neAuth :: "'d rfb \<Rightarrow> 'd rfb \<times> ret" where
  "negotiateRA2neAuth r = (r\<lparr>rf_rsaaes := Some True\<rparr>, Ret False)"

datatype ra2_result = RA2_ok | RA2_disconnected | RA2_error

definition RA2_finished :: "'d rfb \<Rightarrow> ra2_result \<Rightarrow> 'd rfb" where
  "RA2_finished r res =
     (let r = (if res = RA2_error then fail r else r)
      in r\<lparr>rf_initState := SecurityResult, rf_rsaaes := None\<rparr>)"

definition negotiateMSLogonIIAuth :: "crypto \<Rightarrow> 'd rfb \<Rightarrow> 'd rfb \<times> ret" where
  "negotiateMSLogonIIAuth cy r =
     waiting r 24 0 (\<lambda>r.
       case (cr_username (rf_credentials r), cr_password (rf_credentials r)) of
         (Some user, Some pass) \<Rightarrow>
           reading (shiftBytes 8) r (\<lambda>g r.
             reading (shiftBytes 8) r (\<lambda>p r.
               reading (shiftBytes 8) r (\<lambda>A r.
                 (let (B, secret) = cy_dh cy g p A in
                  case (encodeUTF8 user, encodeUTF8 pass) of
                    (Some username, Some password) \<Rightarrow>
                      (let usernameBytes = pad_name 255 username (cy_random cy 256);
                           passwordBytes = pad_name 63 password (cy_random cy 64)
                       in sending r (sQpushBytes (rf_sock r) B) (\<lambda>r.
                            sending r (sQpushBytes (rf_sock r) (cy_desCbc cy secret secret usernameBytes)) (\<lambda>r.
                              sending r (sQpushBytes (rf_sock r) (cy_desCbc cy secret secret passwordBytes)) (\<lambda>r.
                                ((with_sock r ws_flush)\<lparr>rf_initState := SecurityResult\<rparr>, Ret True)))))
                  | _ \<Rightarrow> (r, Throw URIError)))))
       | _ \<Rightarrow> credentialsRequired r [''username'', ''password''])"

definition negotiateAuthentication :: "crypto \<Rightarrow> 'd rfb \<Rightarrow> 'd rfb \<times> ret" where
  "negotiateAuthentication cy r =
     (let scheme = rf_authScheme r in
      if scheme = securityTypeNone then
        (r\<lparr>rf_initState := (if rf_version r \<ge> 38 then SecurityResult else ClientInitialisation)\<rparr>, Ret True)
      else if scheme = securityTypeXVP then negotiateXvpAuth cy r
      else if scheme = securityTypeARD then negotiateARDAuth r
      else if scheme = securityTypeVNCAuth then negotiateStdVNCAuth cy r
      else if scheme = securityTypeTight then negotiateTightAuth r
      else if scheme = securityTypeVeNCrypt then negotiateVeNCryptAuth r
      else if scheme = securityTypePlain then negotiatePlainAuth r
      else if scheme = securityTypeUnixLogon then negotiateTightUnixAuth r
      else if scheme = securityTypeRA2ne then negotiateRA2neAuth r
      else if scheme = securityTypeMSLogonII then negotiateMSLogonIIAuth cy r
      else failing r)"

definition handleSecurityResult :: "'d rfb \<Rightarrow> 'd rfb \<times> ret" where
  "handleSecurityResult r =
     waiting r 4 0 (\<lambda>r.
       reading rQshift32 r (\<lambda>status r.
         if status = 0 then (r\<lparr>rf_initState := ClientInitialisation\<rparr>, Ret True)
         else if rf_version r \<ge> 38 then
           (r\<lparr>rf_initState := SecurityReason, rf_securityContext := ''security result'', rf_securityStatus := status\<rparr>,
            Ret True)
         else failing (dispatch r (EvSecurityFailure status None))))"

section \<open>Initialisation\<close>

text \<open>Everything after the point where the message can no longer be put back.\<close>

definition serverInit_done :: "env \<Rightarrow> 'd rfb \<Rightarrow> int \<Rightarrow> int \<Rightarrow> byte list \<Rightarrow> 'd rfb \<times> ret" where
  "serverInit_done env r width height name =
     (case decodeUTF8 (map uint name) True of
        Inl e \<Rightarrow> (r, Throw e)
      | Inr name \<Rightarrow>
          (case rfb_resize env (setDesktopName r name) width height of
             (r, Inl e) \<Rightarrow> (r, Throw e)
           | (r, Inr _) \<Rightarrow>
               (let r = (if \<not> rf_viewOnly r then r\<lparr>rf_grabbed := True\<rparr> else r);
                    r = r\<lparr>rf_fbDepth := (if rf_fbName r = js_chars ''Intel(r) AMT KVM'' then 8 else 24)\<rparr>;
                    r = with_sock r (\<lambda>w. pixelFormat w (rf_fbDepth r) True);
                    r = sendEncodings env r;
                    r = with_sock r (\<lambda>w. fbUpdateRequest w False 0 0 (rf_fbWidth r) (rf_fbHeight r))
                in (leaveConnectionState r Connected, Ret True))))"

definition skip :: "int \<Rightarrow> websock \<Rightarrow> websock \<times> unit" where
  "skip n w = (rQskipBytes w n, ())"

definition negotiateServerInit :: "env \<Rightarrow> 'd rfb \<Rightarrow> 'd rfb \<times> ret" where
  "negotiateServerInit env r =
     waiting r 24 0 (\<lambda>r.
       reading rQshift16 r (\<lambda>width r.
       reading rQshift16 r (\<lambda>height r.
       reading rQshift8 r (\<lambda>bpp r.
       reading rQshift8 r (\<lambda>depth r.
       reading rQshift8 r (\<lambda>bigEndian r.
       reading rQshift8 r (\<lambda>trueColor r.
       reading rQshift16 r (\<lambda>redMax r.
       reading rQshift16 r (\<lambda>greenMax r.
       reading rQshift16 r (\<lambda>blueMax r.
       reading rQshift8 r (\<lambda>redShift r.
       reading rQshift8 r (\<lambda>greenShift r.
       reading rQshift8 r (\<lambda>blueShift r.
       reading (skip 3) r (\<lambda>_ r.
       reading rQshift32 r (\<lambda>nameLength r.
       waiting r nameLength 24 (\<lambda>r.
       reading (shiftStr nameLength) r (\<lambda>name r.
         if rf_tightVNC r then
           waiting r 8 (24 + nameLength) (\<lambda>r.
           reading rQshift16 r (\<lambda>numServerMessages r.
           reading rQshift16 r (\<lambda>numClientMessages r.
           reading rQshift16 r (\<lambda>numEncodings r.
           reading (skip 2) r (\<lambda>_ r.
           waiting r ((numServerMessages + numClientMessages + numEncodings) * 16) (32 + nameLength) (\<lambda>r.
           reading (skip (16 * numServerMessages)) r (\<lambda>_ r.
           reading (skip (16 * numClientMessages)) r (\<lambda>_ r.
           reading (skip (16 * numEncodings)) r (\<lambda>_ r.
             serverInit_done env r width height name)))))))))
         else serverInit_done env r width height name)))))))))))))))))"

definition initMsg :: "env \<Rightarrow> crypto \<Rightarrow> 'd rfb \<Rightarrow> 'd rfb \<times> ret" where
  "initMsg env cy r =
     (case rf_initState r of
        ProtocolVersion \<Rightarrow> negotiateProtocolVersion r
      | Security \<Rightarrow> negotiateSecurity r
      | Authentication \<Rightarrow> negotiateAuthentication cy r
      | SecurityResult \<Rightarrow> handleSecurityResult r
      | SecurityReason \<Rightarrow> handleSecurityReason r
      | ClientInitialisation \<Rightarrow>
          (let r = with_sock r (\<lambda>w. ws_flush (sQpush8 w (b2i (rf_shared r))))
           in (r\<lparr>rf_initState := ServerInitialisation\<rparr>, Ret True))
      | ServerInitialisation \<Rightarrow> negotiateServerInit env r
      | NoInit \<Rightarrow> failing r)"

section \<open>Every step of the handshake makes progress\<close>

text \<open>Reads move the read index and nothing else.\<close>

definition moved :: "int \<Rightarrow> websock \<Rightarrow> websock" where
  "moved k w = w\<lparr>rQi := rQi w + k\<rparr>"

lemma moved_moved [simp]: "moved j (moved k w) = moved (k + j) w"
  by (simp add: moved_def)

lemma moved_sel [simp]: "rQi (moved k w) = rQi w + k" "rQlen (moved k w) = rQlen w"
  by (simp_all add: moved_def)

lemma fst_rQshift_loop: "fst (rQshift_loop n w acc) = moved (int n) w"
  by (induction n arbitrary: w acc) (simp_all add: moved_def)

lemma fst_rQshift [simp]: "fst (rQshift8 w) = moved 1 w" "fst (rQshift16 w) = moved 2 w" "fst (rQshift32 w) = moved 4 w"
  by (simp_all add: rQshift8_def rQshift16_def rQshift32_def rQshift_def fst_rQshift_loop del: rQshift_loop.simps)

lemma snd_rQshift_loop_nonneg: "0 \<le> snd (rQshift_loop n w acc)"
  by (induction n arbitrary: w acc) (simp_all add: js_shr_def ToUint32_def)

lemma snd_rQshift_nonneg: "0 \<le> snd (rQshift8 w)" "0 \<le> snd (rQshift16 w)" "0 \<le> snd (rQshift32 w)"
  by (simp_all add: rQshift8_def rQshift16_def rQshift32_def rQshift_def snd_rQshift_loop_nonneg del: rQshift_loop.simps)

lemma fst_shiftBytes [simp]: "fst (shiftBytes n w) = moved n w"
  by (simp add: shiftBytes_def rQshiftBytes_def moved_def)

lemma fst_rQshiftStr_loop: "fst (rQshiftStr_loop w len i str) = moved (max 0 (len - i)) w"
proof (induction w len i str rule: rQshiftStr_loop.induct)
  case (1 w len i str)
  show ?case
  proof (cases "i < len")
    case True
    obtain w1 part where p: "rQshiftBytes w (min 4096 (len - i)) = (w1, part)" by (metis surj_pair)
    then have "w1 = moved (min 4096 (len - i)) w" by (auto simp: rQshiftBytes_def moved_def)
    with 1 [OF True p [symmetric] refl] True p show ?thesis
      by (subst rQshiftStr_loop.simps) (simp add: min_def max_def)
  next
    case False
    then show ?thesis by (subst rQshiftStr_loop.simps) (simp add: moved_def)
  qed
qed

lemma fst_rQshiftStr [simp]: "fst (rQshiftStr w n) = moved (max 0 n) w" "fst (shiftStr n w) = moved (max 0 n) w"
  by (simp_all add: rQshiftStr_def shiftStr_def fst_rQshiftStr_loop)

lemma fst_shift32s [simp]: "fst (shift32s n w) = moved (4 * int n) w"
proof (induction n arbitrary: w)
  case (Suc n)
  have "rQshift32 w = (moved 4 w, snd (rQshift32 w))" by (simp add: prod_eq_iff)
  then show ?case using Suc by (simp add: case_prod_unfold algebra_simps)
qed (simp add: moved_def)

lemma fst_subauth_caps [simp]: "fst (subauth_caps n w) = moved (16 * int n) w"
proof (induction n arbitrary: w)
  case (Suc n)
  then show ?case by (simp add: case_prod_unfold Let_def algebra_simps)
qed (simp add: moved_def)

text \<open>When a composed method answers true.\<close>

lemma waiting_True:
  "waiting r n g k = (r', Ret True) \<longleftrightarrow> rQlen (rf_sock r) - rQi (rf_sock r) \<ge> n \<and> k r = (r', Ret True)"
  by (auto simp: waiting_def rQwait_def)

lemma reading_eq: "reading rd r k = k (snd (rd (rf_sock r))) (r\<lparr>rf_sock := fst (rd (rf_sock r))\<rparr>)"
  by (simp add: reading_def case_prod_unfold)

lemma sending_True:
  "sending r s k = (r', Ret True) \<longleftrightarrow> (\<exists>w. s = Some (w, Inr ()) \<and> k (r\<lparr>rf_sock := w\<rparr>) = (r', Ret True))"
  by (auto simp: sending_def split: option.splits sum.splits)

lemma failing_True [simp]: "failing r \<noteq> (r', Ret True)" "credentialsRequired r types \<noteq> (r', Ret True)"
  by (simp_all add: failing_def credentialsRequired_def)

lemmas true_simps = waiting_True reading_eq sending_True with_sock_def Let_def

lemma auth_True:
  "negotiateStdVNCAuth cy r = (r', Ret True) \<Longrightarrow> rf_initState r' = SecurityResult"
  "negotiatePlainAuth r = (r', Ret True) \<Longrightarrow> rf_initState r' = SecurityResult"
  "negotiateTightUnixAuth r = (r', Ret True) \<Longrightarrow> rf_initState r' = SecurityResult"
  "negotiateARDAuth r = (r', Ret True) \<Longrightarrow> rf_initState r' = SecurityResult"
  "negotiateMSLogonIIAuth cy r = (r', Ret True) \<Longrightarrow> rf_initState r' = SecurityResult"
  by (auto simp: negotiateStdVNCAuth_def negotiatePlainAuth_def negotiateTightUnixAuth_def negotiateARDAuth_def
      negotiateMSLogonIIAuth_def true_simps split: option.splits prod.splits if_splits)

lemma xvp_True: "negotiateXvpAuth cy r = (r', Ret True) \<Longrightarrow> rf_initState r' = SecurityResult"
  by (auto simp: negotiateXvpAuth_def true_simps split: option.splits dest: auth_True(1))

text \<open>Two authentications stay in their state; each such step consumes at least a byte.\<close>

definition consumed :: "'d rfb \<Rightarrow> 'd rfb \<Rightarrow> bool" where
  "consumed r r' \<longleftrightarrow> rQlen (rf_sock r') = rQlen (rf_sock r) \<and> rQi (rf_sock r) < rQi (rf_sock r') \<and>
     rQi (rf_sock r) < rQlen (rf_sock r)"

definition auth_step :: "'d rfb \<Rightarrow> 'd rfb \<Rightarrow> bool" where
  "auth_step r r' \<longleftrightarrow> rf_initState r' = SecurityResult \<or> rf_initState r' = ClientInitialisation \<or>
     rf_initState r' = rf_initState r \<and> consumed r r'"

lemma sQensureSpace_rx [simp]: "rQi (sQensureSpace w n) = rQi w" "rQlen (sQensureSpace w n) = rQlen w"
  by (simp_all add: sQensureSpace_def ws_flush_def split: option.split)

lemma push_rx [simp]:
  "rQi (sQpush8 w v) = rQi w" "rQlen (sQpush8 w v) = rQlen w"
  "rQi (sQpush32 w v) = rQi w" "rQlen (sQpush32 w v) = rQlen w"
  "rQi (ws_flush w) = rQi w" "rQlen (ws_flush w) = rQlen w"
  by (simp_all add: sQpush8_def sQpush32_def sQstore_def ws_flush_def Let_def split: option.split)

lemma sQpushBytes_loop_rx:
  assumes "sQpushBytes_loop w bs off = Some res"
  shows "rQi (fst res) = rQi w \<and> rQlen (fst res) = rQlen w"
proof (rule sQpushBytes_loop.raw_induct [where P = "\<lambda>w bs off res. rQi (fst res) = rQi w \<and> rQlen (fst res) = rQlen w", OF _ assms])
  fix rec w bs off res
  assume IH: "\<And>w bs off res. rec w bs off = Some res \<Longrightarrow> rQi (fst res) = rQi w \<and> rQlen (fst res) = rQlen w"
    and eq: "(if off < int (length bs) then
       let ws1 = sQensureSpace w 1; room = sQbufferSize ws1 - sQlen ws1;
           chunkSize = if int (length bs) - off < room then int (length bs) - off else room
       in case u8_set (sQ ws1) (u8_sub bs off (off + chunkSize)) (sQlen ws1) of
            None \<Rightarrow> Some (ws1, Inl RangeError)
          | Some q \<Rightarrow> rec (ws1\<lparr>sQ := q, sQlen := sQlen ws1 + chunkSize\<rparr>) bs (off + chunkSize)
     else Some (w, Inr ())) = Some res"
  show "rQi (fst res) = rQi w \<and> rQlen (fst res) = rQlen w"
    using eq by (auto simp: Let_def split: if_splits option.splits dest!: IH)
qed

lemma sQpush_rx:
  "sQpushBytes w bs = Some (w', x) \<Longrightarrow> rQi w' = rQi w \<and> rQlen w' = rQlen w"
  "sQpushString w str = Some (w', x) \<Longrightarrow> rQi w' = rQi w \<and> rQlen w' = rQlen w"
  by (auto simp: sQpushBytes_def sQpushString_def dest: sQpushBytes_loop_rx)

lemma tight_True: "negotiateTightAuth r = (r', Ret True) \<Longrightarrow> auth_step r r'"
  by (auto simp: negotiateTightAuth_def tight_subauth_def true_simps auth_step_def consumed_def max_def
      split: if_splits)

lemma length_shift32s: "length (snd (shift32s n w)) = n"
  by (induction n arbitrary: w) (simp_all add: case_prod_unfold)

lemma veNCrypt_subtypes_True:
  assumes "veNCrypt_subtypes r = (r', Ret True)"
  shows "rf_initState r' = rf_initState r \<and> consumed r r'"
proof -
  let ?n = "rf_veNCryptSubtypesLength r"
  from assms obtain type where
    f: "find (\<lambda>type. type \<noteq> securityTypeVeNCrypt \<and> isSupportedSecurityType type)
          (snd (shift32s (nat ?n) (rf_sock r))) = Some type"
    and len: "4 * ?n \<le> rQlen (rf_sock r) - rQi (rf_sock r)"
    and r': "r' = r\<lparr>rf_sock := ws_flush (sQpush32 (moved (4 * int (nat ?n)) (rf_sock r)) type),
      rf_authScheme := type, rf_veNCryptState := 4\<rparr>"
    by (auto simp: veNCrypt_subtypes_def true_simps split: option.splits)
  have "1 \<le> ?n"
    using f length_shift32s [of "nat ?n" "rf_sock r"]
    by (cases "snd (shift32s (nat ?n) (rf_sock r))") auto
  with len r' show ?thesis by (simp add: consumed_def)
qed

lemma consumed_later:
  "consumed r1 r' \<Longrightarrow> rQlen (rf_sock r1) = rQlen (rf_sock r) \<Longrightarrow> rQi (rf_sock r) \<le> rQi (rf_sock r1) \<Longrightarrow> consumed r r'"
  by (auto simp: consumed_def)

lemma veNCrypt_length_True:
  "veNCrypt_length r = (r', Ret True) \<Longrightarrow> rf_initState r' = rf_initState r \<and> consumed r r'"
  by (auto simp: veNCrypt_length_def true_simps split: if_splits dest!: veNCrypt_subtypes_True
      intro: consumed_later)

lemma veNCrypt_ack_True:
  "veNCrypt_ack r = (r', Ret True) \<Longrightarrow> rf_initState r' = rf_initState r \<and> consumed r r'"
  by (auto simp: veNCrypt_ack_def true_simps split: if_splits dest!: veNCrypt_length_True
      intro: consumed_later)

lemma veNCrypt_True: "negotiateVeNCryptAuth r = (r', Ret True) \<Longrightarrow> auth_step r r'"
  by (auto simp: negotiateVeNCryptAuth_def true_simps auth_step_def split: if_splits
      dest!: veNCrypt_ack_True veNCrypt_length_True veNCrypt_subtypes_True intro: consumed_later)

lemma authentication_True: "negotiateAuthentication cy r = (r', Ret True) \<Longrightarrow> auth_step r r'"
  by (auto simp: negotiateAuthentication_def Let_def negotiateRA2neAuth_def
      split: if_splits dest: auth_True xvp_True tight_True veNCrypt_True)
    (auto simp: auth_step_def dest: auth_True xvp_True)

text \<open>How far the handshake still has to go.\<close>

definition init_rank :: "init_state \<Rightarrow> nat" where
  "init_rank s = (case s of ProtocolVersion \<Rightarrow> 6 | Security \<Rightarrow> 5 | Authentication \<Rightarrow> 4 | SecurityResult \<Rightarrow> 3
     | SecurityReason \<Rightarrow> 2 | ClientInitialisation \<Rightarrow> 2 | ServerInitialisation \<Rightarrow> 1 | NoInit \<Rightarrow> 0)"

definition init_measure :: "'d rfb \<Rightarrow> nat" where
  "init_measure r = nat (rQlen (rf_sock r) - rQi (rf_sock r))"

lemma version_True:
  "negotiateProtocolVersion r = (r', Ret True) \<Longrightarrow> rf_initState r' = rf_initState r \<and> consumed r r'"
  by (auto simp: negotiateProtocolVersion_def true_simps consumed_def split: option.splits if_splits dest!: sQpush_rx)

lemma serverInit_True: "serverInit_done env r w h name = (r', Ret True) \<Longrightarrow> rf_connectionState r' \<noteq> Connecting"
  by (auto simp: serverInit_done_def Let_def leave_Connected split: sum.splits prod.splits)

lemma reading_TrueD: "reading rd r k = (r', Ret True) \<Longrightarrow> \<exists>x w. k x (r\<lparr>rf_sock := w\<rparr>) = (r', Ret True)"
  by (auto simp: reading_def split: prod.splits)

lemma negotiateServerInit_True:
  "negotiateServerInit env r = (r', Ret True) \<Longrightarrow> rf_connectionState r' \<noteq> Connecting"
  by (auto simp: negotiateServerInit_def waiting_True dest!: reading_TrueD split: if_splits dest!: serverInit_True)

lemma init_progress:
  assumes "initMsg env cy r = (r', Ret True)" and "rf_connectionState r' = Connecting"
  shows "init_rank (rf_initState r') < init_rank (rf_initState r) \<or>
    rf_initState r' = rf_initState r \<and> init_measure r' < init_measure r"
proof -
  have m: "consumed r r' \<Longrightarrow> init_measure r' < init_measure r"
    by (auto simp: consumed_def init_measure_def)
  show ?thesis
  proof (cases "rf_initState r")
    case NoInit
    with assms show ?thesis by (simp add: initMsg_def)
  next
    case ProtocolVersion
    with assms version_True [of r r'] m show ?thesis by (simp add: initMsg_def)
  next
    case Security
    with assms(1) have "rf_initState r' = SecurityReason \<or> rf_initState r' = Authentication"
      by (auto simp: initMsg_def negotiateSecurity_def true_simps split: if_splits option.splits)
    with Security show ?thesis by (auto simp: init_rank_def)
  next
    case Authentication
    with assms authentication_True [of cy r r'] m show ?thesis
      by (auto simp: initMsg_def auth_step_def init_rank_def)
  next
    case SecurityResult
    with assms(1) have "rf_initState r' = SecurityReason \<or> rf_initState r' = ClientInitialisation"
      by (auto simp: initMsg_def handleSecurityResult_def true_simps split: if_splits)
    with SecurityResult show ?thesis by (auto simp: init_rank_def)
  next
    case SecurityReason
    with assms(1) show ?thesis
      by (auto simp: initMsg_def handleSecurityReason_def true_simps split: if_splits)
  next
    case ClientInitialisation
    with assms(1) show ?thesis by (auto simp: initMsg_def init_rank_def)
  next
    case ServerInitialisation
    with assms show ?thesis
      by (auto simp: initMsg_def dest!: negotiateServerInit_True)
  qed
qed

text \<open>The loop of \<open>_handleMessage\<close> while connecting.\<close>

function init_loop :: "env \<Rightarrow> crypto \<Rightarrow> 'd rfb \<Rightarrow> 'd rfb \<times> ret" where
  "init_loop env cy r =
     (if rf_connectionState r = Connecting then
        (case initMsg env cy r of
           (r', Ret True) \<Rightarrow> init_loop env cy r'
         | (r', x) \<Rightarrow> (r', x))
      else (r, Ret True))"
  by pat_completeness auto
termination
proof (relation "measures [\<lambda>(env, cy, r). if rf_connectionState r = Connecting then 1 else 0,
    \<lambda>(env, cy, r). init_rank (rf_initState r), \<lambda>(env, cy, r). init_measure r]", goal_cases)
  case 1
  show ?case by simp
next
  case (2 env cy r r' x y)
  then show ?case using init_progress [of env cy r r'] by auto
qed

declare init_loop.simps [simp del]

end
