(* ===== verification/Rfb_Normal.thy ===== *)
theory Rfb_Normal
  imports Rfb_Handshake
begin

text \<open>
  The messages of an established connection (\<open>rfb.js\<close>): clipboard, fence, XVP, framebuffer
  updates with their pseudo-encodings, and the loop of \<open>_handleMessage\<close> that runs them. The
  rectangle decoders are a table \<open>decoder\<close> over the state \<open>'d\<close>; \<open>zlib\<close> is the compressed
  clipboard's codec: what \<open>Deflator\<close> makes of its input, and what the next \<open>inflate\<close> of an
  \<open>Inflator\<close> with that input yields after some bytes were already taken.
\<close>

record zlib =
  zl_deflate :: "byte list \<Rightarrow> js_error + byte list"
  zl_inflate :: "byte list \<Rightarrow> nat \<Rightarrow> int \<Rightarrow> js_error + byte list"

type_synonym 'd decoder = "int \<Rightarrow> int \<Rightarrow> int \<Rightarrow> nat \<Rightarrow> nat \<Rightarrow> int \<Rightarrow> 'd \<Rightarrow> websock \<Rightarrow> 'd decode_result option"
  \<comment> \<open>encoding, x, y, width, height, depth; None is an encoding without a decoder\<close>

section \<open>Clipboard\<close>

text \<open>\<open>rQshift32\<close> once per format that is set, skipping its size.\<close>

fun caps_formats :: "int \<Rightarrow> nat list \<Rightarrow> websock \<Rightarrow> websock \<times> int list" where
  "caps_formats formats [] w = (w, [])"
| "caps_formats formats (i # is) w =
     (let index = js_shl 1 i in
      if js_and formats index \<noteq> 0
      then (case rQshift32 w of (w, _) \<Rightarrow> (case caps_formats formats is w of (w, xs) \<Rightarrow> (w, index # xs)))
      else caps_formats formats is w)"

definition clipboard_caps :: "'d rfb \<Rightarrow> int \<Rightarrow> int \<Rightarrow> 'd rfb \<times> ret" where
  "clipboard_caps r formats actions =
     (let (w, set_formats) = caps_formats formats [0..<16] (rf_sock r);
          r = r\<lparr>rf_sock := w, rf_clipboardFormats := (\<lambda>f. f \<in> set set_formats),
                rf_clipboardActions := (\<lambda>a. a \<in> set (map (js_shl 1) [24..<32]) \<and> js_and actions a \<noteq> 0)\<rparr>
      in sending r (extendedClipboardCaps (rf_sock r) [extendedClipboardActionCaps, extendedClipboardActionRequest,
             extendedClipboardActionPeek, extendedClipboardActionNotify, extendedClipboardActionProvide]
             [(''extendedClipboardFormatText'', 0)])
           (\<lambda>r. (r, Ret True)))"

definition be_size :: "byte list \<Rightarrow> int" where
  "be_size bs = js_or (js_or (js_or (js_shl (uint (u8_get bs 0)) 24) (js_shl (uint (u8_get bs 1)) 16))
     (js_shl (uint (u8_get bs 2)) 8)) (uint (u8_get bs 3))"

text \<open>The sizes and chunks of a \<open>Provide\<close> message; the chunk of the text format is the answer.\<close>

fun provided_text :: "zlib \<Rightarrow> byte list \<Rightarrow> int \<Rightarrow> nat list \<Rightarrow> nat \<Rightarrow> byte list option \<Rightarrow> js_error + byte list option" where
  "provided_text zl input formats [] taken textData = Inr textData"
| "provided_text zl input formats (i # is) taken textData =
     (if js_and formats (js_shl 1 i) \<noteq> 0 then
        (case zl_inflate zl input taken 4 of
           Inl e \<Rightarrow> Inl e
         | Inr sizeArray \<Rightarrow>
             (let size = be_size sizeArray in
              case zl_inflate zl input (taken + 4) size of
                Inl e \<Rightarrow> Inl e
              | Inr chunk \<Rightarrow>
                  provided_text zl input formats is (taken + 4 + nat size)
                    (if js_shl 1 i = extendedClipboardFormatText then Some chunk else textData)))
      else provided_text zl input formats is taken textData)"

text \<open>\<open>replaceAll("\r\n", "\n")\<close>\<close>

fun uncrlf :: "js_string \<Rightarrow> js_string" where
  "uncrlf (c # d # cs) = (if c = 13 \<and> d = 10 then 10 # uncrlf cs else c # uncrlf (d # cs))"
| "uncrlf cs = cs"

definition clean_text :: "js_string \<Rightarrow> js_string" where
  "clean_text s = uncrlf (if s \<noteq> [] \<and> last s = 0 then butlast s else s)"

definition clipboard_provide :: "zlib \<Rightarrow> 'd rfb \<Rightarrow> int \<Rightarrow> int \<Rightarrow> 'd rfb \<times> ret" where
  "clipboard_provide zl r len formats =
     (if rf_viewOnly r then (r, Ret True)
      else if js_and formats extendedClipboardFormatText = 0 then (r, Ret True)
      else
        reading (shiftBytes (len - 4)) (r\<lparr>rf_clipboardText := None\<rparr>) (\<lambda>zlibStream r.
          case provided_text zl zlibStream formats [0..<16] 0 None of
            Inl e \<Rightarrow> (r, Throw e)
          | Inr None \<Rightarrow> (r, Ret True)
          | Inr (Some textData) \<Rightarrow>
              (case decodeUTF8 (map uint textData) False of
                 Inl e \<Rightarrow> (r, Throw e)
               | Inr text \<Rightarrow> (dispatch r (EvClipboard (clean_text text)), Ret True))))"

definition extended_clipboard :: "zlib \<Rightarrow> 'd rfb \<Rightarrow> int \<Rightarrow> 'd rfb \<times> ret" where
  "extended_clipboard zl r len =
     reading rQshift32 r (\<lambda>flags r.
       (let formats = js_and flags 0x0000ffff;
            actions = js_and flags 0xff000000
        in if js_and actions extendedClipboardActionCaps \<noteq> 0 then clipboard_caps r formats actions
           else if actions = extendedClipboardActionRequest then
             (case rf_clipboardText r of
                Some text \<Rightarrow>
                  if \<not> rf_viewOnly r \<and> rf_clipboardActions r extendedClipboardActionProvide \<and>
                     js_and formats extendedClipboardFormatText \<noteq> 0
                  then sending r (extendedClipboardProvide (zl_deflate zl) (rf_sock r) [(extendedClipboardFormatText, text)])
                         (\<lambda>r. (r, Ret True))
                  else (r, Ret True)
              | None \<Rightarrow> (r, Ret True))
           else if actions = extendedClipboardActionPeek then
             (if \<not> rf_viewOnly r \<and> rf_clipboardActions r extendedClipboardActionNotify then
                sending r (extendedClipboardNotify (rf_sock r)
                    (if rf_clipboardText r \<noteq> None then [extendedClipboardFormatText] else []))
                  (\<lambda>r. (r, Ret True))
              else (r, Ret True))
           else if actions = extendedClipboardActionNotify then
             (if \<not> rf_viewOnly r \<and> rf_clipboardActions r extendedClipboardActionRequest \<and>
                 js_and formats extendedClipboardFormatText \<noteq> 0 then
                sending r (extendedClipboardRequest (rf_sock r) [extendedClipboardFormatText]) (\<lambda>r. (r, Ret True))
              else (r, Ret True))
           else if actions = extendedClipboardActionProvide then clipboard_provide zl r len formats
           else failing r))"

definition handleServerCutText :: "zlib \<Rightarrow> 'd rfb \<Rightarrow> 'd rfb \<times> ret" where
  "handleServerCutText zl r =
     waiting r 7 1 (\<lambda>r.
       reading (skip 3) r (\<lambda>_ r.
         reading rQshift32 r (\<lambda>len r.
           (let len = toSigned32bit_int len in
            waiting r \<bar>len\<bar> 8 (\<lambda>r.
              if len \<ge> 0 then
                reading (shiftStr len) r (\<lambda>text r.
                  if rf_viewOnly r then (r, Ret True)
                  else (dispatch r (EvClipboard (map uint text)), Ret True))
              else extended_clipboard zl r \<bar>len\<bar>)))))"

section \<open>Fence, XVP, cursor and other pseudo-encodings\<close>

definition handleServerFenceMsg :: "'d rfb \<Rightarrow> 'd rfb \<times> ret" where
  "handleServerFenceMsg r =
     waiting r 8 1 (\<lambda>r.
       reading (skip 3) r (\<lambda>_ r.
         reading rQshift32 r (\<lambda>flags r.
           reading rQshift8 r (\<lambda>len r.
             waiting r len 9 (\<lambda>r.
               (let len = (if len > 64 then 64 else len) in
                reading (shiftStr len) r (\<lambda>payload r.
                  (let r = r\<lparr>rf_supportsFence := True\<rparr> in
                   if js_and flags (js_shl 1 31) = 0 then failing r
                   else
                     sending r (clientFence (rf_sock r) (js_and flags (js_or (js_shl 1 0) (js_shl 1 1))) (map uint payload))
                       (\<lambda>r. (r, Ret True))))))))))"

definition handleXvpMsg :: "'d rfb \<Rightarrow> 'd rfb \<times> ret" where
  "handleXvpMsg r =
     waiting r 3 1 (\<lambda>r.
       reading (skip 1) r (\<lambda>_ r.
         reading rQshift8 r (\<lambda>xvpVer r.
           reading rQshift8 r (\<lambda>xvpMsg r.
             if xvpMsg = 0 then (r, Ret True)
             else if xvpMsg = 1 then (setCapability_power (r\<lparr>rf_xvpVer := xvpVer\<rparr>) True, Ret True)
             else (fail r, Ret True)))))"

definition PIXEL_MASK :: int where
  "PIXEL_MASK = js_or 0xffffff00 0"

text \<open>One pixel of a classic VMware cursor.\<close>

definition vmware_pixel :: "int \<Rightarrow> int \<Rightarrow> int list" where
  "vmware_pixel andMask xorMask =
     (if andMask = 0 then
        [js_and (js_sar xorMask 8) 0xff, js_and (js_sar xorMask 16) 0xff, js_and (js_sar xorMask 24) 0xff, 0xff]
      else if js_and andMask PIXEL_MASK = PIXEL_MASK then
        (if xorMask = 0 then [0, 0, 0, 0]
         else if js_and xorMask PIXEL_MASK = PIXEL_MASK then [0, 0, 0, 0xff]
         else [0, 0, 0, 0xff])
      else [0, 0, 0, 0xff])"

definition alpha_pixel :: "int \<Rightarrow> int list" where
  "alpha_pixel data = [js_and (js_sar data 24) 0xff, js_and (js_sar data 16) 0xff, js_and (js_sar data 8) 0xff, js_and data 0xff]"

definition handleVMwareCursor :: "'d rfb \<Rightarrow> 'd rfb \<times> ret" where
  "handleVMwareCursor r =
     (let hotx = rf_FBU_x r; hoty = rf_FBU_y r; w = rf_FBU_width r; h = rf_FBU_height r in
      waiting r 1 0 (\<lambda>r.
        reading rQshift8 r (\<lambda>cursorType r.
          reading rQshift8 r (\<lambda>_ r.
            if cursorType = 0 then
              waiting r (int (w * h) * 4 * 2) 2 (\<lambda>r.
                reading (shift32s (w * h)) r (\<lambda>andMask r.
                  reading (shift32s (w * h)) r (\<lambda>xorMask r.
                    (updateCursor r (concat (map2 vmware_pixel andMask xorMask)) hotx hoty (int w) (int h), Ret True))))
            else if cursorType = 1 then
              waiting r (int (w * h) * 4) 2 (\<lambda>r.
                reading (shift32s (w * h)) r (\<lambda>pixels r.
                  (updateCursor r (concat (map alpha_pixel pixels)) hotx hoty (int w) (int h), Ret True)))
            else (r, Ret False)))))"

definition cursor_pixel :: "nat \<Rightarrow> byte list \<Rightarrow> byte list \<Rightarrow> nat \<Rightarrow> nat \<Rightarrow> int list" where
  "cursor_pixel w pixels msk y x =
     (let maskIdx = y * ((w + 7) div 8) + x div 8;
          pixIdx = 4 * (y * w + x);
          alpha = (if js_and (js_shl (uint (msk ! maskIdx)) (x mod 8)) 0x80 \<noteq> 0 then 255 else 0)
      in [uint (pixels ! (pixIdx + 2)), uint (pixels ! (pixIdx + 1)), uint (pixels ! pixIdx), alpha])"

definition handleCursor :: "'d rfb \<Rightarrow> 'd rfb \<times> ret" where
  "handleCursor r =
     (let hotx = rf_FBU_x r; hoty = rf_FBU_y r; w = rf_FBU_width r; h = rf_FBU_height r;
          pixelslength = int (w * h * 4); masklength = int ((w + 7) div 8 * h)
      in waiting r (pixelslength + masklength) 0 (\<lambda>r.
           reading (shiftBytes pixelslength) r (\<lambda>pixels r.
             reading (shiftBytes masklength) r (\<lambda>msk r.
               (updateCursor r (concat (map (\<lambda>y. concat (map (cursor_pixel w pixels msk y) [0..<w])) [0..<h]))
                  hotx hoty (int w) (int h), Ret True)))))"

definition handleDesktopName :: "'d rfb \<Rightarrow> 'd rfb \<times> ret" where
  "handleDesktopName r =
     waiting r 4 0 (\<lambda>r.
       reading rQshift32 r (\<lambda>len r.
         waiting r len 4 (\<lambda>r.
           reading (shiftStr len) r (\<lambda>name r.
             case decodeUTF8 (map uint name) True of
               Inl e \<Rightarrow> (r, Throw e)
             | Inr name \<Rightarrow> (setDesktopName r name, Ret True)))))"

definition handleLedEvent :: "'d rfb \<Rightarrow> 'd rfb \<times> ret" where
  "handleLedEvent r =
     waiting r 1 0 (\<lambda>r.
       reading rQshift8 r (\<lambda>data r.
         (r\<lparr>rf_remoteCapsLock := Some (js_and data 4 \<noteq> 0), rf_remoteNumLock := Some (js_and data 2 \<noteq> 0)\<rparr>, Ret True)))"

text \<open>The screen list: id and flags of the first screen are kept, the others skipped.\<close>

definition read_screens :: "'d rfb \<Rightarrow> nat \<Rightarrow> ('d rfb \<Rightarrow> 'd rfb \<times> ret) \<Rightarrow> 'd rfb \<times> ret" where
  "read_screens r n rest =
     (if n = 0 then rest r
      else
        reading rQshift32 r (\<lambda>scr r.
          reading (skip 8) r (\<lambda>_ r.
            reading rQshift32 r (\<lambda>flags r.
              reading (skip (16 * (int n - 1))) r (\<lambda>_ r.
                rest (r\<lparr>rf_screenID := scr, rf_screenFlags := flags\<rparr>))))))"

definition handleExtendedDesktopSize :: "env \<Rightarrow> 'd rfb \<Rightarrow> 'd rfb \<times> ret" where
  "handleExtendedDesktopSize env r =
     waiting r 4 0 (\<lambda>r.
       (let numberOfScreens = rQpeek8 (rf_sock r) in
        waiting r (4 + numberOfScreens * 16) 0 (\<lambda>r.
          (let firstUpdate = (\<not> rf_supportsSetDesktopSize r);
               r = r\<lparr>rf_supportsSetDesktopSize := True\<rparr>
           in reading (skip 1) r (\<lambda>_ r.
              reading (skip 3) r (\<lambda>_ r.
              read_screens r (nat numberOfScreens) (\<lambda>r.
                (let r = (if rf_FBU_x r = 1 then r\<lparr>rf_pendingRemoteResize := False\<rparr> else r);
                     (r, res) = (if rf_FBU_x r = 1 \<and> rf_FBU_y r \<noteq> 0 then (r, Inr ())
                                 else rfb_resize env r (int (rf_FBU_width r)) (int (rf_FBU_height r)))
                 in case res of
                      Inl e \<Rightarrow> (r, Throw e)
                    | Inr _ \<Rightarrow>
                        (let r = (if firstUpdate then requestRemoteResize env r else r);
                             r = (if rf_FBU_x r = 1 \<and> rf_FBU_y r = 0 then requestRemoteResize env r else r)
                         in (r, Ret True))))))))))"

section \<open>Framebuffer updates\<close>

text \<open>A decoder's drawing calls reach the display one after the other; the first error ends it.\<close>

fun exec_draws :: "display \<Rightarrow> draw list \<Rightarrow> display \<times> (js_error + unit)" where
  "exec_draws d [] = (d, Inr ())"
| "exec_draws d (dr # ds) =
     (case exec_draw d dr of (d, Inl e) \<Rightarrow> (d, Inl e) | (d, Inr _) \<Rightarrow> exec_draws d ds)"

definition handleDataRect :: "'d decoder \<Rightarrow> 'd rfb \<Rightarrow> 'd rfb \<times> ret" where
  "handleDataRect decoder r =
     (case decoder (the (rf_FBU_encoding r)) (rf_FBU_x r) (rf_FBU_y r) (rf_FBU_width r) (rf_FBU_height r)
             (rf_fbDepth r) (rf_decoders r) (rf_sock r) of
        None \<Rightarrow> failing r
      | Some (d, w, ds, out) \<Rightarrow>
          (case exec_draws (rf_display r) ds of
             (disp, res) \<Rightarrow>
               (let r = r\<lparr>rf_decoders := d, rf_sock := w, rf_display := disp\<rparr> in
                case (res, out) of
                  (Inl e, _) \<Rightarrow> failing r
                | (Inr _, Throws e) \<Rightarrow> failing r
                | (Inr _, Done) \<Rightarrow> (r, Ret True)
                | (Inr _, NeedMore) \<Rightarrow> (r, Ret False)
                | (Inr _, Hangs) \<Rightarrow> (r, Hang))))"

definition handleRect :: "env \<Rightarrow> 'd decoder \<Rightarrow> 'd rfb \<Rightarrow> 'd rfb \<times> ret" where
  "handleRect env decoder r =
     (let enc = the (rf_FBU_encoding r) in
      if enc = pseudoEncodingLastRect then (r\<lparr>rf_FBU_rects := 1\<rparr>, Ret True)
      else if enc = pseudoEncodingVMwareCursor then handleVMwareCursor r
      else if enc = pseudoEncodingCursor then handleCursor r
      else if enc = pseudoEncodingQEMUExtendedKeyEvent then (r\<lparr>rf_qemuExtKeyEventSupported := True\<rparr>, Ret True)
      else if enc = pseudoEncodingDesktopName then handleDesktopName r
      else if enc = pseudoEncodingDesktopSize then
        (case rfb_resize env r (int (rf_FBU_width r)) (int (rf_FBU_height r)) of
           (r, Inl e) \<Rightarrow> (r, Throw e)
         | (r, Inr _) \<Rightarrow> (r, Ret True))
      else if enc = pseudoEncodingExtendedDesktopSize then handleExtendedDesktopSize env r
      else if enc = pseudoEncodingExtendedMouseButtons then (r\<lparr>rf_extendedPointerEventSupported := True\<rparr>, Ret True)
      else if enc = pseudoEncodingQEMULedEvent then handleLedEvent r
      else handleDataRect decoder r)"

text \<open>The header of a rectangle, unless it was read before an interruption. Encodings are signed.\<close>

definition rect_header :: "'d rfb \<Rightarrow> ('d rfb \<Rightarrow> 'd rfb \<times> ret) \<Rightarrow> 'd rfb \<times> ret" where
  "rect_header r rest =
     (case rf_FBU_encoding r of
        Some _ \<Rightarrow> rest r
      | None \<Rightarrow>
          waiting r 12 0 (\<lambda>r.
            reading rQshift16 r (\<lambda>x r.
            reading rQshift16 r (\<lambda>y r.
            reading rQshift16 r (\<lambda>width r.
            reading rQshift16 r (\<lambda>height r.
            reading rQshift32 r (\<lambda>enc r.
              rest (r\<lparr>rf_FBU_x := x, rf_FBU_y := y, rf_FBU_width := nat width, rf_FBU_height := nat height,
                      rf_FBU_encoding := Some (js_sar enc 0)\<rparr>))))))))"

text \<open>
  The loop over the rectangles. \<open>LastRect\<close> only lowers the count, so the first argument, the
  count at entry, bounds the iterations.
\<close>

fun rects_loop :: "nat \<Rightarrow> env \<Rightarrow> 'd decoder \<Rightarrow> 'd rfb \<Rightarrow> 'd rfb \<times> ret" where
  "rects_loop n env decoder r =
     (if rf_FBU_rects r > 0 then
        (case n of
           0 \<Rightarrow> (r, Hang)
         | Suc n \<Rightarrow>
             rect_header r (\<lambda>r.
               (case handleRect env decoder r of
                  (r, Ret True) \<Rightarrow>
                    rects_loop n env decoder (r\<lparr>rf_FBU_rects := rf_FBU_rects r - 1, rf_FBU_encoding := None\<rparr>)
                | (r, x) \<Rightarrow> (r, x))))
      else
        (case flip (rf_display r) of
           (d, Inl e) \<Rightarrow> (r\<lparr>rf_display := d\<rparr>, Throw e)
         | (d, Inr _) \<Rightarrow> (r\<lparr>rf_display := d\<rparr>, Ret True)))"

definition framebufferUpdate :: "env \<Rightarrow> 'd decoder \<Rightarrow> 'd rfb \<Rightarrow> 'd rfb \<times> ret" where
  "framebufferUpdate env decoder r =
     (if rf_FBU_rects r = 0 then
        waiting r 3 1 (\<lambda>r.
          reading (skip 1) r (\<lambda>_ r.
            reading rQshift16 r (\<lambda>rects r.
              (let r = r\<lparr>rf_FBU_rects := nat rects\<rparr> in
               if pending (rf_display r)
               then (r\<lparr>rf_flushing := True, rf_display := fst (display_flush (rf_display r))\<rparr>, Ret False)
               else rects_loop (rf_FBU_rects r) env decoder r))))
      else rects_loop (rf_FBU_rects r) env decoder r)"

section \<open>Dispatch\<close>

definition endOfContinuousUpdates :: "'d rfb \<Rightarrow> 'd rfb" where
  "endOfContinuousUpdates r =
     (let first = (\<not> rf_supportsContinuousUpdates r);
          r = r\<lparr>rf_supportsContinuousUpdates := True, rf_enabledContinuousUpdates := False\<rparr>
      in if first then updateContinuousUpdates (r\<lparr>rf_enabledContinuousUpdates := True\<rparr>) else r)"

definition normalMsg_type :: "env \<Rightarrow> zlib \<Rightarrow> 'd decoder \<Rightarrow> 'd rfb \<Rightarrow> int \<Rightarrow> 'd rfb \<times> ret" where
  "normalMsg_type env zl decoder r msgType =
     (if msgType = 0 then
        (case framebufferUpdate env decoder r of
           (r, Ret True) \<Rightarrow>
             (if \<not> rf_enabledContinuousUpdates r
              then with_sock r (\<lambda>w. fbUpdateRequest w True 0 0 (rf_fbWidth r) (rf_fbHeight r)) else r, Ret True)
         | (r, x) \<Rightarrow> (r, x))
      else if msgType = 1 then failing r
      else if msgType = 2 then (dispatch r EvBell, Ret True)
      else if msgType = 3 then handleServerCutText zl r
      else if msgType = 150 then (endOfContinuousUpdates r, Ret True)
      else if msgType = 248 then handleServerFenceMsg r
      else if msgType = 250 then handleXvpMsg r
      else (fail r, Ret True))"

definition normalMsg :: "env \<Rightarrow> zlib \<Rightarrow> 'd decoder \<Rightarrow> 'd rfb \<Rightarrow> 'd rfb \<times> ret" where
  "normalMsg env zl decoder r =
     (if rf_FBU_rects r > 0 then normalMsg_type env zl decoder r 0
      else reading rQshift8 r (\<lambda>msgType r. normalMsg_type env zl decoder r msgType))"

text \<open>
  The loop while connected. Whether it ends depends on the decoders, so it is a partial
  function; \<open>None\<close> is a loop that never returns. Note that it does not look at the connection
  state again.
\<close>

partial_function (option) normal_loop ::
  "env \<Rightarrow> zlib \<Rightarrow> 'd decoder \<Rightarrow> 'd rfb \<Rightarrow> ('d rfb \<times> ret) option" where
  "normal_loop env zl decoder r =
     (if rf_flushing r then Some (r, Ret True)
      else
        (case normalMsg env zl decoder r of
           (r, x) \<Rightarrow>
             if x \<noteq> Ret True then Some (r, x)
             else if rQwaits (rf_sock r) 1 then Some (r, Ret True)
             else normal_loop env zl decoder r))"

definition handleMessage :: "env \<Rightarrow> crypto \<Rightarrow> zlib \<Rightarrow> 'd decoder \<Rightarrow> 'd rfb \<Rightarrow> ('d rfb \<times> ret) option" where
  "handleMessage env cy zl decoder r =
     (if rQwaits (rf_sock r) 1 then Some (r, Ret True)
      else
        (case rf_connectionState r of
           Disconnected \<Rightarrow> Some (r, Ret True)
         | Connected \<Rightarrow> normal_loop env zl decoder r
         | Connecting \<Rightarrow> Some (init_loop env cy r)
         | _ \<Rightarrow> Some (r, Ret True)))"

text \<open>The continuation of \<open>flush()\<close>: processing resumes when the display is drained.\<close>

definition flush_done :: "env \<Rightarrow> crypto \<Rightarrow> zlib \<Rightarrow> 'd decoder \<Rightarrow> 'd rfb \<Rightarrow> ('d rfb \<times> ret) option" where
  "flush_done env cy zl decoder r =
     (let r = r\<lparr>rf_flushing := False\<rparr>
      in if \<not> rQwaits (rf_sock r) 1 then handleMessage env cy zl decoder r else Some (r, Ret True))"

end
