(* ===== verification/Rfb_Client.thy ===== *)
theory Rfb_Client
  imports Rfb_Normal Key_Tables
begin

text \<open>
  What the user does to an RFB object (\<open>rfb.js\<close>, \<open>util/element.js\<close>): keys, mouse, wheel,
  clipboard, power operations and the settable properties. Coordinates may be fractional.
\<close>

section \<open>Keys\<close>

text \<open>A missing \<open>down\<close> is None; an absent keysym is 0, NoSymbol.\<close>

definition sendKey1 :: "'d rfb \<Rightarrow> int \<Rightarrow> string \<Rightarrow> bool \<Rightarrow> 'd rfb" where
  "sendKey1 r keysym code down =
     (if rf_connectionState r \<noteq> Connected \<or> rf_viewOnly r then r
      else
        (case map_of XtScancode code of
           Some scancode \<Rightarrow>
             if rf_qemuExtKeyEventSupported r \<and> scancode \<noteq> 0
             then with_sock r (\<lambda>w. QEMUExtendedKeyEvent w keysym down scancode)
             else if keysym = 0 then r
             else with_sock r (\<lambda>w. keyEvent w keysym (if down then 1 else 0))
         | None \<Rightarrow>
             if keysym = 0 then r
             else with_sock r (\<lambda>w. keyEvent w keysym (if down then 1 else 0))))"

definition sendKey :: "'d rfb \<Rightarrow> int \<Rightarrow> string \<Rightarrow> bool option \<Rightarrow> 'd rfb" where
  "sendKey r keysym code down =
     (case down of
        None \<Rightarrow>
          if rf_connectionState r \<noteq> Connected \<or> rf_viewOnly r then r
          else sendKey1 (sendKey1 r keysym code True) keysym code False
      | Some d \<Rightarrow> sendKey1 r keysym code d)"

definition sendCtrlAltDel :: "'d rfb \<Rightarrow> 'd rfb" where
  "sendCtrlAltDel r =
     (if rf_connectionState r \<noteq> Connected \<or> rf_viewOnly r then r
      else
        (let r = sendKey1 r XK_Control_L ''ControlLeft'' True;
             r = sendKey1 r XK_Alt_L ''AltLeft'' True;
             r = sendKey1 r XK_Delete ''Delete'' True;
             r = sendKey1 r XK_Delete ''Delete'' False;
             r = sendKey1 r XK_Alt_L ''AltLeft'' False
         in sendKey1 r XK_Control_L ''ControlLeft'' False))"

definition handleKeyEvent :: "'d rfb \<Rightarrow> int \<Rightarrow> string \<Rightarrow> bool \<Rightarrow> bool option \<Rightarrow> bool option \<Rightarrow> 'd rfb" where
  "handleKeyEvent r keysym code down numlock capslock =
     (let r = (if code = ''CapsLock'' \<and> down then r\<lparr>rf_remoteCapsLock := None\<rparr> else r);
          r = (if rf_remoteCapsLock r \<noteq> None \<and> capslock \<noteq> None \<and> rf_remoteCapsLock r \<noteq> capslock \<and> down
               then (sendKey1 (sendKey1 r XK_Caps_Lock ''CapsLock'' True) XK_Caps_Lock ''CapsLock'' False)
                      \<lparr>rf_remoteCapsLock := None\<rparr>
               else r);
          r = (if code = ''NumLock'' \<and> down then r\<lparr>rf_remoteNumLock := None\<rparr> else r);
          r = (if rf_remoteNumLock r \<noteq> None \<and> numlock \<noteq> None \<and> rf_remoteNumLock r \<noteq> numlock \<and> down
               then (sendKey1 (sendKey1 r XK_Num_Lock ''NumLock'' True) XK_Num_Lock ''NumLock'' False)
                      \<lparr>rf_remoteNumLock := None\<rparr>
               else r)
      in sendKey1 r keysym code down)"

section \<open>Power operations and clipboard\<close>

definition xvpOp :: "'d rfb \<Rightarrow> int \<Rightarrow> int \<Rightarrow> 'd rfb" where
  "xvpOp r ver op = (if rf_xvpVer r < ver then r else with_sock r (\<lambda>w. messages_xvpOp w ver op))"

definition machineShutdown :: "'d rfb \<Rightarrow> 'd rfb" where "machineShutdown r = xvpOp r 1 2"
definition machineReboot :: "'d rfb \<Rightarrow> 'd rfb" where "machineReboot r = xvpOp r 1 3"
definition machineReset :: "'d rfb \<Rightarrow> 'd rfb" where "machineReset r = xvpOp r 1 4"

text \<open>Iterating over a string goes by code points; a surrogate pair is one of them.\<close>

fun code_points :: "js_string \<Rightarrow> int list" where
  "code_points (c # d # cs) =
     (if high_surrogate c \<and> low_surrogate d
      then ((c - 0xd800) * 1024 + (d - 0xdc00) + 0x10000) # code_points cs
      else c # code_points (d # cs))"
| "code_points cs = cs"

definition latin1 :: "int \<Rightarrow> byte" where
  "latin1 code = ToUint8 (if code > 0xff then 0x3f else code)"

definition clipboardPasteFrom :: "'d rfb \<Rightarrow> js_string \<Rightarrow> 'd rfb \<times> ret" where
  "clipboardPasteFrom r text =
     (if rf_connectionState r \<noteq> Connected \<or> rf_viewOnly r then (r, Ret False)
      else if rf_clipboardFormats r extendedClipboardFormatText \<and> rf_clipboardActions r extendedClipboardActionNotify then
        (let r = r\<lparr>rf_clipboardText := Some text\<rparr>
         in sending r (extendedClipboardNotify (rf_sock r) [extendedClipboardFormatText]) (\<lambda>r. (r, Ret True)))
      else sending r (clientCutText (rf_sock r) (map latin1 (code_points text)) False) (\<lambda>r. (r, Ret True)))"

definition sendCredentials :: "'d rfb \<Rightarrow> credentials \<Rightarrow> 'd rfb" where
  "sendCredentials r creds = r\<lparr>rf_credentials := creds, rf_resumes := rf_resumes r + 1\<rparr>"

text \<open>The timer of \<open>_resumeAuthentication\<close> fires.\<close>

definition resumeAuthentication :: "env \<Rightarrow> crypto \<Rightarrow> 'd rfb \<Rightarrow> 'd rfb \<times> ret" where
  "resumeAuthentication env cy r =
     (if rf_resumes r = 0 then (r, Ret False) else initMsg env cy (r\<lparr>rf_resumes := rf_resumes r - 1\<rparr>))"

section \<open>Properties\<close>

definition set_viewOnly :: "'d rfb \<Rightarrow> bool \<Rightarrow> 'd rfb" where
  "set_viewOnly r viewOnly =
     (let r = r\<lparr>rf_viewOnly := viewOnly\<rparr>
      in if rf_connectionState r = Connecting \<or> rf_connectionState r = Connected
         then r\<lparr>rf_grabbed := (\<not> viewOnly)\<rparr> else r)"

definition rfb_set_clipViewport :: "env \<Rightarrow> 'd rfb \<Rightarrow> bool \<Rightarrow> 'd rfb \<times> (js_error + unit)" where
  "rfb_set_clipViewport env r viewport = updateClip env (r\<lparr>rf_clipViewport := viewport\<rparr>)"

definition set_scaleViewport :: "env \<Rightarrow> 'd rfb \<Rightarrow> bool \<Rightarrow> 'd rfb \<times> (js_error + unit)" where
  "set_scaleViewport env r scal =
     (let r = r\<lparr>rf_scaleViewport := scal\<rparr>;
          (r, res) = (if scal \<and> rf_clipViewport r then updateClip env r else (r, Inr ()))
      in case res of
           Inl e \<Rightarrow> (r, Inl e)
         | Inr _ \<Rightarrow>
             (let r = updateScale env r
              in if \<not> scal \<and> rf_clipViewport r then updateClip env r else (r, Inr ())))"

definition set_resizeSession :: "env \<Rightarrow> 'd rfb \<Rightarrow> bool \<Rightarrow> 'd rfb" where
  "set_resizeSession env r resz =
     (let r = r\<lparr>rf_resizeSession := resz\<rparr> in if resz then requestRemoteResize env r else r)"

definition set_showDotCursor :: "'d rfb \<Rightarrow> bool \<Rightarrow> 'd rfb" where
  "set_showDotCursor r show = refreshCursor (r\<lparr>rf_showDotCursor := show\<rparr>)"

definition set_qualityLevel :: "env \<Rightarrow> 'd rfb \<Rightarrow> int \<Rightarrow> 'd rfb" where
  "set_qualityLevel env r level =
     (if level < 0 \<or> level > 9 then r
      else if rf_qualityLevel r = level then r
      else
        (let r = r\<lparr>rf_qualityLevel := level\<rparr>
         in if rf_connectionState r = Connected then sendEncodings env r else r))"

definition set_compressionLevel :: "env \<Rightarrow> 'd rfb \<Rightarrow> int \<Rightarrow> 'd rfb" where
  "set_compressionLevel env r level =
     (if level < 0 \<or> level > 9 then r
      else if rf_compressionLevel r = level then r
      else
        (let r = r\<lparr>rf_compressionLevel := level\<rparr>
         in if rf_connectionState r = Connected then sendEncodings env r else r))"

text \<open>A resize of the page: the animation frame that follows, and the request to the server.\<close>

definition handleResize :: "env \<Rightarrow> 'd rfb \<Rightarrow> 'd rfb" where
  "handleResize env r =
     (if rf_expectedClient r = Some (env_client env) then r else requestRemoteResize env r)"

definition resize_frame :: "env \<Rightarrow> 'd rfb \<Rightarrow> 'd rfb \<times> (js_error + unit)" where
  "resize_frame env r =
     (case updateClip env r of
        (r, Inl e) \<Rightarrow> (r, Inl e)
      | (r, Inr _) \<Rightarrow> (saveExpectedClientSize env (updateScale env r), Inr ()))"

section \<open>Mouse\<close>

record bounds =
  bo_left :: rat
  bo_top :: rat
  bo_width :: rat
  bo_height :: rat

definition clientToElement :: "rat \<Rightarrow> rat \<Rightarrow> bounds \<Rightarrow> rat \<times> rat" where
  "clientToElement x y b =
     (if x < bo_left b then 0 else if x \<ge> bo_left b + bo_width b then bo_width b - 1 else x - bo_left b,
      if y < bo_top b then 0 else if y \<ge> bo_top b + bo_height b then bo_height b - 1 else y - bo_top b)"

definition buttonMaskMap :: "nat \<Rightarrow> int" where
  "buttonMaskMap i = (if i = 0 then js_shl 1 0 else if i = 1 then js_shl 1 2 else if i = 2 then js_shl 1 1
     else if i = 3 then js_shl 1 7 else js_shl 1 8)"

definition convertButtonMask :: "int \<Rightarrow> int" where
  "convertButtonMask buttons =
     foldl (\<lambda>bmask i. if js_and buttons (js_shl 1 i) \<noteq> 0 then js_or bmask (buttonMaskMap i) else bmask) 0 [0..<5]"

definition MOUSE_MOVE_DELAY :: int where "MOUSE_MOVE_DELAY = 17"
definition WHEEL_STEP :: rat where "WHEEL_STEP = 50"
definition WHEEL_LINE_HEIGHT :: rat where "WHEEL_LINE_HEIGHT = 19"

definition sendMouse :: "'d rfb \<Rightarrow> rat \<Rightarrow> rat \<Rightarrow> int \<Rightarrow> 'd rfb \<times> (js_error + unit)" where
  "sendMouse r x y msk =
     (if rf_connectionState r \<noteq> Connected then (r, Inr ())
      else if rf_viewOnly r then (r, Inr ())
      else if js_and msk 0x8000 \<noteq> 0 then (r, Inl (JSError ''Illegal mouse button mask'' [msk]))
      else if rf_extendedPointerEventSupported r \<and> js_and msk 0x7f80 \<noteq> 0 then
        (case extendedPointerEvent (rf_sock r) (absX (rf_display r) x) (absY (rf_display r) y) msk of
           (w, res) \<Rightarrow> (r\<lparr>rf_sock := w\<rparr>, res))
      else (with_sock r (\<lambda>w. pointerEvent w (absX (rf_display r) x) (absY (rf_display r) y) msk), Inr ()))"

text \<open>\<open>_handleDelayedMouseMove\<close>, when the timer fires or is flushed.\<close>

definition handleDelayedMouseMove :: "env \<Rightarrow> 'd rfb \<Rightarrow> 'd rfb \<times> (js_error + unit)" where
  "handleDelayedMouseMove env r =
     (let r = r\<lparr>rf_mouseMoveTimer := None\<rparr>
      in case sendMouse r (fst (rf_mousePos r)) (snd (rf_mousePos r)) (rf_mouseButtonMask r) of
           (r, Inl e) \<Rightarrow> (r, Inl e)
         | (r, Inr _) \<Rightarrow> (r\<lparr>rf_mouseLastMoveTime := env_now env\<rparr>, Inr ()))"

definition flushMouseMoveTimer :: "'d rfb \<Rightarrow> rat \<Rightarrow> rat \<Rightarrow> 'd rfb \<times> (js_error + unit)" where
  "flushMouseMoveTimer r x y =
     (if rf_mouseMoveTimer r \<noteq> None
      then sendMouse (r\<lparr>rf_mouseMoveTimer := None\<rparr>) x y (rf_mouseButtonMask r)
      else (r, Inr ()))"

definition handleMouseButton :: "'d rfb \<Rightarrow> rat \<Rightarrow> rat \<Rightarrow> int \<Rightarrow> 'd rfb \<times> (js_error + unit)" where
  "handleMouseButton r x y bmask =
     (case flushMouseMoveTimer r x y of
        (r, Inl e) \<Rightarrow> (r, Inl e)
      | (r, Inr _) \<Rightarrow> sendMouse (r\<lparr>rf_mouseButtonMask := bmask\<rparr>) x y bmask)"

definition handleMouseMove :: "env \<Rightarrow> 'd rfb \<Rightarrow> rat \<Rightarrow> rat \<Rightarrow> 'd rfb \<times> (js_error + unit)" where
  "handleMouseMove env r x y =
     (let r = r\<lparr>rf_mousePos := (x, y)\<rparr> in
      if rf_mouseMoveTimer r = None then
        (let timeSinceLastMove = env_now env - rf_mouseLastMoveTime r in
         if timeSinceLastMove > MOUSE_MOVE_DELAY then
           (case sendMouse r x y (rf_mouseButtonMask r) of
              (r, Inl e) \<Rightarrow> (r, Inl e)
            | (r, Inr _) \<Rightarrow> (r\<lparr>rf_mouseLastMoveTime := env_now env\<rparr>, Inr ()))
         else (r\<lparr>rf_mouseMoveTimer := Some (MOUSE_MOVE_DELAY - timeSinceLastMove)\<rparr>, Inr ()))
      else (r, Inr ()))"

definition mouse_button_event :: "'d rfb \<Rightarrow> bool \<Rightarrow> rat \<Rightarrow> rat \<Rightarrow> int \<Rightarrow> 'd rfb \<times> (js_error + unit)" where
  "mouse_button_event r down x y bmask =
     (if rf_dragViewport r then
        (if down \<and> \<not> rf_viewportDragging r then
           (case flushMouseMoveTimer (r\<lparr>rf_viewportDragging := True, rf_viewportDragPos := (x, y),
                    rf_viewportHasMoved := False\<rparr>) x y of
              (r, Inl e) \<Rightarrow> (r, Inl e)
            | (r, Inr _) \<Rightarrow> (r\<lparr>rf_mouseButtonMask := bmask\<rparr>, Inr ()))
         else
           (let r = r\<lparr>rf_viewportDragging := False\<rparr> in
            if rf_viewportHasMoved r then (r\<lparr>rf_mouseButtonMask := bmask\<rparr>, Inr ())
            else
              (case sendMouse r x y (rf_mouseButtonMask r) of
                 (r, Inl e) \<Rightarrow> (r, Inl e)
               | (r, Inr _) \<Rightarrow> handleMouseButton r x y bmask)))
      else handleMouseButton r x y bmask)"

definition mouse_move_event :: "env \<Rightarrow> rat \<Rightarrow> 'd rfb \<Rightarrow> rat \<Rightarrow> rat \<Rightarrow> 'd rfb \<times> (js_error + unit)" where
  "mouse_move_event env dragThreshold r x y =
     (if rf_viewportDragging r then
        (let deltaX = fst (rf_viewportDragPos r) - x;
             deltaY = snd (rf_viewportDragPos r) - y
         in if rf_viewportHasMoved r \<or> \<bar>deltaX\<bar> > dragThreshold \<or> \<bar>deltaY\<bar> > dragThreshold then
              (case viewportChangePos (rf_display r) deltaX deltaY of
                 (d, res) \<Rightarrow>
                   (r\<lparr>rf_viewportHasMoved := True, rf_viewportDragPos := (x, y), rf_display := d\<rparr>, res))
            else (r, Inr ()))
      else handleMouseMove env r x y)"

text \<open>Mouse events; clicks and context menus are swallowed.\<close>

datatype mouse_type = MouseDown | MouseUp | MouseMove | MouseClick | ContextMenu

definition handleMouse ::
  "env \<Rightarrow> rat \<Rightarrow> bounds \<Rightarrow> 'd rfb \<Rightarrow> mouse_type \<Rightarrow> rat \<Rightarrow> rat \<Rightarrow> int \<Rightarrow> 'd rfb \<times> (js_error + unit)" where
  "handleMouse env dragThreshold canvas r type clientX clientY buttons =
     (let (x, y) = clientToElement clientX clientY canvas;
          bmask = convertButtonMask buttons
      in case type of
           MouseClick \<Rightarrow> (r, Inr ())
         | ContextMenu \<Rightarrow> (r, Inr ())
         | MouseDown \<Rightarrow> mouse_button_event r True x y bmask
         | MouseUp \<Rightarrow> mouse_button_event r False x y bmask
         | MouseMove \<Rightarrow> mouse_move_event env dragThreshold r x y)"

text \<open>One axis of the wheel: a step is a press and a release of the button for its direction.\<close>

definition wheel_axis :: "'d rfb \<Rightarrow> rat \<Rightarrow> rat \<Rightarrow> rat \<Rightarrow> int \<Rightarrow> nat \<Rightarrow> nat \<Rightarrow> 'd rfb \<times> (js_error + unit)" where
  "wheel_axis r acc x y bmask neg_bit pos_bit =
     (if acc < 0 then
        (case handleMouseButton r x y (js_or bmask (js_shl 1 neg_bit)) of
           (r, Inl e) \<Rightarrow> (r, Inl e)
         | (r, Inr _) \<Rightarrow> handleMouseButton r x y bmask)
      else if acc > 0 then
        (case handleMouseButton r x y (js_or bmask (js_shl 1 pos_bit)) of
           (r, Inl e) \<Rightarrow> (r, Inl e)
         | (r, Inr _) \<Rightarrow> handleMouseButton r x y bmask)
      else (r, Inr ()))"

text \<open>A step is due when the accumulated movement of an axis is large enough; it resets the axis.\<close>

definition wheel_x :: "'d rfb \<Rightarrow> rat \<Rightarrow> rat \<Rightarrow> int \<Rightarrow> 'd rfb \<times> (js_error + unit)" where
  "wheel_x r x y bmask =
     (if \<bar>rf_wheelDeltaX r\<bar> \<ge> WHEEL_STEP then
        (case wheel_axis r (rf_wheelDeltaX r) x y bmask 5 6 of
           (r, Inl e) \<Rightarrow> (r, Inl e)
         | (r, Inr _) \<Rightarrow> (r\<lparr>rf_wheelDeltaX := 0\<rparr>, Inr ()))
      else (r, Inr ()))"

definition wheel_y :: "'d rfb \<Rightarrow> rat \<Rightarrow> rat \<Rightarrow> int \<Rightarrow> 'd rfb \<times> (js_error + unit)" where
  "wheel_y r x y bmask =
     (if \<bar>rf_wheelDeltaY r\<bar> \<ge> WHEEL_STEP then
        (case wheel_axis r (rf_wheelDeltaY r) x y bmask 3 4 of
           (r, Inl e) \<Rightarrow> (r, Inl e)
         | (r, Inr _) \<Rightarrow> (r\<lparr>rf_wheelDeltaY := 0\<rparr>, Inr ()))
      else (r, Inr ()))"

definition handleWheel ::
  "bounds \<Rightarrow> 'd rfb \<Rightarrow> rat \<Rightarrow> rat \<Rightarrow> int \<Rightarrow> rat \<Rightarrow> rat \<Rightarrow> int \<Rightarrow> 'd rfb \<times> (js_error + unit)" where
  "handleWheel canvas r clientX clientY buttons deltaX deltaY deltaMode =
     (if rf_connectionState r \<noteq> Connected then (r, Inr ())
      else if rf_viewOnly r then (r, Inr ())
      else
        (let (x, y) = clientToElement clientX clientY canvas;
             bmask = convertButtonMask buttons;
             dX = (if deltaMode \<noteq> 0 then deltaX * WHEEL_LINE_HEIGHT else deltaX);
             dY = (if deltaMode \<noteq> 0 then deltaY * WHEEL_LINE_HEIGHT else deltaY);
             r = r\<lparr>rf_wheelDeltaX := rf_wheelDeltaX r + dX, rf_wheelDeltaY := rf_wheelDeltaY r + dY\<rparr>
         in case wheel_x r x y bmask of
              (r, Inl e) \<Rightarrow> (r, Inl e)
            | (r, Inr _) \<Rightarrow> wheel_y r x y bmask))"

end
