(* ===== verification/Rfb_Invariants.thy ===== *)
theory Rfb_Invariants
  imports Rfb_Client
begin

text \<open>
  What no handler of the RFB object can break. A relation between an earlier and a later state
  that depends on the connection state, the disconnect timer and the event log only, and that
  allows the reports and state changes the code makes in one place each, holds across every
  operation. The locale \<open>event_relation\<close> states these laws and proves it once, handler by handler;
  the step relation \<open>rfb_step\<close> collects everything that can happen to an object: socket callbacks,
  timers, page events and the calls of the public methods.
\<close>

named_theorems keep "operations across which an event relation is kept"

text \<open>The events of the connection itself; \<open>_updateConnectionState\<close> alone fires them.\<close>

fun conn_event :: "event \<Rightarrow> bool" where
  "conn_event EvConnect = True"
| "conn_event (EvDisconnect c) = True"
| "conn_event _ = False"

definition core :: "'d rfb \<Rightarrow> conn_state \<times> bool \<times> event list" where
  "core r = (rf_connectionState r, rf_disconnTimer r, rf_events r)"

lemma core_update [simp]:
  "core (rf_sock_update f0 r) = core r"
  "core (rf_display_update f1 r) = core r"
  "core (rf_decoders_update f2 r) = core r"
  "core (rf_url_update f3 r) = core r"
  "core (rf_rawChannel_update f4 r) = core r"
  "core (rf_wsProtocols_update f5 r) = core r"
  "core (rf_credentials_update f6 r) = core r"
  "core (rf_shared_update f7 r) = core r"
  "core (rf_repeaterID_update f8 r) = core r"
  "core (rf_initState_update f9 r) = core r"
  "core (rf_authScheme_update f10 r) = core r"
  "core (rf_cleanDisconnect_update f11 r) = core r"
  "core (rf_rsaaes_update f12 r) = core r"
  "core (rf_version_update f13 r) = core r"
  "core (rf_tightVNC_update f14 r) = core r"
  "core (rf_veNCryptState_update f15 r) = core r"
  "core (rf_veNCryptSubtypesLength_update f16 r) = core r"
  "core (rf_xvpVer_update f17 r) = core r"
  "core (rf_fbWidth_update f18 r) = core r"
  "core (rf_fbHeight_update f19 r) = core r"
  "core (rf_fbName_update f20 r) = core r"
  "core (rf_fbDepth_update f21 r) = core r"
  "core (rf_power_update f22 r) = core r"
  "core (rf_supportsFence_update f23 r) = core r"
  "core (rf_supportsContinuousUpdates_update f24 r) = core r"
  "core (rf_enabledContinuousUpdates_update f25 r) = core r"
  "core (rf_supportsSetDesktopSize_update f26 r) = core r"
  "core (rf_screenID_update f27 r) = core r"
  "core (rf_screenFlags_update f28 r) = core r"
  "core (rf_pendingRemoteResize_update f29 r) = core r"
  "core (rf_lastResize_update f30 r) = core r"
  "core (rf_resizeTimeout_update f31 r) = core r"
  "core (rf_qemuExtKeyEventSupported_update f32 r) = core r"
  "core (rf_extendedPointerEventSupported_update f33 r) = core r"
  "core (rf_clipboardText_update f34 r) = core r"
  "core (rf_clipboardActions_update f35 r) = core r"
  "core (rf_clipboardFormats_update f36 r) = core r"
  "core (rf_flushing_update f37 r) = core r"
  "core (rf_mouseMoveTimer_update f38 r) = core r"
  "core (rf_mousePos_update f39 r) = core r"
  "core (rf_mouseButtonMask_update f40 r) = core r"
  "core (rf_mouseLastMoveTime_update f41 r) = core r"
  "core (rf_viewportDragging_update f42 r) = core r"
  "core (rf_viewportDragPos_update f43 r) = core r"
  "core (rf_viewportHasMoved_update f44 r) = core r"
  "core (rf_wheelDeltaX_update f45 r) = core r"
  "core (rf_wheelDeltaY_update f46 r) = core r"
  "core (rf_FBU_rects_update f47 r) = core r"
  "core (rf_FBU_x_update f48 r) = core r"
  "core (rf_FBU_y_update f49 r) = core r"
  "core (rf_FBU_width_update f50 r) = core r"
  "core (rf_FBU_height_update f51 r) = core r"
  "core (rf_FBU_encoding_update f52 r) = core r"
  "core (rf_remoteCapsLock_update f53 r) = core r"
  "core (rf_remoteNumLock_update f54 r) = core r"
  "core (rf_viewOnly_update f55 r) = core r"
  "core (rf_clipViewport_update f56 r) = core r"
  "core (rf_clippingViewport_update f57 r) = core r"
  "core (rf_scaleViewport_update f58 r) = core r"
  "core (rf_resizeSession_update f59 r) = core r"
  "core (rf_showDotCursor_update f60 r) = core r"
  "core (rf_qualityLevel_update f61 r) = core r"
  "core (rf_compressionLevel_update f62 r) = core r"
  "core (rf_cursorImage_update f63 r) = core r"
  "core (rf_cursorShown_update f64 r) = core r"
  "core (rf_securityContext_update f65 r) = core r"
  "core (rf_securityStatus_update f66 r) = core r"
  "core (rf_expectedClient_update f67 r) = core r"
  "core (rf_ardRequest_update f68 r) = core r"
  "core (rf_resumes_update f69 r) = core r"
  "core (rf_grabbed_update f70 r) = core r"
  "core (rf_dragViewport_update g r) = core r"
  "core (rf_attached_update f71 r) = core r"
  by (simp_all add: core_def)

section \<open>The interface: relations that events respect\<close>

locale event_relation =
  fixes R :: "'d rfb \<Rightarrow> 'd rfb \<Rightarrow> bool"
  assumes same: "core r' = core r \<Longrightarrow> R r r'"
    and compose: "R a b \<Longrightarrow> R b c \<Longrightarrow> R a c"
    and report: "\<not> conn_event ev \<Longrightarrow> R r (dispatch r ev)"
    and leave: "R r (leaveConnectionState r s)"
    and enter: "rf_connectionState r = NoState \<Longrightarrow> R r (enter_state r Connecting)"
begin

lemma R_refl [keep]: "R r r"
  by (rule same) simp

lemma core_cong: "core b = core c \<Longrightarrow> R a b = R a c"
  using compose same by metis

lemma R_update [simp]:
  "R a (rf_sock_update f0 r) = R a r"
  "R a (rf_display_update f1 r) = R a r"
  "R a (rf_decoders_update f2 r) = R a r"
  "R a (rf_url_update f3 r) = R a r"
  "R a (rf_rawChannel_update f4 r) = R a r"
  "R a (rf_wsProtocols_update f5 r) = R a r"
  "R a (rf_credentials_update f6 r) = R a r"
  "R a (rf_shared_update f7 r) = R a r"
  "R a (rf_repeaterID_update f8 r) = R a r"
  "R a (rf_initState_update f9 r) = R a r"
  "R a (rf_authScheme_update f10 r) = R a r"
  "R a (rf_cleanDisconnect_update f11 r) = R a r"
  "R a (rf_rsaaes_update f12 r) = R a r"
  "R a (rf_version_update f13 r) = R a r"
  "R a (rf_tightVNC_update f14 r) = R a r"
  "R a (rf_veNCryptState_update f15 r) = R a r"
  "R a (rf_veNCryptSubtypesLength_update f16 r) = R a r"
  "R a (rf_xvpVer_update f17 r) = R a r"
  "R a (rf_fbWidth_update f18 r) = R a r"
  "R a (rf_fbHeight_update f19 r) = R a r"
  "R a (rf_fbName_update f20 r) = R a r"
  "R a (rf_fbDepth_update f21 r) = R a r"
  "R a (rf_power_update f22 r) = R a r"
  "R a (rf_supportsFence_update f23 r) = R a r"
  "R a (rf_supportsContinuousUpdates_update f24 r) = R a r"
  "R a (rf_enabledContinuousUpdates_update f25 r) = R a r"
  "R a (rf_supportsSetDesktopSize_update f26 r) = R a r"
  "R a (rf_screenID_update f27 r) = R a r"
  "R a (rf_screenFlags_update f28 r) = R a r"
  "R a (rf_pendingRemoteResize_update f29 r) = R a r"
  "R a (rf_lastResize_update f30 r) = R a r"
  "R a (rf_resizeTimeout_update f31 r) = R a r"
  "R a (rf_qemuExtKeyEventSupported_update f32 r) = R a r"
  "R a (rf_extendedPointerEventSupported_update f33 r) = R a r"
  "R a (rf_clipboardText_update f34 r) = R a r"
  "R a (rf_clipboardActions_update f35 r) = R a r"
  "R a (rf_clipboardFormats_update f36 r) = R a r"
  "R a (rf_flushing_update f37 r) = R a r"
  "R a (rf_mouseMoveTimer_update f38 r) = R a r"
  "R a (rf_mousePos_update f39 r) = R a r"
  "R a (rf_mouseButtonMask_update f40 r) = R a r"
  "R a (rf_mouseLastMoveTime_update f41 r) = R a r"
  "R a (rf_viewportDragging_update f42 r) = R a r"
  "R a (rf_viewportDragPos_update f43 r) = R a r"
  "R a (rf_viewportHasMoved_update f44 r) = R a r"
  "R a (rf_wheelDeltaX_update f45 r) = R a r"
  "R a (rf_wheelDeltaY_update f46 r) = R a r"
  "R a (rf_FBU_rects_update f47 r) = R a r"
  "R a (rf_FBU_x_update f48 r) = R a r"
  "R a (rf_FBU_y_update f49 r) = R a r"
  "R a (rf_FBU_width_update f50 r) = R a r"
  "R a (rf_FBU_height_update f51 r) = R a r"
  "R a (rf_FBU_encoding_update f52 r) = R a r"
  "R a (rf_remoteCapsLock_update f53 r) = R a r"
  "R a (rf_remoteNumLock_update f54 r) = R a r"
  "R a (rf_viewOnly_update f55 r) = R a r"
  "R a (rf_clipViewport_update f56 r) = R a r"
  "R a (rf_clippingViewport_update f57 r) = R a r"
  "R a (rf_scaleViewport_update f58 r) = R a r"
  "R a (rf_resizeSession_update f59 r) = R a r"
  "R a (rf_showDotCursor_update f60 r) = R a r"
  "R a (rf_qualityLevel_update f61 r) = R a r"
  "R a (rf_compressionLevel_update f62 r) = R a r"
  "R a (rf_cursorImage_update f63 r) = R a r"
  "R a (rf_cursorShown_update f64 r) = R a r"
  "R a (rf_securityContext_update f65 r) = R a r"
  "R a (rf_securityStatus_update f66 r) = R a r"
  "R a (rf_expectedClient_update f67 r) = R a r"
  "R a (rf_ardRequest_update f68 r) = R a r"
  "R a (rf_resumes_update f69 r) = R a r"
  "R a (rf_grabbed_update f70 r) = R a r"
  "R a (rf_dragViewport_update g r) = R a r"
  "R a (rf_attached_update f71 r) = R a r"
  by (rule core_cong, simp)+

lemma R_dispatch [keep]: "R a r \<Longrightarrow> \<not> conn_event ev \<Longrightarrow> R a (dispatch r ev)"
  using compose report by blast

lemma R_leave [keep]: "R a r \<Longrightarrow> R a (leaveConnectionState r s)"
  using compose leave by blast

lemma R_with_sock [simp]: "R a (with_sock r f) = R a r"
  by (simp add: with_sock_def)

lemma R_fail [keep]: "R a r \<Longrightarrow> R a (fail r)"
  by (simp add: fail_def Let_def keep)

lemma R_failing [keep]: "R a r \<Longrightarrow> R a (fst (failing r))"
  by (simp add: failing_def keep)

lemma R_waiting [keep]:
  "R a r \<Longrightarrow> (\<And>r'. R a r' \<Longrightarrow> R a (fst (k r'))) \<Longrightarrow> R a (fst (waiting r n g k))"
  by (auto simp: waiting_def split: prod.split sum.split bool.split)

lemma R_reading [keep]:
  "R a r \<Longrightarrow> (\<And>x r'. R a r' \<Longrightarrow> R a (fst (k x r'))) \<Longrightarrow> R a (fst (reading rd r k))"
  by (auto simp: reading_def split: prod.split)

lemma R_sending [keep]:
  "R a r \<Longrightarrow> (\<And>r'. R a r' \<Longrightarrow> R a (fst (k r'))) \<Longrightarrow> R a (fst (sending r s k))"
  by (auto simp: sending_def split: option.split prod.split sum.split)

lemma R_credentials [keep]: "R a r \<Longrightarrow> R a (fst (credentialsRequired r types))"
  by (simp add: credentialsRequired_def keep)

text \<open>Handshake\<close>

lemma R_negotiateProtocolVersion [keep]: "R a r \<Longrightarrow> R a (fst (negotiateProtocolVersion r))"
  by (auto simp: negotiateProtocolVersion_def Let_def intro!: keep split: option.split)

lemma R_negotiateSecurity [keep]: "R a r \<Longrightarrow> R a (fst (negotiateSecurity r))"
  by (auto simp: negotiateSecurity_def Let_def intro!: keep split: option.split)

lemma R_handleSecurityReason [keep]: "R a r \<Longrightarrow> R a (fst (handleSecurityReason r))"
  by (auto simp: handleSecurityReason_def intro!: keep)

lemma R_negotiateStdVNCAuth [keep]: "R a r \<Longrightarrow> R a (fst (negotiateStdVNCAuth cy r))"
  by (auto simp: negotiateStdVNCAuth_def intro!: keep split: option.split)

lemma R_negotiateXvpAuth [keep]: "R a r \<Longrightarrow> R a (fst (negotiateXvpAuth cy r))"
  by (auto simp: negotiateXvpAuth_def Let_def intro!: keep split: option.split)

lemma R_veNCrypt [keep]:
  "R a r \<Longrightarrow> R a (fst (veNCrypt_subtypes r))"
  "R a r \<Longrightarrow> R a (fst (veNCrypt_length r))"
  "R a r \<Longrightarrow> R a (fst (veNCrypt_ack r))"
  "R a r \<Longrightarrow> R a (fst (negotiateVeNCryptAuth r))"
proof -
  show s: "R a r \<Longrightarrow> R a (fst (veNCrypt_subtypes r))" for r
    by (auto simp: veNCrypt_subtypes_def Let_def intro!: keep split: option.split)
  show l: "R a r \<Longrightarrow> R a (fst (veNCrypt_length r))" for r
    by (auto simp: veNCrypt_length_def intro!: keep s)
  show k: "R a r \<Longrightarrow> R a (fst (veNCrypt_ack r))" for r
    by (auto simp: veNCrypt_ack_def intro!: keep l)
  show "R a r \<Longrightarrow> R a (fst (negotiateVeNCryptAuth r))" for r
    by (auto simp: negotiateVeNCryptAuth_def Let_def intro!: keep s l k)
qed

lemma R_user_auth [keep]:
  "R a r \<Longrightarrow> R a (fst (negotiatePlainAuth r))"
  "R a r \<Longrightarrow> R a (fst (negotiateTightUnixAuth r))"
  "R a r \<Longrightarrow> R a (fst (negotiateARDAuth r))"
  "R a r \<Longrightarrow> R a (fst (ARDAuthAsync cy r))"
  "R a r \<Longrightarrow> R a (fst (negotiateMSLogonIIAuth cy r))"
  "R a r \<Longrightarrow> R a (fst (negotiateRA2neAuth r))"
  by (auto simp: negotiatePlainAuth_def negotiateTightUnixAuth_def negotiateARDAuth_def ARDAuthAsync_def
      negotiateMSLogonIIAuth_def negotiateRA2neAuth_def Let_def intro!: keep split: option.split prod.split)

lemma R_RA2_finished [keep]: "R a r \<Longrightarrow> R a (RA2_finished r res)"
  by (auto simp: RA2_finished_def Let_def intro!: keep)

lemma R_tight [keep]:
  "R a r \<Longrightarrow> R a (negotiateTightTunnels r n)"
  "R a r \<Longrightarrow> R a (fst (tight_subauth r))"
  by (auto simp: negotiateTightTunnels_def tight_subauth_def Let_def intro!: keep split: option.split prod.split)

lemma R_negotiateTightAuth [keep]: "R a r \<Longrightarrow> R a (fst (negotiateTightAuth r))"
  by (auto simp: negotiateTightAuth_def intro!: keep)

lemma R_negotiateAuthentication [keep]: "R a r \<Longrightarrow> R a (fst (negotiateAuthentication cy r))"
  by (auto simp: negotiateAuthentication_def Let_def intro!: keep)

lemma R_handleSecurityResult [keep]: "R a r \<Longrightarrow> R a (fst (handleSecurityResult r))"
  by (auto simp: handleSecurityResult_def intro!: keep)

lemma R_viewport [keep]:
  "R a r \<Longrightarrow> R a (saveExpectedClientSize env r)"
  "R a r \<Longrightarrow> R a (setClippingViewport r on)"
  "R a r \<Longrightarrow> R a (updateScale env r)"
  "R a r \<Longrightarrow> R a (requestRemoteResize env r)"
  "R a r \<Longrightarrow> R a (updateContinuousUpdates r)"
  "R a r \<Longrightarrow> R a (sendEncodings env r)"
  "R a r \<Longrightarrow> R a (setDesktopName r name)"
  "R a r \<Longrightarrow> R a (setCapability_power r val)"
  "R a r \<Longrightarrow> R a (refreshCursor r)"
  "R a r \<Longrightarrow> R a (updateCursor r rgba hx hy w h)"
  by (auto simp: saveExpectedClientSize_def setClippingViewport_def updateScale_def requestRemoteResize_def
      updateContinuousUpdates_def sendEncodings_def setDesktopName_def setCapability_power_def refreshCursor_def
      updateCursor_def Let_def intro!: keep split: prod.split)

lemma R_updateClip [keep]: "R a r \<Longrightarrow> R a (fst (updateClip env r))"
  by (auto simp: updateClip_def Let_def case_prod_unfold intro!: keep split: sum.split)

lemma R_rfb_resize [keep]: "R a r \<Longrightarrow> R a (fst (rfb_resize env r w h))"
  by (auto simp: rfb_resize_def Let_def case_prod_unfold intro!: keep split: sum.split)

lemma R_negotiateServerInit [keep]:
  "R a r \<Longrightarrow> R a (fst (serverInit_done env r w h name))"
  "R a r \<Longrightarrow> R a (fst (negotiateServerInit env r))"
proof -
  show d: "R a r \<Longrightarrow> R a (fst (serverInit_done env r w h name))" for r w h name
    by (auto simp: serverInit_done_def Let_def case_prod_unfold intro!: keep split: sum.split)
  show "R a r \<Longrightarrow> R a (fst (negotiateServerInit env r))"
    by (auto simp: negotiateServerInit_def intro!: keep d)
qed

lemma R_initMsg [keep]: "R a r \<Longrightarrow> R a (fst (initMsg env cy r))"
  by (auto simp: initMsg_def Let_def intro!: keep split: init_state.split)

lemma R_init_loop [keep]: "R a r \<Longrightarrow> R a (fst (init_loop env cy r))"
proof (induction env cy r rule: init_loop.induct)
  case (1 env cy r)
  show ?case
  proof (cases "initMsg env cy r")
    case (Pair r' x)
    have "R a r'" using R_initMsg [OF 1(2), of env cy] Pair by simp
    with 1(1) Pair show ?thesis
      using 1(2) by (subst init_loop.simps) (auto split: ret.split bool.split)
  qed
qed


lemma R_clipboard [keep]:
  "R a r \<Longrightarrow> R a (fst (clipboard_caps r formats actions))"
  "R a r \<Longrightarrow> R a (fst (clipboard_provide zl r len formats))"
  by (auto simp: clipboard_caps_def clipboard_provide_def Let_def intro!: keep split: prod.split sum.split option.split)

lemma R_extended_clipboard [keep]: "R a r \<Longrightarrow> R a (fst (extended_clipboard zl r len))"
  by (auto simp: extended_clipboard_def Let_def intro!: keep split: option.split)

lemma R_server_messages [keep]:
  "R a r \<Longrightarrow> R a (fst (handleServerCutText zl r))"
  "R a r \<Longrightarrow> R a (fst (handleServerFenceMsg r))"
  "R a r \<Longrightarrow> R a (fst (handleXvpMsg r))"
  by (auto simp: handleServerCutText_def handleServerFenceMsg_def handleXvpMsg_def Let_def intro!: keep)

lemma R_pseudo_encodings [keep]:
  "R a r \<Longrightarrow> R a (fst (handleVMwareCursor r))"
  "R a r \<Longrightarrow> R a (fst (handleCursor r))"
  "R a r \<Longrightarrow> R a (fst (handleDesktopName r))"
  "R a r \<Longrightarrow> R a (fst (handleLedEvent r))"
  by (auto simp: handleVMwareCursor_def handleCursor_def handleDesktopName_def handleLedEvent_def Let_def
      intro!: keep split: sum.split)

lemma R_read_screens [keep]:
  "R a r \<Longrightarrow> (\<And>r'. R a r' \<Longrightarrow> R a (fst (rest r'))) \<Longrightarrow> R a (fst (read_screens r n rest))"
  unfolding read_screens_def
  by (cases "n = 0") (simp_all, (rule R_reading, assumption)+, simp)

lemma R_handleExtendedDesktopSize [keep]: "R a r \<Longrightarrow> R a (fst (handleExtendedDesktopSize env r))"
  by (auto simp: handleExtendedDesktopSize_def Let_def case_prod_unfold intro!: keep split: sum.split)

lemma R_handleDataRect [keep]: "R a r \<Longrightarrow> R a (fst (handleDataRect decoder r))"
  by (auto simp: handleDataRect_def Let_def intro!: keep split: option.split prod.split sum.split outcome.split)

lemma R_handleRect [keep]: "R a r \<Longrightarrow> R a (fst (handleRect env decoder r))"
  by (auto simp: handleRect_def Let_def case_prod_unfold intro!: keep split: sum.split)

lemma R_rect_header [keep]:
  "R a r \<Longrightarrow> (\<And>r'. R a r' \<Longrightarrow> R a (fst (rest r'))) \<Longrightarrow> R a (fst (rect_header r rest))"
  unfolding rect_header_def
  by (cases "rf_FBU_encoding r") (simp_all, rule R_waiting, assumption, (rule R_reading, assumption)+, simp)

lemma R_rects_end: "R a r \<Longrightarrow> R a (fst (case flip (rf_display r) of
    (d, Inl e) \<Rightarrow> (r\<lparr>rf_display := d\<rparr>, Throw e) | (d, Inr _) \<Rightarrow> (r\<lparr>rf_display := d\<rparr>, Ret True)))"
  by (auto split: prod.split sum.split)

lemma R_rects_loop [keep]: "R a r \<Longrightarrow> R a (fst (rects_loop n env decoder r))"
proof (induction n arbitrary: r)
  case 0
  then show ?case by (subst rects_loop.simps) (simp add: R_rects_end)
next
  case (Suc n)
  have k: "R a (fst (case handleRect env decoder q of
      (r, Ret True) \<Rightarrow> rects_loop n env decoder (r\<lparr>rf_FBU_rects := rf_FBU_rects r - 1, rf_FBU_encoding := None\<rparr>)
    | (r, x) \<Rightarrow> (r, x)))" if "R a q" for q
  proof (cases "handleRect env decoder q")
    case (Pair r' x)
    have "R a r'" using R_handleRect [OF that, of env decoder] Pair by simp
    then have "R a (r'\<lparr>rf_FBU_rects := rf_FBU_rects r' - 1, rf_FBU_encoding := None\<rparr>)" by simp
    from Suc.IH [OF this] \<open>R a r'\<close> Pair show ?thesis by (simp split: ret.split bool.split del: rects_loop.simps)
  qed
  show ?case
  proof (cases "rf_FBU_rects r > 0")
    case True
    show ?thesis
      using True by (subst rects_loop.simps) (simp only: nat.case if_True, rule R_rect_header [OF Suc.prems], rule k)
  next
    case False
    then show ?thesis using R_rects_end [OF Suc.prems] by (subst rects_loop.simps) (simp del: rects_loop.simps)
  qed
qed

lemma R_framebufferUpdate [keep]: "R a r \<Longrightarrow> R a (fst (framebufferUpdate env decoder r))"
  by (auto simp: framebufferUpdate_def Let_def simp del: rects_loop.simps intro!: keep)

lemma R_endOfContinuousUpdates [keep]: "R a r \<Longrightarrow> R a (endOfContinuousUpdates r)"
  by (auto simp: endOfContinuousUpdates_def Let_def intro!: keep)

lemma R_normalMsg_type [keep]: "R a r \<Longrightarrow> R a (fst (normalMsg_type env zl decoder r t))"
proof -
  assume r: "R a r"
  obtain r' x where f: "framebufferUpdate env decoder r = (r', x)" by (metis surj_pair)
  have "R a r'" using R_framebufferUpdate [OF r, of env decoder] f by simp
  with r f show ?thesis
    by (auto simp: normalMsg_type_def intro!: keep split: ret.split bool.split)
qed

lemma R_normalMsg [keep]: "R a r \<Longrightarrow> R a (fst (normalMsg env zl decoder r))"
  by (auto simp: normalMsg_def intro!: keep)

lemma R_normal_loop:
  assumes "normal_loop env zl decoder r = Some res" and "R a r"
  shows "R a (fst res)"
proof (rule normal_loop.raw_induct [where P = "\<lambda>env zl decoder r res. R a r \<longrightarrow> R a (fst res)", OF _ assms(1), THEN mp, OF _ assms(2)])
  fix rec env zl decoder r res
  assume IH: "\<And>env zl decoder r res. rec env zl decoder r = Some res \<Longrightarrow> R a r \<longrightarrow> R a (fst res)"
    and eq: "(if rf_flushing r then Some (r, Ret True)
       else case normalMsg env zl decoder r of (r, x) \<Rightarrow>
              if x \<noteq> Ret True then Some (r, x)
              else if rQwaits (rf_sock r) 1 then Some (r, Ret True) else rec env zl decoder r) = Some res"
  show "R a r \<longrightarrow> R a (fst res)"
  proof
    assume r: "R a r"
    obtain r' x where n: "normalMsg env zl decoder r = (r', x)" by (metis surj_pair)
    have r': "R a r'" using R_normalMsg [OF r, of env zl decoder] n by simp
    show "R a (fst res)"
      using eq [unfolded n] r r' by (auto split: if_splits dest: IH)
  qed
qed

lemma R_handleMessage:
  "handleMessage env cy zl decoder r = Some res \<Longrightarrow> R a r \<Longrightarrow> R a (fst res)"
  using R_init_loop [of a r env cy]
  by (auto simp: handleMessage_def split: if_splits conn_state.splits dest: R_normal_loop)

lemma R_flush_done:
  "flush_done env cy zl decoder r = Some res \<Longrightarrow> R a r \<Longrightarrow> R a (fst res)"
  by (auto simp: flush_done_def Let_def split: if_splits dest: R_handleMessage)


text \<open>Client operations\<close>

lemma R_keys [keep]:
  "R a r \<Longrightarrow> R a (sendKey1 r keysym code d)"
  by (auto simp: sendKey1_def split: option.split)

lemma R_key_events [keep]:
  "R a r \<Longrightarrow> R a (sendKey r keysym code down)"
  "R a r \<Longrightarrow> R a (sendCtrlAltDel r)"
  "R a r \<Longrightarrow> R a (handleKeyEvent r keysym code d numlock capslock)"
  by (simp_all add: sendKey_def sendCtrlAltDel_def handleKeyEvent_def Let_def keep split: option.split)

lemma R_operations [keep]:
  "R a r \<Longrightarrow> R a (xvpOp r ver op)"
  "R a r \<Longrightarrow> R a (fst (clipboardPasteFrom r text))"
  "R a r \<Longrightarrow> R a (sendCredentials r creds)"
  "R a r \<Longrightarrow> R a (fst (resumeAuthentication env cy r))"
  by (auto simp: xvpOp_def clipboardPasteFrom_def sendCredentials_def resumeAuthentication_def Let_def intro!: keep)

lemma R_properties [keep]:
  "R a r \<Longrightarrow> R a (set_viewOnly r viewOnly)"
  "R a r \<Longrightarrow> R a (fst (rfb_set_clipViewport env r viewport))"
  "R a r \<Longrightarrow> R a (fst (set_scaleViewport env r scal))"
  "R a r \<Longrightarrow> R a (set_resizeSession env r resz)"
  "R a r \<Longrightarrow> R a (set_showDotCursor r show)"
  "R a r \<Longrightarrow> R a (set_qualityLevel env r level)"
  "R a r \<Longrightarrow> R a (set_compressionLevel env r level)"
  "R a r \<Longrightarrow> R a (handleResize env r)"
  "R a r \<Longrightarrow> R a (fst (resize_frame env r))"
  by (auto simp: set_viewOnly_def rfb_set_clipViewport_def set_scaleViewport_def set_resizeSession_def
      set_showDotCursor_def set_qualityLevel_def set_compressionLevel_def handleResize_def resize_frame_def
      Let_def case_prod_unfold intro!: keep split: sum.split)

lemma R_mouse [keep]:
  "R a r \<Longrightarrow> R a (fst (sendMouse r x y msk))"
  by (auto simp: sendMouse_def split: prod.split)

lemma R_mouse_events [keep]:
  "R a r \<Longrightarrow> R a (fst (handleDelayedMouseMove env r))"
  "R a r \<Longrightarrow> R a (fst (flushMouseMoveTimer r x y))"
  "R a r \<Longrightarrow> R a (fst (handleMouseMove env r x y))"
  by (auto simp: handleDelayedMouseMove_def flushMouseMoveTimer_def handleMouseMove_def Let_def case_prod_unfold
      intro!: keep split: sum.split)

lemma R_handleMouseButton [keep]: "R a r \<Longrightarrow> R a (fst (handleMouseButton r x y bmask))"
  by (auto simp: handleMouseButton_def case_prod_unfold intro!: keep split: sum.split)

lemma R_handleMouse [keep]: "R a r \<Longrightarrow> R a (fst (handleMouse env dragThreshold canvas r type x y buttons))"
  by (auto simp: handleMouse_def mouse_button_event_def mouse_move_event_def Let_def case_prod_unfold
      intro!: keep split: sum.split mouse_type.split)

lemma R_wheel_axis [keep]: "R a r \<Longrightarrow> R a (fst (wheel_axis r acc x y bmask m n))"
  by (auto simp: wheel_axis_def case_prod_unfold intro!: keep split: sum.split)

lemma R_wheel [keep]:
  "R a r \<Longrightarrow> R a (fst (wheel_x r x y bmask))"
  "R a r \<Longrightarrow> R a (fst (wheel_y r x y bmask))"
  by (auto simp: wheel_x_def wheel_y_def case_prod_unfold intro!: keep split: sum.split)

lemma R_handleWheel [keep]: "R a r \<Longrightarrow> R a (fst (handleWheel canvas r x y buttons dx dy m))"
  by (auto simp: handleWheel_def Let_def case_prod_unfold intro!: keep split: sum.split)

text \<open>The socket and the constructor\<close>

lemma R_socket [keep]:
  "R a r \<Longrightarrow> R a (socketOpen r)"
  "R a r \<Longrightarrow> R a (socketClose r)"
  "R a r \<Longrightarrow> R a (disconnTimeout r)"
  "R a r \<Longrightarrow> R a (user_disconnect r)"
  by (auto simp: socketOpen_def socketClose_def disconnTimeout_def user_disconnect_def Let_def
      intro!: keep split: conn_state.split)

lemma R_rfb_connect [keep]: "R a r \<Longrightarrow> R a (fst (rfb_connect nw r))"
  by (auto simp: rfb_connect_def Let_def intro!: keep split: prod.split sum.split)

lemma R_updateConnectionState: "R r (fst (updateConnectionState nw r s))"
  by (auto simp: updateConnectionState_def transition_ok_def intro!: keep enter leave)

end

section \<open>Everything that can happen to an RFB object\<close>

inductive rfb_step ::
  "crypto \<Rightarrow> zlib \<Rightarrow> 'd decoder \<Rightarrow> 'd rfb \<Rightarrow> 'd rfb \<Rightarrow> bool" for cy zl decoder where
  socket_open: "eventHandlers (rf_sock r) ''open'' = 1 \<Longrightarrow> rfb_step cy zl decoder r (socketOpen r)"
| socket_close: "eventHandlers (rf_sock r) ''close'' = 2 \<Longrightarrow> rfb_step cy zl decoder r (socketClose r)"
| socket_message:
    "eventHandlers (rf_sock r) ''message'' = 3 \<Longrightarrow> recvMessage (rf_sock r) data = (w, Inr True) \<Longrightarrow>
     handleMessage env cy zl decoder (r\<lparr>rf_sock := w\<rparr>) = Some (r', x) \<Longrightarrow> rfb_step cy zl decoder r r'"
| socket_refused:
    "recvMessage (rf_sock r) data = (w, res) \<Longrightarrow> res \<noteq> Inr True \<Longrightarrow> rfb_step cy zl decoder r (r\<lparr>rf_sock := w\<rparr>)"
| display_event: "rfb_step cy zl decoder r (r\<lparr>rf_display := display_step (rf_display r) ev\<rparr>)"
| display_flushed:
    "rf_flushing r \<Longrightarrow> \<not> pending (rf_display r) \<Longrightarrow> flush_done env cy zl decoder r = Some (r', x) \<Longrightarrow> rfb_step cy zl decoder r r'"
| disconnect_timer: "rf_disconnTimer r \<Longrightarrow> rfb_step cy zl decoder r (disconnTimeout r)"
| mouse_timer: "rf_mouseMoveTimer r \<noteq> None \<Longrightarrow> rfb_step cy zl decoder r (fst (handleDelayedMouseMove env r))"
| resize_timer: "rf_resizeTimeout r \<noteq> None \<Longrightarrow> rfb_step cy zl decoder r (requestRemoteResize env r)"
| resized: "rfb_step cy zl decoder r (handleResize env r)"
| resize_drawn: "rfb_step cy zl decoder r (fst (resize_frame env r))"
| resume_timer: "rfb_step cy zl decoder r (fst (resumeAuthentication env cy r))"
| ard_exchange: "rfb_step cy zl decoder r (fst (ARDAuthAsync cy r))"
| ra2_exchange: "rf_rsaaes r \<noteq> None \<Longrightarrow> rfb_step cy zl decoder r (RA2_finished r res)"
| key: "rfb_step cy zl decoder r (handleKeyEvent r keysym code d numlock capslock)"
| mouse: "rfb_step cy zl decoder r (fst (handleMouse env dragThreshold canvas r type x y buttons))"
| wheel: "rfb_step cy zl decoder r (fst (handleWheel canvas r x y buttons dx dy m))"
| user_sendKey: "rfb_step cy zl decoder r (sendKey r keysym code down)"
| user_sendCtrlAltDel: "rfb_step cy zl decoder r (sendCtrlAltDel r)"
| user_machineShutdown: "rfb_step cy zl decoder r (machineShutdown r)"
| user_machineReboot: "rfb_step cy zl decoder r (machineReboot r)"
| user_machineReset: "rfb_step cy zl decoder r (machineReset r)"
| user_paste: "rfb_step cy zl decoder r (fst (clipboardPasteFrom r text))"
| user_sendCredentials: "rfb_step cy zl decoder r (sendCredentials r creds)"
| user_disconnect: "rfb_step cy zl decoder r (user_disconnect r)"
| user_viewOnly: "rfb_step cy zl decoder r (set_viewOnly r b)"
| user_clipViewport: "rfb_step cy zl decoder r (fst (rfb_set_clipViewport env r b))"
| user_scaleViewport: "rfb_step cy zl decoder r (fst (set_scaleViewport env r b))"
| user_resizeSession: "rfb_step cy zl decoder r (set_resizeSession env r b)"
| user_dragViewport: "rfb_step cy zl decoder r (r\<lparr>rf_dragViewport := b\<rparr>)"
| user_showDotCursor: "rfb_step cy zl decoder r (set_showDotCursor r b)"
| user_qualityLevel: "rfb_step cy zl decoder r (set_qualityLevel env r level)"
| user_compressionLevel: "rfb_step cy zl decoder r (set_compressionLevel env r level)"

inductive rfb_reachable :: "crypto \<Rightarrow> zlib \<Rightarrow> 'd decoder \<Rightarrow> 'd rfb \<Rightarrow> bool" for cy zl decoder where
  constructed:
    "construct_RFB nw decs disp creds shared repeaterID wsProtocols url rawChannel showDot = Inr r \<Longrightarrow>
     rfb_reachable cy zl decoder r"
| stepped: "rfb_reachable cy zl decoder r \<Longrightarrow> rfb_step cy zl decoder r r' \<Longrightarrow> rfb_reachable cy zl decoder r'"

context event_relation
begin

lemma R_xvp [keep]:
  "R a r \<Longrightarrow> R a (machineShutdown r)" "R a r \<Longrightarrow> R a (machineReboot r)" "R a r \<Longrightarrow> R a (machineReset r)"
  by (simp_all add: machineShutdown_def machineReboot_def machineReset_def keep)

theorem R_step: "rfb_step cy zl decoder r r' \<Longrightarrow> R r r'"
proof (induction rule: rfb_step.induct)
  case (socket_message r data w env r' x)
  then show ?case using R_handleMessage [of env cy zl decoder "r\<lparr>rf_sock := w\<rparr>" "(r', x)" r] by (simp add: keep)
next
  case (display_flushed r env r' x)
  then show ?case using R_flush_done [of env cy zl decoder r "(r', x)" r] by (simp add: keep)
qed (simp_all add: keep)

theorem R_steps: "(rfb_step cy zl decoder)\<^sup>*\<^sup>* r r' \<Longrightarrow> R r r'"
  by (induction rule: rtranclp_induct) (auto intro: R_refl R_step compose)

theorem R_construct:
  "construct_RFB nw decs disp creds shared repeaterID wsProtocols url rawChannel showDot = Inr r \<Longrightarrow>
   R (new_RFB decs disp creds shared repeaterID wsProtocols url rawChannel) r"
  using R_updateConnectionState [of "new_RFB decs disp creds shared repeaterID wsProtocols url rawChannel" nw Connecting]
  by (auto simp: construct_RFB_def split: if_splits prod.splits sum.splits)

end

end
