(* ===== verification/Rfb_Lifecycle.thy ===== *)
theory Rfb_Lifecycle
  imports Rfb_Invariants "HOL-Library.Sublist"
begin

text \<open>
  The abstract specification of a connection's life, \<open>lifecycle\<close>, and the proof that the RFB
  object of \<open>rfb.js\<close> implements it: two interpretations of \<open>event_relation\<close>, one for the state
  machine and one for the append-only event log, and what the page can rely on.
\<close>

section \<open>The abstract machine\<close>

datatype lifecycle_state = Life conn_state bool "event list"

inductive lifecycle :: "lifecycle_state \<Rightarrow> lifecycle_state \<Rightarrow> bool" where
  connect: "lifecycle (Life NoState timer evs) (Life Connecting False evs)"
| connected: "lifecycle (Life Connecting timer evs) (Life Connected False (evs @ [EvConnect]))"
| disconnect: "s = Connecting \<or> s = Connected \<Longrightarrow> lifecycle (Life s timer evs) (Life Disconnecting True evs)"
| disconnected: "lifecycle (Life Disconnecting timer evs) (Life Disconnected False (evs @ [EvDisconnect clean]))"

inductive_cases lifecycle_DisconnectedE: "lifecycle (Life Disconnected timer evs) l"

definition life :: "'d rfb \<Rightarrow> lifecycle_state" where
  "life r = Life (rf_connectionState r) (rf_disconnTimer r) (filter conn_event (rf_events r))"

lemma life_core: "core r' = core r \<Longrightarrow> life r' = life r"
  by (simp add: core_def life_def)

lemma life_report: "\<not> conn_event ev \<Longrightarrow> life (dispatch r ev) = life r"
  by (simp add: life_def dispatch_def)

lemma life_leave: "life (leaveConnectionState r s) = life r \<or> lifecycle (life r) (life (leaveConnectionState r s))"
  by (cases "rf_connectionState r"; cases s)
    (simp_all add: life_def leaveConnectionState_def transition_ok_def enter_state_def rfb_disconnect_def
      with_sock_def dispatch_def Let_def lifecycle.intros [simplified])

lemma life_enter: "rf_connectionState r = NoState \<Longrightarrow> lifecycle (life r) (life (enter_state r Connecting))"
  by (cases "rf_disconnTimer r") (simp_all add: life_def enter_state_def with_sock_def Let_def lifecycle.connect)

interpretation life: event_relation "\<lambda>r r' :: 'd rfb. lifecycle\<^sup>*\<^sup>* (life r) (life r')"
proof
  fix r r' :: "'d rfb"
  show "core r' = core r \<Longrightarrow> lifecycle\<^sup>*\<^sup>* (life r) (life r')" by (metis life_core rtranclp.rtrancl_refl)
next
  fix a b c :: "'d rfb"
  show "lifecycle\<^sup>*\<^sup>* (life a) (life b) \<Longrightarrow> lifecycle\<^sup>*\<^sup>* (life b) (life c) \<Longrightarrow> lifecycle\<^sup>*\<^sup>* (life a) (life c)"
    by (rule rtranclp_trans)
next
  fix ev and r :: "'d rfb"
  show "\<not> conn_event ev \<Longrightarrow> lifecycle\<^sup>*\<^sup>* (life r) (life (dispatch r ev))" by (simp add: life_report)
next
  fix r :: "'d rfb" and s
  show "lifecycle\<^sup>*\<^sup>* (life r) (life (leaveConnectionState r s))" using life_leave [of r s] by auto
next
  fix r :: "'d rfb"
  show "rf_connectionState r = NoState \<Longrightarrow> lifecycle\<^sup>*\<^sup>* (life r) (life (enter_state r Connecting))"
    using life_enter by blast
qed

lemma events_leave: "prefix (rf_events r) (rf_events (leaveConnectionState r s))"
  by (simp add: leaveConnectionState_def enter_state_def rfb_disconnect_def with_sock_def dispatch_def Let_def
      split: conn_state.split)

interpretation log: event_relation "\<lambda>r r' :: 'd rfb. prefix (rf_events r) (rf_events r')"
  by unfold_locales
    (auto simp: core_def dispatch_def enter_state_def with_sock_def Let_def intro: events_leave prefix_order.trans)

fun life_ok :: "lifecycle_state \<Rightarrow> bool" where
  "life_ok (Life NoState timer evs) \<longleftrightarrow> evs = [] \<and> \<not> timer"
| "life_ok (Life Connecting timer evs) \<longleftrightarrow> evs = [] \<and> \<not> timer"
| "life_ok (Life Connected timer evs) \<longleftrightarrow> evs = [EvConnect] \<and> \<not> timer"
| "life_ok (Life Disconnecting timer evs) \<longleftrightarrow> (evs = [] \<or> evs = [EvConnect]) \<and> timer"
| "life_ok (Life Disconnected timer evs) \<longleftrightarrow>
     (\<exists>clean. evs = [EvDisconnect clean] \<or> evs = [EvConnect, EvDisconnect clean]) \<and> \<not> timer"

lemma life_ok_step: "lifecycle l l' \<Longrightarrow> life_ok l \<Longrightarrow> life_ok l'"
  by (induction rule: lifecycle.induct) auto

lemma life_ok_steps: "lifecycle\<^sup>*\<^sup>* l l' \<Longrightarrow> life_ok l \<Longrightarrow> life_ok l'"
  by (induction rule: rtranclp_induct) (auto intro: life_ok_step)

lemma Disconnected_final: "lifecycle\<^sup>*\<^sup>* (Life Disconnected timer evs) l \<Longrightarrow> l = Life Disconnected timer evs"
  by (induction rule: rtranclp_induct) (auto elim: lifecycle_DisconnectedE)

lemma lifecycle_left: "lifecycle\<^sup>*\<^sup>* l (Life s timer evs) \<Longrightarrow> s = NoState \<Longrightarrow> l = Life s timer evs"
  by (induction l rule: converse_rtranclp_induct) (auto elim: lifecycle.cases)

lemma construct_life:
  assumes "construct_RFB nw decs disp creds shared repeaterID wsProtocols url rawChannel showDot = Inr r"
  shows "lifecycle\<^sup>*\<^sup>* (Life Connecting False []) (life r)"
proof -
  let ?r = "enter_state (new_RFB decs disp creds shared repeaterID wsProtocols url rawChannel) Connecting"
  have t: "transition_ok NoState Connecting" by (simp add: transition_ok_def)
  have "life r = life (fst (rfb_connect nw ?r))"
    using assms
    by (auto simp: construct_RFB_def updateConnectionState_def t life_def new_RFB_def split: if_splits prod.splits sum.splits)
  moreover have "life ?r = Life Connecting False []"
    by (simp add: life_def enter_state_def new_RFB_def)
  ultimately show ?thesis using life.R_rfb_connect [OF life.R_refl, of ?r nw] by simp
qed

lemma reachable_life: "rfb_reachable cy zl decoder r \<Longrightarrow> lifecycle\<^sup>*\<^sup>* (Life Connecting False []) (life r)"
proof (induction rule: rfb_reachable.induct)
  case (constructed nw decs disp creds shared repeaterID wsProtocols url rawChannel showDot r)
  then show ?case by (rule construct_life)
next
  case (stepped r r')
  then show ?case using life.R_step by (metis rtranclp_trans)
qed


section \<open>A small object for the concrete instances\<close>

definition sample_channel :: "string \<Rightarrow> string list \<Rightarrow> channel" where
  "sample_channel url protocols = open_channel\<lparr>ch_readyState := WSState 0\<rparr>"

definition no_credentials :: credentials where
  "no_credentials = \<lparr>cr_username = None, cr_password = None, cr_target = None, cr_ardCredentials = None, cr_ardPublicKey = None\<rparr>"

definition sample_new :: "unit rfb" where
  "sample_new = new_RFB () (new_Display 0 0 300 150) no_credentials True [] [] (Some ''wss://pcenter/console'') None"

definition no_decoder :: "unit decoder" where
  "no_decoder = (\<lambda>_ _ _ _ _ _ _ _. None)"

lemma sample_construct:
  "\<exists>r. construct_RFB sample_channel () (new_Display 0 0 300 150) no_credentials True [] [] (Some ''wss://pcenter/console'') None None
     = Inr r \<and> life r = Life Connecting False []"
  by (simp add: construct_RFB_def updateConnectionState_def transition_ok_def new_RFB_def rfb_connect_def enter_state_def
      ws_open_def ws_attach_def sample_channel_def open_channel_def rawChannelProps_def refreshCursor_def life_def Let_def
      split: option.split)

section \<open>Properties\<close>

text \<open>
  C2. The RFB object is a refinement of the connection life cycle: whatever message, timer, page
  event or call happens, its state and the connection events it fired move along the abstract
  machine \<open>lifecycle\<close> (or stay), and the log of events only grows.
\<close>

theorem step_refines_lifecycle:
  assumes "rfb_step cy zl decoder r r'"
  shows "lifecycle\<^sup>*\<^sup>* (life r) (life r') \<and> prefix (rf_events r) (rf_events r')"
  using life.R_step [OF assms] log.R_step [OF assms] by simp

theorem step_refines_lifecycle_witness:
  "lifecycle\<^sup>*\<^sup>* (Life Connected False [EvConnect])
     (life (user_disconnect (sample_new\<lparr>rf_connectionState := Connected, rf_events := [EvConnect]\<rparr>)))"
proof -
  let ?r = "sample_new\<lparr>rf_connectionState := Connected, rf_events := [EvConnect]\<rparr>"
  have "life ?r = Life Connected False [EvConnect]" by (simp add: life_def sample_new_def new_RFB_def)
  with step_refines_lifecycle [OF rfb_step.user_disconnect [of undefined undefined no_decoder ?r]]
  show ?thesis by simp
qed

text \<open>
  C16. The page sees a well-formed connection: in every reachable state \<open>connect\<close> was fired
  exactly when the object is or was connected and at most once, \<open>disconnect\<close> was fired once and
  last exactly when the object is disconnected, and the disconnect timer runs exactly while
  disconnecting.
\<close>

theorem connection_events:
  assumes "rfb_reachable cy zl decoder r"
  shows "life_ok (life r) \<and> rf_connectionState r \<noteq> NoState"
  using reachable_life [OF assms] life_ok_steps [OF reachable_life [OF assms]] lifecycle_left
  by (fastforce simp: life_def)

theorem connection_events_witness:
  "\<exists>r. construct_RFB sample_channel () (new_Display 0 0 300 150) no_credentials True [] [] (Some ''wss://pcenter/console'') None None
     = Inr r \<and> life_ok (life r)"
proof -
  obtain r where r: "construct_RFB sample_channel () (new_Display 0 0 300 150) no_credentials True [] []
      (Some ''wss://pcenter/console'') None None = Inr r" using sample_construct by blast
  from connection_events [OF constructed [OF r, of undefined undefined no_decoder]] r show ?thesis by blast
qed

text \<open>
  C32. Disconnected is permanent: from a disconnected object no sequence of messages, timers and
  calls leads to another state, and no further connection event is fired.
\<close>

theorem disconnected_is_permanent:
  assumes "(rfb_step cy zl decoder)\<^sup>*\<^sup>* r r'" and "rf_connectionState r = Disconnected"
  shows "rf_connectionState r' = Disconnected \<and> filter conn_event (rf_events r') = filter conn_event (rf_events r)"
  using life.R_steps [OF assms(1)] assms(2) by (auto simp: life_def dest!: Disconnected_final)

theorem disconnected_is_permanent_witness:
  "rf_connectionState (user_disconnect (sample_new\<lparr>rf_connectionState := Disconnected\<rparr>)) = Disconnected"
  using disconnected_is_permanent [OF r_into_rtranclp [of "rfb_step undefined undefined no_decoder",
    OF rfb_step.user_disconnect [of undefined undefined no_decoder "sample_new\<lparr>rf_connectionState := Disconnected\<rparr>"]]]
  by simp

lemma rx_fail: "rx_inv (rf_sock r) \<Longrightarrow> rx_inv (rf_sock (fail r)) \<and> unread (rf_sock (fail r)) = unread (rf_sock r)"
  by (auto simp: fail_def leaveConnectionState_def enter_state_def rfb_disconnect_def with_sock_def dispatch_def Let_def
      ws_close_def ws_off_def rx_inv_def unread_def split: option.split)

text \<open>
  C33. A failure does not stop the message loop: an unknown message type on an established
  connection disconnects the object, but the loop goes on with the bytes that follow, so a bell
  behind it is still reported, after the \<open>disconnect\<close> event.
\<close>

theorem messages_after_failure:
  assumes "rf_connectionState r = Connected" and "\<not> rf_flushing r" and "rf_FBU_rects r = 0"
    and "rx_inv (rf_sock r)" and "unread (rf_sock r) = [t, 2]" and "uint t \<notin> {0, 1, 2, 3, 150, 248, 250}"
  shows "\<exists>r'. handleMessage env cy zl decoder r = Some (r', Ret True) \<and> rf_connectionState r' = Disconnected \<and>
    rf_events r' = rf_events r @ [EvDisconnect False, EvBell]"
proof -
  define r1 where "r1 = r\<lparr>rf_sock := adv 1 (rf_sock r)\<rparr>"
  have r1: "rx_inv (rf_sock r1)" "unread (rf_sock r1) = [2]" "rf_connectionState r1 = Connected"
      "\<not> rf_flushing r1" "rf_FBU_rects r1 = 0"
    using assms by (simp_all add: r1_def ws_simps)
  have m1: "normalMsg env zl decoder r = (fail r1, Ret True)"
    using assms by (simp add: normalMsg_def reading_def r1_def ws_simps normalMsg_type_def)
  have f: "rf_flushing (fail r1) = rf_flushing r1" "rf_FBU_rects (fail r1) = rf_FBU_rects r1"
    by (simp_all add: fail_def leaveConnectionState_def enter_state_def rfb_disconnect_def with_sock_def dispatch_def
        Let_def split: conn_state.split)
  define r2 where "r2 = (fail r1)\<lparr>rf_sock := adv 1 (rf_sock (fail r1))\<rparr>"
  have m2: "normalMsg env zl decoder (fail r1) = (dispatch r2 EvBell, Ret True)"
    using r1 rx_fail [OF r1(1)] f by (simp add: normalMsg_def reading_def r2_def ws_simps normalMsg_type_def)
  have e: "rf_events (fail r1) = rf_events r @ [EvDisconnect False]" "rf_connectionState (fail r1) = Disconnected"
    using r1(3) by (simp_all add: fail_def leaveConnectionState_def transition_ok_def enter_state_def rfb_disconnect_def
        with_sock_def dispatch_def Let_def r1_def)
  have "rQwaits (rf_sock r2) 1" using r1 rx_fail [OF r1(1)] by (simp add: r2_def ws_simps)
  then have "normal_loop env zl decoder (fail r1) = Some (dispatch r2 EvBell, Ret True)"
    using r1 f by (subst normal_loop.simps) (simp add: m2 dispatch_def)
  moreover have "\<not> rQwaits (rf_sock (fail r1)) 1" using r1 rx_fail [OF r1(1)] by (simp add: ws_simps)
  ultimately have "normal_loop env zl decoder r = Some (dispatch r2 EvBell, Ret True)"
    using assms(2) by (subst normal_loop.simps) (simp add: m1)
  moreover have "handleMessage env cy zl decoder r = normal_loop env zl decoder r"
    using assms by (simp add: handleMessage_def ws_simps)
  ultimately show ?thesis using e by (simp add: dispatch_def r2_def)
qed

theorem messages_after_failure_witness:
  "\<exists>r'. handleMessage undefined undefined undefined no_decoder
      (sample_new\<lparr>rf_connectionState := Connected, rf_sock := small_ws [9, 2]\<rparr>) = Some (r', Ret True) \<and>
    rf_events r' = [EvDisconnect False, EvBell]"
proof -
  let ?r = "sample_new\<lparr>rf_connectionState := Connected, rf_sock := small_ws [9, 2]\<rparr>"
  have "rf_connectionState ?r = Connected" "\<not> rf_flushing ?r" "rf_FBU_rects ?r = 0" "rf_sock ?r = small_ws [9, 2]"
      "rf_events ?r = []"
    by (simp_all add: sample_new_def new_RFB_def)
  with messages_after_failure [of ?r 9 undefined undefined undefined no_decoder] small_ws_inv [of "[9, 2]"]
  show ?thesis by (simp del: rfb.update_convs) blast
qed

end
