(* ===== verification/Decoders.thy ===== *)
theory Decoders
  imports Hextile Decoders_Zlib Tight_Decoder Zrle Jpeg H264 Rfb_Lifecycle
begin

text \<open>
  The table of decoders that \<open>RFB\<close> fills on construction (\<open>rfb.js\<close>), as the parameter of its update loops, and what
  follows for the client as a whole: a framebuffer update goes from the socket through the loop over the rectangles, the table
  and the decoders to the canvas.
\<close>

section \<open>The table\<close>

text \<open>One object for each encoding, kept for the life of the client; CopyRect has no state.\<close>

record 'p decoders =
  de_raw :: nat
  de_rre :: nat
  de_hextile :: hextile
  de_zlib :: "'p zlib_decoder"
  de_tight :: "'p tight"
  de_tightPNG :: "'p tight"
  de_zrle :: "'p zrle"
  de_jpeg :: jpeg
  de_h264 :: h264

definition new_decoders :: "'p pako \<Rightarrow> h264_global \<Rightarrow> 'p decoders" where
  "new_decoders pk g =
     \<lparr>de_raw = 0, de_rre = 0, de_hextile = new_HextileDecoder, de_zlib = new_ZlibDecoder pk, de_tight = new_TightDecoder pk,
      de_tightPNG = new_TightDecoder pk, de_zrle = new_ZRLEDecoder pk, de_jpeg = new_JPEGDecoder, de_h264 = new_H264Decoder g\<rparr>"

definition in_slot :: "('d \<Rightarrow> 'p decoders) \<Rightarrow> 'd decode_result \<Rightarrow> 'p decoders decode_result" where
  "in_slot put res = (case res of (d, w, ds, r) \<Rightarrow> (put d, w, ds, r))"

text \<open>The method called for an encoding; \<open>now\<close> is the clock. A call that never returns leaves no state behind to speak of.\<close>

definition rfb_decoder :: "'p pako \<Rightarrow> nat \<Rightarrow> 'p decoders decoder" where
  "rfb_decoder pk now enc x y width height depth d w =
     (if enc = encodingRaw then
        Some (in_slot (\<lambda>s. d\<lparr>de_raw := s\<rparr>) (raw_decodeRect x y width height (nat depth) (de_raw d) w))
      else if enc = encodingCopyRect then
        Some (in_slot (\<lambda>_. d) (copyrect_decodeRect x y width height () w))
      else if enc = encodingRRE then
        Some (in_slot (\<lambda>s. d\<lparr>de_rre := s\<rparr>) (rre_decodeRect x y width height (de_rre d) w))
      else if enc = encodingHextile then
        Some (in_slot (\<lambda>s. d\<lparr>de_hextile := s\<rparr>) (hextile_decodeRect x y width height (de_hextile d) w))
      else if enc = encodingZlib then
        Some (in_slot (\<lambda>s. d\<lparr>de_zlib := s\<rparr>) (zlib_decodeRect pk x y width height (de_zlib d) w))
      else if enc = encodingTight then
        Some (in_slot (\<lambda>s. d\<lparr>de_tight := s\<rparr>) (tight_decodeRect pk False x y width height (de_tight d) w))
      else if enc = encodingTightPNG then
        Some (in_slot (\<lambda>s. d\<lparr>de_tightPNG := s\<rparr>) (tightpng_decodeRect pk x y width height (de_tightPNG d) w))
      else if enc = encodingZRLE then
        Some (case zrle_decodeRect pk x y width height (de_zrle d) w of
                None \<Rightarrow> (d, w, [], Hangs)
              | Some res \<Rightarrow> in_slot (\<lambda>s. d\<lparr>de_zrle := s\<rparr>) res)
      else if enc = encodingJPEG then
        Some (in_slot (\<lambda>s. d\<lparr>de_jpeg := s\<rparr>) (jpeg_decodeRect x y width height (de_jpeg d) w))
      else if enc = encodingH264 then
        Some (in_slot (\<lambda>s. d\<lparr>de_h264 := s\<rparr>) (h264_decodeRect now x y width height (de_h264 d) w))
      else None)"

lemma if_Some_None: "(if c then Some a else b) \<noteq> None \<longleftrightarrow> c \<or> b \<noteq> None"
  by simp

lemma has_decoder:
  "rfb_decoder pk now enc x y width height depth d w \<noteq> None \<longleftrightarrow>
     enc \<in> {encodingRaw, encodingCopyRect, encodingRRE, encodingHextile, encodingZlib, encodingTight, encodingTightPNG,
       encodingZRLE, encodingJPEG, encodingH264}"
  unfolding rfb_decoder_def by (simp only: if_Some_None insert_iff empty_iff simp_thms)

section \<open>Updates\<close>

text \<open>
  A rectangle on the wire (place, encoding, bytes) that the decoder in a state takes to another state with certain
  drawing operations, all of them acceptable to the display.
\<close>

type_synonym wire_rect = "int \<times> int \<times> nat \<times> nat \<times> int \<times> byte list"

fun rect_bytes :: "wire_rect \<Rightarrow> byte list" where
  "rect_bytes (x, y, width, height, enc, body) =
     be_bytes 2 x @ be_bytes 2 y @ be_bytes 2 (int width) @ be_bytes 2 (int height) @ be_bytes 4 enc @ body"

definition decodes :: "'d decoder \<Rightarrow> int \<Rightarrow> 'd \<Rightarrow> wire_rect \<Rightarrow> canvas_op list \<Rightarrow> 'd \<Rightarrow> bool" where
  "decodes decoder depth d rect os d' \<longleftrightarrow>
     (case rect of (x, y, width, height, enc, body) \<Rightarrow>
        0 \<le> x \<and> x < 65536 \<and> 0 \<le> y \<and> y < 65536 \<and> width < 65536 \<and> height < 65536 \<and> 0 \<le> enc \<and> enc < 65536 \<and>
        (\<forall>w later. rx_inv w \<longrightarrow> unread w = body @ later \<longrightarrow>
          (\<exists>w' ds. decoder enc x y width height depth d w = Some (d', w', ds, Done) \<and> rx_inv w' \<and> unread w' = later \<and>
             ops ds = os \<and> (\<forall>dr \<in> set ds. wf_draw dr \<and> buffer_start dr))))"

lemma exec_draws_drawn:
  assumes "disp_inv d" and "\<forall>dr \<in> set ds. wf_draw dr \<and> buffer_start dr"
  shows "\<exists>d'. exec_draws d ds = (d', Inr ()) \<and> disp_inv d' \<and> drawn d' = drawn d @ ops ds"
  using assms
proof (induction ds arbitrary: d)
  case Nil
  then show ?case by simp
next
  case (Cons dr ds)
  obtain d1 x where d1: "exec_draw d dr = (d1, x)" by fastforce
  with exec_draw_drawn [of d dr] Cons.prems have e: "disp_inv d1" "drawn d1 = drawn d @ draw_ops dr" "x = Inr ()" by simp_all
  from Cons.IH [OF e(1)] Cons.prems(2) d1 e show ?case by auto
qed

text \<open>One turn of the loop.\<close>

definition between_rects :: "nat \<Rightarrow> byte list \<Rightarrow> 'd \<Rightarrow> canvas_op list \<Rightarrow> int \<Rightarrow> 'd rfb \<Rightarrow> bool" where
  "between_rects k bs d os depth r \<longleftrightarrow>
     rf_FBU_rects r = k \<and> rf_FBU_encoding r = None \<and> rx_inv (rf_sock r) \<and> unread (rf_sock r) = bs \<and> rf_decoders r = d \<and>
     disp_inv (rf_display r) \<and> drawn (rf_display r) = os \<and> rf_fbDepth r = depth"

lemma one_rect:
  assumes "between_rects (Suc k) (rect_bytes rect @ later) d os depth r" and "decodes decoder depth d rect os' d'"
  shows "\<exists>r'. rects_loop (Suc n) env decoder r = rects_loop n env decoder r' \<and> between_rects k later d' (os @ os') depth r'"
proof -
  obtain x y width height enc body where rect: "rect = (x, y, width, height, enc, body)" by (metis prod_cases6)
  have b: "0 \<le> x" "x < 65536" "0 \<le> y" "y < 65536" "width < 65536" "height < 65536" "0 \<le> enc" "enc < 65536"
    using assms(2) by (simp_all add: decodes_def rect)
  let ?w = "rf_sock r"
  have w: "rx_inv ?w" "unread ?w = be_bytes 2 x @ be_bytes 2 y @ be_bytes 2 (int width) @ be_bytes 2 (int height) @
      be_bytes 4 enc @ body @ later"
    using assms(1) by (simp_all add: between_rects_def rect)
  let ?r = "r\<lparr>rf_sock := adv 12 ?w, rf_FBU_x := x, rf_FBU_y := y, rf_FBU_width := width, rf_FBU_height := height,
    rf_FBU_encoding := Some enc\<rparr>"
  have l: "12 \<le> length (unread ?w)" using w by simp
  have v: "nat (int width) = width" "js_sar enc 0 = enc" using b by (simp_all add: js_sar_def ToInt32_nonneg)
  have hdr: "rect_header r rest = rest ?r" for rest
    using assms(1) w b v l
    by (simp add: rect_header_def between_rects_def waiting_def reading_def ws_simps be_val_be_bytes)
  have u: "rx_inv (adv 12 ?w)" "unread (adv 12 ?w) = body @ later"
    using w l by (simp_all add: ws_simps)
  obtain w' ds where d: "decoder enc x y width height depth d (adv 12 ?w) = Some (d', w', ds, Done)" "rx_inv w'" "unread w' = later"
      "ops ds = os'" "\<forall>dr \<in> set ds. wf_draw dr \<and> buffer_start dr"
    using assms(2) u unfolding decodes_def rect by force
  have "disp_inv (rf_display r)" "drawn (rf_display r) = os" using assms(1) by (simp_all add: between_rects_def)
  then obtain disp where disp: "exec_draws (rf_display r) ds = (disp, Inr ())" "disp_inv disp" "drawn disp = os @ os'"
    using exec_draws_drawn [of "rf_display r" ds] d(4,5) by auto
  let ?r' = "?r\<lparr>rf_decoders := d', rf_sock := w', rf_display := disp\<rparr>"
  have enc: "enc \<noteq> pseudoEncodingLastRect" "enc \<noteq> pseudoEncodingVMwareCursor" "enc \<noteq> pseudoEncodingCursor"
      "enc \<noteq> pseudoEncodingQEMUExtendedKeyEvent" "enc \<noteq> pseudoEncodingDesktopName" "enc \<noteq> pseudoEncodingDesktopSize"
      "enc \<noteq> pseudoEncodingExtendedDesktopSize" "enc \<noteq> pseudoEncodingExtendedMouseButtons" "enc \<noteq> pseudoEncodingQEMULedEvent"
    using b by (auto simp: encoding_defs)
  have "handleRect env decoder ?r = (?r', Ret True)"
    using assms(1) d(1) disp(1) enc
    by (simp add: handleRect_def handleDataRect_def between_rects_def)
  then have "rects_loop (Suc n) env decoder r = rects_loop n env decoder (?r'\<lparr>rf_FBU_rects := k, rf_FBU_encoding := None\<rparr>)"
    using assms(1) by (subst rects_loop.simps) (simp add: hdr between_rects_def del: rects_loop.simps)
  moreover have "between_rects k later d' (os @ os') depth (?r'\<lparr>rf_FBU_rects := k, rf_FBU_encoding := None\<rparr>)"
    using assms(1) d disp by (simp add: between_rects_def)
  ultimately show ?thesis by blast
qed


text \<open>Rectangles one after the other, each found in the state the last one left.\<close>

inductive chained :: "('d \<Rightarrow> wire_rect \<Rightarrow> canvas_op list \<Rightarrow> 'd \<Rightarrow> bool) \<Rightarrow> 'd \<Rightarrow> wire_rect list \<Rightarrow> canvas_op list \<Rightarrow> 'd \<Rightarrow> bool"
  for P :: "'d \<Rightarrow> wire_rect \<Rightarrow> canvas_op list \<Rightarrow> 'd \<Rightarrow> bool" where
  none: "chained P d [] [] d"
| one: "P d rect os d' \<Longrightarrow> chained P d' rects os' d'' \<Longrightarrow> chained P d (rect # rects) (os @ os') d''"

lemma chained_mono:
  assumes "chained P d rects os d'" and "\<And>d rect os d'. rect \<in> set rects \<Longrightarrow> P d rect os d' \<Longrightarrow> Q d rect os d'"
  shows "chained Q d rects os d'"
  using assms
proof (induction rule: chained.induct)
  case (none d)
  show ?case by (rule chained.none)
next
  case (one d rect os d' rects os' d'')
  have "Q d rect os d'" using one(4) [of rect] one(1) by simp
  moreover have "chained Q d' rects os' d''" by (rule one(3)) (use one(4) in \<open>metis list.set_intros(2)\<close>)
  ultimately show ?case by (rule chained.one)
qed

lemma all_rects:
  assumes "chained (decodes decoder depth) d rects os' d'"
    and "between_rects (length rects) (concat (map rect_bytes rects) @ later) d os depth r"
  shows "\<exists>r'. rects_loop (length rects) env decoder r = (r', Ret True) \<and> between_rects 0 later d' (os @ os') depth r'"
  using assms
proof (induction arbitrary: os r rule: chained.induct)
  case (none d)
  have f: "flip (rf_display r) = (fst (flip (rf_display r)), Inr ())"
    using none renderQPush_drawn [of "rf_display r" AFlip] by (simp add: flip_def between_rects_def prod_eq_iff)
  with none flip_drawn [of "rf_display r"] show ?case
    by (auto simp: between_rects_def split: prod.split)
next
  case (one d rect os1 d' rects os2 d'')
  have "between_rects (Suc (length rects)) (rect_bytes rect @ concat (map rect_bytes rects) @ later) d os depth r"
    using one(4) by simp
  from one_rect [OF this one(1), of "length rects" env] obtain r1 where
    r1: "rects_loop (Suc (length rects)) env decoder r = rects_loop (length rects) env decoder r1"
      "between_rects (length rects) (concat (map rect_bytes rects) @ later) d' (os @ os1) depth r1" by blast
  from one(3) [OF r1(2)] r1(1) show ?case by (simp del: rects_loop.simps)
qed


lemma update_draws:
  assumes "chained (decodes decoder (rf_fbDepth r)) (rf_decoders r) rects os d'" and "rx_inv (rf_sock r)" and "disp_inv (rf_display r)"
    and "unread (rf_sock r) = [0] @ be_bytes 2 (int (length rects)) @ concat (map rect_bytes rects) @ later"
    and "length rects < 65536" and "rf_FBU_rects r = 0" and "rf_FBU_encoding r = None" and "\<not> pending (rf_display r)"
  shows "\<exists>r'. framebufferUpdate env decoder r = (r', Ret True) \<and>
    between_rects 0 later d' (drawn (rf_display r) @ os) (rf_fbDepth r) r'"
proof -
  let ?w = "rf_sock r" and ?r = "r\<lparr>rf_sock := adv 3 (rf_sock r), rf_FBU_rects := length rects\<rparr>"
  have l: "3 \<le> length (unread ?w)" using assms(4) by simp
  have wait: "rQwait ?w 3 1 = (?w, Inr False)"
    using assms(2) l length_unread [OF assms(2)] by (simp add: rQwait_def)
  have "skip 1 ?w = (adv 1 ?w, ())"
    using rQskipBytes_eq [of ?w 1] by (simp add: skip_def)
  moreover have "rQshift16 (adv 1 ?w) = (adv 3 ?w, int (length rects))"
    using assms(2,4,5) l by (simp add: ws_simps be_val_be_bytes numeral_3_eq_3)
  ultimately have "framebufferUpdate env decoder r = rects_loop (length rects) env decoder ?r"
    using assms(6,8) wait by (simp add: framebufferUpdate_def waiting_def reading_def Let_def del: rects_loop.simps)
  moreover have "between_rects (length rects) (concat (map rect_bytes rects) @ later) (rf_decoders r) (drawn (rf_display r))
      (rf_fbDepth r) ?r"
    using assms l by (simp add: between_rects_def ws_simps)
  ultimately show ?thesis using all_rects [OF assms(1)] by metis
qed

section \<open>What the encodings mean\<close>

inductive encodes :: "'p pako \<Rightarrow> 'p decoders \<Rightarrow> wire_rect \<Rightarrow> canvas_op list \<Rightarrow> 'p decoders \<Rightarrow> bool" for pk :: "'p pako" where
  copy: "0 < width \<Longrightarrow> 0 < height \<Longrightarrow> 0 \<le> sx \<Longrightarrow> sx < 65536 \<Longrightarrow> 0 \<le> sy \<Longrightarrow> sy < 65536 \<Longrightarrow>
    encodes pk d (x, y, width, height, encodingCopyRect, be_bytes 2 sx @ be_bytes 2 sy)
      [OpCopy sx sy x y (int width) (int height)] d"
| rre: "length bg = 4 \<Longrightarrow> list_all wf_subrect subs \<Longrightarrow> int (length subs) < 4294967296 \<Longrightarrow> de_rre d = 0 \<Longrightarrow>
    encodes pk d (x, y, width, height, encodingRRE, rre_bytes bg subs)
      (OpFill (style_of bg) x y (int width) (int height) # map (rre_sub_op x y) subs) d"
| zlib: "0 < width \<Longrightarrow> 0 < height \<Longrightarrow> 0 < length data \<Longrightarrow> length data < 4294967296 \<Longrightarrow> zd_length (de_zlib d) = 0 \<Longrightarrow>
    inflate pk (setInput (zd_zlib (de_zlib d)) (Some data)) (int width * int height * 4) = (z, Inr out) \<Longrightarrow>
    encodes pk d (x, y, width, height, encodingZlib, be_bytes 4 (int (length data)) @ data)
      [OpPut (opaque (width * height) 0 out) x y (int width) (int height)]
      (d\<lparr>de_zlib := (de_zlib d)\<lparr>zd_zlib := setInput (write_output z (opaque (width * height) 0 out)) None\<rparr>\<rparr>)"

fun on_screen :: "wire_rect \<Rightarrow> bool" where
  "on_screen (x, y, width, height, enc, body) \<longleftrightarrow>
     0 \<le> x \<and> x < 65536 \<and> 0 \<le> y \<and> y < 65536 \<and> width < 65536 \<and> height < 65536"

lemma rre_draws_accepted: "rre_loop x y k w = (d', w', ds, r) \<Longrightarrow> \<forall>dr \<in> set ds. wf_draw dr \<and> buffer_start dr"
  by (induction k arbitrary: w ds) (auto simp: Let_def split: if_splits prod.splits)

lemma rre_decodeRect_accepted:
  "rre_decodeRect x y width height d w = (d', w', ds, r) \<Longrightarrow> \<forall>dr \<in> set ds. wf_draw dr \<and> buffer_start dr"
  by (auto simp: rre_decodeRect_def Let_def dest!: rre_draws_accepted split: if_splits prod.splits)

lemmas table_defs = encodingRaw_def encodingCopyRect_def encodingRRE_def encodingHextile_def encodingZlib_def

lemma decodes_copy:
  assumes "0 < width" "0 < height" "0 \<le> sx" "sx < 65536" "0 \<le> sy" "sy < 65536"
    and "on_screen (x, y, width, height, encodingCopyRect, be_bytes 2 sx @ be_bytes 2 sy)"
  shows "decodes (rfb_decoder pk now) depth d (x, y, width, height, encodingCopyRect, be_bytes 2 sx @ be_bytes 2 sy)
    [OpCopy sx sy x y (int width) (int height)] d"
  using assms
  by (auto simp: decodes_def rfb_decoder_def table_defs copyrect_decodeRect_def in_slot_def ws_simps be_val_be_bytes)

lemma decodes_rre:
  assumes "length bg = 4" "list_all wf_subrect subs" "int (length subs) < 4294967296" "de_rre d = 0"
    and "on_screen (x, y, width, height, encodingRRE, rre_bytes bg subs)"
  shows "decodes (rfb_decoder pk now) depth d (x, y, width, height, encodingRRE, rre_bytes bg subs)
    (OpFill (style_of bg) x y (int width) (int height) # map (rre_sub_op x y) subs) d"
proof -
  have "\<exists>w' ds. rfb_decoder pk now encodingRRE x y width height depth d w = Some (d, w', ds, Done) \<and> rx_inv w' \<and>
      unread w' = later \<and> ops ds = OpFill (style_of bg) x y (int width) (int height) # map (rre_sub_op x y) subs \<and>
      (\<forall>dr \<in> set ds. wf_draw dr \<and> buffer_start dr)"
    if w: "rx_inv w" "unread w = rre_bytes bg subs @ later" for w later
  proof -
    obtain d' w' ds r n where c: "rre_decodeRect x y width height 0 w = (d', w', ds, r)"
        "rre_spec x y width height 0 (unread w) = (d', n, ops ds, r)" "rx_inv w'" "unread w' = drop n (unread w)"
      using rre.dec_specE [OF w(1) TrueI, of x y width height 0] by metis
    have "d' = 0" "n = length (rre_bytes bg subs)" "r = Done"
        "ops ds = OpFill (style_of bg) x y (int width) (int height) # map (rre_sub_op x y) subs"
      using c(2) rre_spec_bytes [OF assms(1-3), of x y width height later] assms(1) w(2) by (simp_all add: rre_bytes_def)
    moreover have "d\<lparr>de_rre := 0\<rparr> = d" using assms(4) by simp
    ultimately show ?thesis
      using c w(2) assms(4) rre_decodeRect_accepted [OF c(1)]
      by (simp add: rfb_decoder_def table_defs in_slot_def)
  qed
  then show ?thesis using assms(5) by (simp add: decodes_def table_defs)
qed

lemma decodes_zlib:
  assumes "0 < width" "0 < height" "0 < length data" "length data < 4294967296" "zd_length (de_zlib d) = 0"
    and inf: "inflate pk (setInput (zd_zlib (de_zlib d)) (Some data)) (int width * int height * 4) = (z, Inr out)"
    and "on_screen (x, y, width, height, encodingZlib, be_bytes 4 (int (length data)) @ data)"
  shows "decodes (rfb_decoder pk now) depth d (x, y, width, height, encodingZlib, be_bytes 4 (int (length data)) @ data)
    [OpPut (opaque (width * height) 0 out) x y (int width) (int height)]
    (d\<lparr>de_zlib := (de_zlib d)\<lparr>zd_zlib := setInput (write_output z (opaque (width * height) 0 out)) None\<rparr>\<rparr>)"
proof -
  have "int (length out) = int (width * height * 4)" using length_inflate [OF inf] by simp
  then have len: "length out = width * height * 4" by linarith
  have "\<exists>w' ds. zlib_decodeRect pk x y width height (de_zlib d) w =
        ((de_zlib d)\<lparr>zd_zlib := setInput (write_output z (opaque (width * height) 0 out)) None\<rparr>, w', ds, Done) \<and> rx_inv w' \<and>
      unread w' = later \<and> ops ds = [OpPut (opaque (width * height) 0 out) x y (int width) (int height)] \<and>
      (\<forall>dr \<in> set ds. wf_draw dr \<and> buffer_start dr)"
    if w: "rx_inv w" "unread w = be_bytes 4 (int (length data)) @ data @ later" for w later
  proof -
    have "rQshift32 w = (adv 4 w, int (length data))" "rx_inv (adv 4 w)" "unread (adv 4 w) = data @ later"
      using w assms(4) by (simp_all add: ws_simps be_val_be_bytes)
    then show ?thesis
      using w assms(1-5) inf len
      by (simp add: zlib_decodeRect_def zlib_read_def zlib_data_def whole_view_def ws_simps Let_def nat_mult_distrib)
  qed
  then show ?thesis
    using assms(7) by (fastforce simp: decodes_def rfb_decoder_def table_defs in_slot_def)
qed

lemma encodes_decodes:
  assumes "encodes pk d rect os d'" and "on_screen rect"
  shows "decodes (rfb_decoder pk now) depth d rect os d'"
  using assms by cases (auto intro: decodes_copy decodes_rre decodes_zlib)


section \<open>Properties\<close>

text \<open>
  C4. A framebuffer update goes through the whole client: from a message of any CopyRect, RRE and Zlib rectangles, in any
  order, the loop over the rectangles, the table and the decoders put exactly their drawing operations on the canvas, in
  order, behind what was drawn before, and leave the bytes that follow.
\<close>

theorem update_reaches_canvas:
  assumes "chained (encodes pk) (rf_decoders r) rects os d'" and "\<forall>rect \<in> set rects. on_screen rect"
    and "rx_inv (rf_sock r)" and "disp_inv (rf_display r)" and "\<not> pending (rf_display r)"
    and "unread (rf_sock r) = [0] @ be_bytes 2 (int (length rects)) @ concat (map rect_bytes rects) @ later"
    and "length rects < 65536" and "rf_FBU_rects r = 0" and "rf_FBU_encoding r = None"
  shows "\<exists>r'. framebufferUpdate env (rfb_decoder pk now) r = (r', Ret True) \<and>
    drawn (rf_display r') = drawn (rf_display r) @ os \<and> unread (rf_sock r') = later \<and>
    rf_decoders r' = d' \<and> rf_FBU_rects r' = 0 \<and> rf_FBU_encoding r' = None"
proof -
  have "chained (decodes (rfb_decoder pk now) (rf_fbDepth r)) (rf_decoders r) rects os d'"
    using assms(1) by (rule chained_mono) (use assms(2) encodes_decodes in blast)
  from update_draws [OF this assms(3,4,6,7,8,9,5)] show ?thesis by (auto simp: between_rects_def)
qed

definition sample_client :: "unit decoders rfb" where
  "sample_client = new_RFB (new_decoders stored fresh_global) (new_Display 0 0 300 150) no_credentials True [] [] (Some ''wss://pcenter/console'') None"

theorem update_reaches_canvas_witness:
  "\<exists>r'. framebufferUpdate undefined (rfb_decoder stored 5)
      (sample_client\<lparr>rf_sock := recv_ws ([0, 0, 2] @ [0, 8, 0, 8, 0, 16, 0, 16, 0, 0, 0, 1, 0, 1, 0, 2] @
         [0, 0, 0, 0, 0, 8, 0, 8, 0, 0, 0, 2, 0, 0, 0, 0, 10, 20, 30, 0] @ [2])\<rparr>) = (r', Ret True) \<and>
    drawn (rf_display r') = [OpCopy 1 2 8 8 16 16, OpFill (10, 20, 30) 0 0 8 8] \<and> unread (rf_sock r') = [2]"
proof -
  let ?d = "new_decoders stored fresh_global"
  let ?r1 = "(8, 8, 16, 16, encodingCopyRect, be_bytes 2 1 @ be_bytes 2 2) :: wire_rect"
  let ?r2 = "(0, 0, 8, 8, encodingRRE, rre_bytes [10, 20, 30, 0] []) :: wire_rect"
  have "encodes stored ?d ?r1 [OpCopy 1 2 8 8 (int 16) (int 16)] ?d" by (rule encodes.copy) simp_all
  moreover have "encodes stored ?d ?r2 (OpFill (style_of [10, 20, 30, 0]) 0 0 (int 8) (int 8) # map (rre_sub_op 0 0) []) ?d"
    by (rule encodes.rre) (simp_all add: new_decoders_def)
  ultimately have ch: "chained (encodes stored) ?d [?r1, ?r2]
      ([OpCopy 1 2 8 8 (int 16) (int 16)] @ (OpFill (style_of [10, 20, 30, 0]) 0 0 (int 8) (int 8) # map (rre_sub_op 0 0) []) @ []) ?d"
    by (rule chained.one [OF _ chained.one [OF _ chained.none]])
  let ?bs = "[0, 0, 2] @ [0, 8, 0, 8, 0, 16, 0, 16, 0, 0, 0, 1, 0, 1, 0, 2] @
         [0, 0, 0, 0, 0, 8, 0, 8, 0, 0, 0, 2, 0, 0, 0, 0, 10, 20, 30, 0] @ [2 :: byte]"
  have w: "rx_inv (recv_ws ?bs) \<and> unread (recv_ws ?bs) = ?bs" by (rule recv_ws_inv) (simp add: MAX_RQ_GROW_SIZE_def)
  let ?r = "sample_client\<lparr>rf_sock := recv_ws ?bs\<rparr>"
  have r: "rf_decoders ?r = ?d" "disp_inv (rf_display ?r)" "\<not> pending (rf_display ?r)" "rf_FBU_rects ?r = 0"
      "rf_FBU_encoding ?r = None" "drawn (rf_display ?r) = []"
    by (simp_all add: sample_client_def new_RFB_def new_Display_def disp_inv_def pending_def drawn_def)
  have on: "\<forall>rect \<in> set [?r1, ?r2]. on_screen rect" by simp
  have bs: "unread (rf_sock ?r) = [0] @ be_bytes 2 (int (length [?r1, ?r2])) @ concat (map rect_bytes [?r1, ?r2]) @ [2]"
    using w by (simp add: be_bytes_2 be_bytes_4 ToUint8_def rre_bytes_def encodingCopyRect_def encodingRRE_def)
  have "rx_inv (rf_sock ?r)" using w by simp
  from update_reaches_canvas [OF ch [folded r(1)] on this r(2,3) bs _ r(4,5), of undefined 5] r(6) show ?thesis
    by (auto simp: style_of_def u8_get_def)
qed

text \<open>
  Every encoding of pixel data the client announces to the server has a decoder.
\<close>

theorem announced_encodings_decoded:
  assumes "0 \<le> rf_qualityLevel r" and "rf_qualityLevel r \<le> 9" and "0 \<le> rf_compressionLevel r" and "rf_compressionLevel r \<le> 9"
  shows "\<exists>encs. sendEncodings env r = with_sock r (\<lambda>w. clientEncodings w encs) \<and>
    (\<forall>e \<in> set encs. 0 \<le> e \<and> e \<noteq> pseudoEncodingVMwareCursor \<and> e \<noteq> pseudoEncodingExtendedClipboard \<or> e = encodingTightPNG \<longrightarrow>
       rfb_decoder pk now e x y width height depth d w \<noteq> None)"
  unfolding sendEncodings_def Let_def has_decoder
  by (rule exI, rule conjI, rule refl) (use assms in \<open>auto simp: encoding_defs\<close>)


theorem announced_encodings_decoded_witness:
  "\<exists>encs. sendEncodings env sample_client = with_sock sample_client (\<lambda>w. clientEncodings w encs) \<and>
    (\<forall>e \<in> set encs. 0 \<le> e \<and> e \<noteq> pseudoEncodingVMwareCursor \<and> e \<noteq> pseudoEncodingExtendedClipboard \<or> e = encodingTightPNG \<longrightarrow>
       rfb_decoder stored 5 e 0 0 8 8 24 (new_decoders stored fresh_global) (small_ws []) \<noteq> None)"
  by (rule announced_encodings_decoded) (simp_all add: sample_client_def new_RFB_def)

end
