(* ===== verification/Zrle_Tiles.thy ===== *)
theory Zrle_Tiles
  imports Zrle Pixels
begin

text \<open>
  What a ZRLE tile draws. The zlib stream is any that supplies its content in the pieces it is asked for, of at least one
  byte each (\<open>supplies\<close>; pako refuses a request for nothing); on such a stream every well-formed tile is decoded to its pixels, however its runs are cut.
\<close>

section \<open>Streams\<close>

definition supplies :: "'p pako \<Rightarrow> ('p inflator \<Rightarrow> byte list \<Rightarrow> bool) \<Rightarrow> bool" where
  "supplies pk R \<longleftrightarrow>
     (\<forall>z bs n. R z bs \<longrightarrow> 0 < n \<longrightarrow> n \<le> length bs \<longrightarrow> (\<exists>z'. inflate pk z (int n) = (z', Inr (take n bs)) \<and> R z' (drop n bs)))"

definition zr_at :: "('p inflator \<Rightarrow> byte list \<Rightarrow> bool) \<Rightarrow> 'p zrle \<Rightarrow> byte list \<Rightarrow> bool" where
  "zr_at R d bs \<longleftrightarrow> R (zr_inflator d) bs \<and> length (zr_pixelBuffer d) = 16384 \<and> length (zr_tileBuffer d) = 16384"

lemma suppliesE:
  assumes "supplies pk R" and "R z (xs @ bs)" and "xs \<noteq> []"
  obtains z' where "inflate pk z (int (length xs)) = (z', Inr xs)" and "R z' bs"
proof -
  have "0 < length xs" using assms(3) by simp
  with assms(1,2) have "\<exists>z'. inflate pk z (int (length xs)) = (z', Inr (take (length xs) (xs @ bs))) \<and> R z' (drop (length xs) (xs @ bs))"
    unfolding supplies_def by (metis le_add1 length_append)
  then show ?thesis using that by auto
qed

lemma zr_byteE:
  assumes "supplies pk R" and "zr_at R d (b # bs)"
  obtains z where "zr_byte pk d = (d\<lparr>zr_inflator := z\<rparr>, Inr (uint b))" and "zr_at R (d\<lparr>zr_inflator := z\<rparr>) bs"
proof -
  have "R (zr_inflator d) ([b] @ bs)" using assms(2) by (simp add: zr_at_def)
  from suppliesE [OF assms(1) this list.distinct(2)] obtain z where "inflate pk (zr_inflator d) 1 = (z, Inr [b])" "R z bs"
    by (metis length_Cons list.size(3) of_nat_1 One_nat_def)
  then show ?thesis using that assms(2) by (simp add: zr_byte_def zr_at_def u8_get_def)
qed

section \<open>Buffers\<close>

lemma pixel_store_put4:
  "pixel_store buffer k data = put4 data (int (4 * k)) (u8_get buffer (int (3 * k))) (u8_get buffer (int (3 * k + 1))) (u8_get buffer (int (3 * k + 2)))"
  by (simp add: pixel_store_def put4_def Let_def add.commute)

lemma decoded_fill:
  assumes "decoded i pix data" and "4 * (i + n) \<le> length data"
    and "\<And>j dest. j < n \<Longrightarrow> f dest (i + j) = put4 dest (int (4 * (i + j))) (pix (i + j) 0) (pix (i + j) 1) (pix (i + j) 2)"
  shows "decoded (i + n) pix (foldl (\<lambda>dest j. f dest (i + j)) data [0..<n]) \<and>
    length (foldl (\<lambda>dest j. f dest (i + j)) data [0..<n]) = length data"
  using assms(2,3)
proof (induction n)
  case 0
  then show ?case using assms(1) by simp
next
  case (Suc n)
  let ?d = "foldl (\<lambda>dest j. f dest (i + j)) data [0..<n]"
  have "decoded (i + n) pix ?d" "length ?d = length data" using Suc by simp_all
  moreover have "4 * (i + n) + 3 < length data" using Suc.prems(1) by simp
  ultimately show ?case using Suc.prems(2) [of n] decoded_put4 [of "i + n" pix ?d] by simp
qed

lemma readPixelsE:
  assumes "supplies pk R" and "zr_at R d (concat ps @ bs)" and "\<And>p. p \<in> set ps \<Longrightarrow> length p = 3" and "length ps \<le> 4096" and "ps \<noteq> []"
  obtains d' where "readPixels pk (length ps) d = (d', Inr ())" and "zr_at R d' bs" and "zr_length d' = zr_length d"
    and "zr_tileBuffer d' = zr_tileBuffer d" and "decoded (length ps) (\<lambda>k c. ps ! k ! c) (zr_pixelBuffer d')"
proof -
  have len: "length (concat ps) = 3 * length ps" using assms(3) by (induction ps) auto
  then have ne: "concat ps \<noteq> []" using assms(5) by (metis length_0_conv mult_eq_0_iff zero_neq_numeral)
  have nth: "u8_get (concat ps) (int (3 * k + c)) = ps ! k ! c" if "k < length ps" "c < 3" for k c
  proof -
    have "3 * k + c < length (concat ps)" using that len by simp
    moreover have "concat (map (\<lambda>k. ps ! k) [0..<length ps]) ! (3 * k + c) = ps ! k ! c"
      using that assms(3) by (intro nth_concat_fixed) simp_all
    ultimately show ?thesis by (simp only: u8_get_nat map_nth)
  qed
  obtain z where z: "inflate pk (zr_inflator d) (int (3 * length ps)) = (z, Inr (concat ps))" "R z bs"
    using suppliesE [OF assms(1), of "zr_inflator d" "concat ps" bs] assms(2,5) len ne by (metis zr_at_def)
  let ?b = "foldl (\<lambda>data k. pixel_store (concat ps) k data) (zr_pixelBuffer d) [0..<length ps]"
  have b: "length (zr_pixelBuffer d) = 16384" using assms(2) by (simp add: zr_at_def)
  have "decoded (0 + length ps) (\<lambda>k c. ps ! k ! c) (foldl (\<lambda>dest j. pixel_store (concat ps) (0 + j) dest) (zr_pixelBuffer d) [0..<length ps]) \<and>
      length (foldl (\<lambda>dest j. pixel_store (concat ps) (0 + j) dest) (zr_pixelBuffer d) [0..<length ps]) = length (zr_pixelBuffer d)"
    by (rule decoded_fill) (use b assms(4) nth [of _ 0] nth [of _ 1] nth [of _ 2] in \<open>simp_all add: decoded_def pixel_store_put4\<close>)
  then have "decoded (length ps) (\<lambda>k c. ps ! k ! c) ?b" "length ?b = 16384" using b by simp_all
  then show ?thesis
    using that [of "d\<lparr>zr_inflator := z, zr_pixelBuffer := ?b\<rparr>"] z assms(2) by (simp add: readPixels_def zr_at_def)
qed

section \<open>Run lengths\<close>

definition run_length :: "nat \<Rightarrow> byte list" where
  "run_length n = replicate ((n - 1) div 255) 255 @ [of_nat ((n - 1) mod 255)]"

lemma run_length_loop:
  assumes "supplies pk R"
  shows "zr_at R d (replicate q 255 @ [of_nat r] @ bs) \<Longrightarrow> r < 255 \<Longrightarrow>
    \<exists>z. readRLELength_loop pk len d = Some (d\<lparr>zr_inflator := z\<rparr>, Inr (len + int (255 * q + r))) \<and> zr_at R (d\<lparr>zr_inflator := z\<rparr>) bs"
proof (induction q arbitrary: d len)
  case 0
  then have "zr_at R d (of_nat r # bs)" by simp
  from zr_byteE [OF assms this] obtain z where
    "zr_byte pk d = (d\<lparr>zr_inflator := z\<rparr>, Inr (uint (of_nat r :: byte)))" "zr_at R (d\<lparr>zr_inflator := z\<rparr>) bs" .
  moreover have "uint (of_nat r :: byte) = int r" using 0 by (simp add: unsigned_of_nat take_bit_eq_mod)
  ultimately show ?case using 0 by (auto simp: readRLELength_loop.simps)
next
  case (Suc q)
  then have "zr_at R d (255 # replicate q 255 @ [of_nat r] @ bs)" by simp
  from zr_byteE [OF assms this] obtain z where
    z: "zr_byte pk d = (d\<lparr>zr_inflator := z\<rparr>, Inr 255)" "zr_at R (d\<lparr>zr_inflator := z\<rparr>) (replicate q 255 @ [of_nat r] @ bs)"
    by auto
  from Suc.IH [OF z(2) Suc.prems(2), of "len + 255"] z(1) show ?case
    by (auto simp: readRLELength_loop.simps [of pk len])
qed

lemma run_lengthE:
  assumes "supplies pk R" and "zr_at R d (run_length n @ bs)" and "0 < n"
  obtains z where "readRLELength pk d = Some (d\<lparr>zr_inflator := z\<rparr>, Inr (int n))" and "zr_at R (d\<lparr>zr_inflator := z\<rparr>) bs"
proof -
  have "255 * ((n - 1) div 255) + (n - 1) mod 255 = n - 1" by (rule mult_div_mod_eq)
  with run_length_loop [OF assms(1), of d "(n - 1) div 255" "(n - 1) mod 255" bs 0] assms(2,3) show ?thesis
    using that by (auto simp: run_length_def readRLELength_def)
qed

section \<open>Runs\<close>

lemma copy4_put4:
  assumes "decoded m ppix src" and "p < m"
  shows "copy4 data (int k * 4) src (int p * 4) = put4 data (int (4 * k)) (ppix p 0) (ppix p 1) (ppix p 2)"
proof -
  have "u8_get src (int (4 * p + c)) = chan ppix p c" if "c < 4" for c
    using assms that by (simp only: decoded_def)
  from this [of 0] this [of 1] this [of 2] this [of 3] show ?thesis
    by (simp add: copy4_def put4_def chan_def mult.commute add.commute)
qed

lemma store_runE:
  assumes "zr_at R d bs" and "decoded i pix (zr_tileBuffer d)" and "i + n \<le> 4096"
    and "decoded m ppix (zr_pixelBuffer d)" and "p < m" and "\<And>j c. j < n \<Longrightarrow> c < 3 \<Longrightarrow> pix (i + j) c = ppix p c"
  shows "zr_at R (store_run (int i) (int p) (int n) d) bs \<and>
    decoded (i + n) pix (zr_tileBuffer (store_run (int i) (int p) (int n) d)) \<and>
    zr_pixelBuffer (store_run (int i) (int p) (int n) d) = zr_pixelBuffer d"
proof -
  have c: "copy4 dest (int (i + j) * 4) (zr_pixelBuffer d) (int p * 4) = put4 dest (int (4 * (i + j))) (pix (i + j) 0) (pix (i + j) 1) (pix (i + j) 2)"
    if "j < n" for j dest
    using copy4_put4 [OF assms(4,5), of dest "i + j"] assms(6) [OF that, of 0] assms(6) [OF that, of 1] assms(6) [OF that, of 2]
    by (simp del: of_nat_add of_nat_mult)
  have l: "length (zr_tileBuffer d) = 16384" using assms(1) by (simp add: zr_at_def)
  have "decoded (i + n) pix (foldl (\<lambda>dest j. copy4 dest (int (i + j) * 4) (zr_pixelBuffer d) (int p * 4)) (zr_tileBuffer d) [0..<n]) \<and>
     length (foldl (\<lambda>dest j. copy4 dest (int (i + j) * 4) (zr_pixelBuffer d) (int p * 4)) (zr_tileBuffer d) [0..<n]) = length (zr_tileBuffer d)"
    by (rule decoded_fill [where f = "\<lambda>dest k. copy4 dest (int k * 4) (zr_pixelBuffer d) (int p * 4)", OF assms(2) _ c])
      (use assms(3) l in simp_all)
  then show ?thesis using assms(1) l by (simp add: store_run_def zr_at_def)
qed

text \<open>The pixels of a list of runs, and the pixels still to come from pixel \<open>i\<close> on.\<close>

definition run_pixels :: "('a \<times> nat) list \<Rightarrow> 'a list" where
  "run_pixels rs = concat (map (\<lambda>(p, n). replicate n p) rs)"

lemma run_pixels_Nil [simp]: "run_pixels [] = []"
  by (simp add: run_pixels_def)

lemma run_pixels_Cons [simp]: "run_pixels ((p, n) # rs) = replicate n p @ run_pixels rs"
  by (simp add: run_pixels_def)

definition encode_runs :: "(byte list \<times> nat) list \<Rightarrow> byte list" where
  "encode_runs rs = concat (map (\<lambda>(p, n). p @ run_length n) rs)"

lemma RLETile_loop_runs:
  assumes "supplies pk R"
  shows "zr_at R d (encode_runs rs @ bs) \<Longrightarrow> (\<And>p n. (p, n) \<in> set rs \<Longrightarrow> length p = 3 \<and> 0 < n) \<Longrightarrow>
    decoded i pix (zr_tileBuffer d) \<Longrightarrow> i + length (run_pixels rs) = area \<Longrightarrow> area \<le> 4096 \<Longrightarrow>
    (\<And>j c. j < length (run_pixels rs) \<Longrightarrow> c < 3 \<Longrightarrow> pix (i + j) c = run_pixels rs ! j ! c) \<Longrightarrow>
    \<exists>d'. RLETile_loop pk (int area) (int i) d = Some (d', Inr ()) \<and> zr_at R d' bs \<and> decoded area pix (zr_tileBuffer d')"
proof (induction rs arbitrary: d i)
  case Nil
  then show ?case by (simp add: RLETile_loop.simps encode_runs_def)
next
  case (Cons r rs)
  obtain p n where r: "r = (p, n)" by force
  have p: "length p = 3" "0 < n" using Cons.prems(2) [of p n] r by simp_all
  have "zr_at R d (concat [p] @ run_length n @ encode_runs rs @ bs)"
    using Cons.prems(1) by (simp add: encode_runs_def r)
  from readPixelsE [OF assms this] p obtain d1 where d1: "readPixels pk 1 d = (d1, Inr ())"
      "zr_at R d1 (run_length n @ encode_runs rs @ bs)" "zr_tileBuffer d1 = zr_tileBuffer d"
      "decoded 1 (\<lambda>k c. [p] ! k ! c) (zr_pixelBuffer d1)" by auto
  from run_lengthE [OF assms d1(2) p(2)] obtain z where
    z: "readRLELength pk d1 = Some (d1\<lparr>zr_inflator := z\<rparr>, Inr (int n))" "zr_at R (d1\<lparr>zr_inflator := z\<rparr>) (encode_runs rs @ bs)" .
  let ?d2 = "store_run (int i) (int 0) (int n) (d1\<lparr>zr_inflator := z\<rparr>)"
  have "pix (i + j) c = [p] ! 0 ! c" if "j < n" "c < 3" for j c
    using Cons.prems(6) [of j c] that r by (simp add: nth_append)
  then have d2: "zr_at R ?d2 (encode_runs rs @ bs)" "decoded (i + n) pix (zr_tileBuffer ?d2)"
    using store_runE [OF z(2), of i pix n 1 "\<lambda>k c. [p] ! k ! c" 0] d1(3,4) Cons.prems(3,4,5) r by auto
  have pix: "pix (i + n + j) c = run_pixels rs ! j ! c" if "j < length (run_pixels rs)" "c < 3" for j c
    using Cons.prems(6) [of "n + j" c] that r by (simp add: nth_append add.assoc)
  have "\<exists>d'. RLETile_loop pk (int area) (int (i + n)) ?d2 = Some (d', Inr ()) \<and> zr_at R d' bs \<and> decoded area pix (zr_tileBuffer d')"
    using Cons.prems(2,4,5) r by (intro Cons.IH d2 pix) auto
  moreover have "int i < int area" using Cons.prems(4) r p(2) by simp
  ultimately show ?case using d1(1) z(1) by (subst RLETile_loop.simps) simp
qed

definition encode_index_runs :: "(nat \<times> nat) list \<Rightarrow> byte list" where
  "encode_index_runs rs = concat (map (\<lambda>(k, n). if n = 1 then [of_nat k] else of_nat (128 + k) # run_length n) rs)"

lemma RLEPaletteTile_loop_runs:
  assumes "supplies pk R" and "m < 128"
  shows "zr_at R d (encode_index_runs rs @ bs) \<Longrightarrow> (\<And>k n. (k, n) \<in> set rs \<Longrightarrow> k < m \<and> 0 < n) \<Longrightarrow>
    decoded i pix (zr_tileBuffer d) \<Longrightarrow> decoded m ppix (zr_pixelBuffer d) \<Longrightarrow> i + length (run_pixels rs) = area \<Longrightarrow> area \<le> 4096 \<Longrightarrow>
    (\<And>j c. j < length (run_pixels rs) \<Longrightarrow> c < 3 \<Longrightarrow> pix (i + j) c = ppix (run_pixels rs ! j) c) \<Longrightarrow>
    \<exists>d'. RLEPaletteTile_loop pk m (int area) (int i) d = Some (d', Inr ()) \<and> zr_at R d' bs \<and> decoded area pix (zr_tileBuffer d')"
proof (induction rs arbitrary: d i)
  case Nil
  then show ?case by (simp add: RLEPaletteTile_loop.simps encode_index_runs_def)
next
  case (Cons r rs)
  obtain k n where r: "r = (k, n)" by force
  have k: "k < m" "0 < n" using Cons.prems(2) [of k n] r by simp_all
  define rest where "rest = encode_index_runs rs @ bs"
  define b where "b = (if n = 1 then k else 128 + k)"
  have "zr_at R d (of_nat b # (if n = 1 then [] else run_length n) @ rest)"
    using Cons.prems(1) by (auto simp: encode_index_runs_def r rest_def b_def)
  from zr_byteE [OF assms(1) this] obtain z1 where z1: "zr_byte pk d = (d\<lparr>zr_inflator := z1\<rparr>, Inr (uint (of_nat b :: byte)))"
      "zr_at R (d\<lparr>zr_inflator := z1\<rparr>) ((if n = 1 then [] else run_length n) @ rest)" .
  have b: "uint (of_nat b :: byte) = int b" using k assms(2) by (simp add: unsigned_of_nat take_bit_eq_mod b_def)
  obtain z where z: "(if int b \<ge> 128 then readRLELength pk (d\<lparr>zr_inflator := z1\<rparr>) else Some (d\<lparr>zr_inflator := z1\<rparr>, Inr 1))
      = Some (d\<lparr>zr_inflator := z\<rparr>, Inr (int n))" "zr_at R (d\<lparr>zr_inflator := z\<rparr>) rest"
  proof (cases "n = 1")
    case True
    then show ?thesis using that [of z1] z1 k assms(2) by (simp add: b_def)
  next
    case False
    then have "zr_at R (d\<lparr>zr_inflator := z1\<rparr>) (run_length n @ rest)" using z1 by simp
    from run_lengthE [OF assms(1) this k(2)] False show ?thesis using that by (auto simp: b_def)
  qed
  let ?d2 = "store_run (int i) (int k) (int n) (d\<lparr>zr_inflator := z\<rparr>)"
  have "pix (i + j) c = ppix k c" if "j < n" "c < 3" for j c
    using Cons.prems(7) [of j c] that r by (simp add: nth_append)
  then have d2: "zr_at R ?d2 rest" "decoded (i + n) pix (zr_tileBuffer ?d2)" "decoded m ppix (zr_pixelBuffer ?d2)"
    using store_runE [OF z(2), of i pix n m ppix k] k Cons.prems(3,4,5,6) r by auto
  have pix: "pix (i + n + j) c = ppix (run_pixels rs ! j) c" if "j < length (run_pixels rs)" "c < 3" for j c
    using Cons.prems(7) [of "n + j" c] that r by (simp add: nth_append add.assoc)
  have "\<exists>d'. RLEPaletteTile_loop pk m (int area) (int (i + n)) ?d2 = Some (d', Inr ()) \<and> zr_at R d' bs \<and> decoded area pix (zr_tileBuffer d')"
    using Cons.prems(2,5,6) r by (intro Cons.IH d2(1) [unfolded rest_def] d2(2,3) pix) auto
  moreover have "int i < int area" "\<not> int i + int n > int area" using Cons.prems(5) r k(2) by simp_all
  moreover have "(if int b \<ge> 128 then int b - 128 else int b) = int k" using k assms(2) by (simp add: b_def)
  moreover have "palette_run m (int area) (int i) (int k) (int n) (d\<lparr>zr_inflator := z\<rparr>) = (?d2, Inr ())"
    using k calculation by (simp add: palette_run_def)
  ultimately show ?case using z1(1) z(1) b by (subst RLEPaletteTile_loop.simps) simp
qed

section \<open>Packed tiles\<close>

text \<open>The palette index of pixel \<open>x\<close> in a row of packed bytes: the leftmost pixel is in the most significant bits.\<close>

definition unpack :: "nat \<Rightarrow> byte list \<Rightarrow> nat \<Rightarrow> nat" where
  "unpack bpp row x =
     (let m = 8 div bpp in nat (uint (row ! (x div m)) div 2 ^ (8 - bpp - bpp * (x mod m)) mod 2 ^ bpp))"

definition packed_bytes :: "nat \<Rightarrow> nat \<Rightarrow> nat" where
  "packed_bytes bpp width = (width + (8 div bpp - 1)) div (8 div bpp)"

lemma sar_bits:
  assumes "s < 8" and "bpp \<le> 8"
  shows "js_and (js_sar (uint (v :: byte)) s) (2 ^ bpp - 1) = uint v div 2 ^ s mod 2 ^ bpp"
proof -
  have v: "0 \<le> uint v" "uint v < 256" using byte_bounds [of v] by auto
  have le: "uint v div 2 ^ s \<le> uint v" using zdiv_mono2 [of "uint v" 1 "2 ^ s"] v(1) by simp
  have nn: "0 \<le> uint v div 2 ^ s" using v(1) by (simp add: pos_imp_zdiv_nonneg_iff)
  have sar: "js_sar (uint v) s = uint v div 2 ^ s" using assms(1) v by (simp add: js_sar_def ToInt32_nonneg)
  have "(2 :: int) ^ bpp \<le> 2 ^ 8" using assms(2) by (intro power_increasing) simp_all
  then have "js_and (uint v div 2 ^ s) (2 ^ bpp - 1) = (uint v div 2 ^ s) AND (2 ^ bpp - 1)"
    using nn le v(2) by (simp add: js_and_def ToInt32_nonneg)
  also have "\<dots> = uint v div 2 ^ s mod 2 ^ bpp"
    using take_bit_eq_mask [of bpp "uint v div 2 ^ s"] by (simp add: mask_eq_exp_minus_1 take_bit_eq_mod)
  finally show ?thesis by (simp add: sar)
qed

text \<open>Before pixel \<open>x\<close>: the shift, and how many bytes of the row were read.\<close>

definition shift_at :: "nat \<Rightarrow> nat \<Rightarrow> int" where
  "shift_at bpp x = (let m = 8 div bpp in if x mod m = 0 \<and> x \<noteq> 0 then - int bpp else 8 - int bpp - int (bpp * (x mod m)))"

definition taken_at :: "nat \<Rightarrow> nat \<Rightarrow> nat" where
  "taken_at bpp x = (let m = 8 div bpp in if x mod m = 0 \<and> x \<noteq> 0 then x div m else x div m + 1)"

lemma bpp_cases:
  assumes "bpp \<in> {1, 2, 4 :: nat}"
  obtains m where "8 div bpp = m" and "m * bpp = 8" and "1 < m" and "0 < bpp" and "bpp < 8"
  using assms by auto

lemma next_pixel:
  assumes "bpp \<in> {1, 2, 4}"
  shows "8 - int bpp - int (bpp * (x mod (8 div bpp))) - int bpp = shift_at bpp (Suc x)"
    and "x div (8 div bpp) + 1 = taken_at bpp (Suc x)"
proof -
  obtain m where m: "8 div bpp = m" "m * bpp = 8" "1 < m" "0 < bpp" "bpp < 8" using assms by (rule bpp_cases)
  have "x mod m < m" using m(3) by simp
  show "8 - int bpp - int (bpp * (x mod (8 div bpp))) - int bpp = shift_at bpp (Suc x)"
  proof (cases "Suc (x mod m) = m")
    case True
    then have "x mod m = m - 1" by simp
    then have "bpp * (x mod m) = 8 - bpp" using m(2) by (simp add: algebra_simps)
    with True m show ?thesis by (simp add: shift_at_def mod_Suc of_nat_diff)
  next
    case False
    with m show ?thesis by (simp add: shift_at_def mod_Suc algebra_simps)
  qed
  show "x div (8 div bpp) + 1 = taken_at bpp (Suc x)"
    using m by (simp add: taken_at_def mod_Suc div_Suc)
qed

lemma taken_end:
  assumes "bpp \<in> {1, 2, 4}" and "0 < x"
  shows "taken_at bpp x = packed_bytes bpp x" and "shift_at bpp x < 8 - int bpp"
proof -
  obtain m where m: "8 div bpp = m" "m * bpp = 8" "1 < m" "0 < bpp" "bpp < 8" using assms(1) by (rule bpp_cases)
  obtain y where y: "x = Suc y" using assms(2) by (cases x) auto
  show "taken_at bpp x = packed_bytes bpp x"
    using next_pixel(2) [OF assms(1), of y] m(1,3) by (simp add: packed_bytes_def y)
  have "- int (bpp * (y mod m)) \<le> 0" by simp
  then show "shift_at bpp x < 8 - int bpp" using next_pixel(1) [OF assms(1), of y] m(1,4) unfolding y by linarith
qed

lemma palette_row_runs:
  assumes "supplies pk R" and bpp: "bpp \<in> {1, 2, 4}" and len: "length row = packed_bytes bpp tilew"
    and pal: "\<And>x. x < tilew \<Longrightarrow> unpack bpp row x < m"
    and pix: "\<And>x c. x < tilew \<Longrightarrow> c < 3 \<Longrightarrow> pix (i + x) c = ppix (unpack bpp row x) c" and fit: "i + tilew \<le> 4096"
  shows "x + n = tilew \<Longrightarrow> 0 < tilew \<Longrightarrow> zr_at R d (drop (taken_at bpp x) row @ bs) \<Longrightarrow> encoded = uint (row ! (taken_at bpp x - 1)) \<Longrightarrow>
    decoded (i + x) pix (zr_tileBuffer d) \<Longrightarrow> decoded m ppix (zr_pixelBuffer d) \<Longrightarrow>
    \<exists>d' encoded'. palette_row pk bpp n (shift_at bpp x, encoded, int (4 * (i + x))) d =
        (d', Inr (shift_at bpp tilew, encoded', int (4 * (i + tilew)))) \<and>
      zr_at R d' bs \<and> decoded (i + tilew) pix (zr_tileBuffer d') \<and> decoded m ppix (zr_pixelBuffer d')"
proof (induction n arbitrary: x d encoded)
  case 0
  then show ?case using taken_end(1) [OF bpp, of tilew] len by auto
next
  case (Suc n)
  obtain q where q: "8 div bpp = q" "q * bpp = 8" "1 < q" "0 < bpp" "bpp < 8" using bpp by (rule bpp_cases)
  let ?e = "uint (row ! (x div q))" and ?s = "8 - bpp - bpp * (x mod q)"
  have x: "x < tilew" using Suc.prems(1) by simp
  have "x mod q < q" using q(3) by simp
  then have "bpp * Suc (x mod q) \<le> bpp * q" by (intro mult_le_mono2) simp
  then have s: "bpp * (x mod q) \<le> 8 - bpp" using q(2) by (simp add: algebra_simps)
  have si: "int (bpp * (x mod q)) \<le> 8 - int bpp" using s q(5) by linarith
  have row: "x div q < length row"
  proof -
    have "taken_at bpp (Suc x) \<le> packed_bytes bpp tilew"
      using taken_end(1) [OF bpp, of "Suc x"] x by (simp add: packed_bytes_def div_le_mono)
    then show ?thesis using next_pixel(2) [OF bpp, of x] q(1) len by simp
  qed
  obtain z where z: "(if shift_at bpp x < 0 then (case zr_byte pk d of (d, r) \<Rightarrow> (d, 8 - int bpp, r)) else (d, shift_at bpp x, Inr encoded))
      = (d\<lparr>zr_inflator := z\<rparr>, int ?s, Inr ?e)" "zr_at R (d\<lparr>zr_inflator := z\<rparr>) (drop (x div q + 1) row @ bs)"
  proof (cases "x mod q = 0 \<and> x \<noteq> 0")
    case True
    then have "zr_at R d (row ! (x div q) # drop (x div q + 1) row @ bs)"
      using Suc.prems(3) q(1) row by (simp add: taken_at_def Cons_nth_drop_Suc [symmetric])
    from zr_byteE [OF assms(1) this] obtain z where
      "zr_byte pk d = (d\<lparr>zr_inflator := z\<rparr>, Inr ?e)" "zr_at R (d\<lparr>zr_inflator := z\<rparr>) (drop (x div q + 1) row @ bs)" .
    with True q show ?thesis by (intro that [of z]) (simp_all add: shift_at_def of_nat_diff)
  next
    case False
    then show ?thesis
      using Suc.prems(3,4) q s si by (intro that [of "zr_inflator d"]) (auto simp: shift_at_def taken_at_def of_nat_diff)
  qed
  have idx: "js_and (js_sar ?e ?s) (2 ^ bpp - 1) = int (unpack bpp row x)"
    using sar_bits [of ?s bpp "row ! (x div q)"] q by (simp add: unpack_def Let_def)
  let ?d = "d\<lparr>zr_inflator := z, zr_tileBuffer := copy4 (zr_tileBuffer d) (int (4 * (i + x))) (zr_pixelBuffer d) (int (unpack bpp row x) * 4)\<rparr>"
  have copy: "copy4 (zr_tileBuffer d) (int (4 * (i + x))) (zr_pixelBuffer d) (int (unpack bpp row x) * 4) =
      put4 (zr_tileBuffer d) (int (4 * (i + x))) (pix (i + x) 0) (pix (i + x) 1) (pix (i + x) 2)"
    using copy4_put4 [OF Suc.prems(6) pal [OF x], of "zr_tileBuffer d" "i + x"] pix [OF x, of 0] pix [OF x, of 1] pix [OF x, of 2]
    by (simp add: mult.commute)
  have tb: "zr_tileBuffer ?d = copy4 (zr_tileBuffer d) (int (4 * (i + x))) (zr_pixelBuffer d) (int (unpack bpp row x) * 4)" by simp
  have "4 * (i + x) + 3 < length (zr_tileBuffer d)" using z(2) fit x by (simp add: zr_at_def)
  from decoded_put4 [OF Suc.prems(5) this] have "decoded (i + Suc x) pix (zr_tileBuffer ?d)"
    unfolding tb unfolding copy add_Suc_right .
  moreover have "zr_at R ?d (drop (taken_at bpp (Suc x)) row @ bs)"
    using z(2) next_pixel(2) [OF bpp, of x] q(1) by (simp add: zr_at_def copy4_def)
  moreover have "?e = uint (row ! (taken_at bpp (Suc x) - 1))" using next_pixel(2) [OF bpp, of x] q(1) by (metis add_diff_cancel_right')
  ultimately obtain d' encoded' where "palette_row pk bpp n (shift_at bpp (Suc x), ?e, int (4 * (i + Suc x))) ?d =
        (d', Inr (shift_at bpp tilew, encoded', int (4 * (i + tilew))))"
      "zr_at R d' bs" "decoded (i + tilew) pix (zr_tileBuffer d')" "decoded m ppix (zr_pixelBuffer d')"
    using Suc.IH [of "Suc x" ?d ?e] Suc.prems(1,2,6) by auto
  moreover have "palette_row pk bpp (Suc n) (shift_at bpp x, encoded, int (4 * (i + x))) d =
      palette_row pk bpp n (shift_at bpp (Suc x), ?e, int (4 * (i + Suc x))) ?d"
  proof -
    have "int ?s - int bpp = shift_at bpp (Suc x)" using next_pixel(1) [OF bpp, of x] q s by (simp add: of_nat_diff)
    moreover have o: "int (4 * (i + Suc x)) = int (4 * (i + x)) + 4" by simp
    ultimately show ?thesis unfolding o using z(1) idx by (simp del: of_nat_add of_nat_mult of_nat_diff add: Let_def)
  qed
  ultimately show ?case by metis
qed

lemma palette_row_whole:
  assumes "supplies pk R" and bpp: "bpp \<in> {1, 2, 4}" and len: "length row = packed_bytes bpp tilew"
    and pal: "\<And>x. x < tilew \<Longrightarrow> unpack bpp row x < m"
    and pix: "\<And>x c. x < tilew \<Longrightarrow> c < 3 \<Longrightarrow> pix (i + x) c = ppix (unpack bpp row x) c" and fit: "i + tilew \<le> 4096"
    and w: "0 < tilew" and at: "zr_at R d (tl row @ bs)" and e: "encoded = uint (hd row)"
    and dec: "decoded i pix (zr_tileBuffer d)" "decoded m ppix (zr_pixelBuffer d)"
  shows "\<exists>d' encoded'. palette_row pk bpp tilew (8 - int bpp, encoded, int (4 * i)) d =
        (d', Inr (shift_at bpp tilew, encoded', int (4 * (i + tilew)))) \<and>
      zr_at R d' bs \<and> decoded (i + tilew) pix (zr_tileBuffer d') \<and> decoded m ppix (zr_pixelBuffer d')"
proof -
  have t: "taken_at bpp 0 = 1" "shift_at bpp 0 = 8 - int bpp" by (simp_all add: taken_at_def shift_at_def)
  have ne: "row \<noteq> []" using len w bpp by (auto simp: packed_bytes_def)
  show ?thesis
    using palette_row_runs [where x = 0 and n = tilew and pix = pix and ppix = ppix and i = i, OF assms(1) bpp len pal pix fit _ w, of d bs encoded]
      at e dec t ne by (simp add: drop_Suc hd_conv_nth del: of_nat_add of_nat_mult)
qed

lemma palette_rows_runs:
  assumes "supplies pk R" and bpp: "bpp \<in> {1, 2, 4}" and w: "0 < tilew"
  shows "zr_at R d (tl r @ concat rs @ bs) \<Longrightarrow> encoded = uint (hd r) \<Longrightarrow>
    (\<And>row. row \<in> set (r # rs) \<Longrightarrow> length row = packed_bytes bpp tilew \<and> (\<forall>x<tilew. unpack bpp row x < m)) \<Longrightarrow>
    (\<And>y x c. y < length (r # rs) \<Longrightarrow> x < tilew \<Longrightarrow> c < 3 \<Longrightarrow> pix (i + y * tilew + x) c = ppix (unpack bpp ((r # rs) ! y) x) c) \<Longrightarrow>
    i + length (r # rs) * tilew \<le> 4096 \<Longrightarrow> decoded i pix (zr_tileBuffer d) \<Longrightarrow> decoded m ppix (zr_pixelBuffer d) \<Longrightarrow>
    \<exists>d'. palette_rows pk bpp tilew (length (r # rs)) encoded (int (4 * i)) d = (d', Inr ()) \<and>
      zr_at R d' bs \<and> decoded (i + length (r # rs) * tilew) pix (zr_tileBuffer d')"
proof (induction rs arbitrary: r d encoded i)
  case Nil
  have row: "length r = packed_bytes bpp tilew" "\<And>x. x < tilew \<Longrightarrow> unpack bpp r x < m" using Nil.prems(3) [of r] by simp_all
  have px: "pix (i + x) c = ppix (unpack bpp r x) c" if "x < tilew" "c < 3" for x c using Nil.prems(4) [of 0 x c] that by simp
  have fit: "i + tilew \<le> 4096" using Nil.prems(5) by simp
  have at: "zr_at R d (tl r @ bs)" using Nil.prems(1) by simp
  from palette_row_whole [where pix = pix and ppix = ppix, OF assms(1) bpp row px fit w at Nil.prems(2,6,7)] show ?case
    by (auto simp del: of_nat_add of_nat_mult)
next
  case (Cons r' rs)
  have row: "length r = packed_bytes bpp tilew" "\<And>x. x < tilew \<Longrightarrow> unpack bpp r x < m" using Cons.prems(3) [of r] by simp_all
  have row': "length r' = packed_bytes bpp tilew" using Cons.prems(3) [of r'] by simp
  have px: "pix (i + x) c = ppix (unpack bpp r x) c" if "x < tilew" "c < 3" for x c using Cons.prems(4) [of 0 x c] that by simp
  have ne: "r' \<noteq> []" using row' w bpp by (auto simp: packed_bytes_def)
  have fit: "i + tilew \<le> 4096" using Cons.prems(5) by simp
  have at: "zr_at R d (tl r @ concat (r' # rs) @ bs)" using Cons.prems(1) by simp
  from palette_row_whole [where pix = pix and ppix = ppix, OF assms(1) bpp row px fit w at Cons.prems(2,6,7)]
  obtain d1 e1 where d1: "palette_row pk bpp tilew (8 - int bpp, encoded, int (4 * i)) d = (d1, Inr (shift_at bpp tilew, e1, int (4 * (i + tilew))))"
      "zr_at R d1 (concat (r' # rs) @ bs)" "decoded (i + tilew) pix (zr_tileBuffer d1)" "decoded m ppix (zr_pixelBuffer d1)"
    by blast
  have "zr_at R d1 (hd r' # tl r' @ concat rs @ bs)" using d1(2) ne by (cases r') simp_all
  from zr_byteE [OF assms(1) this] obtain z where z: "zr_byte pk d1 = (d1\<lparr>zr_inflator := z\<rparr>, Inr (uint (hd r')))"
      "zr_at R (d1\<lparr>zr_inflator := z\<rparr>) (tl r' @ concat rs @ bs)" .
  have "\<exists>d'. palette_rows pk bpp tilew (length (r' # rs)) (uint (hd r')) (int (4 * (i + tilew))) (d1\<lparr>zr_inflator := z\<rparr>) = (d', Inr ()) \<and>
      zr_at R d' bs \<and> decoded (i + tilew + length (r' # rs) * tilew) pix (zr_tileBuffer d')"
  proof (rule Cons.IH [OF z(2) refl])
    show "length row = packed_bytes bpp tilew \<and> (\<forall>x<tilew. unpack bpp row x < m)" if "row \<in> set (r' # rs)" for row
      using Cons.prems(3) that by simp
    show "pix (i + tilew + y * tilew + x) c = ppix (unpack bpp ((r' # rs) ! y) x) c" if "y < length (r' # rs)" "x < tilew" "c < 3" for y x c
      using Cons.prems(4) [of "Suc y" x c] that by (simp add: add.assoc)
    show "i + tilew + length (r' # rs) * tilew \<le> 4096" using Cons.prems(5) by simp
  qed (use d1 in simp_all)
  moreover have "palette_rows pk bpp tilew (length (r # r' # rs)) encoded (int (4 * i)) d =
      palette_rows pk bpp tilew (length (r' # rs)) (uint (hd r')) (int (4 * (i + tilew))) (d1\<lparr>zr_inflator := z\<rparr>)"
    using d1(1) z(1) taken_end(2) [OF bpp w] by (simp del: of_nat_add of_nat_mult length_greater_0_conv)
  moreover have "i + tilew + length (r' # rs) * tilew = i + length (r # r' # rs) * tilew" by simp
  ultimately show ?case by metis
qed

section \<open>Tiles and rectangles\<close>

text \<open>What an encoder puts into a tile; a pixel is a list of three bytes, a row of a packed tile is its bytes.\<close>

datatype tile_code =
    RawTile "byte list list"
  | SolidTile "byte list"
  | PackedTile "byte list list" "byte list list"
  | RunTile "(byte list \<times> nat) list"
  | PaletteRunTile "byte list list" "(nat \<times> nat) list"

fun tile_bytes :: "tile_code \<Rightarrow> byte list" where
  "tile_bytes (RawTile ps) = 0 # concat ps"
| "tile_bytes (SolidTile p) = 1 # p"
| "tile_bytes (PackedTile pal rows) = of_nat (length pal) # concat pal @ concat rows"
| "tile_bytes (RunTile rs) = 128 # encode_runs rs"
| "tile_bytes (PaletteRunTile pal rs) = of_nat (128 + length pal) # concat pal @ encode_index_runs rs"

definition bits_for :: "nat \<Rightarrow> nat" where
  "bits_for n = (if n \<le> 2 then 1 else if n \<le> 4 then 2 else 4)"

fun tile_pixels :: "nat \<Rightarrow> nat \<Rightarrow> tile_code \<Rightarrow> byte list list" where
  "tile_pixels tw th (RawTile ps) = ps"
| "tile_pixels tw th (SolidTile p) = replicate (tw * th) p"
| "tile_pixels tw th (PackedTile pal rows) =
     concat (map (\<lambda>row. map (\<lambda>x. pal ! unpack (bits_for (length pal)) row x) [0..<tw]) rows)"
| "tile_pixels tw th (RunTile rs) = run_pixels rs"
| "tile_pixels tw th (PaletteRunTile pal rs) = map (\<lambda>k. pal ! k) (run_pixels rs)"

definition colours :: "byte list list \<Rightarrow> bool" where
  "colours ps \<longleftrightarrow> (\<forall>p\<in>set ps. length p = 3)"

fun tile_wf :: "nat \<Rightarrow> nat \<Rightarrow> tile_code \<Rightarrow> bool" where
  "tile_wf tw th (RawTile ps) \<longleftrightarrow> colours ps \<and> length ps = tw * th"
| "tile_wf tw th (SolidTile p) \<longleftrightarrow> length p = 3"
| "tile_wf tw th (PackedTile pal rows) \<longleftrightarrow> colours pal \<and> 2 \<le> length pal \<and> length pal \<le> 16 \<and> length rows = th \<and>
     (\<forall>row\<in>set rows. length row = packed_bytes (bits_for (length pal)) tw \<and>
        (\<forall>x<tw. unpack (bits_for (length pal)) row x < length pal))"
| "tile_wf tw th (RunTile rs) \<longleftrightarrow> colours (map fst rs) \<and> (\<forall>r\<in>set rs. 0 < snd r) \<and> length (run_pixels rs) = tw * th"
| "tile_wf tw th (PaletteRunTile pal rs) \<longleftrightarrow> colours pal \<and> 2 \<le> length pal \<and> length pal \<le> 127 \<and>
     (\<forall>r\<in>set rs. fst r < length pal \<and> 0 < snd r) \<and> length (run_pixels rs) = tw * th"

fun tile_op :: "tile \<Rightarrow> tile_code \<Rightarrow> canvas_op" where
  "tile_op (tx, ty, tw, th) (SolidTile p) = OpFill (style_of p) tx ty (int tw) (int th)"
| "tile_op (tx, ty, tw, th) c = OpPut (rgbx_list (tile_pixels tw th c)) tx ty (int tw) (int th)"

lemma coloursD: "colours ps \<Longrightarrow> p \<in> set ps \<Longrightarrow> length p = 3"
  by (simp add: colours_def)

lemma draw_buffer:
  assumes "decoded (tw * th) (\<lambda>k c. ps ! k ! c) buf" and "length ps = tw * th" and "colours ps" and "length buf = 16384" and "tw * th \<le> 4096"
  shows "draw_ops (BlitImage tx ty (int tw) (int th) (whole_view buf) 0) = [OpPut (rgbx_list ps) tx ty (int tw) (int th)]"
proof -
  have "4 * (tw * th) \<le> length buf" unfolding assms(4) using assms(5) by linarith
  with assms(1) have "take (4 * (tw * th)) buf = rgbx_of (tw * th) (\<lambda>k c. ps ! k ! c)" by (rule decoded_take)
  also have "\<dots> = rgbx_list ps" using rgbx_of_list [of ps] assms(2,3) by (simp add: colours_def)
  finally show ?thesis by (simp add: whole_view_def nat_mult_distrib mult.commute)
qed

lemma buffers: "zr_at R d bs \<Longrightarrow> length (zr_pixelBuffer d) = 16384" "zr_at R d bs \<Longrightarrow> length (zr_tileBuffer d) = 16384"
  by (simp_all add: zr_at_def)

lemma decoded_0 [simp]: "decoded 0 pix buf"
  by (simp add: decoded_def)

lemma uint_byte: "n < 256 \<Longrightarrow> uint (of_nat n :: byte) = int n"
  by (simp add: unsigned_of_nat take_bit_eq_mod)

lemma packed_nth:
  assumes "y < length rows" and "x < tw"
  shows "concat (map (\<lambda>row. map (f row) [0..<tw]) rows) ! (y * tw + x) = f (rows ! y) x"
proof -
  have "concat (map (\<lambda>k. map (f (rows ! k)) [0..<tw]) [0..<length rows]) ! (tw * y + x) = map (f (rows ! y)) [0..<tw] ! x"
    using assms by (intro nth_concat_fixed) simp_all
  moreover have "map (\<lambda>k. map (f (rows ! k)) [0..<tw]) [0..<length rows] = map (\<lambda>row. map (f row) [0..<tw]) rows"
    by (rule nth_equalityI) simp_all
  ultimately show ?thesis using assms(2) by (simp add: mult.commute)
qed

lemma decode_raw:
  assumes "supplies pk R" and "zr_at R d (tile_bytes (RawTile ps) @ bs)" and "tile_wf tw th (RawTile ps)" and "tw * th \<le> 4096" and "0 < tw * th"
  shows "\<exists>d' dr. decode_tile pk (tx, ty, tw, th) d = Some (d', Inr dr) \<and> zr_at R d' bs \<and> draw_ops dr = [tile_op (tx, ty, tw, th) (RawTile ps)]"
proof -
  have "zr_at R d (0 # concat ps @ bs)" using assms(2) by simp
  from zr_byteE [OF assms(1) this] obtain z where z: "zr_byte pk d = (d\<lparr>zr_inflator := z\<rparr>, Inr 0)" "zr_at R (d\<lparr>zr_inflator := z\<rparr>) (concat ps @ bs)"
    by auto
  have wf: "colours ps" "length ps = tw * th" using assms(3) by simp_all
  have ne: "ps \<noteq> []" using wf(2) assms(5) by auto
  obtain d' where d': "readPixels pk (tw * th) (d\<lparr>zr_inflator := z\<rparr>) = (d', Inr ())" "zr_at R d' bs"
      "decoded (tw * th) (\<lambda>k c. ps ! k ! c) (zr_pixelBuffer d')"
    using readPixelsE [OF assms(1) z(2) coloursD [OF wf(1)]] wf(2) assms(4) ne by metis
  have "draw_ops (BlitImage tx ty (int tw) (int th) (whole_view (zr_pixelBuffer d')) 0) = [OpPut (rgbx_list ps) tx ty (int tw) (int th)]"
    by (rule draw_buffer [OF d'(3) wf(2,1) buffers(1) [OF d'(2)] assms(4)])
  with d' z(1) show ?thesis by (simp add: decode_tile_def draw_tile_def)
qed

lemma decode_solid:
  assumes "supplies pk R" and "zr_at R d (tile_bytes (SolidTile p) @ bs)" and "length p = 3"
  shows "\<exists>d' dr. decode_tile pk (tx, ty, tw, th) d = Some (d', Inr dr) \<and> zr_at R d' bs \<and> draw_ops dr = [tile_op (tx, ty, tw, th) (SolidTile p)]"
proof -
  have "zr_at R d (1 # concat [p] @ bs)" using assms(2) by simp
  from zr_byteE [OF assms(1) this] obtain z where z: "zr_byte pk d = (d\<lparr>zr_inflator := z\<rparr>, Inr 1)" "zr_at R (d\<lparr>zr_inflator := z\<rparr>) (concat [p] @ bs)"
    by auto
  obtain d' where d': "readPixels pk 1 (d\<lparr>zr_inflator := z\<rparr>) = (d', Inr ())" "zr_at R d' bs"
      "decoded 1 (\<lambda>k c. [p] ! k ! c) (zr_pixelBuffer d')"
    using readPixelsE [OF assms(1) z(2)] assms(3) by auto
  have "u8_get (zr_pixelBuffer d') (int (4 * 0 + c)) = chan (\<lambda>k c. [p] ! k ! c) 0 c" if "c < 4" for c
    using d'(3) that by (simp only: decoded_def less_one)
  from this [of 0] this [of 1] this [of 2] have
    "style_of [u8_get (zr_pixelBuffer d') 0, u8_get (zr_pixelBuffer d') 1, u8_get (zr_pixelBuffer d') 2] = style_of p"
    using assms(3) by (simp add: style_of_def chan_def u8_get_def)
  with d' z(1) show ?thesis by (simp add: decode_tile_def Let_def)
qed

lemma decode_runs:
  assumes "supplies pk R" and "zr_at R d (tile_bytes (RunTile rs) @ bs)" and "tile_wf tw th (RunTile rs)" and "tw * th \<le> 4096"
  shows "\<exists>d' dr. decode_tile pk (tx, ty, tw, th) d = Some (d', Inr dr) \<and> zr_at R d' bs \<and> draw_ops dr = [tile_op (tx, ty, tw, th) (RunTile rs)]"
proof -
  have "zr_at R d (128 # encode_runs rs @ bs)" using assms(2) by simp
  from zr_byteE [OF assms(1) this] obtain z where z: "zr_byte pk d = (d\<lparr>zr_inflator := z\<rparr>, Inr 128)" "zr_at R (d\<lparr>zr_inflator := z\<rparr>) (encode_runs rs @ bs)"
    by auto
  have wf: "\<And>p n. (p, n) \<in> set rs \<Longrightarrow> length p = 3 \<and> 0 < n" "0 + length (run_pixels rs) = tw * th"
    using assms(3) by (auto simp: colours_def)
  have cols: "colours (run_pixels rs)" using wf(1) by (auto simp: colours_def run_pixels_def)
  obtain d' where d': "RLETile_loop pk (int (tw * th)) (int 0) (d\<lparr>zr_inflator := z\<rparr>) = Some (d', Inr ())" "zr_at R d' bs"
      "decoded (tw * th) (\<lambda>k c. run_pixels rs ! k ! c) (zr_tileBuffer d')"
    using RLETile_loop_runs [OF assms(1) z(2) wf(1) decoded_0 wf(2) assms(4), of "\<lambda>k c. run_pixels rs ! k ! c"] by auto
  have "draw_ops (BlitImage tx ty (int tw) (int th) (whole_view (zr_tileBuffer d')) 0) = [OpPut (rgbx_list (run_pixels rs)) tx ty (int tw) (int th)]"
    by (rule draw_buffer [OF d'(3) _ cols buffers(2) [OF d'(2)] assms(4)]) (use wf(2) in simp)
  with d' z(1) show ?thesis by (simp add: decode_tile_def draw_tile_def decodeRLETile_def)
qed

lemma decode_palette_runs:
  assumes "supplies pk R" and "zr_at R d (tile_bytes (PaletteRunTile pal rs) @ bs)" and "tile_wf tw th (PaletteRunTile pal rs)" and "tw * th \<le> 4096"
  shows "\<exists>d' dr. decode_tile pk (tx, ty, tw, th) d = Some (d', Inr dr) \<and> zr_at R d' bs \<and> draw_ops dr = [tile_op (tx, ty, tw, th) (PaletteRunTile pal rs)]"
proof -
  let ?m = "length pal" and ?ps = "map (\<lambda>k. pal ! k) (run_pixels rs)"
  have wf: "colours pal" "2 \<le> ?m" "?m < 128" "\<And>k n. (k, n) \<in> set rs \<Longrightarrow> k < ?m \<and> 0 < n" "0 + length (run_pixels rs) = tw * th"
    using assms(3) by auto
  have "zr_at R d (of_nat (128 + ?m) # concat pal @ encode_index_runs rs @ bs)" using assms(2) by simp
  from zr_byteE [OF assms(1) this] uint_byte [of "128 + ?m"] wf(3) obtain z where
    z: "zr_byte pk d = (d\<lparr>zr_inflator := z\<rparr>, Inr (128 + int ?m))" "zr_at R (d\<lparr>zr_inflator := z\<rparr>) (concat pal @ encode_index_runs rs @ bs)"
    by auto
  have ne: "pal \<noteq> []" using wf(2) by auto
  obtain d1 where d1: "readPixels pk ?m (d\<lparr>zr_inflator := z\<rparr>) = (d1, Inr ())" "zr_at R d1 (encode_index_runs rs @ bs)"
      "decoded ?m (\<lambda>k c. pal ! k ! c) (zr_pixelBuffer d1)"
    using readPixelsE [OF assms(1) z(2) coloursD [OF wf(1)] _ ne] wf(3) by auto
  have lt: "k < ?m" if "k \<in> set (run_pixels rs)" for k using that wf(4) by (auto simp: run_pixels_def)
  then have cols: "colours ?ps" using wf(1) by (auto simp: colours_def)
  obtain d' where d': "RLEPaletteTile_loop pk ?m (int (tw * th)) (int 0) d1 = Some (d', Inr ())" "zr_at R d' bs"
      "decoded (tw * th) (\<lambda>k c. ?ps ! k ! c) (zr_tileBuffer d')"
    using RLEPaletteTile_loop_runs [OF assms(1) wf(3) d1(2) wf(4) decoded_0 d1(3) wf(5) assms(4), of "\<lambda>k c. ?ps ! k ! c"] by auto
  have "draw_ops (BlitImage tx ty (int tw) (int th) (whole_view (zr_tileBuffer d')) 0) = [OpPut (rgbx_list ?ps) tx ty (int tw) (int th)]"
    by (rule draw_buffer [OF d'(3) _ cols buffers(2) [OF d'(2)] assms(4)]) (use wf(5) in simp)
  moreover have "pal \<noteq> []" using wf(2) by auto
  ultimately show ?thesis
    using d' z(1) d1(1) wf(2,3) by (simp add: decode_tile_def draw_tile_def decodeRLEPaletteTile_def Let_def)
qed

lemma decode_packed:
  assumes "supplies pk R" and "zr_at R d (tile_bytes (PackedTile pal rows) @ bs)" and "tile_wf tw th (PackedTile pal rows)"
    and "tw * th \<le> 4096" and w: "0 < tw" and h: "0 < th"
  shows "\<exists>d' dr. decode_tile pk (tx, ty, tw, th) d = Some (d', Inr dr) \<and> zr_at R d' bs \<and> draw_ops dr = [tile_op (tx, ty, tw, th) (PackedTile pal rows)]"
proof -
  let ?m = "length pal" and ?b = "bits_for (length pal)"
  let ?ps = "concat (map (\<lambda>row. map (\<lambda>x. pal ! unpack ?b row x) [0..<tw]) rows)"
  have wf: "colours pal" "2 \<le> ?m" "?m \<le> 16" "length rows = th" "\<And>row. row \<in> set rows \<Longrightarrow>
      length row = packed_bytes ?b tw \<and> (\<forall>x<tw. unpack ?b row x < ?m)"
    using assms(3) by auto
  have bpp: "?b \<in> {1, 2, 4}" by (simp add: bits_for_def)
  have getb: "(case getBitsPerPixelInPalette (int ?m) of Some b \<Rightarrow> b | None \<Rightarrow> 0) = ?b"
    using wf(3) by (auto simp: getBitsPerPixelInPalette_def bits_for_def)
  obtain r rs where rows: "rows = r # rs" using wf(4) h by (cases rows) auto
  have "r \<noteq> []" using wf(5) [of r] w bpp by (auto simp: packed_bytes_def rows)
  then have head: "concat rows = hd r # tl r @ concat rs" by (simp add: rows)
  have "zr_at R d (of_nat ?m # concat pal @ concat rows @ bs)" using assms(2) by simp
  from zr_byteE [OF assms(1) this] uint_byte [of ?m] wf(3) obtain z where
    z: "zr_byte pk d = (d\<lparr>zr_inflator := z\<rparr>, Inr (int ?m))" "zr_at R (d\<lparr>zr_inflator := z\<rparr>) (concat pal @ concat rows @ bs)"
    by auto
  have ne: "pal \<noteq> []" using wf(2) by auto
  obtain d1 where d1: "readPixels pk ?m (d\<lparr>zr_inflator := z\<rparr>) = (d1, Inr ())" "zr_at R d1 (concat rows @ bs)"
      "decoded ?m (\<lambda>k c. pal ! k ! c) (zr_pixelBuffer d1)"
    using readPixelsE [OF assms(1) z(2) coloursD [OF wf(1)] _ ne] wf(3) by auto
  have "zr_at R d1 (hd r # tl r @ concat rs @ bs)" using d1(2) head by simp
  from zr_byteE [OF assms(1) this] obtain z1 where z1: "zr_byte pk d1 = (d1\<lparr>zr_inflator := z1\<rparr>, Inr (uint (hd r)))"
      "zr_at R (d1\<lparr>zr_inflator := z1\<rparr>) (tl r @ concat rs @ bs)" .
  have pix: "?ps ! (0 + y * tw + x) ! c = pal ! unpack ?b ((r # rs) ! y) x ! c" if "y < length (r # rs)" "x < tw" for y x c
    using packed_nth [of y rows x tw "\<lambda>row x. pal ! unpack ?b row x"] that by (simp add: rows)
  have fit: "0 + length (r # rs) * tw \<le> 4096" using assms(4) wf(4) by (simp add: rows mult.commute)
  have "\<exists>d'. palette_rows pk ?b tw (length (r # rs)) (uint (hd r)) (int (4 * 0)) (d1\<lparr>zr_inflator := z1\<rparr>) = (d', Inr ()) \<and>
      zr_at R d' bs \<and> decoded (0 + length (r # rs) * tw) (\<lambda>k c. ?ps ! k ! c) (zr_tileBuffer d')"
    using wf(5) d1(3)
    by (intro palette_rows_runs [where m = ?m and ppix = "\<lambda>k c. pal ! k ! c", OF assms(1) bpp w z1(2) refl _ pix fit decoded_0])
      (simp_all add: rows)
  moreover have "0 + length (r # rs) * tw = tw * th" using wf(4) by (simp add: rows mult.commute)
  ultimately obtain d' where d': "palette_rows pk ?b tw th (uint (hd r)) 0 (d1\<lparr>zr_inflator := z1\<rparr>) = (d', Inr ())" "zr_at R d' bs"
      "decoded (tw * th) (\<lambda>k c. ?ps ! k ! c) (zr_tileBuffer d')"
    using wf(4) by (auto simp: rows)
  have lps: "length ?ps = tw * th" using wf(4) by (simp add: length_concat comp_def sum_list_triv mult.commute)
  have cols: "colours ?ps" using wf(1,5) by (auto simp: colours_def)
  have "draw_ops (BlitImage tx ty (int tw) (int th) (whole_view (zr_tileBuffer d')) 0) = [OpPut (rgbx_list ?ps) tx ty (int tw) (int th)]"
    by (rule draw_buffer [OF d'(3) lps cols buffers(2) [OF d'(2)] assms(4)])
  moreover have "pal \<noteq> []" using wf(2) by auto
  ultimately show ?thesis
    using d' z(1) d1(1) z1(1) wf(2,3) getb by (simp add: decode_tile_def draw_tile_def decodePaletteTile_def Let_def)
qed

lemma decode_tileE:
  assumes "supplies pk R" and "zr_at R d (tile_bytes c @ bs)" and "tile_wf tw th c" and "tw * th \<le> 4096" and "0 < tw" and "0 < th"
  obtains d' dr where "decode_tile pk (tx, ty, tw, th) d = Some (d', Inr dr)" and "zr_at R d' bs" and "draw_ops dr = [tile_op (tx, ty, tw, th) c]"
proof (cases c)
  case (RawTile ps)
  then show ?thesis using that decode_raw [OF assms(1)] assms by (metis nat_0_less_mult_iff)
next
  case (SolidTile p)
  then show ?thesis using that decode_solid [OF assms(1)] assms by (metis tile_wf.simps(2))
next
  case (PackedTile pal rows)
  then show ?thesis using that decode_packed [OF assms(1)] assms by metis
next
  case (RunTile rs)
  then show ?thesis using that decode_runs [OF assms(1)] assms by metis
next
  case (PaletteRunTile pal rs)
  then show ?thesis using that decode_palette_runs [OF assms(1)] assms by metis
qed

definition tile_fits :: "tile \<Rightarrow> tile_code \<Rightarrow> bool" where
  "tile_fits t c = (case t of (tx, ty, tw, th) \<Rightarrow> tile_wf tw th c)"

definition tile_bounded :: "tile \<Rightarrow> bool" where
  "tile_bounded t = (case t of (tx, ty, tw, th) \<Rightarrow> tw * th \<le> 4096 \<and> 0 < tw \<and> 0 < th)"

lemma decode_tiles_draw:
  assumes "supplies pk R"
  shows "list_all2 tile_fits ts cs \<Longrightarrow> list_all tile_bounded ts \<Longrightarrow> zr_at R d (concat (map tile_bytes cs) @ bs) \<Longrightarrow>
    \<exists>d' ds. decode_tiles pk ts d = Some (d', ds, Done) \<and> zr_at R d' bs \<and> zr_length d' = 0 \<and> ops ds = map2 tile_op ts cs"
proof (induction ts cs arbitrary: d rule: list_all2_induct)
  case Nil
  then show ?case by (simp add: zr_at_def)
next
  case (Cons t ts c cs)
  obtain tx ty tw th where t: "t = (tx, ty, tw, th)" by (metis surj_pair)
  have wf: "tile_wf tw th c" "tw * th \<le> 4096" "0 < tw" "0 < th"
    using Cons.hyps(1) Cons.prems(1) t by (simp_all add: tile_fits_def tile_bounded_def)
  have "zr_at R d (tile_bytes c @ concat (map tile_bytes cs) @ bs)" using Cons.prems(2) by simp
  from decode_tileE [OF assms this wf, of tx ty] obtain d1 dr where
    d1: "decode_tile pk t d = Some (d1, Inr dr)" "zr_at R d1 (concat (map tile_bytes cs) @ bs)" "draw_ops dr = [tile_op t c]"
    unfolding t .
  from Cons.IH [OF _ d1(2)] Cons.prems(1) d1 show ?case by auto
qed

lemma tiles_of_bounded: "list_all tile_bounded (tiles_of x y width height)"
proof -
  have "0 < min 64 (n - 64 * k) \<and> min 64 (n - 64 * k) \<le> 64" if "k < (n + 63) div 64" for n k :: nat
    using that by auto
  then have "min 64 (width - 64 * c) * min 64 (height - 64 * r) \<le> 64 * 64 \<and> 0 < min 64 (width - 64 * c) \<and> 0 < min 64 (height - 64 * r)"
    if "c < (width + 63) div 64" "r < (height + 63) div 64" for c r
    using that by (intro conjI mult_le_mono) simp_all
  then show ?thesis by (auto simp: tiles_of_def list_all_iff tile_bounded_def)
qed

section \<open>Properties\<close>

text \<open>
  C6. A ZRLE rectangle decodes to its tiles. From a stream that supplies the encoded tiles, each is drawn at its
  place, in order, with its pixels: raw, solid, packed in 1, 2 or 4 bits with every row starting a byte, or in runs of any
  length, with or without a palette. The reused buffers leave nothing of an earlier tile behind.
\<close>

theorem zrle_draws:
  assumes "rx_inv w" and "zr_length d = 0" and "length (zr_pixelBuffer d) = 16384" and "length (zr_tileBuffer d) = 16384"
    and "unread w = be_bytes 4 (int (length data)) @ data @ later" and "length data < 2 ^ 32"
    and "supplies pk R" and "R (setInput (zr_inflator d) (Some data)) (concat (map tile_bytes cs) @ rest)"
    and "list_all2 tile_fits (tiles_of x y width height) cs"
  shows "\<exists>d' w' ds. zrle_decodeRect pk x y width height d w = Some (d', w', ds, Done) \<and>
    ops ds = map2 tile_op (tiles_of x y width height) cs \<and> zr_length d' = 0 \<and> rx_inv w' \<and> unread w' = later"
proof -
  let ?n = "length data"
  have small: "int ?n mod 256 ^ 4 = int ?n" using assms(6) by simp
  have i: "rx_inv (adv 4 w)" "unread (adv 4 w) = data @ later" using assms(1,5) by (simp_all add: ws_simps)
  have sh: "rQshiftBytes (adv 4 w) (int ?n) = (adv ?n (adv 4 w), data)" using rQshiftBytes_eq [OF i(1), of ?n] i(2) by simp
  let ?d = "d\<lparr>zr_length := int ?n, zr_inflator := setInput (zr_inflator d) (Some data)\<rparr>"
  have "zr_at R ?d (concat (map tile_bytes cs) @ rest)" using assms(3,4,8) by (simp add: zr_at_def)
  from decode_tiles_draw [OF assms(7,9) tiles_of_bounded this] obtain d' ds where
    "decode_tiles pk (tiles_of x y width height) ?d = Some (d', ds, Done)" "zr_length d' = 0" "ops ds = map2 tile_op (tiles_of x y width height) cs"
    by auto
  then show ?thesis
    using assms(1,2,5) i sh small
    by (simp add: zrle_decodeRect_def zrle_data_def ws_simps be_val_be_bytes Let_def)
qed

text \<open>The stored stream supplies its input, from the next byte on.\<close>

definition stored_rest :: "unit inflator \<Rightarrow> byte list \<Rightarrow> bool" where
  "stored_rest z bs \<longleftrightarrow> inflator_ok z \<and> 0 \<le> strm_next_in (if_strm z) \<and>
     (case strm_input (if_strm z) of None \<Rightarrow> False | Some d \<Rightarrow> bs = drop (nat (strm_next_in (if_strm z))) d)"

lemma stored_supplies: "supplies stored stored_rest"
  unfolding supplies_def
proof (intro allI impI)
  fix z bs and n :: nat
  assume R: "stored_rest z bs" and more: "0 < n" and n: "n \<le> length bs"
  then obtain d where d: "inflator_ok z" "strm_input (if_strm z) = Some d" "0 \<le> strm_next_in (if_strm z)"
      "bs = drop (nat (strm_next_in (if_strm z))) d"
    by (auto simp: stored_rest_def split: option.splits)
  from stored_inflate_rest [OF d(1-3) n [unfolded d(4)] more] show "\<exists>z'. inflate stored z (int n) = (z', Inr (take n bs)) \<and> stored_rest z' (drop n bs)"
    using d(3,4) by (auto simp: stored_rest_def nat_add_distrib add.commute)
qed

text \<open>Three pixels by two in two colours, one byte for each row.\<close>

lemma zrle_draws_witness:
  "\<exists>d' w' ds. zrle_decodeRect stored 10 20 3 2 (new_ZRLEDecoder stored)
      (recv_ws [0, 0, 0, 9, 2, 1, 2, 3, 7, 8, 9, 0x40, 0xA0, 99]) = Some (d', w', ds, Done) \<and>
    ops ds = [OpPut [1, 2, 3, 255, 7, 8, 9, 255, 1, 2, 3, 255, 7, 8, 9, 255, 1, 2, 3, 255, 7, 8, 9, 255] 10 20 3 2] \<and> unread w' = [99]"
proof -
  let ?data = "[2, 1, 2, 3, 7, 8, 9, 0x40, 0xA0] :: byte list"
  let ?c = "PackedTile [[1, 2, 3], [7, 8, 9]] [[0x40], [0xA0]]"
  have w: "rx_inv (recv_ws [0, 0, 0, 9, 2, 1, 2, 3, 7, 8, 9, 0x40, 0xA0, 99])"
      "unread (recv_ws [0, 0, 0, 9, 2, 1, 2, 3, 7, 8, 9, 0x40, 0xA0, 99]) = be_bytes 4 (int (length ?data)) @ ?data @ [99]"
    using recv_ws_inv [of "[0, 0, 0, 9, 2, 1, 2, 3, 7, 8, 9, 0x40, 0xA0, 99]"] by (simp_all add: MAX_RQ_GROW_SIZE_def be_bytes_4 ToUint8_def)
  have u: "unpack 1 [0x40] 0 = 0" "unpack 1 [0x40] 1 = 1" "unpack 1 [0x40] 2 = 0" "unpack 1 [0xA0] 0 = 1" "unpack 1 [0xA0] 1 = 0"
      "unpack 1 [0xA0] 2 = 1"
    by (simp_all add: unpack_def)
  have lt: "x < 3 \<Longrightarrow> x = 0 \<or> x = 1 \<or> x = 2" for x :: nat by linarith
  have wf: "tile_wf 3 2 ?c"
    using u by (auto simp: colours_def bits_for_def packed_bytes_def dest!: lt)
  have tiles: "tiles_of 10 20 3 2 = [(10, 20, 3, 2)]" by (simp add: tiles_of_def)
  have px: "tile_pixels 3 2 ?c = [[1, 2, 3], [7, 8, 9], [1, 2, 3], [7, 8, 9], [1, 2, 3], [7, 8, 9]]"
    using u by (simp add: bits_for_def upt_3)
  have R: "stored_rest (setInput (zr_inflator (new_ZRLEDecoder stored)) (Some ?data)) (concat (map tile_bytes [?c]) @ [])"
    using inflator_ok_new [of stored] by (simp add: stored_rest_def new_ZRLEDecoder_def setInput_def inflator_ok_def)
  have "list_all2 tile_fits (tiles_of 10 20 3 2) [?c]" using wf by (simp add: tiles tile_fits_def)
  from zrle_draws [OF w(1) _ _ _ w(2) _ stored_supplies R this] show ?thesis
    by (auto simp: tiles px rgbx_list_def new_ZRLEDecoder_def simp del: tile_pixels.simps)
qed

text \<open>
  The check on the index of a palette run is off by one: an index equal to the size of the palette is accepted,
  and draws what an earlier tile left in the pixel buffer.
\<close>

lemma palette_run_accepts_size:
  assumes "offset + len \<le> tileSize"
  shows "palette_run m tileSize offset (int m) len d = (store_run offset (int m) len d, Inr ())"
  using assms by (simp add: palette_run_def)

end
