(* ===== verification/Web_Types.thy ===== *)
theory Web_Types
  imports Complex_Main
begin

text \<open>
  The data the web client shares: the records of \<open>types/index.ts\<close> that its contexts and pages compute
  with, and the decimal notation template strings give to numbers. A number that counts or measures is
  a \<open>rat\<close>, an identifier an \<open>int\<close>, an optional field an option.
\<close>

section \<open>Numbers in template strings\<close>

fun nat_string :: "nat \<Rightarrow> string" where
  "nat_string n =
     (if n < 10 then [char_of (48 + n)] else nat_string (n div 10) @ [char_of (48 + n mod 10)])"

declare nat_string.simps [simp del]

definition int_string :: "int \<Rightarrow> string" where
  "int_string i = (if i < 0 then CHR ''-'' # nat_string (nat (- i)) else nat_string (nat i))"

text \<open>Reading it back, which shows that different numbers look different.\<close>

definition read_nat :: "string \<Rightarrow> nat" where
  "read_nat s = foldl (\<lambda>a c. a * 10 + (of_char c - 48)) 0 s"

lemma read_nat_string: "read_nat (nat_string n) = n"
proof (induction n rule: nat_string.induct)
  case (1 n)
  show ?case
  proof (cases "n < 10")
    case True
    then show ?thesis by (subst nat_string.simps) (simp add: read_nat_def)
  next
    case False
    moreover have "n mod 10 < 10" by simp
    ultimately show ?thesis
      using 1 by (subst nat_string.simps) (simp add: read_nat_def)
  qed
qed

lemma nat_string_inj [simp]: "nat_string m = nat_string n \<longleftrightarrow> m = n"
  by (metis read_nat_string)

lemma nat_string_digits: "c \<in> set (nat_string n) \<Longrightarrow> 48 \<le> (of_char c :: nat) \<and> of_char c \<le> (57 :: nat)"
proof (induction n rule: nat_string.induct)
  case (1 n)
  have "n mod 10 < 10" by simp
  then have *: "48 + n mod 10 < 256" "n mod 10 \<le> 9" by linarith+
  show ?case
  proof (cases "n < 10")
    case True
    with 1 show ?thesis by (subst (asm) (2) nat_string.simps) (simp split: if_splits)
  next
    case False
    with 1(2) have "c \<in> set (nat_string (n div 10)) \<or> c = char_of (48 + n mod 10)"
      by (subst (asm) nat_string.simps) auto
    with 1(1) False * show ?thesis by auto
  qed
qed

lemma nat_string_no_sign: "CHR ''-'' \<notin> set (nat_string n)" "CHR '':'' \<notin> set (nat_string n)"
  using nat_string_digits [of "CHR ''-''" n] nat_string_digits [of "CHR '':''" n] by auto

lemma nat_string_nonempty [simp]: "nat_string n \<noteq> []"
  by (subst nat_string.simps) simp

lemma int_string_inj [simp]: "int_string i = int_string j \<longleftrightarrow> i = j"
proof -
  have "hd (nat_string n) \<noteq> CHR ''-''" for n
    using nat_string_no_sign(1) [of n] hd_in_set [of "nat_string n"] by (metis nat_string_nonempty)
  then have "CHR ''-'' # s \<noteq> nat_string n" for s n
    by (metis list.sel(1))
  then show ?thesis by (auto simp: int_string_def dest: sym)
qed

lemma int_string_no_colon: "CHR '':'' \<notin> set (int_string i)"
  by (simp add: int_string_def nat_string_no_sign)

section \<open>The inventory\<close>

datatype guest_type = qemu | lxc

record guest_nic =
  gn_name :: string
  gn_bridge :: string
  gn_mac :: "string option"
  gn_model :: "string option"
  gn_tag :: "int option"

record guest =
  g_cluster :: string
  g_vmid :: int
  g_name :: string
  g_node :: string
  g_type :: guest_type
  g_status :: string
  g_cpu :: rat
  g_cpus :: rat
  g_mem :: rat
  g_maxmem :: rat
  g_disk :: rat
  g_maxdisk :: rat
  g_uptime :: rat
  g_template :: "bool option"
  g_tags :: "string option"
  g_ha_state :: "string option"
  g_nics :: "guest_nic list option"

record node =
  n_cluster :: string
  n_node :: string
  n_status :: string
  n_cpu :: rat
  n_maxcpu :: rat
  n_mem :: rat
  n_maxmem :: rat
  n_disk :: rat
  n_maxdisk :: rat
  n_uptime :: rat
  n_last_update :: "rat option"
  n_error :: "string option"
  n_pve_version :: "string option"
  n_kernel_version :: "string option"
  n_cpu_model :: "string option"
  n_loadavg :: "string list option"

record storage =
  st_cluster :: string
  st_storage :: string
  st_node :: string
  st_type :: string
  st_status :: string
  st_active :: rat
  st_enabled :: rat
  st_shared :: bool                          \<comment> \<open>a number or a boolean, used as a condition\<close>
  st_content :: string
  st_used :: rat
  st_avail :: rat
  st_total :: rat

record summary =
  sm_TotalNodes :: rat
  sm_OnlineNodes :: rat
  sm_TotalVMs :: rat
  sm_RunningVMs :: rat
  sm_TotalContainers :: rat
  sm_RunningCTs :: rat
  sm_TotalCPU :: rat
  sm_UsedCPU :: rat
  sm_TotalMemGB :: rat
  sm_UsedMemGB :: rat

record ha_info =
  ha_enabled :: bool
  ha_quorum :: bool
  ha_manager :: string

record cluster_info =
  ci_name :: string
  ci_summary :: summary
  ci_ha :: "ha_info option"

section \<open>Folders\<close>

datatype resource_type = vm | ct | node_resource | storage_resource

record folder_member =
  fm_folder_id :: string
  fm_resource_type :: resource_type
  fm_resource_id :: string
  fm_cluster :: string
  fm_added_at :: string

datatype tree_view = hosts | vms

datatype folder = Folder
  (fo_id: string) (fo_name: string) (fo_parent_id: "string option") (fo_tree_view: tree_view)
  (fo_cluster: "string option") (fo_sort_order: int) (fo_created_at: string) (fo_updated_at: string)
  (fo_children: "folder list option") (fo_members: "folder_member list option")

definition resource_name :: "resource_type \<Rightarrow> string" where
  "resource_name r = (case r of vm \<Rightarrow> ''vm'' | ct \<Rightarrow> ''ct'' | node_resource \<Rightarrow> ''node'' | storage_resource \<Rightarrow> ''storage'')"

lemma resource_name_inj [simp]: "resource_name r = resource_name s \<longleftrightarrow> r = s"
  by (cases r; cases s) (simp_all add: resource_name_def)

lemma resource_name_no_colon: "CHR '':'' \<notin> set (resource_name r)"
  by (cases r) (simp_all add: resource_name_def)

section \<open>Runs\<close>

text \<open>A provider is run by a list of events, each of which has to be possible when it comes.\<close>

fun run_with :: "('s \<Rightarrow> 'e \<Rightarrow> bool) \<Rightarrow> ('s \<Rightarrow> 'e \<Rightarrow> 's) \<Rightarrow> 's \<Rightarrow> 'e list \<Rightarrow> 's option" where
  "run_with possible step s [] = Some s"
| "run_with possible step s (e # es) = (if possible s e then run_with possible step (step s e) es else None)"

locale kept =
  fixes possible :: "'s \<Rightarrow> 'e \<Rightarrow> bool" and step :: "'s \<Rightarrow> 'e \<Rightarrow> 's" and inv :: "'s \<Rightarrow> bool"
  assumes keeps: "inv s \<Longrightarrow> possible s e \<Longrightarrow> inv (step s e)"
begin

lemma run_keeps: "run_with possible step s es = Some s' \<Longrightarrow> inv s \<Longrightarrow> inv s'"
  by (induction es arbitrary: s) (auto simp: keeps split: if_splits)

lemma run_prefix_keeps: "run_with possible step s (es @ fs) = Some s' \<Longrightarrow> inv s \<Longrightarrow>
  \<exists>s1. run_with possible step s es = Some s1 \<and> inv s1 \<and> run_with possible step s1 fs = Some s'"
  by (induction es arbitrary: s) (auto simp: keeps split: if_splits)

end

end
