(* ===== verification/Keyboard.thy ===== *)
theory Keyboard
  imports Keysymdef Key_Tables Strings Web_Types "HOL-Library.AList"
begin

text \<open>
  The keyboard (\<open>input/keyboard.js\<close>, \<open>input/util.js\<close>): from a DOM event to a physical key and a keysym, and the state that
  turns the events of a browser, which drops and fakes some, into presses and releases that match. The calls of
  \<open>onkeyevent\<close> are a log. Every handler also stops the event.
\<close>

section \<open>Events\<close>

record browser_os =
  os_mac :: bool
  os_ios :: bool
  os_windows :: bool
  os_upper :: "int \<Rightarrow> int"  \<comment> \<open>first code unit of a character's upper case\<close>

text \<open>Properties a browser leaves out are None, 0 or the empty string; those are what the code tests for.\<close>

record key_input =
  ke_code :: string
  ke_keyCode :: nat
  ke_key :: "js_string option"
  ke_charCode :: int
  ke_location :: "nat option"
  ke_keyIdentifier :: string
  ke_timeStamp :: int
  ke_metaKey :: bool
  ke_numlock :: bool          \<comment> \<open>\<open>getModifierState\<close>\<close>
  ke_capslock :: bool

definition units :: "string \<Rightarrow> js_string" where
  "units s = map of_char s"

section \<open>Keys and keysyms\<close>

definition numpad_keys :: "(string \<times> string) list" where
  "numpad_keys =
     [(''Delete'', ''NumpadDecimal''), (''Insert'', ''Numpad0''), (''End'', ''Numpad1''), (''ArrowDown'', ''Numpad2''),
      (''PageDown'', ''Numpad3''), (''ArrowLeft'', ''Numpad4''), (''ArrowRight'', ''Numpad6''), (''Home'', ''Numpad7''),
      (''ArrowUp'', ''Numpad8''), (''PageUp'', ''Numpad9''), (''Enter'', ''NumpadEnter'')]"

definition right_keys :: "(string \<times> string) list" where
  "right_keys = [(''ShiftLeft'', ''ShiftRight''), (''ControlLeft'', ''ControlRight''), (''AltLeft'', ''AltRight'')]"

definition or_same :: "('a \<times> 'a) list \<Rightarrow> 'a \<Rightarrow> 'a" where
  "or_same table x = (case map_of table x of Some y \<Rightarrow> y | None \<Rightarrow> x)"

text \<open>The left modifiers of location 2 are none of the keys of location 3.\<close>

definition getKeycode :: "browser_os \<Rightarrow> key_input \<Rightarrow> string" where
  "getKeycode os e =
     (if ke_code e \<noteq> [] then or_same [(''OSLeft'', ''MetaLeft''), (''OSRight'', ''MetaRight'')] (ke_code e)
      else (case map_of vkeys (int (ke_keyCode e)) of
              None \<Rightarrow> ''Unidentified''
            | Some code \<Rightarrow>
                (let code = (if os_mac os \<and> code = ''ContextMenu'' then ''MetaRight'' else code)
                 in if ke_location e = Some 2 then or_same right_keys code
                    else if ke_location e = Some 3 then or_same numpad_keys code
                    else code)))"

definition key_names :: "(js_string \<times> js_string) list" where
  "key_names =
     [(units ''OS'', units ''Meta''), (units ''LaunchMyComputer'', units ''LaunchApplication1''),
      (units ''LaunchCalculator'', units ''LaunchApplication2''), (units ''UIKeyInputUpArrow'', units ''ArrowUp''),
      (units ''UIKeyInputDownArrow'', units ''ArrowDown''), (units ''UIKeyInputLeftArrow'', units ''ArrowLeft''),
      (units ''UIKeyInputRightArrow'', units ''ArrowRight''), (units ''UIKeyInputEscape'', units ''Escape'')]"

definition physical_key :: "browser_os \<Rightarrow> key_input \<Rightarrow> js_string" where
  "physical_key os e =
     (case map_of fixedkeys (getKeycode os e) of
        Some name \<Rightarrow> units name
      | None \<Rightarrow> if ke_charCode e \<noteq> 0 then [ke_charCode e mod 65536] else units ''Unidentified'')"

definition getKey :: "browser_os \<Rightarrow> key_input \<Rightarrow> js_string" where
  "getKey os e =
     (case ke_key e of
        Some key \<Rightarrow>
          if key \<noteq> units ''Unidentified''
          then (case map_of key_names key of
                  Some name \<Rightarrow> name
                | None \<Rightarrow> if key = [0] \<and> ke_code e = ''NumpadDecimal'' then units ''Delete'' else key)
          else physical_key os e
      | None \<Rightarrow> physical_key os e)"

text \<open>The column of the key table, and the keys it does not decide.\<close>

definition key_location :: "browser_os \<Rightarrow> key_input \<Rightarrow> js_string \<Rightarrow> nat" where
  "key_location os e key =
     (let location = ke_location e;
          location = (if key = units ''Meta'' \<and> location = Some 0 then Some 2 else location);
          location = (if key = units ''Clear'' \<and> location = Some 3 \<and> getKeycode os e = ''NumLock'' then Some 0 else location)
      in case location of None \<Rightarrow> 0 | Some l \<Rightarrow> if l > 3 then 0 else l)"

definition special_keysym :: "browser_os \<Rightarrow> key_input \<Rightarrow> js_string \<Rightarrow> int option" where
  "special_keysym os e key =
     (if key = units ''Meta'' \<and> getKeycode os e = ''AltLeft'' then Some XK_Meta_L
      else if key = units ''Meta'' \<and> getKeycode os e = ''AltRight'' then Some XK_Meta_R
      else if key = units ''Clear'' \<and> getKeycode os e = ''NumLock'' then Some XK_Num_Lock
      else if os_windows os \<and> key \<in> {units ''Zenkaku'', units ''Hankaku''} then Some XK_Zenkaku_Hankaku
      else if os_windows os \<and> key \<in> {units ''Romaji'', units ''KanaMode''} then Some XK_Romaji
      else None)"

definition getKeysym :: "browser_os \<Rightarrow> key_input \<Rightarrow> int option" where
  "getKeysym os e =
     (let key = getKey os e
      in if key = units ''Unidentified'' then None
         else (case map_of (map (\<lambda>(name, ks). (units name, ks)) DOMKeyTable) key of
                 Some ks \<Rightarrow>
                   (case special_keysym os e key of
                      Some keysym \<Rightarrow> Some keysym
                    | None \<Rightarrow> Some (ks ! key_location os e key))
               | None \<Rightarrow>
                   if length key \<noteq> 1 then None
                   else if hd key \<noteq> 0 then Some (keysym_lookup (hd key))
                   else None))"

section \<open>State\<close>

record key_event =
  kv_keysym :: "int option"
  kv_code :: string
  kv_down :: bool
  kv_numlock :: "bool option"
  kv_capslock :: "bool option"

record keyboard =
  kb_keyDownList :: "(string \<times> int option) list"
  kb_altGrArmed :: bool
  kb_altGrTimeout :: bool       \<comment> \<open>timer pending\<close>
  kb_altGrCtrlTime :: int
  kb_grabbed :: bool
  kb_sent :: "key_event list"

definition new_Keyboard :: keyboard where
  "new_Keyboard = \<lparr>kb_keyDownList = [], kb_altGrArmed = False, kb_altGrTimeout = False, kb_altGrCtrlTime = 0, kb_grabbed = False, kb_sent = []\<rparr>"

definition is_down :: "keyboard \<Rightarrow> string \<Rightarrow> bool" where
  "is_down kb code \<longleftrightarrow> map_of (kb_keyDownList kb) code \<noteq> None"

definition emit :: "key_event \<Rightarrow> keyboard \<Rightarrow> keyboard" where
  "emit ev kb = kb\<lparr>kb_sent := kb_sent kb @ [ev]\<rparr>"

definition sendKeyEvent :: "int option \<Rightarrow> string \<Rightarrow> bool \<Rightarrow> bool option \<Rightarrow> bool option \<Rightarrow> keyboard \<Rightarrow> keyboard" where
  "sendKeyEvent keysym code down numlock capslock kb =
     (let ev = \<lparr>kv_keysym = keysym, kv_code = code, kv_down = down, kv_numlock = numlock, kv_capslock = capslock\<rparr>
      in if down then emit ev (kb\<lparr>kb_keyDownList := AList.update code keysym (kb_keyDownList kb)\<rparr>)
         else if \<not> is_down kb code then kb
         else emit ev (kb\<lparr>kb_keyDownList := AList.delete code (kb_keyDownList kb)\<rparr>))"

text \<open>A press followed at once by a release.\<close>

definition tap :: "int option \<Rightarrow> string \<Rightarrow> bool option \<Rightarrow> bool option \<Rightarrow> keyboard \<Rightarrow> keyboard" where
  "tap keysym code numlock capslock kb =
     sendKeyEvent keysym code False numlock capslock (sendKeyEvent keysym code True numlock capslock kb)"

definition release :: "string \<Rightarrow> keyboard \<Rightarrow> keyboard" where
  "release code kb = sendKeyEvent (case map_of (kb_keyDownList kb) code of None \<Rightarrow> None | Some k \<Rightarrow> k) code False None None kb"

text \<open>\<open>parseInt(s, 16)\<close>; None is not a number.\<close>

definition hex_value :: "char \<Rightarrow> int option" where
  "hex_value c =
     (let n = of_char c :: int
      in if 48 \<le> n \<and> n \<le> 57 then Some (n - 48) else if 65 \<le> n \<and> n \<le> 70 then Some (n - 55)
         else if 97 \<le> n \<and> n \<le> 102 then Some (n - 87) else None)"

definition parse_hex :: "string \<Rightarrow> int option" where
  "parse_hex s =
     (let s = dropWhile (\<lambda>c. c = CHR '' '') s;
          neg = (s \<noteq> [] \<and> hd s = CHR ''-'');
          s = (if s \<noteq> [] \<and> hd s \<in> {CHR ''-'', CHR ''+''} then tl s else s);
          s = (if take 2 s \<in> {''0x'', ''0X''} then drop 2 s else s);
          ds = takeWhile (\<lambda>c. hex_value c \<noteq> None) s;
          n = foldl (\<lambda>n c. n * 16 + the (hex_value c)) 0 ds
      in if ds = [] then None else Some (if neg then - n else n))"

definition getKeyCode :: "browser_os \<Rightarrow> key_input \<Rightarrow> string" where
  "getKeyCode os e =
     (if getKeycode os e \<noteq> ''Unidentified'' then getKeycode os e
      else if ke_keyCode e \<noteq> 0 \<and> ke_keyCode e \<noteq> 229 then ''Platform'' @ nat_string (ke_keyCode e)
      else if ke_keyIdentifier e \<noteq> []
      then (if take 2 (ke_keyIdentifier e) \<noteq> ''U+'' then ke_keyIdentifier e
            else (let codepoint = (case parse_hex (drop 2 (ke_keyIdentifier e)) of None \<Rightarrow> 0 | Some n \<Rightarrow> n mod 65536)
                  in ''Platform'' @ nat_string (nat (os_upper os codepoint))))
      else ''Unidentified'')"

section \<open>Handlers\<close>

definition interruptAltGrSequence :: "keyboard \<Rightarrow> keyboard" where
  "interruptAltGrSequence kb =
     (if kb_altGrArmed kb
      then sendKeyEvent (Some XK_Control_L) ''ControlLeft'' True None None (kb\<lparr>kb_altGrArmed := False, kb_altGrTimeout := False\<rparr>)
      else kb)"

definition apple :: "browser_os \<Rightarrow> bool" where
  "apple os \<longleftrightarrow> os_mac os \<or> os_ios os"

definition apple_keysym :: "int option \<Rightarrow> int option" where
  "apple_keysym keysym =
     (if keysym = Some XK_Super_L then Some XK_Alt_L else if keysym = Some XK_Super_R then Some XK_Super_L
      else if keysym = Some XK_Alt_L then Some XK_Mode_switch else if keysym = Some XK_Alt_R then Some XK_ISO_Level3_Shift
      else keysym)"

definition jpBadKeys :: "int list" where
  "jpBadKeys = [XK_Zenkaku_Hankaku, XK_Eisu_toggle, XK_Katakana, XK_Hiragana, XK_Romaji]"

text \<open>A pending fake Control is either the start of AltGr or now sent as a real one.\<close>

definition end_altGr :: "key_input \<Rightarrow> string \<Rightarrow> bool option \<Rightarrow> bool option \<Rightarrow> int option \<Rightarrow> keyboard \<Rightarrow> int option \<times> keyboard" where
  "end_altGr e code numlock capslock keysym kb =
     (if kb_altGrArmed kb
      then (let kb = kb\<lparr>kb_altGrArmed := False, kb_altGrTimeout := False\<rparr>
            in if code = ''AltRight'' \<and> ke_timeStamp e - kb_altGrCtrlTime kb < 50 then (Some XK_ISO_Level3_Shift, kb)
               else (keysym, sendKeyEvent (Some XK_Control_L) ''ControlLeft'' True numlock capslock kb))
      else (keysym, kb))"

definition handleKeyDown :: "browser_os \<Rightarrow> key_input \<Rightarrow> keyboard \<Rightarrow> keyboard" where
  "handleKeyDown os e kb =
     (let code = getKeyCode os e;
          numlock = (if apple os then None else Some (ke_numlock e));
          capslock = Some (ke_capslock e);
          (keysym, kb) = end_altGr e code numlock capslock (getKeysym os e) kb
      in if code = ''Unidentified''
         then (if keysym \<noteq> None \<and> keysym \<noteq> Some 0 then tap keysym code numlock capslock kb else kb)
         else (let keysym = (if apple os then apple_keysym keysym else keysym);
                   keysym = (case map_of (kb_keyDownList kb) code of Some k \<Rightarrow> k | None \<Rightarrow> keysym)
               in if apple os \<and> ke_metaKey e \<and> code \<noteq> ''MetaLeft'' \<and> code \<noteq> ''MetaRight'' then tap keysym code numlock capslock kb
                  else if apple os \<and> code = ''CapsLock'' then tap (Some XK_Caps_Lock) ''CapsLock'' numlock capslock kb
                  else if os_windows os \<and> (\<exists>k \<in> set jpBadKeys. keysym = Some k) then tap keysym code numlock capslock kb
                  else if code = ''ControlLeft'' \<and> os_windows os \<and> \<not> is_down kb ''ControlLeft''
                  then kb\<lparr>kb_altGrArmed := True, kb_altGrTimeout := True, kb_altGrCtrlTime := ke_timeStamp e\<rparr>
                  else sendKeyEvent keysym code True numlock capslock kb))"

definition handleKeyUp :: "browser_os \<Rightarrow> key_input \<Rightarrow> keyboard \<Rightarrow> keyboard" where
  "handleKeyUp os e kb =
     (let code = getKeyCode os e;
          kb = interruptAltGrSequence kb
      in if apple os \<and> code = ''CapsLock'' then tap (Some XK_Caps_Lock) ''CapsLock'' None None kb
         else (let kb = release code kb
               in if os_windows os \<and> (code = ''ShiftLeft'' \<or> code = ''ShiftRight'')
                  then release ''ShiftLeft'' (release ''ShiftRight'' kb) else kb))"

definition allKeysUp :: "keyboard \<Rightarrow> keyboard" where
  "allKeysUp kb =
     (let kb = interruptAltGrSequence kb in foldl (\<lambda>kb code. release code kb) kb (map fst (kb_keyDownList kb)))"

definition grab :: "keyboard \<Rightarrow> keyboard" where
  "grab kb = kb\<lparr>kb_grabbed := True\<rparr>"

definition ungrab :: "keyboard \<Rightarrow> keyboard" where
  "ungrab kb = allKeysUp (kb\<lparr>kb_grabbed := False\<rparr>)"


section \<open>Runs\<close>

datatype kb_event = KDown key_input | KUp key_input | KBlur | KTimer | KGrab | KUngrab

definition kb_possible :: "keyboard \<Rightarrow> kb_event \<Rightarrow> bool" where
  "kb_possible kb ev =
     (case ev of
        KDown _ \<Rightarrow> kb_grabbed kb | KUp _ \<Rightarrow> kb_grabbed kb | KBlur \<Rightarrow> kb_grabbed kb
      | KTimer \<Rightarrow> kb_altGrTimeout kb | KGrab \<Rightarrow> True | KUngrab \<Rightarrow> True)"

definition kb_step :: "browser_os \<Rightarrow> keyboard \<Rightarrow> kb_event \<Rightarrow> keyboard" where
  "kb_step os kb ev =
     (case ev of
        KDown e \<Rightarrow> handleKeyDown os e kb
      | KUp e \<Rightarrow> handleKeyUp os e kb
      | KBlur \<Rightarrow> allKeysUp kb
      | KTimer \<Rightarrow> interruptAltGrSequence kb
      | KGrab \<Rightarrow> grab kb
      | KUngrab \<Rightarrow> ungrab kb)"

text \<open>What the other side makes of the events: the keysym under which each key is held.\<close>

definition after_key :: "(string \<rightharpoonup> int option) \<Rightarrow> key_event \<Rightarrow> (string \<rightharpoonup> int option)" where
  "after_key m ev = m(kv_code ev := (if kv_down ev then Some (kv_keysym ev) else None))"

definition held :: "key_event list \<Rightarrow> (string \<rightharpoonup> int option)" where
  "held evs = foldl after_key Map.empty evs"

text \<open>
  Events that make sense to it: a key that is held is only released, or pressed again, under the keysym it was pressed
  with, and a key that is not held is not released.
\<close>

fun paired_from :: "(string \<rightharpoonup> int option) \<Rightarrow> key_event list \<Rightarrow> bool" where
  "paired_from m [] \<longleftrightarrow> True"
| "paired_from m (ev # evs) \<longleftrightarrow>
     (case m (kv_code ev) of Some k \<Rightarrow> kv_keysym ev = k | None \<Rightarrow> kv_down ev) \<and> paired_from (after_key m ev) evs"

lemma held_snoc: "held (evs @ [ev]) = after_key (held evs) ev"
  by (simp add: held_def)

lemma paired_snoc:
  "paired_from m (evs @ [ev]) \<longleftrightarrow> paired_from m evs \<and>
     (case foldl after_key m evs (kv_code ev) of Some k \<Rightarrow> kv_keysym ev = k | None \<Rightarrow> kv_down ev)"
  by (induction evs arbitrary: m) auto

section \<open>The invariant\<close>

text \<open>The list is what the other side holds; some keys are only ever tapped.\<close>

definition matching :: "keyboard \<Rightarrow> bool" where
  "matching kb \<longleftrightarrow> held (kb_sent kb) = map_of (kb_keyDownList kb) \<and> paired_from Map.empty (kb_sent kb) \<and>
     distinct (map fst (kb_keyDownList kb))"

definition allowed :: "browser_os \<Rightarrow> string \<Rightarrow> bool" where
  "allowed os code \<longleftrightarrow> code \<noteq> ''Unidentified'' \<and> (apple os \<longrightarrow> code \<noteq> ''CapsLock'')"

definition kb_tracks :: "browser_os \<Rightarrow> keyboard \<Rightarrow> bool" where
  "kb_tracks os kb \<longleftrightarrow> matching kb \<and> (\<forall>code. is_down kb code \<longrightarrow> allowed os code)"

definition kb_ok :: "browser_os \<Rightarrow> keyboard \<Rightarrow> bool" where
  "kb_ok os kb \<longleftrightarrow> kb_tracks os kb \<and> kb_altGrTimeout kb = kb_altGrArmed kb \<and>
     (kb_altGrArmed kb \<longrightarrow> os_windows os \<and> \<not> is_down kb ''ControlLeft'')"

lemma send_fields [simp]:
  "kb_altGrArmed (sendKeyEvent k c d n l kb) = kb_altGrArmed kb" "kb_altGrTimeout (sendKeyEvent k c d n l kb) = kb_altGrTimeout kb"
  "kb_grabbed (sendKeyEvent k c d n l kb) = kb_grabbed kb" "kb_altGrCtrlTime (sendKeyEvent k c d n l kb) = kb_altGrCtrlTime kb"
  by (simp_all add: sendKeyEvent_def emit_def Let_def)

lemma down_list: "map_of (kb_keyDownList (sendKeyEvent k c True n l kb)) = (map_of (kb_keyDownList kb))(c \<mapsto> k)"
  by (simp add: sendKeyEvent_def emit_def AList.update_conv')

lemma up_list: "map_of (kb_keyDownList (sendKeyEvent k c False n l kb)) = (map_of (kb_keyDownList kb))(c := None)"
  by (auto simp: sendKeyEvent_def emit_def AList.delete_conv' is_down_def fun_upd_idem)

text \<open>A press under the keysym a key is held with, or of a key not held.\<close>

definition fits :: "keyboard \<Rightarrow> string \<Rightarrow> int option \<Rightarrow> bool" where
  "fits kb code keysym \<longleftrightarrow> (case map_of (kb_keyDownList kb) code of Some k \<Rightarrow> keysym = k | None \<Rightarrow> True)"

lemma press_matching: "matching kb \<Longrightarrow> fits kb c k \<Longrightarrow> matching (sendKeyEvent k c True n l kb)"
  by (auto simp: matching_def sendKeyEvent_def emit_def held_snoc after_key_def AList.update_conv' AList.distinct_update
      paired_snoc fits_def held_def simp del: map_of_eq_Some_iff split: option.splits)

lemma release_matching: "matching kb \<Longrightarrow> fits kb c k \<Longrightarrow> matching (sendKeyEvent k c False n l kb)"
  by (auto simp: matching_def sendKeyEvent_def emit_def held_snoc after_key_def AList.delete_conv' AList.distinct_delete
      paired_snoc fits_def held_def is_down_def simp del: map_of_eq_Some_iff split: option.splits)

lemma is_down_press: "is_down (sendKeyEvent k c True n l kb) code \<longleftrightarrow> code = c \<or> is_down kb code"
  by (simp add: is_down_def down_list)

lemma is_down_release: "is_down (sendKeyEvent k c False n l kb) code \<longleftrightarrow> code \<noteq> c \<and> is_down kb code"
  by (simp add: is_down_def up_list)

lemma press_tracks: "kb_tracks os kb \<Longrightarrow> fits kb c k \<Longrightarrow> allowed os c \<Longrightarrow> kb_tracks os (sendKeyEvent k c True n l kb)"
  by (auto simp: kb_tracks_def press_matching is_down_press)

lemma release_tracks: "kb_tracks os kb \<Longrightarrow> fits kb c k \<Longrightarrow> kb_tracks os (sendKeyEvent k c False n l kb)"
  by (auto simp: kb_tracks_def release_matching is_down_release)

lemma tap_tracks:
  assumes "kb_tracks os kb" and "fits kb c k"
  shows "kb_tracks os (tap k c n l kb)"
proof -
  have "fits (sendKeyEvent k c True n l kb) c k" by (simp add: fits_def down_list)
  then show ?thesis
    using assms by (auto simp: kb_tracks_def tap_def press_matching release_matching is_down_press is_down_release)
qed

lemma release_key_tracks: "kb_tracks os kb \<Longrightarrow> kb_tracks os (release c kb)"
  unfolding release_def by (rule release_tracks) (auto simp: fits_def split: option.split)

lemma tracks_fields: "kb_keyDownList kb' = kb_keyDownList kb \<Longrightarrow> kb_sent kb' = kb_sent kb \<Longrightarrow> kb_tracks os kb' = kb_tracks os kb"
  by (simp add: kb_tracks_def matching_def is_down_def)

lemma tap_fields [simp]:
  "kb_altGrArmed (tap k c n l kb) = kb_altGrArmed kb" "kb_altGrTimeout (tap k c n l kb) = kb_altGrTimeout kb"
  by (simp_all add: tap_def)

lemma release_fields [simp]:
  "kb_altGrArmed (release c kb) = kb_altGrArmed kb" "kb_altGrTimeout (release c kb) = kb_altGrTimeout kb"
  by (simp_all add: release_def)

lemma is_down_released: "is_down (release c kb) code \<longleftrightarrow> code \<noteq> c \<and> is_down kb code"
  by (simp add: release_def is_down_release)

text \<open>A disarmed keyboard only has to track.\<close>

lemma kb_okI: "kb_tracks os kb \<Longrightarrow> \<not> kb_altGrArmed kb \<Longrightarrow> \<not> kb_altGrTimeout kb \<Longrightarrow> kb_ok os kb"
  by (simp add: kb_ok_def)

lemma control_fits: "\<not> is_down kb ''ControlLeft'' \<Longrightarrow> fits kb ''ControlLeft'' k"
  by (simp add: fits_def is_down_def)

lemma interrupted:
  assumes "kb_ok os kb"
  shows "kb_tracks os (interruptAltGrSequence kb) \<and> \<not> kb_altGrArmed (interruptAltGrSequence kb) \<and>
    \<not> kb_altGrTimeout (interruptAltGrSequence kb)"
proof (cases "kb_altGrArmed kb")
  case False
  with assms show ?thesis by (simp add: interruptAltGrSequence_def kb_ok_def)
next
  case True
  let ?kb = "kb\<lparr>kb_altGrArmed := False, kb_altGrTimeout := False\<rparr>"
  have "kb_tracks os ?kb" "fits ?kb ''ControlLeft'' (Some XK_Control_L)"
    using assms True by (auto simp: kb_ok_def fits_def is_down_def cong: tracks_fields)
  then show ?thesis using True by (simp add: interruptAltGrSequence_def press_tracks allowed_def)
qed

lemma altGr_ended:
  assumes "kb_ok os kb" and "end_altGr e code n l keysym kb = (keysym', kb')"
  shows "kb_tracks os kb' \<and> \<not> kb_altGrArmed kb' \<and> \<not> kb_altGrTimeout kb'"
proof (cases "kb_altGrArmed kb")
  case False
  with assms show ?thesis by (simp add: end_altGr_def kb_ok_def)
next
  case True
  let ?kb = "kb\<lparr>kb_altGrArmed := False, kb_altGrTimeout := False\<rparr>"
  have "kb_tracks os ?kb" "fits ?kb ''ControlLeft'' (Some XK_Control_L)"
    using assms(1) True by (auto simp: kb_ok_def fits_def is_down_def cong: tracks_fields)
  then show ?thesis using True assms(2) by (auto simp: end_altGr_def press_tracks allowed_def Let_def split: if_splits)
qed

lemma handleKeyDown_ok:
  assumes "kb_ok os kb"
  shows "kb_ok os (handleKeyDown os e kb)"
proof -
  let ?code = "getKeyCode os e" and ?n = "if apple os then None else Some (ke_numlock e)" and ?l = "Some (ke_capslock e)"
  obtain k kb1 where g: "end_altGr e ?code ?n ?l (getKeysym os e) kb = (k, kb1)" by fastforce
  note t = altGr_ended [OF assms g]
  let ?k = "case map_of (kb_keyDownList kb1) ?code of Some k \<Rightarrow> k | None \<Rightarrow> (if apple os then apple_keysym k else k)"
  have f: "fits kb1 ?code ?k" by (simp add: fits_def split: option.split)
  have u: "fits kb1 ''Unidentified'' k" "apple os \<Longrightarrow> fits kb1 ''CapsLock'' k'" for k'
    using t by (auto simp: kb_tracks_def fits_def is_down_def allowed_def split: option.splits)
  have h: "handleKeyDown os e kb =
      (if ?code = ''Unidentified'' then (if k \<noteq> None \<and> k \<noteq> Some 0 then tap k ?code ?n ?l kb1 else kb1)
       else if apple os \<and> ke_metaKey e \<and> ?code \<noteq> ''MetaLeft'' \<and> ?code \<noteq> ''MetaRight'' then tap ?k ?code ?n ?l kb1
       else if apple os \<and> ?code = ''CapsLock'' then tap (Some XK_Caps_Lock) ''CapsLock'' ?n ?l kb1
       else if os_windows os \<and> (\<exists>k \<in> set jpBadKeys. ?k = Some k) then tap ?k ?code ?n ?l kb1
       else if ?code = ''ControlLeft'' \<and> os_windows os \<and> \<not> is_down kb1 ''ControlLeft''
       then kb1\<lparr>kb_altGrArmed := True, kb_altGrTimeout := True, kb_altGrCtrlTime := ke_timeStamp e\<rparr>
       else sendKeyEvent ?k ?code True ?n ?l kb1)"
    by (simp only: handleKeyDown_def g Let_def prod.case)
  have tap: "kb_ok os (tap k' c n l kb1)" if "fits kb1 c k'" for k' c n l
    using t that by (intro kb_okI tap_tracks) simp_all
  have press: "kb_ok os (sendKeyEvent ?k ?code True n l kb1)" if "allowed os ?code" for n l
    using t f that by (intro kb_okI press_tracks) simp_all
  have arm: "kb_ok os (kb1\<lparr>kb_altGrArmed := True, kb_altGrTimeout := True, kb_altGrCtrlTime := c\<rparr>)"
    if "os_windows os" "\<not> is_down kb1 ''ControlLeft''" for c
    using t that by (simp add: kb_ok_def is_down_def cong: tracks_fields)
  have "kb_ok os kb1" using t by (simp add: kb_okI)
  then show ?thesis
    unfolding h using tap press arm f u by (simp add: allowed_def)
qed

lemma handleKeyUp_ok:
  assumes "kb_ok os kb"
  shows "kb_ok os (handleKeyUp os e kb)"
proof -
  let ?kb = "interruptAltGrSequence kb"
  note t = interrupted [OF assms]
  have rel: "kb_ok os (release c kb')" if "kb_ok os kb'" "\<not> kb_altGrArmed kb'" for c kb'
    using that by (intro kb_okI release_key_tracks) (simp_all add: kb_ok_def)
  have ok: "kb_ok os ?kb" using t by (simp add: kb_okI)
  have "kb_ok os (tap (Some XK_Caps_Lock) ''CapsLock'' None None ?kb)" if "apple os"
    using t that by (intro kb_okI tap_tracks) (auto simp: kb_tracks_def fits_def is_down_def allowed_def split: option.split)
  then show ?thesis using rel ok t by (simp add: handleKeyUp_def Let_def)
qed

lemma releases:
  "kb_tracks os kb \<Longrightarrow> kb_tracks os (foldl (\<lambda>kb code. release code kb) kb codes) \<and>
     kb_altGrArmed (foldl (\<lambda>kb code. release code kb) kb codes) = kb_altGrArmed kb \<and>
     kb_altGrTimeout (foldl (\<lambda>kb code. release code kb) kb codes) = kb_altGrTimeout kb \<and>
     (\<forall>code. is_down (foldl (\<lambda>kb code. release code kb) kb codes) code \<longleftrightarrow> code \<notin> set codes \<and> is_down kb code)"
proof (induction codes arbitrary: kb)
  case Nil
  then show ?case by simp
next
  case (Cons c codes)
  from Cons.IH [OF release_key_tracks [OF Cons.prems], of c] show ?case by (auto simp: is_down_released)
qed

lemma allKeysUp_ok:
  assumes "kb_ok os kb"
  shows "kb_ok os (allKeysUp kb)" and "kb_keyDownList (allKeysUp kb) = []" and "\<not> kb_altGrArmed (allKeysUp kb)"
proof -
  let ?kb = "interruptAltGrSequence kb"
  note t = interrupted [OF assms]
  note r = releases [OF t [THEN conjunct1], of "map fst (kb_keyDownList ?kb)"]
  then show "kb_ok os (allKeysUp kb)" "\<not> kb_altGrArmed (allKeysUp kb)" using t by (auto simp: allKeysUp_def Let_def kb_ok_def)
  have "\<not> is_down (allKeysUp kb) code" for code
  proof
    assume "is_down (allKeysUp kb) code"
    then have "code \<notin> set (map fst (kb_keyDownList ?kb))" "is_down ?kb code" using r by (simp_all add: allKeysUp_def Let_def)
    then show False by (simp add: is_down_def map_of_eq_None_iff)
  qed
  then show "kb_keyDownList (allKeysUp kb) = []"
    by (cases "kb_keyDownList (allKeysUp kb)") (auto simp: is_down_def, metis fun_upd_same option.distinct(1))
qed

lemma kb_ok_new: "kb_ok os new_Keyboard"
  by (simp add: kb_ok_def kb_tracks_def matching_def new_Keyboard_def held_def is_down_def fun_eq_iff)

lemma kb_ok_grabbed: "kb_ok os (kb\<lparr>kb_grabbed := b\<rparr>) = kb_ok os kb"
  by (simp add: kb_ok_def is_down_def cong: tracks_fields)

interpretation keys: kept kb_possible "kb_step os" "kb_ok os" for os
proof
  fix kb ev
  assume ok: "kb_ok os kb" and "kb_possible kb ev"
  have "kb_ok os (interruptAltGrSequence kb)" using interrupted [OF ok] by (simp add: kb_okI)
  then show "kb_ok os (kb_step os kb ev)"
    using ok handleKeyDown_ok [OF ok] handleKeyUp_ok [OF ok] allKeysUp_ok(1) [OF ok]
      allKeysUp_ok(1) [of os "kb\<lparr>kb_grabbed := False\<rparr>"]
    by (cases ev) (simp_all add: kb_step_def grab_def ungrab_def kb_ok_grabbed)
qed

section \<open>Properties\<close>

text \<open>
  C12. Whatever keys are pressed, released, dropped or faked, the events sent match: a key that is held is pressed again or
  released only under the keysym it was pressed with, none is released that is not held, and the keyboard's list is exactly
  what the other side holds.
\<close>

theorem keys_are_paired:
  assumes "run_with kb_possible (kb_step os) new_Keyboard evs = Some kb"
  shows "paired_from Map.empty (kb_sent kb) \<and> held (kb_sent kb) = map_of (kb_keyDownList kb)"
  using keys.run_keeps [OF assms kb_ok_new] by (simp add: kb_ok_def kb_tracks_def matching_def)

text \<open>
  C19. When the window loses the focus or the keyboard is let go, every key the other side holds is released, a Control that
  was being kept back included.
\<close>

theorem no_key_stays_down:
  assumes "run_with kb_possible (kb_step os) new_Keyboard (evs @ [ev]) = Some kb" and "ev = KBlur \<or> ev = KUngrab"
  shows "held (kb_sent kb) = Map.empty \<and> \<not> kb_altGrTimeout kb"
proof -
  obtain kb1 where kb1: "kb_ok os kb1" "run_with kb_possible (kb_step os) kb1 [ev] = Some kb"
    using keys.run_prefix_keeps [OF assms(1) kb_ok_new] by blast
  then have kb: "kb = kb_step os kb1 ev" "kb_ok os (kb_step os kb1 ev)" by (auto simp: keys.keeps split: if_splits)
  have "kb_ok os (kb1\<lparr>kb_grabbed := False\<rparr>)" using kb1(1) by (simp add: kb_ok_grabbed)
  then have "kb_keyDownList kb = []" "\<not> kb_altGrArmed kb"
    using assms(2) kb1(1) kb(1) allKeysUp_ok(2,3) by (auto simp: kb_step_def ungrab_def)
  then show ?thesis using kb by (simp add: kb_ok_def kb_tracks_def matching_def)
qed

text \<open>
  C26. On Windows the Control press a browser fakes right before AltGr never reaches the other side: within 50 ms both become
  one press of the level 3 shift; later, they are the two presses they look like.
\<close>

theorem altGr_is_one_key:
  assumes "kb_ok os kb" and "os_windows os" and "\<not> apple os" and "\<not> kb_altGrArmed kb"
    and "getKeyCode os e1 = ''ControlLeft''" and "getKeyCode os e2 = ''AltRight''" and "getKeysym os e1 = Some XK_Control_L"
    and "getKeysym os e2 = Some k" and "k \<notin> set jpBadKeys" and "\<not> is_down kb ''ControlLeft''" and "\<not> is_down kb ''AltRight''"
  shows "kb_sent (handleKeyDown os e2 (handleKeyDown os e1 kb)) = kb_sent kb @
    (if ke_timeStamp e2 - ke_timeStamp e1 < 50
     then [\<lparr>kv_keysym = Some XK_ISO_Level3_Shift, kv_code = ''AltRight'', kv_down = True,
            kv_numlock = Some (ke_numlock e2), kv_capslock = Some (ke_capslock e2)\<rparr>]
     else [\<lparr>kv_keysym = Some XK_Control_L, kv_code = ''ControlLeft'', kv_down = True,
            kv_numlock = Some (ke_numlock e2), kv_capslock = Some (ke_capslock e2)\<rparr>,
           \<lparr>kv_keysym = Some k, kv_code = ''AltRight'', kv_down = True,
            kv_numlock = Some (ke_numlock e2), kv_capslock = Some (ke_capslock e2)\<rparr>])"
proof -
  have j: "XK_Control_L \<notin> set jpBadKeys" "XK_ISO_Level3_Shift \<notin> set jpBadKeys"
    by (simp_all add: jpBadKeys_def XK_Control_L_def XK_ISO_Level3_Shift_def XK_Zenkaku_Hankaku_def XK_Eisu_toggle_def XK_Katakana_def
        XK_Hiragana_def XK_Romaji_def)
  have n: "map_of (kb_keyDownList kb) ''ControlLeft'' = None" "map_of (kb_keyDownList kb) ''AltRight'' = None"
    using assms(10,11) by (simp_all add: is_down_def)
  let ?kb1 = "kb\<lparr>kb_altGrArmed := True, kb_altGrTimeout := True, kb_altGrCtrlTime := ke_timeStamp e1\<rparr>"
  have "handleKeyDown os e1 kb = ?kb1"
    using assms(2-5,7,10) j n by (simp add: handleKeyDown_def end_altGr_def)
  moreover have "kb_sent (handleKeyDown os e2 ?kb1) = kb_sent kb @
    (if ke_timeStamp e2 - ke_timeStamp e1 < 50
     then [\<lparr>kv_keysym = Some XK_ISO_Level3_Shift, kv_code = ''AltRight'', kv_down = True,
            kv_numlock = Some (ke_numlock e2), kv_capslock = Some (ke_capslock e2)\<rparr>]
     else [\<lparr>kv_keysym = Some XK_Control_L, kv_code = ''ControlLeft'', kv_down = True,
            kv_numlock = Some (ke_numlock e2), kv_capslock = Some (ke_capslock e2)\<rparr>,
           \<lparr>kv_keysym = Some k, kv_code = ''AltRight'', kv_down = True,
            kv_numlock = Some (ke_numlock e2), kv_capslock = Some (ke_capslock e2)\<rparr>])"
    using assms(2,3,6,8,9) j n
    by (simp add: handleKeyDown_def end_altGr_def sendKeyEvent_def emit_def AList.update_conv' Let_def)
  ultimately show ?thesis by simp
qed


definition sample_key :: "string \<Rightarrow> string \<Rightarrow> int \<Rightarrow> key_input" where
  "sample_key code key time =
     \<lparr>ke_code = code, ke_keyCode = 0, ke_key = Some (units key), ke_charCode = 0, ke_location = Some 0, ke_keyIdentifier = [],
      ke_timeStamp = time, ke_metaKey = False, ke_numlock = False, ke_capslock = False\<rparr>"

definition sample_windows :: browser_os where
  "sample_windows = \<lparr>os_mac = False, os_ios = False, os_windows = True, os_upper = id\<rparr>"

lemma sample_keysyms:
  "getKeysym sample_windows (sample_key ''ControlLeft'' ''Control'' 100) = Some XK_Control_L"
  "getKeysym sample_windows (sample_key ''AltRight'' ''AltGraph'' 120) = Some XK_ISO_Level3_Shift"
  "getKeysym sample_windows (sample_key ''KeyA'' ''a'' 130) = Some 0x61"
  by code_simp+

lemma sample_codes:
  "getKeyCode sample_windows (sample_key ''ControlLeft'' ''Control'' 100) = ''ControlLeft''"
  "getKeyCode sample_windows (sample_key ''AltRight'' ''AltGraph'' 120) = ''AltRight''"
  "getKeyCode sample_windows (sample_key ''KeyA'' ''a'' 130) = ''KeyA''"
  by code_simp+

theorem altGr_is_one_key_witness:
  "map kv_keysym (kb_sent (handleKeyDown sample_windows (sample_key ''AltRight'' ''AltGraph'' 120)
     (handleKeyDown sample_windows (sample_key ''ControlLeft'' ''Control'' 100) new_Keyboard))) = [Some XK_ISO_Level3_Shift]"
  using altGr_is_one_key [of sample_windows new_Keyboard "sample_key ''ControlLeft'' ''Control'' 100" "sample_key ''AltRight'' ''AltGraph'' 120"
      XK_ISO_Level3_Shift] kb_ok_new sample_keysyms(1,2) sample_codes(1,2)
  by (simp add: sample_windows_def apple_def new_Keyboard_def is_down_def sample_key_def jpBadKeys_def XK_ISO_Level3_Shift_def
      XK_Zenkaku_Hankaku_def XK_Eisu_toggle_def XK_Katakana_def XK_Hiragana_def XK_Romaji_def)

text \<open>Control, then a letter, then the window loses the focus.\<close>

definition sample_typing :: "kb_event list" where
  "sample_typing = [KGrab, KDown (sample_key ''ControlLeft'' ''Control'' 100), KDown (sample_key ''KeyA'' ''a'' 130)]"

lemma sample_typing_runs:
  "map_option (\<lambda>kb. map kv_keysym (kb_sent kb)) (run_with kb_possible (kb_step sample_windows) new_Keyboard (sample_typing @ [KBlur])) =
     Some [Some XK_Control_L, Some 0x61, Some XK_Control_L, Some 0x61]"
  by code_simp

lemma sample_typing_run:
  "\<exists>kb. run_with kb_possible (kb_step sample_windows) new_Keyboard (sample_typing @ [KBlur]) = Some kb \<and>
     map kv_keysym (kb_sent kb) = [Some XK_Control_L, Some 0x61, Some XK_Control_L, Some 0x61]"
  using sample_typing_runs by (cases "run_with kb_possible (kb_step sample_windows) new_Keyboard (sample_typing @ [KBlur])") simp_all

theorem keys_are_paired_witness:
  "\<exists>kb. run_with kb_possible (kb_step sample_windows) new_Keyboard (sample_typing @ [KBlur]) = Some kb \<and>
     map kv_keysym (kb_sent kb) = [Some XK_Control_L, Some 0x61, Some XK_Control_L, Some 0x61] \<and>
     paired_from Map.empty (kb_sent kb)"
  using sample_typing_run keys_are_paired [of sample_windows "sample_typing @ [KBlur]"] by metis

theorem no_key_stays_down_witness:
  "\<exists>kb. run_with kb_possible (kb_step sample_windows) new_Keyboard (sample_typing @ [KBlur]) = Some kb \<and>
     kb_sent kb \<noteq> [] \<and> held (kb_sent kb) = Map.empty"
  using sample_typing_run no_key_stays_down [of sample_windows sample_typing KBlur] by fastforce

end
