(* ===== verification/Gestures.thy ===== *)
theory Gestures
  imports JS_Prelude Web_Types
begin

text \<open>
  Touch gestures (\<open>input/gesturehandler.js\<close>): the state machine that turns fingers into taps, drags, long presses and
  two finger gestures. The gesture events it dispatches are a log; \<open>Date.now()\<close> is an argument of the handlers.
  Coordinates are rational. \<open>Math.hypot\<close> and \<open>Math.atan2\<close>, whose values the language leaves to the implementation, are
  the record \<open>js_math\<close>; nothing is assumed of them.
\<close>

section \<open>State\<close>

record js_math =
  jm_hypot :: "rat \<Rightarrow> rat \<Rightarrow> rat"
  jm_degrees :: "rat \<Rightarrow> rat \<Rightarrow> rat"     \<comment> \<open>\<open>Math.atan2(y, x) * 180 / Math.PI\<close>\<close>

definition GH_NOGESTURE :: int where "GH_NOGESTURE = 0"
definition GH_ONETAP :: int where "GH_ONETAP = 1"
definition GH_TWOTAP :: int where "GH_TWOTAP = 2"
definition GH_THREETAP :: int where "GH_THREETAP = 4"
definition GH_DRAG :: int where "GH_DRAG = 8"
definition GH_LONGPRESS :: int where "GH_LONGPRESS = 16"
definition GH_TWODRAG :: int where "GH_TWODRAG = 32"
definition GH_PINCH :: int where "GH_PINCH = 64"
definition GH_INITSTATE :: int where "GH_INITSTATE = 127"
definition GH_MOVE_THRESHOLD :: rat where "GH_MOVE_THRESHOLD = 50"
definition GH_ANGLE_THRESHOLD :: rat where "GH_ANGLE_THRESHOLD = 90"
definition GH_MULTITOUCH_TIMEOUT :: int where "GH_MULTITOUCH_TIMEOUT = 250"
definition GH_TAP_TIMEOUT :: int where "GH_TAP_TIMEOUT = 1000"

lemmas gh_consts = GH_NOGESTURE_def GH_ONETAP_def GH_TWOTAP_def GH_THREETAP_def GH_DRAG_def GH_LONGPRESS_def GH_TWODRAG_def
  GH_PINCH_def GH_INITSTATE_def GH_MULTITOUCH_TIMEOUT_def GH_TAP_TIMEOUT_def

record touch =
  tc_id :: int
  tc_started :: int
  tc_active :: bool
  tc_firstX :: rat
  tc_firstY :: rat
  tc_lastX :: rat
  tc_lastY :: rat
  tc_angle :: rat

datatype gesture = OneTap | TwoTap | ThreeTap | Drag | LongPress | TwoDrag | Pinch
datatype gesture_type = GestureStart | GestureMove | GestureEnd

record gesture_event =
  gv_type :: gesture_type
  gv_gesture :: gesture
  gv_x :: rat
  gv_y :: rat
  gv_magnitude :: "(rat \<times> rat) option"

record gesture_handler =
  gh_target :: bool                \<comment> \<open>attached\<close>
  gh_state :: int
  gh_tracked :: "touch list"
  gh_ignored :: "int list"
  gh_waitingRelease :: bool
  gh_releaseStart :: int
  gh_longpress :: bool             \<comment> \<open>timer pending\<close>
  gh_twoTouchTimeoutId :: bool     \<comment> \<open>not null\<close>
  gh_twoTouch :: bool              \<comment> \<open>timer pending\<close>
  gh_events :: "gesture_event list"

type_synonym handled = "gesture_handler \<times> (js_error + unit)"

definition new_GestureHandler :: gesture_handler where
  "new_GestureHandler =
     \<lparr>gh_target = False, gh_state = GH_INITSTATE, gh_tracked = [], gh_ignored = [], gh_waitingRelease = False,
      gh_releaseStart = 0, gh_longpress = False, gh_twoTouchTimeoutId = False, gh_twoTouch = False, gh_events = []\<rparr>"

definition and_then :: "handled \<Rightarrow> (gesture_handler \<Rightarrow> handled) \<Rightarrow> handled" where
  "and_then m f = (case m of (g, Inl e) \<Rightarrow> (g, Inl e) | (g, Inr _) \<Rightarrow> f g)"

section \<open>Timers\<close>

definition startLongpressTimeout :: "gesture_handler \<Rightarrow> gesture_handler" where
  "startLongpressTimeout g = g\<lparr>gh_longpress := True\<rparr>"

definition stopLongpressTimeout :: "gesture_handler \<Rightarrow> gesture_handler" where
  "stopLongpressTimeout g = g\<lparr>gh_longpress := False\<rparr>"

definition startTwoTouchTimeout :: "gesture_handler \<Rightarrow> gesture_handler" where
  "startTwoTouchTimeout g = g\<lparr>gh_twoTouchTimeoutId := True, gh_twoTouch := True\<rparr>"

definition stopTwoTouchTimeout :: "gesture_handler \<Rightarrow> gesture_handler" where
  "stopTwoTouchTimeout g = g\<lparr>gh_twoTouchTimeoutId := False, gh_twoTouch := False\<rparr>"

text \<open>The identifier, not the timer.\<close>

definition isTwoTouchTimeoutRunning :: "gesture_handler \<Rightarrow> bool" where
  "isTwoTouchTimeoutRunning g = gh_twoTouchTimeoutId g"

definition detach :: "gesture_handler \<Rightarrow> gesture_handler" where
  "detach g = (if \<not> gh_target g then g else (stopTwoTouchTimeout (stopLongpressTimeout g))\<lparr>gh_target := False\<rparr>)"

definition attach :: "gesture_handler \<Rightarrow> gesture_handler" where
  "attach g = (detach g)\<lparr>gh_target := True\<rparr>"

section \<open>Recognition\<close>

text \<open>Bits taken out of the state, \<open>state &= ~bits\<close>.\<close>

definition exclude :: "int \<Rightarrow> gesture_handler \<Rightarrow> gesture_handler" where
  "exclude bits g = g\<lparr>gh_state := js_and (gh_state g) (js_not bits)\<rparr>"

definition bits :: "int list \<Rightarrow> int" where
  "bits bs = foldl js_or 0 bs"

definition hasDetectedGesture :: "gesture_handler \<Rightarrow> bool" where
  "hasDetectedGesture g \<longleftrightarrow>
     gh_state g \<noteq> GH_NOGESTURE \<and> js_and (gh_state g) (gh_state g - 1) = 0 \<and>
     \<not> (js_and (gh_state g) (bits [GH_ONETAP, GH_TWOTAP, GH_THREETAP]) \<noteq> 0 \<and> (\<exists>t \<in> set (gh_tracked g). tc_active t))"

definition stateToGesture :: "int \<Rightarrow> gesture option" where
  "stateToGesture s =
     (if s = GH_ONETAP then Some OneTap else if s = GH_TWOTAP then Some TwoTap else if s = GH_THREETAP then Some ThreeTap
      else if s = GH_DRAG then Some Drag else if s = GH_LONGPRESS then Some LongPress
      else if s = GH_TWODRAG then Some TwoDrag else if s = GH_PINCH then Some Pinch else None)"

text \<open>Averages over the tracked touches; without one they are errors.\<close>

definition average :: "(touch \<Rightarrow> rat) \<Rightarrow> touch list \<Rightarrow> rat" where
  "average f ts = sum_list (map f ts) / of_nat (length ts)"

definition getPosition :: "touch list \<Rightarrow> ((rat \<times> rat) \<times> (rat \<times> rat)) option" where
  "getPosition ts =
     (if ts = [] then None
      else Some ((average tc_firstX ts, average tc_firstY ts), (average tc_lastX ts, average tc_lastY ts)))"

definition getAverageMovement :: "touch list \<Rightarrow> (rat \<times> rat) option" where
  "getAverageMovement ts =
     (if ts = [] then None
      else Some (average (\<lambda>t. tc_lastX t - tc_firstX t) ts, average (\<lambda>t. tc_lastY t - tc_firstY t) ts))"

definition getAverageDistance :: "touch list \<Rightarrow> ((rat \<times> rat) \<times> (rat \<times> rat)) option" where
  "getAverageDistance ts =
     (if ts = [] then None
      else (let first = hd ts; last = last ts
            in Some ((\<bar>tc_firstX last - tc_firstX first\<bar>, \<bar>tc_firstY last - tc_firstY first\<bar>),
                     (\<bar>tc_lastX last - tc_lastX first\<bar>, \<bar>tc_lastY last - tc_lastY first\<bar>))))"

text \<open>The event of a gesture; None is an unknown state or no tracked touch.\<close>

definition gesture_event_of :: "int \<Rightarrow> touch list \<Rightarrow> gesture_type \<Rightarrow> gesture_event option" where
  "gesture_event_of state ts type =
     do {
       gesture \<leftarrow> stateToGesture state;
       avg \<leftarrow> getPosition ts;
       distance \<leftarrow> getAverageDistance ts;
       movement \<leftarrow> getAverageMovement ts;
       let pos = (if type = GestureStart then fst avg else snd avg);
       let pos = (if state = GH_TWODRAG \<or> state = GH_PINCH then fst avg else pos);
       Some \<lparr>gv_type = type, gv_gesture = gesture, gv_x = fst pos, gv_y = snd pos,
             gv_magnitude =
               (if state = GH_PINCH then Some (if type = GestureStart then fst distance else snd distance)
                else if state = GH_TWODRAG then Some (if type = GestureStart then (0, 0) else movement)
                else None)\<rparr>
     }"

definition pushEvent :: "gesture_type \<Rightarrow> gesture_handler \<Rightarrow> handled" where
  "pushEvent type g =
     (case gesture_event_of (gh_state g) (gh_tracked g) type of
        None \<Rightarrow> (g, Inl (if stateToGesture (gh_state g) = None then JSError ''Unknown gesture state'' [gh_state g]
                         else JSError ''Failed to get gesture position, no tracked touches'' []))
      | Some ev \<Rightarrow> if gh_target g then (g\<lparr>gh_events := gh_events g @ [ev]\<rparr>, Inr ()) else (g, Inl TypeError))"

section \<open>Touches\<close>

definition touchStart :: "int \<Rightarrow> int \<Rightarrow> rat \<Rightarrow> rat \<Rightarrow> gesture_handler \<Rightarrow> gesture_handler" where
  "touchStart now tid x y g =
     (if hasDetectedGesture g \<or> gh_state g = GH_NOGESTURE then g\<lparr>gh_ignored := gh_ignored g @ [tid]\<rparr>
      else if gh_tracked g \<noteq> [] \<and> now - tc_started (hd (gh_tracked g)) > GH_MULTITOUCH_TIMEOUT
      then g\<lparr>gh_state := GH_NOGESTURE, gh_ignored := gh_ignored g @ [tid]\<rparr>
      else if gh_waitingRelease g then g\<lparr>gh_state := GH_NOGESTURE, gh_ignored := gh_ignored g @ [tid]\<rparr>
      else
        (let g = g\<lparr>gh_tracked := gh_tracked g @ [\<lparr>tc_id = tid, tc_started = now, tc_active = True, tc_firstX = x, tc_firstY = y,
                     tc_lastX = x, tc_lastY = y, tc_angle = 0\<rparr>]\<rparr>;
             n = length (gh_tracked g)
         in if n = 1 then startLongpressTimeout g
            else if n = 2 then stopLongpressTimeout (exclude (bits [GH_ONETAP, GH_DRAG, GH_LONGPRESS]) g)
            else if n = 3 then exclude (bits [GH_TWOTAP, GH_TWODRAG, GH_PINCH]) g
            else g\<lparr>gh_state := GH_NOGESTURE\<rparr>))"

definition rat_rem :: "rat \<Rightarrow> rat \<Rightarrow> rat" where
  "rat_rem x y = x - y * of_int (if x / y \<ge> 0 then \<lfloor>x / y\<rfloor> else \<lceil>x / y\<rceil>)"

definition delta_angle :: "rat \<Rightarrow> rat \<Rightarrow> rat" where
  "delta_angle a b = \<bar>rat_rem (\<bar>a - b\<bar> + 180) 360 - 180\<bar>"

definition move_touch :: "js_math \<Rightarrow> rat \<Rightarrow> rat \<Rightarrow> touch \<Rightarrow> touch" where
  "move_touch m x y t =
     (let t = t\<lparr>tc_lastX := x, tc_lastY := y\<rparr>
      in if tc_firstX t \<noteq> x \<or> tc_firstY t \<noteq> y
         then t\<lparr>tc_angle := jm_degrees m (y - tc_firstY t) (x - tc_firstX t)\<rparr> else t)"

text \<open>The first tracked touch with the identifier, where \<open>find\<close> looks for it.\<close>

fun update_touch :: "(touch \<Rightarrow> touch) \<Rightarrow> int \<Rightarrow> touch list \<Rightarrow> touch list" where
  "update_touch f tid [] = []"
| "update_touch f tid (t # ts) = (if tc_id t = tid then f t # ts else t # update_touch f tid ts)"

text \<open>Two fingers have moved: \<open>touch\<close> far enough, \<open>prev\<close> perhaps.\<close>

definition decide_two :: "js_math \<Rightarrow> touch \<Rightarrow> touch \<Rightarrow> gesture_handler \<Rightarrow> gesture_handler" where
  "decide_two m touch prev g =
     (if jm_hypot m (tc_firstX prev - tc_lastX prev) (tc_firstY prev - tc_lastY prev) > GH_MOVE_THRESHOLD
      then (let g = (if delta_angle (tc_angle touch) (tc_angle prev) > GH_ANGLE_THRESHOLD then exclude GH_TWODRAG g
                     else exclude GH_PINCH g)
            in if isTwoTouchTimeoutRunning g then stopTwoTouchTimeout g else g)
      else if \<not> isTwoTouchTimeoutRunning g then startTwoTouchTimeout g
      else g)"

text \<open>The gestures that a touch moving far leaves possible.\<close>

definition exclude_still :: "gesture_handler \<Rightarrow> gesture_handler" where
  "exclude_still g =
     (let g = stopLongpressTimeout (exclude (bits [GH_ONETAP, GH_TWOTAP, GH_THREETAP, GH_LONGPRESS]) g);
          g = (if length (gh_tracked g) \<noteq> 1 then exclude GH_DRAG g else g)
      in if length (gh_tracked g) \<noteq> 2 then exclude (bits [GH_TWODRAG, GH_PINCH]) g else g)"

definition push_move :: "gesture_handler \<Rightarrow> handled" where
  "push_move g =
     (if \<not> hasDetectedGesture g then (g, Inr ()) else and_then (pushEvent GestureStart g) (pushEvent GestureMove))"

definition far_move :: "js_math \<Rightarrow> touch \<Rightarrow> gesture_handler \<Rightarrow> handled" where
  "far_move m touch g =
     (let g = exclude_still g in
      if length (gh_tracked g) = 2
      then (case find (\<lambda>t. tc_id t \<noteq> tc_id touch) (gh_tracked g) of
              None \<Rightarrow> (g, Inl TypeError)
            | Some prev \<Rightarrow> push_move (decide_two m touch prev g))
      else push_move g)"

definition touchMove :: "js_math \<Rightarrow> int \<Rightarrow> rat \<Rightarrow> rat \<Rightarrow> gesture_handler \<Rightarrow> handled" where
  "touchMove m tid x y g =
     (case find (\<lambda>t. tc_id t = tid) (gh_tracked g) of
        None \<Rightarrow> (g, Inr ())
      | Some t \<Rightarrow>
          (let touch = move_touch m x y t;
               g = g\<lparr>gh_tracked := update_touch (move_touch m x y) tid (gh_tracked g)\<rparr>
           in if hasDetectedGesture g then pushEvent GestureMove g
              else if jm_hypot m (x - tc_firstX t) (y - tc_firstY t) < GH_MOVE_THRESHOLD then (g, Inr ())
              else far_move m touch g))"

text \<open>The end of a gesture: the touches left are ignored until they end too.\<close>

definition forget_touches :: "int \<Rightarrow> gesture_handler \<Rightarrow> gesture_handler" where
  "forget_touches tid g =
     (let ignored = remove1 tid (gh_ignored g @ map tc_id (filter tc_active (gh_tracked g)));
          g = g\<lparr>gh_ignored := ignored, gh_tracked := [], gh_state := GH_NOGESTURE\<rparr>
      in if ignored = [] then g\<lparr>gh_state := GH_INITSTATE, gh_waitingRelease := False\<rparr> else g)"

definition end_unrecognised :: "int \<Rightarrow> gesture_handler \<Rightarrow> gesture_handler" where
  "end_unrecognised now g =
     (let g = stopLongpressTimeout (exclude GH_LONGPRESS (exclude (bits [GH_DRAG, GH_TWODRAG, GH_PINCH]) g))
      in if gh_waitingRelease g then g
         else (let g = g\<lparr>gh_releaseStart := now, gh_waitingRelease := True\<rparr>
               in if length (gh_tracked g) = 1 then exclude (bits [GH_TWOTAP, GH_THREETAP]) g
                  else if length (gh_tracked g) = 2 then exclude (bits [GH_ONETAP, GH_THREETAP]) g
                  else g))"

definition too_late :: "int \<Rightarrow> gesture_handler \<Rightarrow> bool" where
  "too_late now g \<longleftrightarrow> now - gh_releaseStart g > GH_MULTITOUCH_TIMEOUT \<or> (\<exists>t \<in> set (gh_tracked g). now - tc_started t > GH_TAP_TIMEOUT)"

definition end_gesture :: "int \<Rightarrow> gesture_handler \<Rightarrow> handled" where
  "end_gesture tid g =
     and_then (if hasDetectedGesture g then pushEvent GestureEnd g else (g, Inr ())) (\<lambda>g. (forget_touches tid g, Inr ()))"

text \<open>While all touches are released, perhaps a tap.\<close>

definition release_touch :: "int \<Rightarrow> int \<Rightarrow> gesture_handler \<Rightarrow> handled" where
  "release_touch now tid g =
     (let g = (if too_late now g then g\<lparr>gh_state := GH_NOGESTURE\<rparr> else g)
      in if find (\<lambda>t. tc_id t = tid) (gh_tracked g) = None then (g, Inl TypeError)
         else (let g = g\<lparr>gh_tracked := update_touch (tc_active_update (\<lambda>_. False)) tid (gh_tracked g)\<rparr>
               in if hasDetectedGesture g then and_then (pushEvent GestureStart g) (end_gesture tid)
                  else if gh_state g \<noteq> GH_NOGESTURE then (g, Inr ())
                  else end_gesture tid g))"

definition stop_detection :: "int \<Rightarrow> gesture_handler \<Rightarrow> gesture_handler" where
  "stop_detection now g =
     (let g = (if \<not> hasDetectedGesture g \<and> isTwoTouchTimeoutRunning g
               then (stopTwoTouchTimeout g)\<lparr>gh_state := GH_NOGESTURE\<rparr> else g)
      in if \<not> hasDetectedGesture g then end_unrecognised now g else g)"

definition touchEnd :: "int \<Rightarrow> int \<Rightarrow> gesture_handler \<Rightarrow> handled" where
  "touchEnd now tid g =
     (if tid \<in> set (gh_ignored g)
      then (let g = g\<lparr>gh_ignored := remove1 tid (gh_ignored g)\<rparr>
            in (if gh_ignored g = [] \<and> gh_tracked g = [] then g\<lparr>gh_state := GH_INITSTATE, gh_waitingRelease := False\<rparr> else g, Inr ()))
      else (let g = stop_detection now g
            in if gh_waitingRelease g then release_touch now tid g else end_gesture tid g))"

section \<open>Timers firing\<close>

definition longpressTimeout :: "gesture_handler \<Rightarrow> handled" where
  "longpressTimeout g =
     (let g = g\<lparr>gh_longpress := False\<rparr>
      in if hasDetectedGesture g then (g, Inl (JSError ''A longpress gesture failed, conflict with a different gesture'' []))
         else pushEvent GestureStart (g\<lparr>gh_state := GH_LONGPRESS\<rparr>))"

text \<open>The identifier of the timer stays set.\<close>

definition twoTouchTimeout :: "js_math \<Rightarrow> gesture_handler \<Rightarrow> handled" where
  "twoTouchTimeout m g =
     (let g = g\<lparr>gh_twoTouch := False\<rparr>
      in case (getAverageMovement (gh_tracked g), getAverageDistance (gh_tracked g)) of
           (Some avgM, Some avgD) \<Rightarrow>
             (let deltaTouchDistance = \<bar>jm_hypot m (fst (fst avgD)) (snd (fst avgD)) - jm_hypot m (fst (snd avgD)) (snd (snd avgD))\<bar>;
                  state = (if \<bar>snd avgM\<bar> < deltaTouchDistance \<and> \<bar>fst avgM\<bar> < deltaTouchDistance then GH_PINCH else GH_TWODRAG)
              in and_then (pushEvent GestureStart (g\<lparr>gh_state := state\<rparr>)) (pushEvent GestureMove))
         | _ \<Rightarrow> (g, Inl (JSError ''A pinch or two drag gesture failed, no tracked touches'' [])))"

section \<open>Events of the browser\<close>

datatype touch_kind = TouchStart | TouchMove | TouchEnd | TouchCancel

definition touch_handler :: "js_math \<Rightarrow> int \<Rightarrow> touch_kind \<Rightarrow> int \<times> rat \<times> rat \<Rightarrow> gesture_handler \<Rightarrow> handled" where
  "touch_handler m now kind changed g =
     (case changed of (tid, x, y) \<Rightarrow>
        (case kind of
           TouchStart \<Rightarrow> (touchStart now tid x y g, Inr ())
         | TouchMove \<Rightarrow> touchMove m tid x y g
         | _ \<Rightarrow> touchEnd now tid g))"

fun eventHandler :: "js_math \<Rightarrow> int \<Rightarrow> touch_kind \<Rightarrow> (int \<times> rat \<times> rat) list \<Rightarrow> gesture_handler \<Rightarrow> handled" where
  "eventHandler m now kind [] g = (g, Inr ())"
| "eventHandler m now kind (c # changedTouches) g =
     and_then (touch_handler m now kind c g) (eventHandler m now kind changedTouches)"


end
