(* ===== verification/Gesture_Fingers.thy ===== *)
theory Gesture_Fingers
  imports Gestures
begin

text \<open>
  What the gesture handler keeps track of: the fingers that are down, the timers, and the drags and long presses that have
  started and not ended. No event of the browser makes it throw.
\<close>

section \<open>Which fingers are down\<close>

definition active_ids :: "touch list \<Rightarrow> int list" where
  "active_ids ts = map tc_id (filter tc_active ts)"

definition down :: "gesture_handler \<Rightarrow> int set" where
  "down g = set (active_ids (gh_tracked g)) \<union> set (gh_ignored g)"

datatype gh_event =
    GTouch int touch_kind int rat rat      \<comment> \<open>one changed touch\<close>
  | GLongpress
  | GTwoTouch
  | GDetach

definition gh_possible :: "gesture_handler \<Rightarrow> gh_event \<Rightarrow> bool" where
  "gh_possible g ev =
     (case ev of
        GTouch now kind tid x y \<Rightarrow> gh_target g \<and> (if kind = TouchStart then tid \<notin> down g else tid \<in> down g)
      | GLongpress \<Rightarrow> gh_longpress g
      | GTwoTouch \<Rightarrow> gh_twoTouch g
      | GDetach \<Rightarrow> True)"

definition gh_step :: "js_math \<Rightarrow> gesture_handler \<Rightarrow> gh_event \<Rightarrow> handled" where
  "gh_step m g ev =
     (case ev of
        GTouch now kind tid x y \<Rightarrow> eventHandler m now kind [(tid, x, y)] g
      | GLongpress \<Rightarrow> longpressTimeout g
      | GTwoTouch \<Rightarrow> twoTouchTimeout m g
      | GDetach \<Rightarrow> (detach g, Inr ()))"

text \<open>
  What the events say of drags and long presses, the gestures that hold a button: each starts when none is held, and until
  it ends there are only its moves.
\<close>

datatype held = Free | Holds gesture | Broken

fun holds :: "held \<Rightarrow> gesture_event \<Rightarrow> held" where
  "holds h ev =
     (if gv_gesture ev = Drag \<or> gv_gesture ev = LongPress
      then (case gv_type ev of
              GestureStart \<Rightarrow> if h = Free then Holds (gv_gesture ev) else Broken
            | GestureMove \<Rightarrow> if h = Holds (gv_gesture ev) then h else Broken
            | GestureEnd \<Rightarrow> if h = Holds (gv_gesture ev) then Free else Broken)
      else if h = Free then Free else Broken)"

definition holding :: "gesture_event list \<Rightarrow> held" where
  "holding evs = foldl holds Free evs"

lemma holding_simps [simp]: "holding [] = Free" "holding (evs @ [ev]) = holds (holding evs) ev"
  by (simp_all add: holding_def)

section \<open>The invariant\<close>

definition shape :: "int \<Rightarrow> nat \<Rightarrow> bool \<Rightarrow> bool" where
  "shape s n waiting \<longleftrightarrow>
     (if s = 127 then n \<le> 1 \<and> \<not> waiting else if s = 102 \<or> s = 96 then n = 2 \<and> \<not> waiting else if s = 2 then n = 2 \<and> waiting
      else if s = 4 then n = 3 else if s = 8 \<or> s = 16 then n = 1 \<and> \<not> waiting else if s = 32 \<or> s = 64 then n \<ge> 2 else s = 0)"

definition held_gesture :: "int \<Rightarrow> held" where
  "held_gesture s = (if s = 8 then Holds Drag else if s = 16 then Holds LongPress else Free)"

definition timers_ok :: "gesture_handler \<Rightarrow> bool" where
  "timers_ok g \<longleftrightarrow>
     (gh_longpress g \<longrightarrow> length (gh_tracked g) = 1 \<and> (gh_state g = 127 \<or> gh_state g = 0) \<and> \<not> gh_waitingRelease g \<and> gh_target g) \<and>
     (gh_twoTouch g \<longrightarrow> length (gh_tracked g) \<ge> 2 \<and> (gh_state g = 96 \<or> gh_state g = 0) \<and> gh_twoTouchTimeoutId g \<and> gh_target g)"

definition fingers_ok :: "gesture_handler \<Rightarrow> bool" where
  "fingers_ok g \<longleftrightarrow> distinct (active_ids (gh_tracked g) @ gh_ignored g) \<and> distinct (map tc_id (gh_tracked g)) \<and>
     (gh_tracked g \<noteq> [] \<longrightarrow> active_ids (gh_tracked g) \<noteq> []) \<and> (\<not> gh_waitingRelease g \<longrightarrow> (\<forall>t \<in> set (gh_tracked g). tc_active t)) \<and>
     (gh_tracked g = [] \<longrightarrow> (gh_ignored g = [] \<longleftrightarrow> gh_state g = 127))"

definition gh_ok :: "gesture_handler \<Rightarrow> bool" where
  "gh_ok g \<longleftrightarrow> shape (gh_state g) (length (gh_tracked g)) (gh_waitingRelease g) \<and> timers_ok g \<and> fingers_ok g \<and>
     holding (gh_events g) = held_gesture (gh_state g)"

lemmas bit_evals = js_and_def js_or_def js_not_def ToInt32_def bits_def gh_consts

lemma detected:
  assumes "shape (gh_state g) n w"
  shows "hasDetectedGesture g \<longleftrightarrow>
    gh_state g \<in> {8, 16, 32, 64} \<or> gh_state g \<in> {2, 4} \<and> active_ids (gh_tracked g) = []"
  using assms by (auto simp: shape_def hasDetectedGesture_def bit_evals active_ids_def filter_empty_conv split: if_splits)

lemma gesture_event_exists:
  "ts \<noteq> [] \<Longrightarrow> stateToGesture s = Some ges \<Longrightarrow>
     \<exists>ev. gesture_event_of s ts type = Some ev \<and> gv_type ev = type \<and> gv_gesture ev = ges"
  by (simp add: gesture_event_of_def getPosition_def getAverageDistance_def getAverageMovement_def Let_def)

lemma pushEvent_ok:
  assumes "stateToGesture (gh_state g) = Some ges" and "gh_tracked g \<noteq> []" and "gh_target g"
  obtains ev where "gv_type ev = type" "gv_gesture ev = ges" "pushEvent type g = (g\<lparr>gh_events := gh_events g @ [ev]\<rparr>, Inr ())"
  using gesture_event_exists [OF assms(2,1), of type] assms(3) by (auto simp: pushEvent_def)

lemma ok_new: "gh_ok (attach new_GestureHandler)"
  by (simp add: gh_ok_def attach_def detach_def new_GestureHandler_def shape_def timers_ok_def fingers_ok_def active_ids_def
      held_gesture_def gh_consts)

lemma active_simps [simp]:
  "active_ids [] = []" "active_ids (ts @ [t]) = active_ids ts @ (if tc_active t then [tc_id t] else [])"
  "active_ids (t # ts) = (if tc_active t then tc_id t # active_ids ts else active_ids ts)"
  by (simp_all add: active_ids_def)

lemma masks:
  "js_and 127 (js_not (bits [GH_ONETAP, GH_DRAG, GH_LONGPRESS])) = 102"
  "js_and 102 (js_not (bits [GH_TWOTAP, GH_TWODRAG, GH_PINCH])) = 4"
  "js_and 96 (js_not (bits [GH_TWOTAP, GH_TWODRAG, GH_PINCH])) = 0"
  "js_and 127 (js_not (bits [GH_ONETAP, GH_TWOTAP, GH_THREETAP, GH_LONGPRESS])) = 104"
  "js_and 102 (js_not (bits [GH_ONETAP, GH_TWOTAP, GH_THREETAP, GH_LONGPRESS])) = 96"
  "js_and 96 (js_not (bits [GH_ONETAP, GH_TWOTAP, GH_THREETAP, GH_LONGPRESS])) = 96"
  "js_and 2 (js_not (bits [GH_ONETAP, GH_TWOTAP, GH_THREETAP, GH_LONGPRESS])) = 0"
  "js_and 4 (js_not (bits [GH_ONETAP, GH_TWOTAP, GH_THREETAP, GH_LONGPRESS])) = 0"
  "js_and 96 (js_not GH_DRAG) = 96" "js_and 104 (js_not (bits [GH_TWODRAG, GH_PINCH])) = 8"
  "js_and 96 (js_not GH_TWODRAG) = 64" "js_and 96 (js_not GH_PINCH) = 32"
  "js_and 127 (js_not (bits [GH_DRAG, GH_TWODRAG, GH_PINCH])) = 23" "js_and 102 (js_not (bits [GH_DRAG, GH_TWODRAG, GH_PINCH])) = 6"
  "js_and 96 (js_not (bits [GH_DRAG, GH_TWODRAG, GH_PINCH])) = 0" "js_and 2 (js_not (bits [GH_DRAG, GH_TWODRAG, GH_PINCH])) = 2"
  "js_and 4 (js_not (bits [GH_DRAG, GH_TWODRAG, GH_PINCH])) = 4"
  "js_and 23 (js_not GH_LONGPRESS) = 7" "js_and 6 (js_not GH_LONGPRESS) = 6" "js_and 2 (js_not GH_LONGPRESS) = 2"
  "js_and 4 (js_not GH_LONGPRESS) = 4" "js_and 7 (js_not (bits [GH_TWOTAP, GH_THREETAP])) = 1"
  "js_and 6 (js_not (bits [GH_ONETAP, GH_THREETAP])) = 2"
  by (simp_all add: bit_evals)

lemma mask_zero: "js_and 0 x = 0"
  by (simp add: js_and_def ToInt32_def)

lemma ok_simps:
  "gh_ok g \<Longrightarrow> hasDetectedGesture g \<longleftrightarrow>
    gh_state g \<in> {8, 16, 32, 64} \<or> gh_state g \<in> {2, 4} \<and> active_ids (gh_tracked g) = []"
  unfolding gh_ok_def using detected by blast

text \<open>A finger that is ignored.\<close>

lemma ignored_down: "down (g\<lparr>gh_state := s, gh_ignored := gh_ignored g @ [tid]\<rparr>) = insert tid (down g)"
  by (auto simp: down_def)

lemma ignored_ok:
  assumes ok: "gh_ok g" and new: "tid \<notin> down g"
    and s: "s = gh_state g \<and> s \<noteq> 127 \<or> s = 0 \<and> gh_state g \<notin> {8, 16} \<and> (gh_tracked g \<noteq> [] \<or> gh_state g \<noteq> 127)"
  shows "gh_ok (g\<lparr>gh_state := s, gh_ignored := gh_ignored g @ [tid]\<rparr>)" (is "gh_ok ?g")
  unfolding gh_ok_def
proof (intro conjI)
  show "shape (gh_state ?g) (length (gh_tracked ?g)) (gh_waitingRelease ?g)"
    using ok s by (auto simp: gh_ok_def shape_def)
  show "timers_ok ?g" using ok s by (auto simp: gh_ok_def timers_ok_def)
  have "s \<noteq> 127" "gh_tracked g = [] \<Longrightarrow> gh_state g \<noteq> 127" using s by auto
  then show "fingers_ok ?g" using ok new by (simp add: gh_ok_def fingers_ok_def down_def)
  show "holding (gh_events ?g) = held_gesture (gh_state ?g)" using ok s by (auto simp: gh_ok_def held_gesture_def)
qed

lemma tracked_down:
  "tc_active t \<Longrightarrow> tc_id t = tid \<Longrightarrow>
     down (g\<lparr>gh_state := s, gh_tracked := gh_tracked g @ [t], gh_longpress := lp\<rparr>) = insert tid (down g)"
  by (auto simp: down_def)

lemma tracked_ok:
  assumes ok: "gh_ok g" and new: "tid \<notin> down g" and t: "tc_active t" "tc_id t = tid" and w: "\<not> gh_waitingRelease g" and "gh_target g"
    and s: "gh_tracked g = [] \<and> gh_state g = 127 \<and> s = 127 \<and> lp = True \<or>
      gh_tracked g \<noteq> [] \<and> (s = 0 \<and> gh_state g \<notin> {8, 16} \<or> s = 102 \<and> gh_state g = 127 \<or> s = 4 \<and> gh_state g = 102) \<and> lp = False"
    and two: "gh_twoTouch g \<longrightarrow> s = 0"
  shows "gh_ok (g\<lparr>gh_state := s, gh_tracked := gh_tracked g @ [t], gh_longpress := lp\<rparr>)" (is "gh_ok ?g")
  unfolding gh_ok_def
proof (intro conjI)
  have ids: "map tc_id (gh_tracked g) = active_ids (gh_tracked g)"
    using ok w by (simp add: gh_ok_def fingers_ok_def active_ids_def)
  have n: "gh_state g = 127 \<Longrightarrow> gh_tracked g \<noteq> [] \<Longrightarrow> length (gh_tracked g) = 1"
    using ok by (cases "gh_tracked g") (simp_all add: gh_ok_def shape_def)
  show "shape (gh_state ?g) (length (gh_tracked ?g)) (gh_waitingRelease ?g)"
    using ok s w n by (elim disjE conjE) (simp_all add: gh_ok_def shape_def)
  show "timers_ok ?g" using ok s w two \<open>gh_target g\<close> by (elim disjE conjE) (auto simp: gh_ok_def timers_ok_def)
  show "fingers_ok ?g" using ok s new ids t by (elim disjE conjE) (auto simp: gh_ok_def fingers_ok_def down_def)
  show "holding (gh_events ?g) = held_gesture (gh_state ?g)" using ok s by (elim disjE conjE) (auto simp: gh_ok_def held_gesture_def)
qed

lemma touchStart_ok:
  assumes ok: "gh_ok g" and new: "tid \<notin> down g" and "gh_target g"
  shows "gh_ok (touchStart now tid x y g) \<and> down (touchStart now tid x y g) = insert tid (down g)"
proof (cases "hasDetectedGesture g \<or> gh_state g = 0")
  case True
  then have "gh_state g \<noteq> 127" using ok by (auto simp: ok_simps)
  then show ?thesis
    using True ignored_ok [OF ok new, of "gh_state g"] ignored_down [of g tid "gh_state g"] by (simp add: touchStart_def gh_consts)
next
  case False
  then have s: "gh_state g \<notin> {0, 8, 16, 32, 64}" using ok by (auto simp: ok_simps)
  show ?thesis
  proof (cases "gh_tracked g \<noteq> [] \<and> now - tc_started (hd (gh_tracked g)) > GH_MULTITOUCH_TIMEOUT \<or> gh_waitingRelease g")
    case True
    have "gh_waitingRelease g \<Longrightarrow> gh_state g \<noteq> 127" using ok by (auto simp: gh_ok_def shape_def)
    then show ?thesis
      using True False s ignored_ok [OF ok new, of 0] ignored_down [of g tid 0] by (auto simp: touchStart_def gh_consts)
  next
    case w: False
    let ?t = "\<lparr>tc_id = tid, tc_started = now, tc_active = True, tc_firstX = x, tc_firstY = y, tc_lastX = x, tc_lastY = y, tc_angle = 0\<rparr>"
    note facts = tracked_ok [OF ok new, of ?t] tracked_down [where t = ?t and tid = tid and g = g]
    have two: "gh_twoTouch g \<Longrightarrow> gh_state g = 96 \<or> gh_state g = 0" and lp: "length (gh_tracked g) \<noteq> 1 \<Longrightarrow> \<not> gh_longpress g"
      using ok by (auto simp: gh_ok_def timers_ok_def)
    have start: "touchStart now tid x y g =
      (let g = g\<lparr>gh_tracked := gh_tracked g @ [?t]\<rparr>; n = length (gh_tracked g)
       in if n = 1 then startLongpressTimeout g
          else if n = 2 then stopLongpressTimeout (exclude (bits [GH_ONETAP, GH_DRAG, GH_LONGPRESS]) g)
          else if n = 3 then exclude (bits [GH_TWOTAP, GH_TWODRAG, GH_PINCH]) g
          else g\<lparr>gh_state := GH_NOGESTURE\<rparr>)"
      using False w by (auto simp: touchStart_def gh_consts)
    have sh: "shape (gh_state g) (length (gh_tracked g)) False" using ok w by (simp add: gh_ok_def)
    with s consider "gh_state g = 127" "gh_tracked g = []" | "gh_state g = 127" "length (gh_tracked g) = 1"
      | "gh_state g = 102" "length (gh_tracked g) = 2" | "gh_state g = 96" "length (gh_tracked g) = 2" | "gh_state g = 4" "length (gh_tracked g) = 3"
      by (cases "gh_tracked g"; cases "tl (gh_tracked g)") (auto simp: shape_def split: if_splits)
    then show ?thesis
    proof cases
      case 1
      then have tracked: "touchStart now tid x y g = g\<lparr>gh_state := gh_state g, gh_tracked := gh_tracked g @ [?t], gh_longpress := True\<rparr>"
        by (simp add: start startLongpressTimeout_def)
      show ?thesis
        unfolding tracked by (intro conjI facts) (use 1 w two lp \<open>gh_target g\<close> in auto)
    next
      case 2
      then have tracked: "touchStart now tid x y g = g\<lparr>gh_state := 102, gh_tracked := gh_tracked g @ [?t], gh_longpress := False\<rparr>"
        by (simp add: start stopLongpressTimeout_def exclude_def masks)
      show ?thesis
        unfolding tracked by (intro conjI facts) (use 2 w two lp \<open>gh_target g\<close> in auto)
    next
      case 3
      then have tracked: "touchStart now tid x y g = g\<lparr>gh_state := 4, gh_tracked := gh_tracked g @ [?t], gh_longpress := gh_longpress g\<rparr>"
        by (simp add: start exclude_def masks)
      show ?thesis
        unfolding tracked by (intro conjI facts) (use 3 w two lp \<open>gh_target g\<close> in auto)
    next
      case 4
      then have tracked: "touchStart now tid x y g = g\<lparr>gh_state := 0, gh_tracked := gh_tracked g @ [?t], gh_longpress := gh_longpress g\<rparr>"
        by (simp add: start exclude_def masks)
      show ?thesis
        unfolding tracked by (intro conjI facts) (use 4 w two lp \<open>gh_target g\<close> in auto)
    next
      case 5
      then have tracked: "touchStart now tid x y g = g\<lparr>gh_state := 0, gh_tracked := gh_tracked g @ [?t], gh_longpress := gh_longpress g\<rparr>"
        by (simp add: start gh_consts)
      show ?thesis
        unfolding tracked by (intro conjI facts) (use 5 w two lp \<open>gh_target g\<close> in auto)
    qed
  qed
qed


section \<open>Moves and ends\<close>

lemma find_update:
  "find (\<lambda>t. tc_id t = tid) ts = Some t \<Longrightarrow> (\<And>t. tc_id (f t) = tc_id t) \<Longrightarrow>
     map tc_id (update_touch f tid ts) = map tc_id ts \<and> find (\<lambda>t. tc_id t = tid) (update_touch f tid ts) = Some (f t)"
  by (induction ts) auto

lemma move_touch_fields [simp]:
  "tc_id (move_touch m x y t) = tc_id t" "tc_active (move_touch m x y t) = tc_active t" "tc_started (move_touch m x y t) = tc_started t"
  by (simp_all add: move_touch_def Let_def)

lemma moved_touches [simp]:
  "length (update_touch f tid ts) = length ts" "update_touch f tid ts = [] \<longleftrightarrow> ts = []"
  "map tc_id (update_touch (move_touch m x y) tid ts) = map tc_id ts"
  "active_ids (update_touch (move_touch m x y) tid ts) = active_ids ts"
  "(\<forall>t \<in> set (update_touch (move_touch m x y) tid ts). tc_active t) \<longleftrightarrow> (\<forall>t \<in> set ts. tc_active t)"
  by (induction ts) auto

lemma moved_ok:
  "gh_ok g \<Longrightarrow> gh_ok (g\<lparr>gh_tracked := update_touch (move_touch m x y) tid (gh_tracked g)\<rparr>)"
  by (simp add: gh_ok_def timers_ok_def fingers_ok_def)

lemma other_finger:
  assumes "distinct (map tc_id ts)" and "length ts = 2" and "find (\<lambda>t. tc_id t = tid) ts = Some t"
  shows "\<exists>p. find (\<lambda>t. tc_id t \<noteq> tid) ts = Some p"
  using assms by (cases ts; cases "tl ts") (auto split: if_splits)

text \<open>Events of a gesture that is being recognised keep the invariant.\<close>

lemma holds_move:
  "stateToGesture s = Some (gv_gesture ev) \<Longrightarrow> gv_type ev = GestureMove \<Longrightarrow> holds (held_gesture s) ev = held_gesture s"
  by (auto simp: stateToGesture_def held_gesture_def gh_consts split: if_splits)

lemma logged_ok:
  assumes "gh_ok g" and "gv_gesture ev = ges" and "stateToGesture (gh_state g) = Some ges" and "gv_type ev = GestureMove"
  shows "gh_ok (g\<lparr>gh_events := gh_events g @ [ev]\<rparr>)"
  using assms holds_move [of "gh_state g" ev] by (simp add: gh_ok_def timers_ok_def fingers_ok_def del: holds.simps)

text \<open>What a handler does when it succeeds: the invariant and the fingers are kept.\<close>

definition fine :: "gesture_handler \<Rightarrow> handled \<Rightarrow> bool" where
  "fine g r \<longleftrightarrow> snd r = Inr () \<and> gh_ok (fst r) \<and> down (fst r) = down g \<and> gh_target (fst r)"

lemma move_event:
  assumes "gh_ok g" and "gh_tracked g \<noteq> []" and "gh_target g" and "gh_state g \<in> {8, 16, 32, 64}"
  shows "fine g (pushEvent GestureMove g)"
proof -
  obtain ges where ges: "stateToGesture (gh_state g) = Some ges" using assms(4) by (auto simp: stateToGesture_def gh_consts)
  obtain ev where "gv_type ev = GestureMove" "gv_gesture ev = ges"
    "pushEvent GestureMove g = (g\<lparr>gh_events := gh_events g @ [ev]\<rparr>, Inr ())"
    using pushEvent_ok [OF ges assms(2,3)] by blast
  then show ?thesis using logged_ok [OF assms(1) _ ges] assms(3) by (simp add: down_def fine_def)
qed

text \<open>A gesture starts: its state is set, with no gesture held before.\<close>

definition startable :: "gesture_handler \<Rightarrow> bool" where
  "startable g \<longleftrightarrow>
     fingers_ok g \<and> gh_tracked g \<noteq> [] \<and> gh_target g \<and> holding (gh_events g) = Free \<and> \<not> gh_longpress g \<and> \<not> gh_twoTouch g \<and>
     (gh_state g \<in> {8, 16} \<and> length (gh_tracked g) = 1 \<and> \<not> gh_waitingRelease g \<or> gh_state g \<in> {32, 64} \<and> length (gh_tracked g) \<ge> 2)"

lemma start_event:
  assumes "startable g"
  shows "snd (pushEvent GestureStart g) = Inr () \<and> gh_ok (fst (pushEvent GestureStart g)) \<and> down (fst (pushEvent GestureStart g)) = down g \<and>
    gh_state (fst (pushEvent GestureStart g)) = gh_state g \<and> gh_tracked (fst (pushEvent GestureStart g)) = gh_tracked g \<and>
    gh_target (fst (pushEvent GestureStart g))"
proof -
  have g: "gh_state g \<in> {8, 16, 32, 64}" "gh_tracked g \<noteq> []" "gh_target g" using assms by (auto simp: startable_def)
  then obtain ges where ges: "stateToGesture (gh_state g) = Some ges" by (auto simp: stateToGesture_def gh_consts)
  obtain ev where ev: "gv_type ev = GestureStart" "gv_gesture ev = ges"
    "pushEvent GestureStart g = (g\<lparr>gh_events := gh_events g @ [ev]\<rparr>, Inr ())"
    using pushEvent_ok [OF ges g(2,3)] by blast
  have "shape (gh_state g) (length (gh_tracked g)) (gh_waitingRelease g)" using assms by (auto simp: startable_def shape_def)
  moreover have "holds Free ev = held_gesture (gh_state g)"
    using g(1) ges ev by (auto simp: stateToGesture_def held_gesture_def gh_consts)
  ultimately show ?thesis
    using assms ev g by (simp add: gh_ok_def startable_def timers_ok_def fingers_ok_def down_def)
qed

lemma detected_states:
  "gh_state g \<in> {0, 96} \<Longrightarrow> \<not> hasDetectedGesture g"
  "gh_state g \<in> {8, 16, 32, 64} \<Longrightarrow> hasDetectedGesture g"
  by (auto simp: hasDetectedGesture_def bit_evals)

lemma push_move_start:
  assumes "startable g"
  shows "fine g (push_move g)"
proof -
  obtain g' where g': "pushEvent GestureStart g = (g', Inr ())" "gh_ok g'" "down g' = down g" "gh_state g' = gh_state g"
      "gh_tracked g' = gh_tracked g" "gh_target g'"
    using start_event [OF assms] by (cases "pushEvent GestureStart g") auto
  moreover have s: "gh_state g \<in> {8, 16, 32, 64}" "gh_tracked g \<noteq> []" using assms by (auto simp: startable_def)
  ultimately show ?thesis using move_event [of g'] detected_states(2) [OF s(1)] by (simp add: and_then_def push_move_def fine_def)
qed

lemma push_move_quiet: "gh_ok g \<Longrightarrow> gh_target g \<Longrightarrow> gh_state g \<in> {0, 96} \<Longrightarrow> fine g (push_move g)"
  by (simp only: push_move_def detected_states fine_def) simp

lemma quiet_ok:
  assumes ok: "gh_ok g" and "gh_tracked g \<noteq> []" and "gh_target g" and "gh_state g \<notin> {8, 16}"
    and s: "s = 0 \<or> s = 96 \<and> length (gh_tracked g) = 2 \<and> \<not> gh_waitingRelease g"
    and two: "two \<longrightarrow> length (gh_tracked g) \<ge> 2 \<and> tid"
  shows "gh_ok (g\<lparr>gh_state := s, gh_longpress := False, gh_twoTouchTimeoutId := tid, gh_twoTouch := two\<rparr>)" (is "gh_ok ?g")
  unfolding gh_ok_def
proof (intro conjI)
  show "shape (gh_state ?g) (length (gh_tracked ?g)) (gh_waitingRelease ?g)" using s by (auto simp: shape_def)
  show "timers_ok ?g" using s two assms(3) by (auto simp: timers_ok_def)
  show "fingers_ok ?g" using ok assms(2) by (simp add: gh_ok_def fingers_ok_def)
  show "holding (gh_events ?g) = held_gesture (gh_state ?g)" using ok s assms(4) by (auto simp: gh_ok_def held_gesture_def)
qed

lemma start_ok:
  assumes ok: "gh_ok g" and "gh_tracked g \<noteq> []" and "gh_target g" and "gh_state g \<notin> {8, 16}"
    and s: "s \<in> {8, 16} \<and> length (gh_tracked g) = 1 \<and> \<not> gh_waitingRelease g \<or> s \<in> {32, 64} \<and> length (gh_tracked g) \<ge> 2"
  shows "startable (g\<lparr>gh_state := s, gh_longpress := False, gh_twoTouchTimeoutId := tid, gh_twoTouch := False\<rparr>)" (is "startable ?g")
proof -
  have "fingers_ok ?g" using ok assms(2) by (simp add: gh_ok_def fingers_ok_def)
  moreover have "holding (gh_events ?g) = Free" using ok assms(4) by (auto simp: gh_ok_def held_gesture_def)
  ultimately show ?thesis using assms by (auto simp: startable_def)
qed

lemma decide_two_cases:
  assumes "gh_state g = 96 \<or> gh_state g = 0" and "gh_longpress g = False" and "gh_twoTouch g \<longrightarrow> gh_twoTouchTimeoutId g"
  obtains (start) s tid where "s \<in> {32, 64}" "gh_state g = 96"
      "decide_two m t p g = g\<lparr>gh_state := s, gh_longpress := False, gh_twoTouchTimeoutId := tid, gh_twoTouch := False\<rparr>"
    | (quiet) tid two where "two \<longrightarrow> tid"
      "decide_two m t p g = g\<lparr>gh_state := gh_state g, gh_longpress := False, gh_twoTouchTimeoutId := tid, gh_twoTouch := two\<rparr>"
proof (cases "jm_hypot m (tc_firstX p - tc_lastX p) (tc_firstY p - tc_lastY p) > GH_MOVE_THRESHOLD")
  case True
  define s where "s = (if gh_state g = 0 then 0
    else if delta_angle (tc_angle t) (tc_angle p) > GH_ANGLE_THRESHOLD then 64 else 32 :: int)"
  have "decide_two m t p g = g\<lparr>gh_state := s, gh_longpress := False, gh_twoTouchTimeoutId := False, gh_twoTouch := False\<rparr>"
    using True assms by (intro gesture_handler.equality)
      (auto simp: decide_two_def s_def exclude_def masks mask_zero stopTwoTouchTimeout_def isTwoTouchTimeoutRunning_def Let_def)
  moreover have "gh_state g = 96 \<and> s \<in> {32, 64} \<or> s = gh_state g" using assms(1) by (auto simp: s_def)
  ultimately show ?thesis using start quiet [of False False] by blast
next
  case False
  then have "decide_two m t p g = g\<lparr>gh_state := gh_state g, gh_longpress := False, gh_twoTouchTimeoutId := True,
      gh_twoTouch := (if gh_twoTouchTimeoutId g then gh_twoTouch g else True)\<rparr>"
    using assms by (intro gesture_handler.equality)
      (auto simp: decide_two_def startTwoTouchTimeout_def isTwoTouchTimeoutRunning_def)
  then show ?thesis using quiet [of "if gh_twoTouchTimeoutId g then gh_twoTouch g else True" True] by blast
qed

lemma exclude_still_states:
  "gh_state g = 127 \<Longrightarrow> length (gh_tracked g) = 1 \<Longrightarrow> exclude_still g = g\<lparr>gh_state := 8, gh_longpress := False\<rparr>"
  "gh_state g = 102 \<or> gh_state g = 96 \<Longrightarrow> length (gh_tracked g) = 2 \<Longrightarrow>
     exclude_still g = g\<lparr>gh_state := 96, gh_longpress := False\<rparr>"
  "gh_state g = 0 \<or> gh_state g = 2 \<or> gh_state g = 4 \<Longrightarrow> exclude_still g = g\<lparr>gh_state := 0, gh_longpress := False\<rparr>"
  by (auto simp: exclude_still_def stopLongpressTimeout_def exclude_def masks mask_zero Let_def intro!: gesture_handler.equality)

lemma fine_fields: "fine (g\<lparr>gh_state := s, gh_longpress := l, gh_twoTouchTimeoutId := i, gh_twoTouch := t\<rparr>) r \<Longrightarrow> fine g r"
  by (simp add: fine_def down_def)

lemma timers: "gh_ok g \<Longrightarrow> gh_twoTouch g \<Longrightarrow> gh_twoTouchTimeoutId g \<and> length (gh_tracked g) \<ge> 2"
  by (simp add: gh_ok_def timers_ok_def)

lemma settle_two:
  assumes ok: "gh_ok g" and tr: "gh_tracked g \<noteq> []" "gh_target g" and st: "gh_state g \<notin> {8, 16}" and s: "s = 0 \<or> s = 96 \<and> length (gh_tracked g) = 2 \<and> \<not> gh_waitingRelease g"
    and n: "length (gh_tracked g) = 2"
  shows "fine g (push_move (decide_two m t p (g\<lparr>gh_state := s, gh_longpress := False\<rparr>)))"
proof -
  let ?g4 = "g\<lparr>gh_state := s, gh_longpress := False\<rparr>"
  have "gh_state ?g4 = 96 \<or> gh_state ?g4 = 0" "gh_longpress ?g4 = False" "gh_twoTouch ?g4 \<longrightarrow> gh_twoTouchTimeoutId ?g4"
    using timers [OF ok] s by auto
  then show ?thesis
  proof (cases rule: decide_two_cases [where m = m and t = t and p = p])
    case (start s' i)
    let ?g5 = "g\<lparr>gh_state := s', gh_longpress := False, gh_twoTouchTimeoutId := i, gh_twoTouch := False\<rparr>"
    have "startable ?g5" by (intro start_ok [OF ok tr]) (use n start(1) st in auto)
    then show ?thesis using fine_fields [OF push_move_start] start(3) by simp
  next
    case (quiet i two)
    let ?g5 = "g\<lparr>gh_state := s, gh_longpress := False, gh_twoTouchTimeoutId := i, gh_twoTouch := two\<rparr>"
    have "gh_ok ?g5" by (intro quiet_ok [OF ok tr]) (use n quiet(1) st s in auto)
    then have "fine ?g5 (push_move ?g5)" using tr s by (intro push_move_quiet) auto
    then show ?thesis using fine_fields quiet(2) by simp
  qed
qed

lemma far_move_ok:
  assumes ok: "gh_ok g" and t: "find (\<lambda>t. tc_id t = tc_id touch) (gh_tracked g) = Some touch" and target: "gh_target g"
    and un: "\<not> hasDetectedGesture g"
  shows "fine g (far_move m touch g)"
proof -
  have tr: "gh_tracked g \<noteq> []" using t by auto
  have n: "length (gh_tracked g) \<noteq> 0" using tr by simp
  have st: "gh_state g \<notin> {8, 16, 32, 64}" using un ok_simps [OF ok] by simp
  have prev: "length (gh_tracked g) = 2 \<Longrightarrow> \<exists>p. find (\<lambda>t. tc_id t \<noteq> tc_id touch) (gh_tracked g) = Some p"
    using other_finger [OF _ _ t] ok by (simp add: gh_ok_def fingers_ok_def)
  have "shape (gh_state g) (length (gh_tracked g)) (gh_waitingRelease g)" using ok by (simp add: gh_ok_def)
  with st n consider (one) "gh_state g = 127" "length (gh_tracked g) = 1" "\<not> gh_waitingRelease g"
    | (two) "gh_state g = 102 \<or> gh_state g = 96" "length (gh_tracked g) = 2" "\<not> gh_waitingRelease g"
    | (none) "gh_state g = 0 \<or> gh_state g = 2 \<or> gh_state g = 4"
    by (auto simp: shape_def le_Suc_eq split: if_splits)
  then show ?thesis
  proof cases
    case one
    let ?g8 = "g\<lparr>gh_state := 8, gh_longpress := False, gh_twoTouchTimeoutId := gh_twoTouchTimeoutId g, gh_twoTouch := False\<rparr>"
    have "startable ?g8" by (intro start_ok [OF ok tr target]) (use one in auto)
    then have fine: "fine g (push_move ?g8)" using fine_fields push_move_start by blast
    have eq: "?g8 = g\<lparr>gh_state := 8, gh_longpress := False\<rparr>" using timers [OF ok] one by (intro gesture_handler.equality) auto
    show ?thesis using fine one unfolding eq by (simp add: far_move_def exclude_still_states(1))
  next
    case two
    then show ?thesis
      using settle_two [OF ok tr target, of 96] prev by (auto simp: far_move_def exclude_still_states(2))
  next
    case none
    show ?thesis
    proof (cases "length (gh_tracked g) = 2")
      case True
      then show ?thesis
        using none settle_two [OF ok tr target, of 0] prev by (auto simp: far_move_def exclude_still_states(3))
    next
      case False
      let ?g0 = "g\<lparr>gh_state := 0, gh_longpress := False, gh_twoTouchTimeoutId := gh_twoTouchTimeoutId g, gh_twoTouch := gh_twoTouch g\<rparr>"
      have "gh_ok ?g0" by (intro quiet_ok [OF ok tr target]) (use none timers [OF ok] in auto)
      then have "fine ?g0 (push_move ?g0)" using target by (intro push_move_quiet) auto
      then have "fine g (push_move ?g0)" using fine_fields by blast
      then show ?thesis using False none by (simp add: far_move_def exclude_still_states(3))
    qed
  qed
qed

lemma fine_tracked: "fine (g\<lparr>gh_tracked := update_touch (move_touch m x y) tid (gh_tracked g)\<rparr>) r \<Longrightarrow> fine g r"
  by (simp add: fine_def down_def)

lemma touchMove_ok:
  assumes ok: "gh_ok g" and target: "gh_target g"
  shows "fine g (touchMove m tid x y g)"
proof (cases "find (\<lambda>t. tc_id t = tid) (gh_tracked g)")
  case None
  then show ?thesis using ok target by (simp add: touchMove_def fine_def)
next
  case (Some t)
  let ?g = "g\<lparr>gh_tracked := update_touch (move_touch m x y) tid (gh_tracked g)\<rparr>"
  have ok': "gh_ok ?g" using moved_ok [OF ok] .
  have tr: "gh_tracked ?g \<noteq> []" "gh_target ?g" using Some target by auto
  have act: "active_ids (gh_tracked ?g) \<noteq> []" using ok' tr by (simp add: gh_ok_def fingers_ok_def)
  have tid: "tc_id t = tid" using Some by (simp add: find_Some_iff) blast
  have "fine ?g (touchMove m tid x y g)"
  proof (cases "hasDetectedGesture ?g")
    case True
    then have "gh_state ?g \<in> {8, 16, 32, 64}" using ok_simps [OF ok'] act by auto
    then show ?thesis using move_event [OF ok' tr] True Some by (simp add: touchMove_def)
  next
    case False
    moreover have "fine ?g (far_move m (move_touch m x y t) ?g)"
      using far_move_ok [OF ok' _ tr(2) False] find_update [OF Some, of "move_touch m x y"] tid by simp
    ultimately show ?thesis using Some ok' tr by (simp add: touchMove_def fine_def Let_def)
  qed
  then show ?thesis by (rule fine_tracked)
qed

text \<open>A finger is lifted.\<close>

definition lifted :: "int \<Rightarrow> gesture_handler \<Rightarrow> handled \<Rightarrow> bool" where
  "lifted tid g r \<longleftrightarrow> snd r = Inr () \<and> gh_ok (fst r) \<and> down (fst r) = down g - {tid} \<and> gh_target (fst r)"

lemma lifted_ignored:
  assumes ok: "gh_ok g" and tid: "tid \<in> set (gh_ignored g)" and "gh_target g"
  shows "lifted tid g (touchEnd now tid g)"
proof -
  let ?g = "g\<lparr>gh_ignored := remove1 tid (gh_ignored g)\<rparr>"
  have f: "distinct (active_ids (gh_tracked g) @ gh_ignored g)" and f': "fingers_ok g" using ok by (simp_all add: gh_ok_def fingers_ok_def)
  then have dn: "down ?g = down g - {tid}" using tid by (auto simp: down_def)
  have s: "gh_tracked g = [] \<Longrightarrow> gh_state g = 0"
    using ok tid by (auto simp: gh_ok_def fingers_ok_def shape_def split: if_splits)
  have fi: "gh_tracked g \<noteq> [] \<Longrightarrow> fingers_ok ?g" "gh_ignored ?g \<noteq> [] \<Longrightarrow> fingers_ok ?g"
    using f' tid s by (auto simp: fingers_ok_def distinct_remove1 dest: notin_set_remove1)
  show ?thesis
  proof (cases "gh_ignored ?g = [] \<and> gh_tracked g = []")
    case True
    then show ?thesis
      using ok s dn tid assms(3) by (simp add: touchEnd_def lifted_def gh_ok_def timers_ok_def fingers_ok_def shape_def held_gesture_def down_def gh_consts)
  next
    case False
    then have "gh_ok ?g" using ok fi by (auto simp: gh_ok_def timers_ok_def)
    then show ?thesis using False tid dn assms(3) by (auto simp: touchEnd_def lifted_def Let_def)
  qed
qed

lemma forget_ok:
  assumes "distinct (active_ids (gh_tracked g) @ gh_ignored g)" and "\<not> gh_longpress g" and "\<not> gh_twoTouch g"
    and "gh_target g" and "holding (gh_events g) = Free"
  shows "lifted tid g (forget_touches tid g, Inr ())"
proof -
  let ?i = "remove1 tid (gh_ignored g @ active_ids (gh_tracked g))"
  have d: "distinct (gh_ignored g @ active_ids (gh_tracked g))" using assms(1) by auto
  have i: "distinct ?i" "set ?i = down g - {tid}" using d distinct_remove1 [OF d] by (auto simp: down_def)
  have f: "forget_touches tid g =
    (let g = g\<lparr>gh_ignored := ?i, gh_tracked := [], gh_state := GH_NOGESTURE\<rparr>
     in if ?i = [] then g\<lparr>gh_state := GH_INITSTATE, gh_waitingRelease := False\<rparr> else g)"
    by (simp add: forget_touches_def active_ids_def Let_def)
  show ?thesis
  proof (cases "?i = []")
    case True
    then show ?thesis unfolding f using assms(2-) i
      by (simp add: lifted_def gh_ok_def timers_ok_def fingers_ok_def shape_def held_gesture_def gh_consts down_def)
  next
    case False
    then show ?thesis unfolding f using assms(2-) i
      by (simp add: lifted_def gh_ok_def timers_ok_def fingers_ok_def shape_def held_gesture_def gh_consts down_def)
  qed
qed

lemma end_gesture_ok:
  assumes d: "distinct (active_ids (gh_tracked g) @ gh_ignored g)" "\<not> gh_longpress g" "\<not> gh_twoTouch g" "gh_target g"
    and tr: "gh_tracked g \<noteq> []" and s: "hasDetectedGesture g \<Longrightarrow> gh_state g \<in> {1, 2, 4, 8, 16, 32, 64}"
    and h: "holding (gh_events g) = held_gesture (gh_state g)" and un: "\<not> hasDetectedGesture g \<Longrightarrow> gh_state g \<notin> {8, 16}"
  shows "lifted tid g (end_gesture tid g)"
proof (cases "hasDetectedGesture g")
  case True
  then obtain ges where ges: "stateToGesture (gh_state g) = Some ges" using s by (auto simp: stateToGesture_def gh_consts)
  obtain ev where ev: "gv_type ev = GestureEnd" "gv_gesture ev = ges"
    "pushEvent GestureEnd g = (g\<lparr>gh_events := gh_events g @ [ev]\<rparr>, Inr ())"
    using pushEvent_ok [OF ges tr d(4)] by blast
  have "holds (holding (gh_events g)) ev = Free"
    using h ges ev s [OF True] by (auto simp: stateToGesture_def held_gesture_def gh_consts)
  then show ?thesis
    using True ev d forget_ok [of "g\<lparr>gh_events := gh_events g @ [ev]\<rparr>" tid] by (simp add: end_gesture_def and_then_def lifted_def down_def)
next
  case False
  then show ?thesis
    using forget_ok [OF d(1-4)] h un by (auto simp: end_gesture_def and_then_def held_gesture_def)
qed

text \<open>The state while touches are released: one tap at most is possible.\<close>

definition releasing :: "gesture_handler \<Rightarrow> bool" where
  "releasing g \<longleftrightarrow>
     distinct (active_ids (gh_tracked g) @ gh_ignored g) \<and> distinct (map tc_id (gh_tracked g)) \<and> gh_target g \<and>
     \<not> gh_longpress g \<and> \<not> gh_twoTouch g \<and> holding (gh_events g) = Free \<and> gh_waitingRelease g \<and>
     (gh_state g = 0 \<or> gh_state g = 1 \<and> length (gh_tracked g) = 1 \<or> gh_state g = 2 \<and> length (gh_tracked g) = 2 \<or>
      gh_state g = 4 \<and> length (gh_tracked g) = 3 \<or> (gh_state g = 32 \<or> gh_state g = 64) \<and> length (gh_tracked g) \<ge> 2)"

lemma released_touch:
  assumes "distinct (map tc_id ts)"
  shows "active_ids (update_touch (tc_active_update (\<lambda>_. False)) tid ts) = remove1 tid (active_ids ts)"
    and "map tc_id (update_touch (tc_active_update (\<lambda>_. False)) tid ts) = map tc_id ts"
proof -
  have "tid \<notin> set (active_ids xs)" if "tid \<notin> tc_id ` set xs" for xs using that by (auto simp: active_ids_def)
  then show "active_ids (update_touch (tc_active_update (\<lambda>_. False)) tid ts) = remove1 tid (active_ids ts)"
    using assms by (induction ts) (auto simp: remove1_idem)
  show "map tc_id (update_touch (tc_active_update (\<lambda>_. False)) tid ts) = map tc_id ts" by (induction ts) auto
qed

lemma releasing_late: "releasing g \<Longrightarrow> releasing (g\<lparr>gh_state := 0\<rparr>)"
  by (simp add: releasing_def)

lemma releasing_released:
  assumes "releasing g"
  shows "releasing (g\<lparr>gh_tracked := update_touch (tc_active_update (\<lambda>_. False)) tid (gh_tracked g)\<rparr>)"
    and "tid \<in> set (active_ids (gh_tracked g)) \<Longrightarrow>
      down (g\<lparr>gh_tracked := update_touch (tc_active_update (\<lambda>_. False)) tid (gh_tracked g)\<rparr>) = down g - {tid}"
  using assms released_touch [of "gh_tracked g" tid]
  by (auto simp: releasing_def down_def dest: notin_set_remove1)

lemma detected_releasing:
  "releasing g \<Longrightarrow> hasDetectedGesture g \<longleftrightarrow> gh_state g \<in> {32, 64} \<or> gh_state g \<in> {1, 2, 4} \<and> active_ids (gh_tracked g) = []"
  by (auto simp: releasing_def hasDetectedGesture_def bit_evals active_ids_def filter_empty_conv)

lemma release_ends:
  assumes g: "releasing g" and tr: "gh_tracked g \<noteq> []" and det: "hasDetectedGesture g"
  shows "lifted tid g (and_then (pushEvent GestureStart g) (end_gesture tid))"
proof -
  have s: "gh_state g \<in> {1, 2, 4, 32, 64}" using detected_releasing [OF g] det by auto
  then obtain ges where ges: "stateToGesture (gh_state g) = Some ges" by (auto simp: stateToGesture_def gh_consts)
  have target: "gh_target g" using g by (simp add: releasing_def)
  obtain ev where ev: "gv_type ev = GestureStart" "gv_gesture ev = ges"
    "pushEvent GestureStart g = (g\<lparr>gh_events := gh_events g @ [ev]\<rparr>, Inr ())"
    using pushEvent_ok [OF ges tr target] by blast
  let ?g = "g\<lparr>gh_events := gh_events g @ [ev]\<rparr>"
  have "holds Free ev = Free" using s ges ev by (auto simp: stateToGesture_def gh_consts)
  moreover have "hasDetectedGesture ?g = hasDetectedGesture g" by (simp add: hasDetectedGesture_def)
  ultimately have "lifted tid ?g (end_gesture tid ?g)"
    using g s tr det by (intro end_gesture_ok) (auto simp: releasing_def held_gesture_def)
  then show ?thesis using ev by (simp add: and_then_def lifted_def down_def)
qed

lemma release_touch_ok:
  assumes g: "releasing g" and tid: "tid \<in> set (active_ids (gh_tracked g))"
  shows "lifted tid g (release_touch now tid g)"
proof -
  let ?late = "if too_late now g then g\<lparr>gh_state := GH_NOGESTURE\<rparr> else g"
  let ?g = "?late\<lparr>gh_tracked := update_touch (tc_active_update (\<lambda>_. False)) tid (gh_tracked ?late)\<rparr>"
  have late: "releasing ?late" "gh_tracked ?late = gh_tracked g" "down ?late = down g"
    using g releasing_late by (auto simp: gh_consts down_def)
  have rel: "releasing ?g" "down ?g = down g - {tid}"
    using releasing_released [OF late(1), of tid] tid late by auto
  have tr: "gh_tracked ?g \<noteq> []" "find (\<lambda>t. tc_id t = tid) (gh_tracked ?late) \<noteq> None"
    using tid late by (auto simp: active_ids_def find_None_iff)
  have move: "release_touch now tid g =
    (if hasDetectedGesture ?g then and_then (pushEvent GestureStart ?g) (end_gesture tid)
     else if gh_state ?g \<noteq> GH_NOGESTURE then (?g, Inr ()) else end_gesture tid ?g)"
    using tr(2) by (simp only: release_touch_def Let_def if_False)
  have a: "active_ids (gh_tracked ?g) = remove1 tid (active_ids (gh_tracked g))" "length (gh_tracked ?g) = length (gh_tracked g)"
    using late released_touch(1) [of "gh_tracked g" tid] g by (simp_all add: releasing_def)
  obtain g' where g': "?g = g'" by blast
  note rel = rel [unfolded g'] and tr = tr(1) [unfolded g'] and a = a [unfolded g'] and move = move [unfolded g']
  consider (det) "hasDetectedGesture g'" | (wait) "\<not> hasDetectedGesture g'" "gh_state g' \<noteq> 0" | (dead) "\<not> hasDetectedGesture g'" "gh_state g' = 0"
    by blast
  then have "lifted tid g' (release_touch now tid g)"
  proof cases
    case det
    then show ?thesis using release_ends [OF rel(1) tr] unfolding move by simp
  next
    case wait
    have "length (active_ids (gh_tracked g)) \<le> length (gh_tracked g)" by (simp add: active_ids_def)
    then have "length (gh_tracked g') = 1 \<Longrightarrow> active_ids (gh_tracked g') = []"
      using tid a by (cases "active_ids (gh_tracked g)") auto
    then have s: "gh_state g' = 2 \<and> length (gh_tracked g') = 2 \<or> gh_state g' = 4 \<and> length (gh_tracked g') = 3" "active_ids (gh_tracked g') \<noteq> []"
      using detected_releasing [OF rel(1)] wait rel(1) unfolding releasing_def by blast+
    then have "gh_ok g'"
      using rel(1) tr unfolding gh_ok_def timers_ok_def fingers_ok_def releasing_def by (elim disjE) (simp_all add: shape_def held_gesture_def)
    then show ?thesis using wait rel unfolding move by (simp add: lifted_def gh_consts releasing_def)
  next
    case dead
    then have "lifted tid g' (end_gesture tid g')"
      using rel(1) tr by (intro end_gesture_ok) (simp_all add: releasing_def held_gesture_def)
    then show ?thesis using dead unfolding move by (simp add: gh_consts)
  qed
  then show ?thesis using rel(2) by (simp add: lifted_def)
qed

lemma end_unrecognised_states:
  assumes "gh_waitingRelease g \<Longrightarrow> gh_state g \<in> {0, 2, 4}"
    and "gh_state g = 127 \<and> length (gh_tracked g) = 1 \<and> s = 1 \<or> gh_state g = 102 \<and> length (gh_tracked g) = 2 \<and> s = 2 \<or>
      gh_state g = 96 \<and> s = 0 \<or> gh_state g = 2 \<and> length (gh_tracked g) = 2 \<and> s = 2 \<and> gh_waitingRelease g \<or>
      gh_state g = 4 \<and> length (gh_tracked g) = 3 \<and> s = 4 \<or> gh_state g = 0 \<and> s = 0"
  shows "\<exists>start. end_unrecognised now g = g\<lparr>gh_state := s, gh_waitingRelease := True, gh_releaseStart := start, gh_longpress := False\<rparr>"
  using assms
  by (intro exI [of _ "if gh_waitingRelease g then gh_releaseStart g else now"] gesture_handler.equality)
    (auto simp: end_unrecognised_def stopLongpressTimeout_def exclude_def masks mask_zero Let_def)

lemma stop_detection_cases:
  assumes ok: "gh_ok g" and tr: "gh_tracked g \<noteq> []" and target: "gh_target g"
  obtains (detected) "stop_detection now g = g" "gh_state g \<in> {8, 16, 32, 64}" "hasDetectedGesture g"
    | (releasing) "releasing (stop_detection now g)" "gh_tracked (stop_detection now g) = gh_tracked g"
        "gh_ignored (stop_detection now g) = gh_ignored g"
proof (cases "hasDetectedGesture g")
  case True
  moreover have "active_ids (gh_tracked g) \<noteq> []" using ok tr by (simp add: gh_ok_def fingers_ok_def)
  ultimately show ?thesis using detected ok_simps [OF ok] by (auto simp: stop_detection_def)
next
  case False
  let ?i = "gh_twoTouchTimeoutId g"
  let ?g = "if ?i then (stopTwoTouchTimeout g)\<lparr>gh_state := 0\<rparr> else g"
  have st: "gh_state g \<notin> {8, 16, 32, 64}" using False ok_simps [OF ok] by simp
  have "\<not> hasDetectedGesture ((stopTwoTouchTimeout g)\<lparr>gh_state := 0\<rparr>)" by (intro detected_states) simp
  then have stop: "stop_detection now g = end_unrecognised now ?g"
    using False by (simp add: stop_detection_def isTwoTouchTimeoutRunning_def gh_consts Let_def)
  have sh: "shape (gh_state g) (length (gh_tracked g)) (gh_waitingRelease g)" using ok by (simp add: gh_ok_def)
  have n: "length (gh_tracked g) \<noteq> 0" using tr by simp
  have "\<exists>s. (gh_state g = 127 \<and> length (gh_tracked g) = 1 \<and> s = 1 \<or> gh_state g = 102 \<and> length (gh_tracked g) = 2 \<and> s = 2 \<or>
      gh_state g = 96 \<and> s = 0 \<or> gh_state g = 2 \<and> length (gh_tracked g) = 2 \<and> s = 2 \<and> gh_waitingRelease g \<or>
      gh_state g = 4 \<and> length (gh_tracked g) = 3 \<and> s = 4 \<or> gh_state g = 0 \<and> s = (0 :: int))"
    using sh st n by (auto simp: shape_def le_Suc_eq split: if_splits)
  then obtain s where s: "gh_state g = 127 \<and> length (gh_tracked g) = 1 \<and> s = 1 \<or> gh_state g = 102 \<and> length (gh_tracked g) = 2 \<and> s = 2 \<or>
      gh_state g = 96 \<and> s = 0 \<or> gh_state g = 2 \<and> length (gh_tracked g) = 2 \<and> s = 2 \<and> gh_waitingRelease g \<or>
      gh_state g = 4 \<and> length (gh_tracked g) = 3 \<and> s = 4 \<or> gh_state g = 0 \<and> s = (0 :: int)" by blast
  have w: "gh_waitingRelease g \<Longrightarrow> gh_state g \<in> {0, 2, 4}" using sh st by (auto simp: shape_def split: if_splits)
  have two: "gh_twoTouch g \<Longrightarrow> ?i" using timers [OF ok] by simp
  have hd: "holding (gh_events g) = Free" using ok st by (simp add: gh_ok_def held_gesture_def)
  have fi: "distinct (active_ids (gh_tracked g) @ gh_ignored g)" "distinct (map tc_id (gh_tracked g))" using ok by (simp_all add: gh_ok_def fingers_ok_def)
  show ?thesis
  proof (cases ?i)
    case True
    obtain start where "end_unrecognised now ?g = ?g\<lparr>gh_state := 0, gh_waitingRelease := True, gh_releaseStart := start, gh_longpress := False\<rparr>"
      using end_unrecognised_states [of ?g 0 now] True by (auto simp: stopTwoTouchTimeout_def)
    then show ?thesis
      using True stop fi hd target by (intro releasing) (simp_all add: stopTwoTouchTimeout_def releasing_def)
  next
    case False
    obtain start where "end_unrecognised now g = g\<lparr>gh_state := s, gh_waitingRelease := True, gh_releaseStart := start, gh_longpress := False\<rparr>"
      using end_unrecognised_states [OF w s] by blast
    then show ?thesis
      using False stop fi hd target two s by (intro releasing) (auto simp: releasing_def)
  qed
qed

lemma touchEnd_ok:
  assumes ok: "gh_ok g" and target: "gh_target g" and tid: "tid \<in> down g"
  shows "lifted tid g (touchEnd now tid g)"
proof (cases "tid \<in> set (gh_ignored g)")
  case True
  then show ?thesis using lifted_ignored [OF ok _ target] by blast
next
  case False
  then have act: "tid \<in> set (active_ids (gh_tracked g))" using tid by (simp add: down_def)
  then have tr: "gh_tracked g \<noteq> []" by auto
  from ok tr target show ?thesis
  proof (cases rule: stop_detection_cases [where now = now])
    case detected
    let ?fin = "if gh_waitingRelease g then release_touch now tid g else end_gesture tid g"
    have "lifted tid g ?fin"
    proof (cases "gh_waitingRelease g")
      case True
      then have "gh_state g = 32 \<or> gh_state g = 64" "length (gh_tracked g) \<ge> 2"
        using detected(2) ok by (auto simp: gh_ok_def shape_def)
      then have "releasing g"
        using ok True target by (auto simp: gh_ok_def releasing_def timers_ok_def fingers_ok_def held_gesture_def)
      then show ?thesis using True release_touch_ok act by simp
    next
      case w: False
      have "lifted tid g (end_gesture tid g)"
        using ok target tr detected(2,3) by (intro end_gesture_ok) (auto simp: gh_ok_def timers_ok_def fingers_ok_def)
      then show ?thesis using w by simp
    qed
    then show ?thesis using False detected(1) by (simp add: touchEnd_def)
  next
    case releasing
    have "lifted tid (stop_detection now g) (release_touch now tid (stop_detection now g))"
      using release_touch_ok [OF releasing(1)] releasing(2) act by simp
    moreover have "gh_waitingRelease (stop_detection now g)" using releasing(1) by (simp add: releasing_def)
    ultimately show ?thesis using False releasing(2,3) by (simp add: touchEnd_def lifted_def down_def)
  qed
qed

lemma longpressTimeout_ok:
  assumes ok: "gh_ok g" and p: "gh_longpress g"
  shows "fine g (longpressTimeout g)"
proof -
  let ?g = "g\<lparr>gh_longpress := False, gh_state := GH_LONGPRESS\<rparr>"
  have g: "length (gh_tracked g) = 1" "gh_state g = 127 \<or> gh_state g = 0" "\<not> gh_waitingRelease g" "gh_target g" "\<not> gh_twoTouch g"
    using ok p by (auto simp: gh_ok_def timers_ok_def)
  then have "startable ?g"
    using ok by (auto simp: startable_def gh_ok_def fingers_ok_def held_gesture_def gh_consts)
  then have "fine ?g (pushEvent GestureStart ?g)" using start_event by (simp add: fine_def)
  moreover have "\<not> hasDetectedGesture (g\<lparr>gh_longpress := False\<rparr>)" using g(2) by (auto simp: hasDetectedGesture_def bit_evals)
  ultimately show ?thesis by (simp add: longpressTimeout_def fine_def down_def)
qed

lemma twoTouchTimeout_ok:
  assumes ok: "gh_ok g" and p: "gh_twoTouch g"
  shows "fine g (twoTouchTimeout m g)"
proof -
  have g: "length (gh_tracked g) \<ge> 2" "gh_state g = 96 \<or> gh_state g = 0" "gh_target g" "\<not> gh_longpress g"
    using ok p by (auto simp: gh_ok_def timers_ok_def)
  then have tr: "gh_tracked g \<noteq> []" by auto
  have start: "fine g (and_then (pushEvent GestureStart (g\<lparr>gh_twoTouch := False, gh_state := s\<rparr>)) (pushEvent GestureMove))"
    if "s \<in> {32, 64}" for s
  proof -
    let ?g = "g\<lparr>gh_twoTouch := False, gh_state := s\<rparr>"
    have "startable ?g" using ok g tr that by (auto simp: startable_def gh_ok_def fingers_ok_def held_gesture_def)
    then have "fine ?g (push_move ?g)" by (rule push_move_start)
    then show ?thesis using that detected_states(2) [of ?g] by (simp add: push_move_def fine_def down_def)
  qed
  show ?thesis using tr start [of 32] start [of 64]
    by (simp add: twoTouchTimeout_def getAverageMovement_def getAverageDistance_def Let_def gh_consts)
qed

lemma detach_ok: "gh_ok g \<Longrightarrow> gh_ok (detach g) \<and> down (detach g) = down g"
  by (auto simp: gh_ok_def detach_def stopLongpressTimeout_def stopTwoTouchTimeout_def timers_ok_def fingers_ok_def down_def)

text \<open>Nothing the browser does makes a handler throw.\<close>

lemma gh_step_ok:
  assumes ok: "gh_ok g" and p: "gh_possible g ev"
  shows "snd (gh_step m g ev) = Inr () \<and> gh_ok (fst (gh_step m g ev))"
proof (cases ev)
  case (GTouch now kind tid x y)
  have "gh_step m g ev = touch_handler m now kind (tid, x, y) g"
    using GTouch by (auto simp: gh_step_def and_then_def split: prod.splits sum.splits)
  then show ?thesis
    using GTouch p touchStart_ok [OF ok] touchMove_ok [OF ok] touchEnd_ok [OF ok]
    by (cases kind) (simp_all add: gh_possible_def touch_handler_def fine_def lifted_def)
next
  case GLongpress
  then show ?thesis using longpressTimeout_ok [OF ok] p by (simp add: gh_possible_def gh_step_def fine_def)
next
  case GTwoTouch
  then show ?thesis using twoTouchTimeout_ok [OF ok] p by (simp add: gh_possible_def gh_step_def fine_def)
next
  case GDetach
  then show ?thesis using detach_ok [OF ok] by (simp add: gh_step_def)
qed

interpretation fingers: kept gh_possible "\<lambda>g ev. fst (gh_step m g ev)" gh_ok for m
  by unfold_locales (simp add: gh_step_ok)

section \<open>Properties\<close>

definition finger_change :: "int set \<Rightarrow> gh_event \<Rightarrow> int set" where
  "finger_change F ev =
     (case ev of
        GTouch now kind tid x y \<Rightarrow> (case kind of TouchStart \<Rightarrow> insert tid F | TouchMove \<Rightarrow> F | _ \<Rightarrow> F - {tid})
      | _ \<Rightarrow> F)"

definition idle :: "gesture_handler \<Rightarrow> bool" where
  "idle g \<longleftrightarrow> gh_state g = GH_INITSTATE \<and> gh_tracked g = [] \<and> gh_ignored g = [] \<and> \<not> gh_waitingRelease g \<and>
     \<not> gh_longpress g \<and> \<not> gh_twoTouch g"

lemma step_fingers: "gh_ok g \<Longrightarrow> gh_possible g ev \<Longrightarrow> down (fst (gh_step m g ev)) = finger_change (down g) ev"
proof (cases ev)
  case (GTouch now kind tid x y)
  assume ok: "gh_ok g" and p: "gh_possible g ev"
  have "gh_step m g ev = touch_handler m now kind (tid, x, y) g"
    using GTouch by (auto simp: gh_step_def and_then_def split: prod.splits sum.splits)
  then show ?thesis
    using GTouch p touchStart_ok [OF ok] touchMove_ok [OF ok] touchEnd_ok [OF ok]
    by (cases kind) (simp_all add: gh_possible_def touch_handler_def fine_def lifted_def finger_change_def)
qed (use longpressTimeout_ok twoTouchTimeout_ok detach_ok in
    \<open>auto simp: gh_possible_def gh_step_def fine_def finger_change_def\<close>)

lemma run_fingers:
  "run_with gh_possible (\<lambda>g ev. fst (gh_step m g ev)) g evs = Some g' \<Longrightarrow> gh_ok g \<Longrightarrow> down g' = foldl finger_change (down g) evs"
  by (induction evs arbitrary: g) (auto simp: step_fingers gh_step_ok split: if_splits)

lemma no_finger_idle: "gh_ok g \<Longrightarrow> down g = {} \<Longrightarrow> idle g \<and> holding (gh_events g) = Free"
proof -
  assume ok: "gh_ok g" and d: "down g = {}"
  then have i: "gh_ignored g = []" and a: "active_ids (gh_tracked g) = []" by (auto simp: down_def)
  then have t: "gh_tracked g = []" using ok by (auto simp: gh_ok_def fingers_ok_def)
  then have "gh_state g = 127" using ok i by (simp add: gh_ok_def fingers_ok_def)
  then show ?thesis using ok i t by (auto simp: gh_ok_def timers_ok_def shape_def idle_def held_gesture_def gh_consts)
qed

text \<open>
  C14. Whatever fingers do and whenever the timers fire, no handler throws, the handler knows which fingers are down, and when
  the last one is lifted it is idle again and every drag or long press it has started has ended.
\<close>

theorem gestures_end_with_fingers:
  assumes "run_with gh_possible (\<lambda>g ev. fst (gh_step m g ev)) (attach new_GestureHandler) evs = Some g"
  shows "(gh_possible g ev \<longrightarrow> snd (gh_step m g ev) = Inr ()) \<and> down g = foldl finger_change {} evs \<and>
    (foldl finger_change {} evs = {} \<longrightarrow> idle g \<and> holding (gh_events g) = Free)"
proof -
  have ok: "gh_ok g" using fingers.run_keeps [OF assms ok_new] .
  have "down (attach new_GestureHandler) = {}" by (simp add: down_def attach_def detach_def new_GestureHandler_def)
  then have "down g = foldl finger_change {} evs" using run_fingers [OF assms ok_new] by simp
  then show ?thesis using no_finger_idle [OF ok] gh_step_ok [OF ok] by simp
qed

definition sample_math :: js_math where
  "sample_math = \<lparr>jm_hypot = (\<lambda>x y. max \<bar>x\<bar> \<bar>y\<bar>), jm_degrees = (\<lambda>y x. 0)\<rparr>"

text \<open>Two fingers move apart, one of them far; the timer decides for a pinch.\<close>

definition sample_pinch :: "gh_event list" where
  "sample_pinch = [GTouch 0 TouchStart 1 0 0, GTouch 10 TouchStart 2 100 0, GTouch 30 TouchMove 1 (-60) 0, GTwoTouch,
     GTouch 200 TouchEnd 1 (-60) 0, GTouch 210 TouchEnd 2 100 0]"

lemma sample_pinch_run:
  "run_with gh_possible (\<lambda>g ev. fst (gh_step sample_math g ev)) (attach new_GestureHandler) sample_pinch =
     Some \<lparr>gh_target = True, gh_state = 127, gh_tracked = [], gh_ignored = [], gh_waitingRelease = False, gh_releaseStart = 0,
       gh_longpress = False, gh_twoTouchTimeoutId = True, gh_twoTouch = False,
       gh_events = [\<lparr>gv_type = GestureStart, gv_gesture = Pinch, gv_x = 50, gv_y = 0, gv_magnitude = Some (100, 0)\<rparr>,
         \<lparr>gv_type = GestureMove, gv_gesture = Pinch, gv_x = 50, gv_y = 0, gv_magnitude = Some (160, 0)\<rparr>,
         \<lparr>gv_type = GestureEnd, gv_gesture = Pinch, gv_x = 50, gv_y = 0, gv_magnitude = Some (160, 0)\<rparr>]\<rparr>"
  by code_simp

theorem gestures_end_with_fingers_witness:
  "\<exists>g. run_with gh_possible (\<lambda>g ev. fst (gh_step sample_math g ev)) (attach new_GestureHandler) sample_pinch = Some g \<and>
     length (gh_events g) = 3 \<and> idle g \<and> holding (gh_events g) = Free"
proof -
  have "foldl finger_change {} sample_pinch = {}" by (auto simp: sample_pinch_def finger_change_def)
  then show ?thesis using gestures_end_with_fingers [OF sample_pinch_run, of GDetach] sample_pinch_run by simp
qed

end
