(* ===== verification/Gesture_Taps.thy ===== *)
theory Gesture_Taps
  imports Gesture_Fingers
begin

text \<open>
  Taps (\<open>input/gesturehandler.js\<close>): one, two or three fingers, in any order, are recognised, but for the tap after a two finger
  gesture that a timer decided.
\<close>

section \<open>Taps\<close>

fun run_gestures :: "js_math \<Rightarrow> gh_event list \<Rightarrow> gesture_handler \<Rightarrow> handled" where
  "run_gestures m [] g = (g, Inr ())"
| "run_gestures m (ev # evs) g = and_then (gh_step m g ev) (run_gestures m evs)"

lemma run_gestures_append: "run_gestures m (es @ fs) g = and_then (run_gestures m es g) (run_gestures m fs)"
  by (induction es arbitrary: g) (simp_all add: and_then_def split: prod.splits sum.splits)

lemma gh_step_simps [simp]:
  "gh_step m g (GTouch now TouchStart tid x y) = (touchStart now tid x y g, Inr ())"
  "gh_step m g (GTouch now TouchMove tid x y) = touchMove m tid x y g"
  "gh_step m g (GTouch now TouchEnd tid x y) = touchEnd now tid g"
  by (auto simp: gh_step_def touch_handler_def and_then_def split: prod.splits sum.splits)

definition fresh_touch :: "int \<times> int \<times> rat \<times> rat \<Rightarrow> touch" where
  "fresh_touch s = (case s of (now, tid, x, y) \<Rightarrow>
     \<lparr>tc_id = tid, tc_started = now, tc_active = True, tc_firstX = x, tc_firstY = y, tc_lastX = x, tc_lastY = y, tc_angle = 0\<rparr>)"

definition touch_down :: "int \<times> int \<times> rat \<times> rat \<Rightarrow> gh_event" where
  "touch_down s = (case s of (now, tid, x, y) \<Rightarrow> GTouch now TouchStart tid x y)"

definition touch_up :: "int \<times> int \<Rightarrow> gh_event" where
  "touch_up e = (case e of (now, tid) \<Rightarrow> GTouch now TouchEnd tid 0 0)"

lemma touch_up_pair [simp]: "touch_up (now, tid) = GTouch now TouchEnd tid 0 0"
  by (simp add: touch_up_def)

definition tap_of :: "nat \<Rightarrow> gesture" where
  "tap_of n = (if n = 1 then OneTap else if n = 2 then TwoTap else ThreeTap)"

definition tap_bit :: "nat \<Rightarrow> int" where
  "tap_bit n = (if n = 1 then 1 else if n = 2 then 2 else 4)"

text \<open>The event of a tap is at the middle of the fingers.\<close>

definition tap_event :: "(int \<times> int \<times> rat \<times> rat) list \<Rightarrow> gesture_type \<Rightarrow> gesture_event" where
  "tap_event starts type =
     \<lparr>gv_type = type, gv_gesture = tap_of (length starts),
      gv_x = sum_list (map (\<lambda>(now, tid, x, y). x) starts) / of_nat (length starts),
      gv_y = sum_list (map (\<lambda>(now, tid, x, y). y) starts) / of_nat (length starts), gv_magnitude = None\<rparr>"

definition at_rest :: "(int \<times> int \<times> rat \<times> rat) list \<Rightarrow> touch list \<Rightarrow> bool" where
  "at_rest starts ts \<longleftrightarrow> map (\<lambda>t. t\<lparr>tc_active := True\<rparr>) ts = map fresh_touch starts"

lemma at_rest_update: "at_rest starts ts \<Longrightarrow> at_rest starts (update_touch (tc_active_update (\<lambda>_. False)) tid ts)"
proof -
  have "map (\<lambda>t. t\<lparr>tc_active := True\<rparr>) (update_touch (tc_active_update (\<lambda>_. False)) tid ts) = map (\<lambda>t. t\<lparr>tc_active := True\<rparr>) ts"
    by (induction ts) auto
  then show "at_rest starts ts \<Longrightarrow> ?thesis" by (simp add: at_rest_def)
qed

lemma at_rest_fields:
  assumes "at_rest starts ts"
  shows "length ts = length starts" "map tc_firstX ts = map (\<lambda>(now, tid, x, y). x) starts" "map tc_lastX ts = map (\<lambda>(now, tid, x, y). x) starts"
    "map tc_firstY ts = map (\<lambda>(now, tid, x, y). y) starts" "map tc_lastY ts = map (\<lambda>(now, tid, x, y). y) starts"
    "map tc_started ts = map fst starts" "map tc_id ts = map (\<lambda>(now, tid, x, y). tid) starts"
proof -
  have e: "map (\<lambda>t. f (t\<lparr>tc_active := True\<rparr>)) ts = map (\<lambda>s. f (fresh_touch s)) starts" for f :: "touch \<Rightarrow> 'a"
    using arg_cong [OF assms [unfolded at_rest_def], of "map f"] by (simp add: o_def)
  show "length ts = length starts" using arg_cong [OF assms [unfolded at_rest_def], of length] by simp
  show "map tc_firstX ts = map (\<lambda>(now, tid, x, y). x) starts" using e [of tc_firstX] by (simp add: fresh_touch_def case_prod_beta)
  show "map tc_lastX ts = map (\<lambda>(now, tid, x, y). x) starts" using e [of tc_lastX] by (simp add: fresh_touch_def case_prod_beta)
  show "map tc_firstY ts = map (\<lambda>(now, tid, x, y). y) starts" using e [of tc_firstY] by (simp add: fresh_touch_def case_prod_beta)
  show "map tc_lastY ts = map (\<lambda>(now, tid, x, y). y) starts" using e [of tc_lastY] by (simp add: fresh_touch_def case_prod_beta)
  show "map tc_started ts = map fst starts" using e [of tc_started] by (simp add: fresh_touch_def case_prod_beta)
  show "map tc_id ts = map (\<lambda>(now, tid, x, y). tid) starts" using e [of tc_id] by (simp add: fresh_touch_def case_prod_beta)
qed

lemma tap_pushed:
  assumes "at_rest starts (gh_tracked g)" and "starts \<noteq> []" and "length starts \<le> 3" and "gh_state g = tap_bit (length starts)" and "gh_target g"
  shows "pushEvent type g = (g\<lparr>gh_events := gh_events g @ [tap_event starts type]\<rparr>, Inr ())"
proof -
  have "stateToGesture (gh_state g) = Some (tap_of (length starts))"
    using assms(2-4) by (cases starts; cases "tl starts"; cases "tl (tl starts)") (auto simp: stateToGesture_def tap_bit_def tap_of_def gh_consts)
  moreover have "gh_state g \<noteq> GH_PINCH" "gh_state g \<noteq> GH_TWODRAG" using assms(4) by (auto simp: tap_bit_def gh_consts)
  moreover have "gh_tracked g \<noteq> []" using assms(2) at_rest_fields(1) [OF assms(1)] by auto
  ultimately show ?thesis
    using at_rest_fields [OF assms(1)] assms(5)
    by (simp add: pushEvent_def gesture_event_of_def getPosition_def getAverageDistance_def getAverageMovement_def tap_event_def average_def Let_def)
qed

definition tapped :: "(int \<times> int \<times> rat \<times> rat) list \<Rightarrow> gesture_handler \<Rightarrow> gesture_handler" where
  "tapped starts g = g\<lparr>gh_state := GH_INITSTATE, gh_tracked := [], gh_waitingRelease := False,
     gh_events := gh_events g @ [tap_event starts GestureStart, tap_event starts GestureEnd]\<rparr>"

text \<open>The fingers of a tap are lifted one after the other.\<close>

definition tapping :: "(int \<times> int \<times> rat \<times> rat) list \<Rightarrow> gesture_handler \<Rightarrow> bool" where
  "tapping starts g \<longleftrightarrow> releasing g \<and> gh_state g = tap_bit (length starts) \<and> at_rest starts (gh_tracked g) \<and> gh_ignored g = [] \<and>
     \<not> gh_twoTouchTimeoutId g"

lemma tap_released:
  assumes g: "tapping starts g" and n: "starts \<noteq> []" "length starts \<le> 3" and tid: "tid \<in> set (active_ids (gh_tracked g))"
    and time: "\<not> too_late now g"
  defines "g' \<equiv> g\<lparr>gh_tracked := update_touch (tc_active_update (\<lambda>_. False)) tid (gh_tracked g)\<rparr>"
  shows "release_touch now tid g = (if active_ids (gh_tracked g') = [] then (tapped starts g, Inr ()) else (g', Inr ()))"
    and "tapping starts g'" and "active_ids (gh_tracked g') = remove1 tid (active_ids (gh_tracked g))"
proof -
  have rel: "releasing g" and st: "gh_state g = tap_bit (length starts)" using g by (simp_all add: tapping_def)
  have rel': "releasing g'" using releasing_released(1) [OF rel] by (simp add: g'_def)
  show g': "tapping starts g'" using g rel' at_rest_update by (simp add: tapping_def g'_def)
  show "active_ids (gh_tracked g') = remove1 tid (active_ids (gh_tracked g))"
    using released_touch(1) rel by (simp add: g'_def releasing_def)
  have tracked: "find (\<lambda>t. tc_id t = tid) (gh_tracked g) \<noteq> None" using tid by (auto simp: active_ids_def find_None_iff)
  have s: "gh_state g' = tap_bit (length starts)" "gh_state g' \<in> {1, 2, 4}" using st by (auto simp: g'_def tap_bit_def)
  have det: "hasDetectedGesture g' \<longleftrightarrow> active_ids (gh_tracked g') = []" using detected_releasing [OF rel'] s(2) by auto
  have ta: "gh_target g'" using rel' by (simp add: releasing_def)
  have rest: "at_rest starts (gh_tracked g')" using g' by (simp add: tapping_def)
  have move: "release_touch now tid g = (if hasDetectedGesture g' then and_then (pushEvent GestureStart g') (end_gesture tid)
      else if gh_state g' \<noteq> GH_NOGESTURE then (g', Inr ()) else end_gesture tid g')"
    unfolding g'_def using time tracked by (simp only: release_touch_def Let_def if_False)
  show "release_touch now tid g = (if active_ids (gh_tracked g') = [] then (tapped starts g, Inr ()) else (g', Inr ()))"
  proof (cases "active_ids (gh_tracked g') = []")
    case False
    then show ?thesis using move det s(2) by (auto simp: gh_consts)
  next
    case True
    let ?g1 = "g'\<lparr>gh_events := gh_events g' @ [tap_event starts GestureStart]\<rparr>"
    have p1: "pushEvent GestureStart g' = (?g1, Inr ())" using tap_pushed [OF rest n s(1) ta] .
    have p2: "pushEvent GestureEnd ?g1 = (?g1\<lparr>gh_events := gh_events ?g1 @ [tap_event starts GestureEnd]\<rparr>, Inr ())"
      using rest s(1) ta n by (intro tap_pushed) simp_all
    have d1: "hasDetectedGesture ?g1" using det True by (simp add: hasDetectedGesture_def)
    have "filter tc_active (gh_tracked g') = []" using True by (simp add: active_ids_def)
    then have "end_gesture tid ?g1 = (tapped starts g, Inr ())"
      using d1 p2 g' by (simp add: end_gesture_def and_then_def forget_touches_def tapping_def tapped_def gh_consts g'_def)
    then show ?thesis using True det p1 unfolding move by (simp add: and_then_def)
  qed
qed

lemma tap_stop_detection:
  assumes "tapping starts g" and "active_ids (gh_tracked g) \<noteq> []"
  shows "stop_detection now g = g"
proof -
  have rel: "releasing g" and s: "gh_state g \<in> {1, 2, 4}" and i: "\<not> gh_twoTouchTimeoutId g"
    using assms(1) by (auto simp: tapping_def tap_bit_def)
  have "\<not> hasDetectedGesture g" using detected_releasing [OF rel] s assms(2) by auto
  moreover have "js_and (gh_state g) (js_not (bits [GH_DRAG, GH_TWODRAG, GH_PINCH])) = gh_state g"
    "js_and (gh_state g) (js_not GH_LONGPRESS) = gh_state g"
    using s by (auto simp: bit_evals)
  ultimately show ?thesis
    using i rel by (intro gesture_handler.equality)
      (simp_all add: stop_detection_def isTwoTouchTimeoutRunning_def end_unrecognised_def releasing_def exclude_def stopLongpressTimeout_def)
qed

lemma tap_end:
  assumes "tapping starts g" and "tid \<in> set (active_ids (gh_tracked g))"
  shows "touchEnd now tid g = release_touch now tid g"
proof -
  have "active_ids (gh_tracked g) \<noteq> []" using assms(2) by auto
  then show ?thesis
    using assms(1) tap_stop_detection [OF assms(1), of now] by (simp add: touchEnd_def tapping_def releasing_def)
qed

lemma too_late_started:
  "too_late now g \<longleftrightarrow> now - gh_releaseStart g > GH_MULTITOUCH_TIMEOUT \<or>
     (\<exists>t \<in> set (map tc_started (gh_tracked g)). now - t > GH_TAP_TIMEOUT)"
  by (auto simp: too_late_def)

lemma taps_released:
  assumes "tapping starts g" and "starts \<noteq> []" and "length starts \<le> 3" and "ends \<noteq> []" and "distinct (map snd ends)"
    and "set (map snd ends) = set (active_ids (gh_tracked g))" and "\<And>t e. (t, e) \<in> set ends \<Longrightarrow> \<not> too_late t g"
  shows "run_gestures m (map touch_up ends) g = (tapped starts g, Inr ())"
  using assms
proof (induction ends arbitrary: g)
  case Nil
  then show ?case by simp
next
  case (Cons e ends)
  obtain t tid where e: "e = (t, tid)" by (cases e)
  have act: "tid \<in> set (active_ids (gh_tracked g))" using Cons.prems(6) e by auto
  have late: "\<not> too_late t g" using Cons.prems(7) e by auto
  let ?g = "g\<lparr>gh_tracked := update_touch (tc_active_update (\<lambda>_. False)) tid (gh_tracked g)\<rparr>"
  note rel = tap_released [OF Cons.prems(1-3) act late]
  have d: "distinct (active_ids (gh_tracked g))" using Cons.prems(1) by (simp add: tapping_def releasing_def)
  have set: "set (active_ids (gh_tracked ?g)) = set (map snd ends)"
    using rel(3) d Cons.prems(5,6) e by (auto simp: image_iff)
  show ?case
  proof (cases "ends = []")
    case True
    then show ?thesis using e tap_end [OF Cons.prems(1) act, of t] rel(1) set by (simp add: and_then_def)
  next
    case False
    then have "active_ids (gh_tracked ?g) \<noteq> []" using set by auto
    then have "touchEnd t tid g = (?g, Inr ())" using tap_end [OF Cons.prems(1) act, of t] rel(1) by simp
    moreover have "run_gestures m (map touch_up ends) ?g = (tapped starts ?g, Inr ())"
    proof (rule Cons.IH [OF rel(2) Cons.prems(2,3) False])
      show "distinct (map snd ends)" using Cons.prems(5) by simp
      show "set (map snd ends) = set (active_ids (gh_tracked ?g))" using set by simp
      have "map tc_started (gh_tracked ?g) = map tc_started (gh_tracked g)"
        using at_rest_fields(6) rel(2) Cons.prems(1) unfolding tapping_def by metis
      then show "\<not> too_late t' ?g" if "(t', e') \<in> set ends" for t' e'
        using Cons.prems(7) [of t' e'] that by (simp only: too_late_started) simp
    qed
    ultimately show ?thesis using e by (simp add: and_then_def tapped_def)
  qed
qed

text \<open>Up to three fingers put down together.\<close>

definition touching :: "(int \<times> int \<times> rat \<times> rat) list \<Rightarrow> gesture_handler \<Rightarrow> gesture_handler" where
  "touching starts g = g\<lparr>gh_state := (if length starts = 1 then 127 else if length starts = 2 then 102 else 4),
     gh_tracked := map fresh_touch starts, gh_longpress := (length starts = 1)\<rparr>"

lemma touches_start:
  assumes g: "idle g" and n: "starts \<noteq> []" "length starts \<le> 3"
    and time: "\<And>s. s \<in> set starts \<Longrightarrow> fst s - fst (hd starts) \<le> GH_MULTITOUCH_TIMEOUT"
  shows "run_gestures m (map touch_down starts) g = (touching starts g, Inr ())"
proof -
  have step: "gh_step m (touching ss g) (touch_down s) = (touching (ss @ [s]) g, Inr ())"
    if "ss \<noteq> []" "length ss \<le> 2" "fst s - fst (hd ss) \<le> GH_MULTITOUCH_TIMEOUT" for ss s
    using that g
    by (cases s; cases ss; cases "tl ss")
      (auto simp: touch_down_def touchStart_def touching_def fresh_touch_def idle_def hasDetectedGesture_def bit_evals
        exclude_def stopLongpressTimeout_def Let_def)
  have one: "gh_step m g (touch_down s) = (touching [s] g, Inr ())" for s
    using g by (cases s; cases g)
      (simp add: touch_down_def touchStart_def touching_def fresh_touch_def idle_def hasDetectedGesture_def bit_evals startLongpressTimeout_def)
  show ?thesis
    using n time one step [of "[hd starts]" "hd (tl starts)"] step [of "[hd starts, hd (tl starts)]" "hd (tl (tl starts))"]
    by (cases starts; cases "tl starts"; cases "tl (tl starts)") (auto simp: and_then_def)
qed

lemma first_release:
  fixes now :: int
  assumes g: "idle g" "gh_target g" "\<not> gh_twoTouchTimeoutId g" "holding (gh_events g) = Free" and n: "starts \<noteq> []" "length starts \<le> 3"
    and d: "distinct (map (\<lambda>(now, tid, x, y). tid) starts)"
  defines "g' \<equiv> (touching starts g)\<lparr>gh_state := tap_bit (length starts), gh_longpress := False, gh_waitingRelease := True, gh_releaseStart := now\<rparr>"
  shows "stop_detection now (touching starts g) = g'" and "tapping starts g'"
    and "active_ids (gh_tracked g') = map (\<lambda>(now, tid, x, y). tid) starts"
proof -
  have a: "active_ids (map fresh_touch starts) = map (\<lambda>(now, tid, x, y). tid) starts"
    by (induction starts) (auto simp: fresh_touch_def)
  show ids: "active_ids (gh_tracked g') = map (\<lambda>(now, tid, x, y). tid) starts" using a by (simp add: g'_def touching_def)
  have s: "gh_state (touching starts g) \<in> {127, 102, 4}" by (simp add: touching_def)
  have "active_ids (gh_tracked (touching starts g)) \<noteq> []" using a n by (simp add: touching_def)
  then have "\<exists>t \<in> set (gh_tracked (touching starts g)). tc_active t" by (auto simp: active_ids_def filter_empty_conv)
  then have un: "\<not> hasDetectedGesture (touching starts g)" using s by (auto simp: hasDetectedGesture_def bit_evals)
  have "\<exists>start. end_unrecognised now (touching starts g) =
      (touching starts g)\<lparr>gh_state := tap_bit (length starts), gh_waitingRelease := True, gh_releaseStart := start, gh_longpress := False\<rparr>"
    using g n by (intro end_unrecognised_states; cases starts; cases "tl starts"; cases "tl (tl starts)") (auto simp: touching_def idle_def tap_bit_def)
  moreover have "gh_releaseStart (end_unrecognised now (touching starts g)) = now"
    using g by (simp add: end_unrecognised_def touching_def idle_def exclude_def stopLongpressTimeout_def Let_def)
  ultimately show "stop_detection now (touching starts g) = g'"
    using un g by (auto simp: stop_detection_def isTwoTouchTimeoutRunning_def g'_def touching_def)
  have "map tc_id (map fresh_touch starts) = map (\<lambda>(now, tid, x, y). tid) starts" by (auto simp: fresh_touch_def)
  then have ids': "distinct (map tc_id (map fresh_touch starts))" using d by (simp only:)
  have rest: "map (\<lambda>t. t\<lparr>tc_active := True\<rparr>) (map fresh_touch starts) = map fresh_touch starts"
    by (auto simp: fresh_touch_def)
  have "releasing g'"
    using g n a d ids' by (cases starts; cases "tl starts"; cases "tl (tl starts)")
      (auto simp: releasing_def g'_def touching_def idle_def tap_bit_def)
  then show "tapping starts g'"
    using rest g by (simp add: tapping_def at_rest_def g'_def touching_def idle_def)
qed

text \<open>
  C15. One, two or three fingers put down within 250 ms of the first and lifted in any order, each within 250 ms of the
  first lifted and within a second of every touch, are recognised as exactly one tap of that many fingers, in their middle.
\<close>

theorem taps_recognised:
  assumes g: "idle g" "gh_target g" "\<not> gh_twoTouchTimeoutId g" "holding (gh_events g) = Free" and n: "starts \<noteq> []" "length starts \<le> 3"
    and d: "distinct (map (\<lambda>(now, tid, x, y). tid) starts)"
    and down: "\<And>s. s \<in> set starts \<Longrightarrow> fst s - fst (hd starts) \<le> 250"
    and ends: "distinct (map snd ends)" "set (map snd ends) = set (map (\<lambda>(now, tid, x, y). tid) starts)"
    and up: "\<And>e. e \<in> set ends \<Longrightarrow> fst e - fst (hd ends) \<le> 250 \<and> (\<forall>s \<in> set starts. fst e - fst s \<le> 1000)"
  shows "\<exists>g'. run_gestures m (map touch_down starts @ map touch_up ends) g = (g', Inr ()) \<and> idle g' \<and>
    gh_events g' = gh_events g @ [tap_event starts GestureStart, tap_event starts GestureEnd]"
proof -
  have "ends \<noteq> []" using ends(2) n by auto
  then obtain t tid es where e: "ends = (t, tid) # es" by (metis list.exhaust prod.exhaust)
  let ?g = "(touching starts g)\<lparr>gh_state := tap_bit (length starts), gh_longpress := False, gh_waitingRelease := True, gh_releaseStart := t\<rparr>"
  note rel = first_release [OF g n d, of t]
  have act: "tid \<in> set (active_ids (gh_tracked ?g))" using rel(3) ends(2) e by auto
  have "gh_ignored (touching starts g) = []" "gh_waitingRelease ?g" using g by (simp_all add: touching_def idle_def)
  then have "touchEnd t tid (touching starts g) = touchEnd t tid ?g"
    using rel(1) tap_end [OF rel(2) act, of t] by (simp add: touchEnd_def)
  then have "run_gestures m (map touch_up ends) (touching starts g) = run_gestures m (map touch_up ends) ?g"
    using e by simp
  also have "\<dots> = (tapped starts ?g, Inr ())"
  proof (rule taps_released [OF rel(2) n \<open>ends \<noteq> []\<close> ends(1)])
    show "set (map snd ends) = set (active_ids (gh_tracked ?g))" using rel(3) ends(2) by simp
    have "map tc_started (map fresh_touch starts) = map fst starts" by (auto simp: fresh_touch_def)
    then show "\<not> too_late t' ?g" if "(t', e') \<in> set ends" for t' e'
      using up [OF that] e by (simp only: too_late_started) (auto simp: touching_def gh_consts)
  qed
  finally have "run_gestures m (map touch_down starts @ map touch_up ends) g = (tapped starts ?g, Inr ())"
    using touches_start [OF g(1) n, of m] down by (simp add: run_gestures_append and_then_def gh_consts)
  then show ?thesis using g(1) by (simp add: tapped_def idle_def touching_def)
qed

section \<open>The timer that is not forgotten\<close>

text \<open>While the identifier is set, a tap is taken for the end of an undecided two finger gesture.\<close>

lemma tap_lost_while_id_set:
  assumes "idle g" and "gh_target g" and "gh_twoTouchTimeoutId g"
  shows "\<exists>g'. run_gestures m [touch_down (t1, tid, x, y), touch_up (t2, tid)] g = (g', Inr ()) \<and> idle g' \<and>
    gh_events g' = gh_events g \<and> \<not> gh_twoTouchTimeoutId g'"
proof -
  let ?s = "[(t1, tid, x, y)]"
  let ?g = "(touching ?s g)\<lparr>gh_state := 0, gh_longpress := False, gh_twoTouchTimeoutId := False, gh_waitingRelease := True, gh_releaseStart := t2\<rparr>"
  have start: "touchStart t1 tid x y g = touching ?s g"
    using touches_start [of g ?s m] assms(1) by (simp add: touch_down_def and_then_def gh_consts)
  have un: "\<not> hasDetectedGesture (touching ?s g)"
    by (simp add: touching_def fresh_touch_def hasDetectedGesture_def bit_evals)
  have un0: "\<not> hasDetectedGesture (h\<lparr>gh_state := 0\<rparr>)" for h by (intro detected_states) simp
  have "stop_detection t2 (touching ?s g) = ?g"
    using assms un un0 by (intro gesture_handler.equality)
      (simp_all add: stop_detection_def isTwoTouchTimeoutRunning_def stopTwoTouchTimeout_def end_unrecognised_def touching_def idle_def
        exclude_def stopLongpressTimeout_def mask_zero gh_consts Let_def)
  moreover have "release_touch t2 tid ?g = (g\<lparr>gh_twoTouchTimeoutId := False, gh_releaseStart := t2\<rparr>, Inr ())"
    using assms by (simp add: release_touch_def touching_def idle_def fresh_touch_def hasDetectedGesture_def end_gesture_def and_then_def
      forget_touches_def bit_evals Let_def too_late_def)
  ultimately have "touchEnd t2 tid (touching ?s g) = (g\<lparr>gh_twoTouchTimeoutId := False, gh_releaseStart := t2\<rparr>, Inr ())"
    using assms by (simp add: touchEnd_def touching_def idle_def)
  then show ?thesis using start assms(1) by (simp add: touch_down_def and_then_def idle_def)
qed

text \<open>How the identifier is left set: two fingers, a far move of one, and the timer.\<close>

lemma two_down:
  assumes g: "idle g" "gh_target g" "\<not> gh_twoTouchTimeoutId g" and ab: "a \<noteq> b"
    and far: "50 \<le> jm_hypot m (x3 - x2) (y3 - y2)" and still: "jm_hypot m 0 0 = 0"
  obtains t where "touchMove m b x3 y3 (touching [(t1, a, x1, y1), (t2, b, x2, y2)] g) =
      (g\<lparr>gh_state := 96, gh_tracked := [fresh_touch (t1, a, x1, y1), t], gh_twoTouchTimeoutId := True, gh_twoTouch := True\<rparr>, Inr ())"
    "tc_id t = b" "tc_active t"
proof -
  let ?A = "fresh_touch (t1, a, x1, y1)" and ?B = "fresh_touch (t2, b, x2, y2)"
  let ?t = "move_touch m x3 y3 ?B"
  let ?s = "touching [(t1, a, x1, y1), (t2, b, x2, y2)] g"
  let ?g = "g\<lparr>gh_state := 102, gh_tracked := [?A, ?t]\<rparr>"
  have id: "tc_id ?t = b" and act: "tc_active ?t" by (simp_all add: move_touch_def fresh_touch_def Let_def)
  have "gh_tracked ?s = [?A, ?B]" by (simp add: touching_def)
  moreover have "\<not> hasDetectedGesture ?g" by (simp add: hasDetectedGesture_def bit_evals)
  moreover have "?s\<lparr>gh_tracked := [?A, ?t]\<rparr> = ?g" using g by (simp add: touching_def idle_def)
  ultimately have "touchMove m b x3 y3 ?s = far_move m ?t ?g"
    using ab far by (simp add: touchMove_def fresh_touch_def GH_MOVE_THRESHOLD_def Let_def)
  moreover have "exclude_still ?g = g\<lparr>gh_state := 96, gh_tracked := [?A, ?t]\<rparr>"
    using g by (simp add: exclude_still_def stopLongpressTimeout_def exclude_def masks Let_def idle_def)
  moreover have "find (\<lambda>t. tc_id t \<noteq> tc_id ?t) [?A, ?t] = Some ?A" using ab id by (simp add: fresh_touch_def)
  moreover have "decide_two m ?t ?A h = (if isTwoTouchTimeoutRunning h then h else startTwoTouchTimeout h)" for h
    using still by (simp add: decide_two_def fresh_touch_def GH_MOVE_THRESHOLD_def)
  ultimately have "touchMove m b x3 y3 ?s = push_move (g\<lparr>gh_state := 96, gh_tracked := [?A, ?t],
      gh_twoTouchTimeoutId := True, gh_twoTouch := True\<rparr>)"
    using g by (simp add: far_move_def isTwoTouchTimeoutRunning_def startTwoTouchTimeout_def)
  moreover have "\<not> hasDetectedGesture (h\<lparr>gh_state := 96, gh_tracked := ts, gh_twoTouchTimeoutId := True, gh_twoTouch := True\<rparr>)" for h ts
    by (intro detected_states) simp
  ultimately show ?thesis using that [of ?t] id act by (simp add: push_move_def)
qed

lemma timer_decides:
  assumes g: "gh_target g" and t: "gh_tracked g \<noteq> []"
  obtains s e1 e2 ges where "s \<in> {32, 64}" "stateToGesture s = Some ges" "ges \<in> {TwoDrag, Pinch}"
    "twoTouchTimeout m g = (g\<lparr>gh_state := s, gh_twoTouch := False, gh_events := gh_events g @ [e1, e2]\<rparr>, Inr ())"
    "gv_type e1 = GestureStart" "gv_gesture e1 = ges" "gv_type e2 = GestureMove" "gv_gesture e2 = ges"
proof -
  have "\<exists>s \<in> {GH_TWODRAG, GH_PINCH}. twoTouchTimeout m g =
      and_then (pushEvent GestureStart (g\<lparr>gh_twoTouch := False, gh_state := s\<rparr>)) (pushEvent GestureMove)"
    using t by (simp add: twoTouchTimeout_def getAverageMovement_def getAverageDistance_def Let_def split: if_split)
  then obtain s where s: "s \<in> {GH_TWODRAG, GH_PINCH}" and run: "twoTouchTimeout m g =
      and_then (pushEvent GestureStart (g\<lparr>gh_twoTouch := False, gh_state := s\<rparr>)) (pushEvent GestureMove)"
    by blast
  obtain ges where ges: "stateToGesture s = Some ges" "ges \<in> {TwoDrag, Pinch}"
    using s by (auto simp: stateToGesture_def gh_consts)
  obtain e1 where e1: "gesture_event_of s (gh_tracked g) GestureStart = Some e1" "gv_type e1 = GestureStart" "gv_gesture e1 = ges"
    using gesture_event_exists [OF t ges(1)] by blast
  obtain e2 where e2: "gesture_event_of s (gh_tracked g) GestureMove = Some e2" "gv_type e2 = GestureMove" "gv_gesture e2 = ges"
    using gesture_event_exists [OF t ges(1)] by blast
  have "twoTouchTimeout m g = (g\<lparr>gh_state := s, gh_twoTouch := False, gh_events := gh_events g @ [e1, e2]\<rparr>, Inr ())"
    using run e1(1) e2(1) g by (simp add: pushEvent_def and_then_def)
  moreover have "s \<in> {32, 64}" using s by (simp add: gh_consts)
  ultimately show ?thesis using that [of s ges e1 e2] ges e1 e2 by blast
qed

lemma both_up:
  assumes g: "gh_target g" "gh_state g \<in> {32, 64}" "gh_ignored g = []" "\<not> gh_waitingRelease g" and ges: "stateToGesture (gh_state g) = Some ges"
    and t: "gh_tracked g = [p, q]" "tc_active p" "tc_active q" "tc_id p = a" "tc_id q = b" "a \<noteq> b"
  obtains e where "run_gestures m [touch_up (t4, b), touch_up (t5, a)] g =
      (g\<lparr>gh_state := GH_INITSTATE, gh_tracked := [], gh_events := gh_events g @ [e]\<rparr>, Inr ())"
    "gv_type e = GestureEnd" "gv_gesture e = ges"
proof -
  obtain e where e: "gesture_event_of (gh_state g) (gh_tracked g) GestureEnd = Some e" "gv_type e = GestureEnd" "gv_gesture e = ges"
    using gesture_event_exists [OF _ ges, of "gh_tracked g"] t(1) by auto
  have "hasDetectedGesture g" using g(2) by (intro detected_states(2)) auto
  then have "touchEnd t4 b g =
      (g\<lparr>gh_state := GH_NOGESTURE, gh_tracked := [], gh_ignored := [a], gh_events := gh_events g @ [e]\<rparr>, Inr ())"
    using e g t by (simp add: touchEnd_def stop_detection_def end_gesture_def and_then_def pushEvent_def forget_touches_def Let_def)
  then show ?thesis
    using g(3,4) by (intro that [OF _ e(2,3)]) (simp add: and_then_def touchEnd_def Let_def)
qed

lemma and_then_ok: "and_then (g, Inr u) f = f g"
  by (simp add: and_then_def)

text \<open>
  C34. The timer that decides a two finger gesture leaves its identifier set when it fires. Two fingers are put down
  together, one moves far and the other stays, the timer fires and both are lifted: that is one two finger drag or pinch,
  started, moved and ended. The tap after it, whenever it comes, then gives no event at all, and only that sets the
  identifier back.
\<close>

theorem stale_timer_swallows_tap:
  assumes g: "idle g" "gh_target g" "\<not> gh_twoTouchTimeoutId g" and ab: "a \<noteq> b" and together: "t2 - t1 \<le> 250"
    and far: "50 \<le> jm_hypot m (x3 - x2) (y3 - y2)" and still: "jm_hypot m 0 0 = 0"
  shows "\<exists>g' ges. run_gestures m [touch_down (t1, a, x1, y1), touch_down (t2, b, x2, y2), GTouch t3 TouchMove b x3 y3, GTwoTouch,
      touch_up (t4, b), touch_up (t5, a), touch_down (t6, c, x6, y6), touch_up (t7, c)] g = (g', Inr ()) \<and>
    idle g' \<and> \<not> gh_twoTouchTimeoutId g' \<and> ges \<in> {TwoDrag, Pinch} \<and> map (\<lambda>e. (gv_type e, gv_gesture e)) (gh_events g') =
      map (\<lambda>e. (gv_type e, gv_gesture e)) (gh_events g) @ [(GestureStart, ges), (GestureMove, ges), (GestureEnd, ges)]"
proof -
  let ?s = "[(t1, a, x1, y1), (t2, b, x2, y2)]"
  have down: "run_gestures m [touch_down (t1, a, x1, y1), touch_down (t2, b, x2, y2)] g = (touching ?s g, Inr ())"
  proof -
    have "fst s - fst (hd ?s) \<le> GH_MULTITOUCH_TIMEOUT" if "s \<in> set ?s" for s
      using that together by (auto simp: gh_consts)
    then show ?thesis using touches_start [of g ?s m] g(1) by simp
  qed
  obtain t where t: "touchMove m b x3 y3 (touching ?s g) =
      (g\<lparr>gh_state := 96, gh_tracked := [fresh_touch (t1, a, x1, y1), t], gh_twoTouchTimeoutId := True, gh_twoTouch := True\<rparr>, Inr ())"
    "tc_id t = b" "tc_active t"
    using two_down [OF g ab far still] by blast
  let ?g2 = "g\<lparr>gh_state := 96, gh_tracked := [fresh_touch (t1, a, x1, y1), t], gh_twoTouchTimeoutId := True, gh_twoTouch := True\<rparr>"
  obtain s e1 e2 ges where s: "s \<in> {32, 64}" "stateToGesture s = Some ges" "ges \<in> {TwoDrag, Pinch}"
    "twoTouchTimeout m ?g2 = (?g2\<lparr>gh_state := s, gh_twoTouch := False, gh_events := gh_events ?g2 @ [e1, e2]\<rparr>, Inr ())"
    "gv_type e1 = GestureStart" "gv_gesture e1 = ges" "gv_type e2 = GestureMove" "gv_gesture e2 = ges"
  proof -
    have "gh_target ?g2" and "gh_tracked ?g2 \<noteq> []" using g(2) by simp_all
    then show ?thesis by (rule timer_decides [of ?g2 m]) (rule that)
  qed
  let ?g3 = "?g2\<lparr>gh_state := s, gh_twoTouch := False, gh_events := gh_events ?g2 @ [e1, e2]\<rparr>"
  have decide: "run_gestures m [GTouch t3 TouchMove b x3 y3, GTwoTouch] (touching ?s g) = (?g3, Inr ())"
    using t(1) s(4) by (simp add: and_then_def gh_step_def [of _ _ GTwoTouch])
  obtain e3 where e3: "run_gestures m [touch_up (t4, b), touch_up (t5, a)] ?g3 =
      (?g3\<lparr>gh_state := GH_INITSTATE, gh_tracked := [], gh_events := gh_events ?g3 @ [e3]\<rparr>, Inr ())"
    "gv_type e3 = GestureEnd" "gv_gesture e3 = ges"
    using both_up [of ?g3 ges "fresh_touch (t1, a, x1, y1)" t a b m t4 t5] g s(1,2) t(2,3) ab
    by (auto simp: idle_def fresh_touch_def)
  let ?g4 = "?g3\<lparr>gh_state := GH_INITSTATE, gh_tracked := [], gh_events := gh_events ?g3 @ [e3]\<rparr>"
  obtain g' where g': "run_gestures m [touch_down (t6, c, x6, y6), touch_up (t7, c)] ?g4 = (g', Inr ())" "idle g'"
    "gh_events g' = gh_events ?g4" "\<not> gh_twoTouchTimeoutId g'"
    using tap_lost_while_id_set [of ?g4 m t6 c x6 y6 t7] g by (auto simp: idle_def)
  have "run_gestures m ([touch_down (t1, a, x1, y1), touch_down (t2, b, x2, y2)] @ [GTouch t3 TouchMove b x3 y3, GTwoTouch] @
      [touch_up (t4, b), touch_up (t5, a)] @ [touch_down (t6, c, x6, y6), touch_up (t7, c)]) g = (g', Inr ())"
    by (simp only: run_gestures_append down decide e3(1) g'(1) and_then_ok)
  then show ?thesis using g' s e3 by (intro exI [of _ g'] exI [of _ ges]) auto
qed

lemma idle_new: "idle (attach new_GestureHandler)"
  by (simp add: idle_def attach_def detach_def new_GestureHandler_def)

theorem taps_recognised_witness:
  "\<exists>g'. run_gestures sample_math (map touch_down [(0, 1, 10, 20), (30, 2, 30, 20)] @ map touch_up [(100, 2), (120, 1)])
     (attach new_GestureHandler) = (g', Inr ()) \<and>
     map (\<lambda>ev. (gv_type ev, gv_gesture ev, gv_x ev, gv_y ev)) (gh_events g') = [(GestureStart, TwoTap, 20, 20), (GestureEnd, TwoTap, 20, 20)]"
proof -
  have g: "gh_target (attach new_GestureHandler)" "\<not> gh_twoTouchTimeoutId (attach new_GestureHandler)"
    "holding (gh_events (attach new_GestureHandler)) = Free" "gh_events (attach new_GestureHandler) = []"
    by (simp_all add: attach_def detach_def new_GestureHandler_def)
  have "\<exists>g'. run_gestures sample_math (map touch_down [(0, 1, 10, 20), (30, 2, 30, 20)] @ map touch_up [(100, 2), (120, 1)])
     (attach new_GestureHandler) = (g', Inr ()) \<and> idle g' \<and> gh_events g' = gh_events (attach new_GestureHandler) @
      [tap_event [(0, 1, 10, 20), (30, 2, 30, 20)] GestureStart, tap_event [(0, 1, 10, 20), (30, 2, 30, 20)] GestureEnd]"
    by (rule taps_recognised [OF idle_new g(1-3)]) auto
  then show ?thesis using g(4) by (auto simp: tap_event_def tap_of_def)
qed

theorem stale_timer_swallows_tap_witness:
  "\<exists>g' ges. run_gestures sample_math [touch_down (0, 1, 100, 0), touch_down (10, 2, 0, 0), GTouch 30 TouchMove 2 (-60) 0, GTwoTouch,
      touch_up (200, 2), touch_up (210, 1), touch_down (1000, 1, 10, 10), touch_up (1100, 1)] (attach new_GestureHandler) = (g', Inr ()) \<and>
    map (\<lambda>e. (gv_type e, gv_gesture e)) (gh_events g') = [(GestureStart, ges), (GestureMove, ges), (GestureEnd, ges)]"
proof -
  have g: "gh_target (attach new_GestureHandler)" "\<not> gh_twoTouchTimeoutId (attach new_GestureHandler)"
    "gh_events (attach new_GestureHandler) = []"
    by (simp_all add: attach_def detach_def new_GestureHandler_def)
  show ?thesis
    using stale_timer_swallows_tap [OF idle_new g(1,2), of 1 2 10 0 sample_math "- 60" 0 0 0 100 0 30 200 210 1000 1 10 10 1100] g(3)
    by (auto simp: sample_math_def)
qed

text \<open>
  One of two fingers is lifted, the other then moves far: the timer starts a two finger gesture for it, and lifting it
  starts the gesture once more.
\<close>

lemma gesture_started_twice:
  "map_option (\<lambda>g. map gv_type (gh_events g)) (run_with gh_possible (\<lambda>g ev. fst (gh_step sample_math g ev)) (attach new_GestureHandler)
     [GTouch 0 TouchStart 1 0 0, GTouch 10 TouchStart 2 100 0, GTouch 100 TouchEnd 1 0 0, GTouch 150 TouchMove 2 180 0, GTwoTouch,
      GTouch 250 TouchEnd 2 180 0]) = Some [GestureStart, GestureMove, GestureStart, GestureEnd]"
  by code_simp

end
