(* ===== verification/Rfb_Gestures.thy ===== *)
theory Rfb_Gestures
  imports Gesture_Fingers Rfb_Client
begin

text \<open>
  What the RFB object makes of gestures (\<open>rfb.js\<close>): taps are clicks, drags and long presses hold a button, two finger gestures
  turn the wheel. Moving the drawn cursor is left out. The listener runs on every event the gesture handler dispatches; what
  it throws is reported by the browser and does not reach the handler.
\<close>

section \<open>State\<close>

definition GESTURE_ZOOMSENS :: rat where "GESTURE_ZOOMSENS = 75"
definition GESTURE_SCRLSENS :: rat where "GESTURE_SCRLSENS = 50"
definition DOUBLE_TAP_TIMEOUT :: int where "DOUBLE_TAP_TIMEOUT = 1000"
definition DOUBLE_TAP_THRESHOLD :: rat where "DOUBLE_TAP_THRESHOLD = 50"

record 'd touch_rfb =
  tr_rfb :: "'d rfb"
  tr_gestureLastTapTime :: "int option"
  tr_gestureFirstDoubleTapEv :: "gesture_event option"
  tr_gestureLastMagnitudeX :: rat
  tr_gestureLastMagnitudeY :: rat

definition new_touch_rfb :: "'d rfb \<Rightarrow> 'd touch_rfb" where
  "new_touch_rfb r = \<lparr>tr_rfb = r, tr_gestureLastTapTime = None, tr_gestureFirstDoubleTapEv = None, tr_gestureLastMagnitudeX = 0,
     tr_gestureLastMagnitudeY = 0\<rparr>"

type_synonym 'd touched = "'d touch_rfb \<times> (js_error + unit)"

definition on_rfb :: "('d rfb \<Rightarrow> 'd rfb \<times> (js_error + unit)) \<Rightarrow> 'd touch_rfb \<Rightarrow> 'd touched" where
  "on_rfb f t = (case f (tr_rfb t) of (r, res) \<Rightarrow> (t\<lparr>tr_rfb := r\<rparr>, res))"

definition seq :: "'d touched \<Rightarrow> ('d touch_rfb \<Rightarrow> 'd touched) \<Rightarrow> 'd touched" where
  "seq m f = (case m of (t, Inl e) \<Rightarrow> (t, Inl e) | (t, Inr _) \<Rightarrow> f t)"

definition button :: "rat \<times> rat \<Rightarrow> int \<Rightarrow> 'd touch_rfb \<Rightarrow> 'd touched" where
  "button pos bmask = on_rfb (\<lambda>r. handleMouseButton r (fst pos) (snd pos) bmask)"

text \<open>A button pressed and released.\<close>

definition click :: "rat \<times> rat \<Rightarrow> int \<Rightarrow> 'd touch_rfb \<Rightarrow> 'd touched" where
  "click pos bmask t = seq (button pos bmask t) (button pos 0)"

definition fakeMouseMove :: "env \<Rightarrow> rat \<times> rat \<Rightarrow> 'd touch_rfb \<Rightarrow> 'd touched" where
  "fakeMouseMove env pos = on_rfb (\<lambda>r. handleMouseMove env r (fst pos) (snd pos))"

section \<open>Taps\<close>

definition element_pos :: "bounds \<Rightarrow> gesture_event \<Rightarrow> rat \<times> rat" where
  "element_pos canvas ev = clientToElement (gv_x ev) (gv_y ev) canvas"

text \<open>The tap this one repeats, if it does; otherwise it is the first itself.\<close>

definition first_tap :: "env \<Rightarrow> js_math \<Rightarrow> gesture_event \<Rightarrow> 'd touch_rfb \<Rightarrow> gesture_event" where
  "first_tap env m ev t =
     (case (tr_gestureLastTapTime t, tr_gestureFirstDoubleTapEv t) of
        (Some time, Some first) \<Rightarrow>
          if env_now env - time < DOUBLE_TAP_TIMEOUT \<and> gv_gesture first = gv_gesture ev \<and>
             jm_hypot m (gv_x first - gv_x ev) (gv_y first - gv_y ev) < DOUBLE_TAP_THRESHOLD
          then first else ev
      | _ \<Rightarrow> ev)"

definition handleTapEvent :: "env \<Rightarrow> js_math \<Rightarrow> bounds \<Rightarrow> gesture_event \<Rightarrow> int \<Rightarrow> 'd touch_rfb \<Rightarrow> 'd touched" where
  "handleTapEvent env m canvas ev bmask t =
     (let first = first_tap env m ev t;
          pos = element_pos canvas first;
          t = t\<lparr>tr_gestureFirstDoubleTapEv := Some first, tr_gestureLastTapTime := Some (env_now env)\<rparr>
      in seq (fakeMouseMove env pos t) (click pos bmask))"

section \<open>Scrolling and zooming\<close>

text \<open>
  The \<open>while\<close> loops: clicks of a wheel button until the magnitude is within the sensitivity, which is one of the two
  constants and positive. The second component is the last magnitude.
\<close>

function wheel_loop :: "bool \<Rightarrow> rat \<Rightarrow> int \<Rightarrow> rat \<times> rat \<Rightarrow> rat \<Rightarrow> rat \<Rightarrow> 'd touch_rfb \<Rightarrow> rat \<times> 'd touched" where
  "wheel_loop up sens bmask pos magnitude lst t =
     (if sens > 0 \<and> (if up then magnitude - lst > sens else magnitude - lst < - sens)
      then (case click pos bmask t of
              (t, Inl e) \<Rightarrow> (lst, t, Inl e)
            | (t, Inr _) \<Rightarrow> wheel_loop up sens bmask pos magnitude (if up then lst + sens else lst - sens) t)
      else (lst, t, Inr ()))"
  by pat_completeness auto

termination
proof (relation "measure (\<lambda>(up, sens, bmask, pos, magnitude, lst, t). nat \<lceil>\<bar>magnitude - lst\<bar> / sens\<rceil>)")
  fix sens magnitude lst :: rat and upw :: bool
  have step: "nat \<lceil>(d - s) / s\<rceil> < nat \<lceil>d / s\<rceil>" if "0 < s" "s < d" for s d :: rat
  proof -
    have "(d - s) / s = d / s - 1" using that by (simp add: diff_divide_distrib)
    moreover have "0 < \<lceil>d / s\<rceil>" using that by simp
    ultimately show ?thesis by simp
  qed
  fix bmask :: int and pos :: "rat \<times> rat" and t t' :: "'a touch_rfb"
  assume c: "0 < sens \<and> (if upw then sens < magnitude - lst else magnitude - lst < - sens)"
  show "((upw, sens, bmask, pos, magnitude, if upw then lst + sens else lst - sens, t'), upw, sens, bmask, pos, magnitude, lst, t)
    \<in> measure (\<lambda>(up, sens, bmask, pos, magnitude, lst, t). nat \<lceil>\<bar>magnitude - lst\<bar> / sens\<rceil>)"
    using c step [of sens "magnitude - lst"] step [of sens "lst - magnitude"] by (cases upw) (simp_all add: algebra_simps)
qed simp

declare wheel_loop.simps [simp del]

definition swipe_y :: "rat \<times> rat \<Rightarrow> rat \<Rightarrow> bool \<Rightarrow> int \<Rightarrow> 'd touch_rfb \<Rightarrow> 'd touched" where
  "swipe_y pos magnitude up bmask t =
     (case wheel_loop up GESTURE_SCRLSENS bmask pos magnitude (tr_gestureLastMagnitudeY t) t of
        (lst, t, res) \<Rightarrow> (t\<lparr>tr_gestureLastMagnitudeY := lst\<rparr>, res))"

definition swipe_x :: "rat \<Rightarrow> rat \<times> rat \<Rightarrow> rat \<Rightarrow> bool \<Rightarrow> int \<Rightarrow> 'd touch_rfb \<Rightarrow> 'd touched" where
  "swipe_x sens pos magnitude up bmask t =
     (case wheel_loop up sens bmask pos magnitude (tr_gestureLastMagnitudeX t) t of
        (lst, t, res) \<Rightarrow> (t\<lparr>tr_gestureLastMagnitudeX := lst\<rparr>, res))"

definition scroll :: "env \<Rightarrow> rat \<times> rat \<Rightarrow> rat \<times> rat \<Rightarrow> 'd touch_rfb \<Rightarrow> 'd touched" where
  "scroll env pos mag t =
     (let y = swipe_y pos (snd mag); x = swipe_x GESTURE_SCRLSENS pos (fst mag)
      in seq (seq (seq (seq (fakeMouseMove env pos t) (y True 0x8)) (y False 0x10)) (x True 0x20)) (x False 0x40))"

text \<open>
  \<open>_handleKeyEvent\<close> as the pinch calls it, without the two lock states: they are undefined, which is neither null nor the
  remote state.
\<close>

definition controlKey :: "bool \<Rightarrow> 'd rfb \<Rightarrow> 'd rfb" where
  "controlKey pressed r =
     (let r = (if rf_remoteCapsLock r \<noteq> None \<and> pressed
               then (sendKey1 (sendKey1 r XK_Caps_Lock ''CapsLock'' True) XK_Caps_Lock ''CapsLock'' False)\<lparr>rf_remoteCapsLock := None\<rparr>
               else r);
          r = (if rf_remoteNumLock r \<noteq> None \<and> pressed
               then (sendKey1 (sendKey1 r XK_Num_Lock ''NumLock'' True) XK_Num_Lock ''NumLock'' False)\<lparr>rf_remoteNumLock := None\<rparr>
               else r)
      in sendKey1 r XK_Control_L ''ControlLeft'' pressed)"

definition set_rfb :: "('d rfb \<Rightarrow> 'd rfb) \<Rightarrow> 'd touch_rfb \<Rightarrow> 'd touched" where
  "set_rfb f t = (t\<lparr>tr_rfb := f (tr_rfb t)\<rparr>, Inr ())"

definition zoom :: "env \<Rightarrow> js_math \<Rightarrow> rat \<times> rat \<Rightarrow> rat \<times> rat \<Rightarrow> 'd touch_rfb \<Rightarrow> 'd touched" where
  "zoom env m pos mag t =
     (let magnitude = jm_hypot m (fst mag) (snd mag); turn = swipe_x GESTURE_ZOOMSENS pos magnitude
      in seq (seq (fakeMouseMove env pos t)
           (\<lambda>t. if \<bar>magnitude - tr_gestureLastMagnitudeX t\<bar> > GESTURE_ZOOMSENS
                then seq (seq (set_rfb (controlKey True) t) (turn True 0x8)) (turn False 0x10) else (t, Inr ())))
         (set_rfb (controlKey False)))"

section \<open>Gestures\<close>

definition press_at :: "env \<Rightarrow> rat \<times> rat \<Rightarrow> int \<Rightarrow> 'd touch_rfb \<Rightarrow> 'd touched" where
  "press_at env pos bmask t = seq (fakeMouseMove env pos t) (button pos bmask)"

definition gesture_start :: "env \<Rightarrow> js_math \<Rightarrow> bounds \<Rightarrow> gesture_event \<Rightarrow> 'd touch_rfb \<Rightarrow> 'd touched" where
  "gesture_start env m canvas ev t =
     (let pos = element_pos canvas ev; mag = (case gv_magnitude ev of None \<Rightarrow> (0, 0) | Some mag \<Rightarrow> mag)
      in case gv_gesture ev of
           OneTap \<Rightarrow> handleTapEvent env m canvas ev 0x1 t
         | TwoTap \<Rightarrow> handleTapEvent env m canvas ev 0x4 t
         | ThreeTap \<Rightarrow> handleTapEvent env m canvas ev 0x2 t
         | Drag \<Rightarrow>
             if rf_dragViewport (tr_rfb t)
             then set_rfb (\<lambda>r. r\<lparr>rf_viewportHasMoved := False, rf_viewportDragging := True, rf_viewportDragPos := pos\<rparr>) t
             else press_at env pos 0x1 t
         | LongPress \<Rightarrow>
             if rf_dragViewport (tr_rfb t) then set_rfb (\<lambda>r. r\<lparr>rf_viewportHasMoved := False, rf_viewportDragPos := pos\<rparr>) t
             else press_at env pos 0x4 t
         | TwoDrag \<Rightarrow> fakeMouseMove env pos (t\<lparr>tr_gestureLastMagnitudeX := fst mag, tr_gestureLastMagnitudeY := snd mag\<rparr>)
         | Pinch \<Rightarrow> fakeMouseMove env pos (t\<lparr>tr_gestureLastMagnitudeX := jm_hypot m (fst mag) (snd mag)\<rparr>))"

definition drag_viewport :: "rat \<Rightarrow> rat \<times> rat \<Rightarrow> 'd rfb \<Rightarrow> 'd rfb \<times> (js_error + unit)" where
  "drag_viewport dragThreshold pos r =
     (let r = r\<lparr>rf_viewportDragging := True\<rparr>;
          deltaX = fst (rf_viewportDragPos r) - fst pos;
          deltaY = snd (rf_viewportDragPos r) - snd pos
      in if rf_viewportHasMoved r \<or> \<bar>deltaX\<bar> > dragThreshold \<or> \<bar>deltaY\<bar> > dragThreshold
         then (case viewportChangePos (rf_display r) deltaX deltaY of
                 (d, res) \<Rightarrow> (r\<lparr>rf_viewportHasMoved := True, rf_viewportDragPos := pos, rf_display := d\<rparr>, res))
         else (r, Inr ()))"

definition gesture_move :: "env \<Rightarrow> js_math \<Rightarrow> rat \<Rightarrow> bounds \<Rightarrow> gesture_event \<Rightarrow> 'd touch_rfb \<Rightarrow> 'd touched" where
  "gesture_move env m dragThreshold canvas ev t =
     (let pos = element_pos canvas ev; mag = (case gv_magnitude ev of None \<Rightarrow> (0, 0) | Some mag \<Rightarrow> mag);
          drag = (if rf_dragViewport (tr_rfb t) then on_rfb (drag_viewport dragThreshold pos) t else fakeMouseMove env pos t)
      in case gv_gesture ev of
           OneTap \<Rightarrow> (t, Inr ()) | TwoTap \<Rightarrow> (t, Inr ()) | ThreeTap \<Rightarrow> (t, Inr ())
         | Drag \<Rightarrow> drag | LongPress \<Rightarrow> drag
         | TwoDrag \<Rightarrow> scroll env pos mag t
         | Pinch \<Rightarrow> zoom env m pos mag t)"

definition gesture_end :: "env \<Rightarrow> bounds \<Rightarrow> gesture_event \<Rightarrow> 'd touch_rfb \<Rightarrow> 'd touched" where
  "gesture_end env canvas ev t =
     (let pos = element_pos canvas ev
      in case gv_gesture ev of
           Drag \<Rightarrow>
             if rf_dragViewport (tr_rfb t) then set_rfb (rf_viewportDragging_update (\<lambda>_. False)) t else press_at env pos 0 t
         | LongPress \<Rightarrow>
             if rf_viewportHasMoved (tr_rfb t) then (t, Inr ())
             else if rf_dragViewport (tr_rfb t)
             then seq (seq (fakeMouseMove env pos t) (click pos 0x4)) (set_rfb (rf_viewportDragging_update (\<lambda>_. False)))
             else press_at env pos 0 t
         | _ \<Rightarrow> (t, Inr ()))"

definition handleGesture :: "env \<Rightarrow> js_math \<Rightarrow> rat \<Rightarrow> bounds \<Rightarrow> gesture_event \<Rightarrow> 'd touch_rfb \<Rightarrow> 'd touched" where
  "handleGesture env m dragThreshold canvas ev t =
     (case gv_type ev of
        GestureStart \<Rightarrow> gesture_start env m canvas ev t
      | GestureMove \<Rightarrow> gesture_move env m dragThreshold canvas ev t
      | GestureEnd \<Rightarrow> gesture_end env canvas ev t)"

text \<open>Fingers, handler and listener together.\<close>

record 'd touch_screen =
  ts_handler :: gesture_handler
  ts_rfb :: "'d touch_rfb"

definition deliver :: "env \<Rightarrow> js_math \<Rightarrow> rat \<Rightarrow> bounds \<Rightarrow> gesture_event list \<Rightarrow> 'd touch_rfb \<Rightarrow> 'd touch_rfb" where
  "deliver env m dragThreshold canvas evs t = foldl (\<lambda>t ev. fst (handleGesture env m dragThreshold canvas ev t)) t evs"

definition touch_step :: "js_math \<Rightarrow> rat \<Rightarrow> bounds \<Rightarrow> 'd touch_screen \<Rightarrow> env \<times> gh_event \<Rightarrow> 'd touch_screen" where
  "touch_step m dragThreshold canvas s e =
     (let g = fst (gh_step m (ts_handler s) (snd e));
          evs = drop (length (gh_events (ts_handler s))) (gh_events g)
      in \<lparr>ts_handler = g, ts_rfb = deliver (fst e) m dragThreshold canvas evs (ts_rfb s)\<rparr>)"

section \<open>Buttons\<close>

text \<open>The masks gestures use, and no dragging of the viewport.\<close>

definition one_button :: "int \<Rightarrow> bool" where
  "one_button b \<longleftrightarrow> b \<in> {0, 1, 2, 4, 8, 16, 32, 64}"

definition quiet :: "'d touch_rfb \<Rightarrow> bool" where
  "quiet t \<longleftrightarrow> \<not> rf_dragViewport (tr_rfb t) \<and> \<not> rf_viewportHasMoved (tr_rfb t) \<and> one_button (rf_mouseButtonMask (tr_rfb t))"

definition gives :: "int \<Rightarrow> 'd touched \<Rightarrow> bool" where
  "gives b res \<longleftrightarrow> snd res = Inr () \<and> rf_mouseButtonMask (tr_rfb (fst res)) = b \<and> quiet (fst res)"

definition keeps_drag :: "'d rfb \<Rightarrow> 'd rfb \<Rightarrow> bool" where
  "keeps_drag r r' \<longleftrightarrow> rf_dragViewport r' = rf_dragViewport r \<and> rf_viewportHasMoved r' = rf_viewportHasMoved r"

lemma legal_mask: "one_button b \<Longrightarrow> js_and b 0x8000 = 0 \<and> js_and b 0x7f80 = 0"
  by (auto simp: one_button_def js_and_def ToInt32_def)

lemma sendMouse_ok:
  "one_button b \<Longrightarrow> snd (sendMouse r x y b) = Inr () \<and> rf_mouseButtonMask (fst (sendMouse r x y b)) = rf_mouseButtonMask r \<and>
     keeps_drag r (fst (sendMouse r x y b)) \<and> rf_mouseMoveTimer (fst (sendMouse r x y b)) = rf_mouseMoveTimer r"
  using legal_mask by (simp add: sendMouse_def with_sock_def keeps_drag_def)

lemma handleMouseButton_ok:
  assumes "one_button (rf_mouseButtonMask r)" and "one_button b"
  shows "snd (handleMouseButton r x y b) = Inr () \<and> rf_mouseButtonMask (fst (handleMouseButton r x y b)) = b \<and>
    keeps_drag r (fst (handleMouseButton r x y b))"
proof -
  obtain r1 where r1: "flushMouseMoveTimer r x y = (r1, Inr ())" "keeps_drag r r1"
    using sendMouse_ok [OF assms(1), of "r\<lparr>rf_mouseMoveTimer := None\<rparr>" x y]
    by (cases "flushMouseMoveTimer r x y") (auto simp: flushMouseMoveTimer_def keeps_drag_def split: if_splits)
  then show ?thesis
    using sendMouse_ok [OF assms(2), of "r1\<lparr>rf_mouseButtonMask := b\<rparr>" x y] by (simp add: handleMouseButton_def keeps_drag_def)
qed

lemma handleMouseMove_ok:
  assumes "one_button (rf_mouseButtonMask r)"
  shows "snd (handleMouseMove env r x y) = Inr () \<and> rf_mouseButtonMask (fst (handleMouseMove env r x y)) = rf_mouseButtonMask r \<and>
    keeps_drag r (fst (handleMouseMove env r x y))"
  using sendMouse_ok [OF assms, of "r\<lparr>rf_mousePos := (x, y)\<rparr>" x y]
  by (auto simp: handleMouseMove_def keeps_drag_def Let_def split: prod.splits sum.splits)

lemma seq_gives: "gives b m \<Longrightarrow> (\<And>t. quiet t \<Longrightarrow> rf_mouseButtonMask (tr_rfb t) = b \<Longrightarrow> gives c (f t)) \<Longrightarrow> gives c (seq m f)"
  by (auto simp: gives_def seq_def split: prod.splits sum.splits)

lemma fakeMouseMove_gives: "quiet t \<Longrightarrow> rf_mouseButtonMask (tr_rfb t) = b \<Longrightarrow> gives b (fakeMouseMove env pos t)"
  using handleMouseMove_ok [of "tr_rfb t" env "fst pos" "snd pos"]
  by (auto simp: fakeMouseMove_def on_rfb_def quiet_def gives_def keeps_drag_def split: prod.splits)

lemma button_gives: "quiet t \<Longrightarrow> one_button b \<Longrightarrow> gives b (button pos b t)"
  using handleMouseButton_ok [of "tr_rfb t" b "fst pos" "snd pos"]
  by (auto simp: button_def on_rfb_def quiet_def gives_def keeps_drag_def split: prod.splits)

lemma one_button_simps [simp]:
  "one_button 0" "one_button 1" "one_button 2" "one_button 4" "one_button 8" "one_button 16" "one_button 32" "one_button 64"
  by (simp_all add: one_button_def)

lemma click_gives: "quiet t \<Longrightarrow> one_button b \<Longrightarrow> gives 0 (click pos b t)"
  unfolding click_def by (intro seq_gives [where b = b] button_gives) simp_all

lemma press_gives: "quiet t \<Longrightarrow> one_button b \<Longrightarrow> gives b (press_at env pos b t)"
  unfolding press_at_def by (rule seq_gives [OF fakeMouseMove_gives]) (simp_all add: button_gives)

lemma wheel_loop_gives:
  "quiet t \<Longrightarrow> rf_mouseButtonMask (tr_rfb t) = 0 \<Longrightarrow> one_button bmask \<Longrightarrow>
     gives 0 (snd (wheel_loop up sens bmask pos magnitude lst t))"
proof (induction up sens bmask pos magnitude lst t rule: wheel_loop.induct)
  case (1 up sens bmask pos magnitude lst t)
  show ?case
  proof (cases "sens > 0 \<and> (if up then magnitude - lst > sens else magnitude - lst < - sens)")
    case False
    then show ?thesis using 1(2,3) by (subst wheel_loop.simps) (auto simp: gives_def)
  next
    case True
    obtain t' where t': "click pos bmask t = (t', Inr ())" "quiet t'" "rf_mouseButtonMask (tr_rfb t') = 0"
      using click_gives [OF 1(2,4), of pos] by (cases "click pos bmask t") (auto simp: gives_def)
    then show ?thesis using 1(1) [OF True] True 1(4) by (subst wheel_loop.simps) simp
  qed
qed

lemma swipe_gives:
  assumes "quiet t" and "rf_mouseButtonMask (tr_rfb t) = 0" and "one_button bmask"
  shows "gives 0 (swipe_y pos magnitude up bmask t)" and "gives 0 (swipe_x sens pos magnitude up bmask t)"
  using wheel_loop_gives [OF assms, of up GESTURE_SCRLSENS pos magnitude "tr_gestureLastMagnitudeY t"]
    wheel_loop_gives [OF assms, of up sens pos magnitude "tr_gestureLastMagnitudeX t"]
  by (auto simp: swipe_y_def swipe_x_def gives_def quiet_def split: prod.splits)

lemma sendKey1_drag [simp]:
  "rf_dragViewport (sendKey1 r keysym code p) = rf_dragViewport r" "rf_viewportHasMoved (sendKey1 r keysym code p) = rf_viewportHasMoved r"
  "rf_mouseButtonMask (sendKey1 r keysym code p) = rf_mouseButtonMask r"
  by (simp_all add: sendKey1_def with_sock_def split: option.splits)

lemma controlKey_drag: "keeps_drag r (controlKey p r) \<and> rf_mouseButtonMask (controlKey p r) = rf_mouseButtonMask r"
  by (simp add: controlKey_def keeps_drag_def Let_def)

lemma control_gives: "quiet t \<Longrightarrow> rf_mouseButtonMask (tr_rfb t) = b \<Longrightarrow> gives b (set_rfb (controlKey p) t)"
  using controlKey_drag [of "tr_rfb t" p] by (simp add: set_rfb_def gives_def quiet_def keeps_drag_def)

lemma two_finger_gives:
  assumes "quiet t" and "rf_mouseButtonMask (tr_rfb t) = 0"
  shows "gives 0 (scroll env pos mag t)" and "gives 0 (zoom env m pos mag t)"
proof -
  show "gives 0 (scroll env pos mag t)"
    unfolding scroll_def Let_def using assms by (intro seq_gives [where b = 0] fakeMouseMove_gives swipe_gives) simp_all
  have "gives 0 (if c then seq (seq (set_rfb (controlKey True) t) (swipe_x s pos g True 8)) (swipe_x s pos g False 16) else (t, Inr ()))"
    if "quiet t" "rf_mouseButtonMask (tr_rfb t) = 0" for c s g and t :: "'a touch_rfb"
  proof (cases c)
    case True
    have "gives 0 (seq (seq (set_rfb (controlKey True) t) (swipe_x s pos g True 8)) (swipe_x s pos g False 16))"
      using that by (intro seq_gives [where b = 0] control_gives swipe_gives) simp_all
    then show ?thesis using True by simp
  next
    case False
    then show ?thesis using that by (simp add: gives_def)
  qed
  then show "gives 0 (zoom env m pos mag t)"
    unfolding zoom_def Let_def using assms by (intro seq_gives [where b = 0] fakeMouseMove_gives control_gives) simp_all
qed

text \<open>The button that the events say is held.\<close>

definition held_button :: "held \<Rightarrow> int" where
  "held_button h = (case h of Free \<Rightarrow> 0 | Holds ges \<Rightarrow> (if ges = Drag then 1 else 4) | Broken \<Rightarrow> 0)"

lemma tap_gives: "quiet t \<Longrightarrow> one_button b \<Longrightarrow> gives 0 (handleTapEvent env m canvas ev b t)"
  unfolding handleTapEvent_def Let_def
  by (rule seq_gives [OF fakeMouseMove_gives]) (simp_all add: click_gives, simp add: quiet_def)

lemma handleGesture_gives:
  assumes t: "quiet t" "rf_mouseButtonMask (tr_rfb t) = held_button h" and h: "h \<noteq> Broken" "holds h ev \<noteq> Broken"
  shows "gives (held_button (holds h ev)) (handleGesture env m d canvas ev t)"
proof -
  have stay: "gives (held_button h) (t, Inr ())" using t by (simp add: gives_def)
  have drag: "\<not> rf_dragViewport (tr_rfb t)" "\<not> rf_viewportHasMoved (tr_rfb t)" using t(1) by (simp_all add: quiet_def)
  note facts = press_gives [OF t(1)] fakeMouseMove_gives [OF t] stay tap_gives [OF t(1)] two_finger_gives [OF t(1)] drag
  have two: "gives 0 (fakeMouseMove env pos (t\<lparr>tr_gestureLastMagnitudeX := a\<rparr>))"
    "gives 0 (fakeMouseMove env pos (t\<lparr>tr_gestureLastMagnitudeX := a, tr_gestureLastMagnitudeY := c\<rparr>))" if "h = Free" for pos a c
    using t that by (auto intro!: fakeMouseMove_gives simp: quiet_def held_button_def)
  show ?thesis
  proof (cases "gv_type ev")
    case GestureStart
    then show ?thesis
      using h t facts two
      by (cases "gv_gesture ev") (auto simp: handleGesture_def gesture_start_def Let_def held_button_def split: if_splits)
  next
    case GestureMove
    then show ?thesis
      using h t facts
      by (cases "gv_gesture ev") (auto simp: handleGesture_def gesture_move_def Let_def held_button_def split: if_splits)
  next
    case GestureEnd
    then show ?thesis
      using h t facts
      by (cases "gv_gesture ev") (auto simp: handleGesture_def gesture_end_def Let_def held_button_def split: if_splits)
  qed
qed

lemma holds_broken: "foldl holds Broken evs = Broken"
  by (induction evs) (auto split: gesture_type.splits)

lemma deliver_gives:
  assumes "quiet t" "rf_mouseButtonMask (tr_rfb t) = held_button h" and "h \<noteq> Broken" and "foldl holds h evs \<noteq> Broken"
  shows "quiet (deliver env m d canvas evs t) \<and> rf_mouseButtonMask (tr_rfb (deliver env m d canvas evs t)) = held_button (foldl holds h evs)"
  using assms
proof (induction evs arbitrary: t h)
  case Nil
  then show ?case by (simp add: deliver_def)
next
  case (Cons ev evs)
  have n: "holds h ev \<noteq> Broken" using Cons.prems(4) holds_broken [of evs] by (auto simp del: holds.simps)
  have "gives (held_button (holds h ev)) (handleGesture env m d canvas ev t)"
    using handleGesture_gives [OF Cons.prems(1-3) n] .
  then show ?case
    using Cons.IH [of "fst (handleGesture env m d canvas ev t)" "holds h ev"] n Cons.prems(4)
    by (simp add: gives_def deliver_def del: holds.simps)
qed

text \<open>The handler only adds to the events.\<close>

definition grows :: "gesture_handler \<Rightarrow> gesture_handler \<Rightarrow> bool" where
  "grows g g' \<longleftrightarrow> (\<exists>evs. gh_events g' = gh_events g @ evs)"

lemma grows_refl: "gh_events g' = gh_events g \<Longrightarrow> grows g g'"
  by (simp add: grows_def)

lemma grows_trans: "grows g g1 \<Longrightarrow> grows g1 g2 \<Longrightarrow> grows g g2"
  by (auto simp: grows_def)

lemma pushEvent_grows: "grows g g1 \<Longrightarrow> grows g (fst (pushEvent type g1))"
  by (auto simp: pushEvent_def grows_def split: option.splits)

lemma and_then_grows: "grows g (fst r) \<Longrightarrow> (\<And>g'. grows g g' \<Longrightarrow> grows g (fst (f g'))) \<Longrightarrow> grows g (fst (and_then r f))"
  by (auto simp: and_then_def split: prod.splits sum.splits)

lemma if_grows: "grows g (fst a) \<Longrightarrow> grows g (fst b) \<Longrightarrow> grows g (fst (if c then a else b))"
  by simp

lemma done_grows: "grows g g1 \<Longrightarrow> grows g (fst (g1, res))"
  by simp

lemmas growth = if_grows and_then_grows pushEvent_grows done_grows

lemma quiet_changes [simp]:
  "gh_events (exclude b g) = gh_events g" "gh_events (stopLongpressTimeout g) = gh_events g" "gh_events (startLongpressTimeout g) = gh_events g"
  "gh_events (stopTwoTouchTimeout g) = gh_events g" "gh_events (startTwoTouchTimeout g) = gh_events g" "gh_events (forget_touches i g) = gh_events g"
  by (simp_all add: exclude_def stopLongpressTimeout_def startLongpressTimeout_def stopTwoTouchTimeout_def startTwoTouchTimeout_def
      forget_touches_def Let_def)

lemma quiet_steps [simp]:
  "gh_events (exclude_still g) = gh_events g" "gh_events (decide_two m t p g) = gh_events g" "gh_events (end_unrecognised now g) = gh_events g"
  by (simp_all add: exclude_still_def decide_two_def end_unrecognised_def Let_def)

lemma quiet_detection [simp]: "gh_events (stop_detection now g) = gh_events g"
  by (simp add: stop_detection_def Let_def)

lemma push_move_grows: "grows g g1 \<Longrightarrow> grows g (fst (push_move g1))"
  unfolding push_move_def by (intro growth)

lemma end_gesture_grows: "grows g g1 \<Longrightarrow> grows g (fst (end_gesture i g1))"
  unfolding end_gesture_def by (intro growth) (simp_all add: grows_def)

lemma release_touch_grows: "grows g g1 \<Longrightarrow> grows g (fst (release_touch now i g1))"
  unfolding release_touch_def Let_def by (intro growth end_gesture_grows) (auto simp: grows_def)

lemma touchMove_grows: "grows g (fst (touchMove m tid x y g))"
proof -
  have "grows g (fst (far_move m t g1))" if "grows g g1" for g1 t
    using that by (auto simp: far_move_def grows_def Let_def intro!: push_move_grows [unfolded grows_def] split: option.splits)
  then show ?thesis
    by (auto simp: touchMove_def Let_def grows_refl intro!: growth split: option.split)
qed

lemma touchEnd_grows: "grows g (fst (touchEnd now tid g))"
  unfolding touchEnd_def Let_def by (intro growth release_touch_grows end_gesture_grows) (simp_all add: grows_refl)

lemma twoTouchTimeout_grows: "grows g (fst (twoTouchTimeout m g))"
  by (auto simp: twoTouchTimeout_def Let_def grows_refl intro!: growth split: option.split)

lemma gh_step_grows: "grows g (fst (gh_step m g ev))"
proof (cases ev)
  case (GTouch now kind tid x y)
  have "gh_step m g ev = touch_handler m now kind (tid, x, y) g"
    using GTouch by (auto simp: gh_step_def and_then_def split: prod.splits sum.splits)
  moreover have "grows g (touchStart now tid x y g)" by (simp add: touchStart_def grows_refl Let_def)
  ultimately show ?thesis using touchMove_grows touchEnd_grows by (cases kind) (simp_all add: touch_handler_def)
qed (auto simp: gh_step_def longpressTimeout_def detach_def Let_def twoTouchTimeout_grows grows_refl intro!: growth)

section \<open>Fingers and buttons\<close>

definition touch_ok :: "'d touch_screen \<Rightarrow> bool" where
  "touch_ok s \<longleftrightarrow> gh_ok (ts_handler s) \<and> quiet (ts_rfb s) \<and>
     rf_mouseButtonMask (tr_rfb (ts_rfb s)) = held_button (holding (gh_events (ts_handler s)))"

lemma ok_not_broken: "gh_ok g \<Longrightarrow> holding (gh_events g) \<noteq> Broken"
  by (simp add: gh_ok_def held_gesture_def)

interpretation touched: kept "\<lambda>s e. gh_possible (ts_handler s) (snd e)" "touch_step m dragThreshold canvas" touch_ok for m dragThreshold canvas
proof
  fix s :: "'a touch_screen" and e :: "env \<times> gh_event"
  assume ok: "touch_ok s" and p: "gh_possible (ts_handler s) (snd e)"
  let ?g = "fst (gh_step m (ts_handler s) (snd e))"
  have g: "gh_ok ?g" using ok p gh_step_ok by (simp add: touch_ok_def)
  obtain evs where evs: "gh_events ?g = gh_events (ts_handler s) @ evs" using gh_step_grows unfolding grows_def by blast
  then have h: "holding (gh_events ?g) = foldl holds (holding (gh_events (ts_handler s))) evs" by (simp add: holding_def)
  show "touch_ok (touch_step m dragThreshold canvas s e)"
    using deliver_gives [of "ts_rfb s" "holding (gh_events (ts_handler s))" evs "fst e" m dragThreshold canvas] ok g evs h
      ok_not_broken [of "ts_handler s"] ok_not_broken [OF g]
    by (simp add: touch_ok_def touch_step_def Let_def)
qed

text \<open>
  C13. Whatever fingers do on the screen of an RFB object whose viewport is not dragged, the button the object holds is the one
  of the drag or long press in progress, and none is held when all fingers are lifted.
\<close>

theorem fingers_release_buttons:
  assumes "run_with (\<lambda>s e. gh_possible (ts_handler s) (snd e)) (touch_step m dragThreshold canvas)
      \<lparr>ts_handler = attach new_GestureHandler, ts_rfb = new_touch_rfb r\<rparr> evs = Some s"
    and "\<not> rf_dragViewport r" and "\<not> rf_viewportHasMoved r" and "rf_mouseButtonMask r = 0"
  shows "rf_mouseButtonMask (tr_rfb (ts_rfb s)) = held_button (holding (gh_events (ts_handler s))) \<and>
    (down (ts_handler s) = {} \<longrightarrow> rf_mouseButtonMask (tr_rfb (ts_rfb s)) = 0)"
proof -
  have "touch_ok \<lparr>ts_handler = attach new_GestureHandler, ts_rfb = new_touch_rfb r\<rparr>"
    using ok_new assms(2-) by (simp add: touch_ok_def quiet_def new_touch_rfb_def held_button_def attach_def detach_def new_GestureHandler_def)
  then have "touch_ok s" using touched.run_keeps [OF assms(1)] by blast
  then show ?thesis using no_finger_idle by (auto simp: touch_ok_def held_button_def)
qed


lemma touch_run:
  "run_with gh_possible (\<lambda>g ev. fst (gh_step m g ev)) (ts_handler s) evs = Some g \<Longrightarrow>
     \<exists>s'. run_with (\<lambda>s e. gh_possible (ts_handler s) (snd e)) (touch_step m d canvas) s (map (Pair env) evs) = Some s' \<and> ts_handler s' = g"
  by (induction evs arbitrary: s) (auto simp: touch_step_def Let_def split: if_splits)

definition sample_screen :: "unit touch_screen" where
  "sample_screen = \<lparr>ts_handler = attach new_GestureHandler, ts_rfb = new_touch_rfb (new_RFB () (new_Display 0 0 300 150)
     \<lparr>cr_username = None, cr_password = None, cr_target = None, cr_ardCredentials = None, cr_ardPublicKey = None\<rparr> True [] []
     (Some ''wss://pcenter/console'') None)\<rparr>"

definition sample_canvas :: bounds where
  "sample_canvas = \<lparr>bo_left = 0, bo_top = 0, bo_width = 300, bo_height = 150\<rparr>"

definition sample_env :: env where
  "sample_env = \<lparr>env_now = 0, env_screen = (300, 150), env_client = (300, 150), env_h264 = False\<rparr>"

text \<open>A finger drags, and is lifted.\<close>

definition sample_drag :: "gh_event list" where
  "sample_drag = [GTouch 0 TouchStart 1 10 10, GTouch 50 TouchMove 1 80 10]"

lemma sample_drag_run:
  "map_option (\<lambda>g. (holding (gh_events g), gh_possible g (GTouch 100 TouchEnd 1 80 10)))
     (run_with gh_possible (\<lambda>g ev. fst (gh_step sample_math g ev)) (attach new_GestureHandler) sample_drag) = Some (Holds Drag, True)"
  by code_simp

theorem fingers_release_buttons_witness:
  "\<exists>s. run_with (\<lambda>s e. gh_possible (ts_handler s) (snd e)) (touch_step sample_math 10 sample_canvas) sample_screen
      (map (Pair sample_env) sample_drag) = Some s \<and> rf_mouseButtonMask (tr_rfb (ts_rfb s)) = 1"
proof -
  obtain g where g: "run_with gh_possible (\<lambda>g ev. fst (gh_step sample_math g ev)) (ts_handler sample_screen) sample_drag = Some g"
      "holding (gh_events g) = Holds Drag"
    using sample_drag_run by (auto simp: sample_screen_def)
  obtain s where s: "run_with (\<lambda>s e. gh_possible (ts_handler s) (snd e)) (touch_step sample_math 10 sample_canvas) sample_screen
      (map (Pair sample_env) sample_drag) = Some s" "ts_handler s = g"
    using touch_run [OF g(1)] by blast
  have "rf_mouseButtonMask (tr_rfb (ts_rfb s)) = held_button (Holds Drag)"
    using fingers_release_buttons [OF s(1) [unfolded sample_screen_def]] s(2) g(2) by (simp add: new_RFB_def)
  then show ?thesis using s(1) by (auto simp: held_button_def)
qed

definition sample_longpress :: "gesture_type \<Rightarrow> gesture_event" where
  "sample_longpress type = \<lparr>gv_type = type, gv_gesture = LongPress, gv_x = 20, gv_y = 20, gv_magnitude = None\<rparr>"


end
