(* ===== verification/Console.thy ===== *)
theory Console
  imports Rfb_Lifecycle
begin

text \<open>
  The console of a guest, \<open>components/Console.tsx\<close> and \<open>pages/ConsolePage.tsx\<close>: it fetches a ticket,
  imports the client, creates an \<open>RFB\<close> object and shows its state from the events the object fires. This is
  where the web client meets the RFB client, so the properties rest on the life cycle of the RFB object. The module imported is
  the npm package \<open>@novnc/novnc\<close> (1.4.0 in \<open>package-lock.json\<close>), whose code is not in the repository; the object followed here
  is that of the copy the repository keeps under \<open>public/novnc\<close>.
\<close>

section \<open>State\<close>

datatype console_status = Connecting_status | Connected_status | Error_status | Closed_status

datatype console_error =
    InitError "string option"                \<comment> \<open>the message of an \<open>Error\<close>\<close>
  | Connection_lost
  | Security_error "js_string option"

datatype stage = FetchingTicket | ImportingModule string int | Live | Stopped

record console_view =
  cv_status :: console_status
  cv_error :: "console_error option"
  cv_mounted :: bool
  cv_container :: bool                       \<comment> \<open>\<open>containerRef.current\<close> is set\<close>
  cv_stage :: stage
  cv_rfb :: bool                             \<comment> \<open>\<open>rfbRef.current\<close> is set\<close>
  cv_focused :: nat                          \<comment> \<open>calls of \<open>focus\<close>\<close>
  cv_created :: nat                          \<comment> \<open>\<open>RFB\<close> objects created\<close>
  cv_disconnected :: nat                     \<comment> \<open>\<open>RFB\<close> objects told to disconnect\<close>

definition console_mount :: console_view where
  "console_mount = \<lparr>cv_status = Connecting_status, cv_error = None, cv_mounted = True, cv_container = True,
     cv_stage = FetchingTicket, cv_rfb = False, cv_focused = 0, cv_created = 0, cv_disconnected = 0\<rparr>"

section \<open>Operations\<close>

text \<open>A failed step shows its error, in the place of the container.\<close>

definition console_failed :: "console_view \<Rightarrow> string option \<Rightarrow> console_view" where
  "console_failed v e =
     (let v = v\<lparr>cv_stage := Stopped\<rparr>
      in if cv_mounted v
         then v\<lparr>cv_status := Error_status, cv_error := Some (InitError e), cv_container := False\<rparr> else v)"

definition on_ticket :: "console_view \<Rightarrow> string option + string \<times> int \<Rightarrow> console_view" where
  "on_ticket v a =
     (case a of
        Inl e \<Rightarrow> console_failed v e
      | Inr (ticket, port) \<Rightarrow>
          if \<not> cv_mounted v \<or> \<not> cv_container v then v\<lparr>cv_stage := Stopped\<rparr>
          else v\<lparr>cv_stage := ImportingModule ticket port\<rparr>)"

text \<open>The import may fail, and so may the constructor.\<close>

definition on_module :: "console_view \<Rightarrow> string option + unit \<Rightarrow> console_view" where
  "on_module v a =
     (case a of
        Inl e \<Rightarrow> console_failed v e
      | Inr _ \<Rightarrow>
          if \<not> cv_mounted v \<or> \<not> cv_container v then v\<lparr>cv_stage := Stopped\<rparr>
          else v\<lparr>cv_stage := Live, cv_rfb := True, cv_created := cv_created v + 1\<rparr>)"

definition on_rfb_event :: "console_view \<Rightarrow> event \<Rightarrow> console_view" where
  "on_rfb_event v ev =
     (if \<not> cv_mounted v then v
      else (case ev of
              EvConnect \<Rightarrow> v\<lparr>cv_status := Connected_status, cv_focused := cv_focused v + 1\<rparr>
            | EvDisconnect clean \<Rightarrow>
                if clean then v\<lparr>cv_status := Closed_status\<rparr>
                else v\<lparr>cv_status := Error_status, cv_error := Some Connection_lost, cv_container := False\<rparr>
            | EvSecurityFailure status reason \<Rightarrow>
                v\<lparr>cv_status := Error_status, cv_error := Some (Security_error reason), cv_container := False\<rparr>
            | _ \<Rightarrow> v))"

definition console_unmount :: "console_view \<Rightarrow> console_view" where
  "console_unmount v =
     (let v = v\<lparr>cv_mounted := False, cv_container := False\<rparr>
      in if cv_rfb v then v\<lparr>cv_rfb := False, cv_disconnected := cv_disconnected v + 1\<rparr> else v)"

definition handleContainerClick :: "console_view \<Rightarrow> console_view" where
  "handleContainerClick v = (if cv_rfb v then v\<lparr>cv_focused := cv_focused v + 1\<rparr> else v)"

datatype console_event =
    Ticket "string option + string \<times> int"
  | Module "string option + unit"
  | RfbEvent event
  | ContainerClick
  | Unmounted

fun console_step :: "console_view \<Rightarrow> console_event \<Rightarrow> console_view" where
  "console_step v (Ticket a) = on_ticket v a"
| "console_step v (Module a) = on_module v a"
| "console_step v (RfbEvent ev) = on_rfb_event v ev"
| "console_step v ContainerClick = handleContainerClick v"
| "console_step v Unmounted = console_unmount v"

text \<open>The cleanup of the effect runs once; events come from an object that was created.\<close>

fun console_possible :: "console_view \<Rightarrow> console_event \<Rightarrow> bool" where
  "console_possible v (Ticket _) \<longleftrightarrow> cv_stage v = FetchingTicket"
| "console_possible v (Module _) \<longleftrightarrow> (\<exists>t p. cv_stage v = ImportingModule t p)"
| "console_possible v (RfbEvent _) \<longleftrightarrow> cv_stage v = Live"
| "console_possible v ContainerClick \<longleftrightarrow> cv_mounted v"
| "console_possible v Unmounted \<longleftrightarrow> cv_mounted v"

section \<open>Resources\<close>

definition console_ok :: "console_view \<Rightarrow> bool" where
  "console_ok v \<longleftrightarrow>
     cv_created v = cv_disconnected v + of_bool (cv_rfb v) \<and> (cv_rfb v \<longrightarrow> cv_mounted v) \<and>
     (cv_stage v \<in> {FetchingTicket, Stopped} \<union> range (case_prod ImportingModule) \<longrightarrow> cv_created v = 0) \<and> cv_created v \<le> 1"

lemma importing: "ImportingModule t p \<in> range (case_prod ImportingModule)"
  by (metis case_prod_conv rangeI)

lemma console_ok_step: "console_ok v \<Longrightarrow> console_possible v e \<Longrightarrow> console_ok (console_step v e)"
  by (cases e)
    (auto simp: console_ok_def on_ticket_def on_module_def on_rfb_event_def handleContainerClick_def importing
      console_unmount_def console_failed_def Let_def split: sum.split event.split)

fun console_run :: "console_view \<Rightarrow> console_event list \<Rightarrow> console_view option" where
  "console_run v [] = Some v"
| "console_run v (e # es) = (if console_possible v e then console_run (console_step v e) es else None)"

lemma console_run_ok: "console_run v es = Some v' \<Longrightarrow> console_ok v \<Longrightarrow> console_ok v'"
  by (induction es arbitrary: v) (auto simp: console_ok_step split: if_splits)

section \<open>Following the RFB object\<close>

text \<open>The view after the events of an object, heard from the moment it was created.\<close>

definition listening :: console_view where
  "listening = console_mount\<lparr>cv_stage := Live, cv_rfb := True, cv_created := 1\<rparr>"

definition console_of :: "'d rfb \<Rightarrow> console_view" where
  "console_of r = foldl on_rfb_event listening (rf_events r)"

definition over :: "console_view \<Rightarrow> bool" where
  "over v \<longleftrightarrow> cv_status v \<in> {Closed_status, Error_status}"

lemma mounted_event [simp]: "cv_mounted (on_rfb_event v ev) = cv_mounted v"
  by (simp add: on_rfb_event_def split: event.split)

lemma mounted_events [simp]: "cv_mounted (foldl on_rfb_event v evs) = cv_mounted v"
  by (induction evs arbitrary: v) simp_all

lemma over_kept: "\<not> conn_event ev \<Longrightarrow> over v \<Longrightarrow> over (on_rfb_event v ev)"
  by (cases ev) (auto simp: on_rfb_event_def over_def)

lemma last_disconnect:
  assumes "filter conn_event evs = xs @ [EvDisconnect clean]" and "cv_mounted v"
  shows "over (foldl on_rfb_event v evs)"
  using assms
proof (induction evs rule: rev_induct)
  case (snoc ev evs)
  show ?case
  proof (cases "conn_event ev")
    case True
    with snoc.prems have "ev = EvDisconnect clean" by simp
    moreover have "cv_mounted (foldl on_rfb_event v evs)" using snoc.prems by simp
    ultimately show ?thesis by (simp add: on_rfb_event_def [of _ "EvDisconnect clean"] over_def)
  next
    case False
    with snoc show ?thesis by (simp add: over_kept)
  qed
qed simp

definition secure :: "event \<Rightarrow> bool" where
  "secure ev \<longleftrightarrow> (case ev of EvSecurityFailure _ _ \<Rightarrow> False | _ \<Rightarrow> True)"

lemma status_event:
  "cv_mounted v \<Longrightarrow> cv_status (on_rfb_event v ev) =
     (case ev of
        EvConnect \<Rightarrow> Connected_status
      | EvDisconnect clean \<Rightarrow> if clean then Closed_status else Error_status
      | EvSecurityFailure _ _ \<Rightarrow> Error_status
      | _ \<Rightarrow> cv_status v)"
  by (simp add: on_rfb_event_def split: event.split)

lemma status_of_conn_events:
  assumes "list_all secure evs" and "cv_mounted v"
  shows "cv_status (foldl on_rfb_event v evs) = cv_status (foldl on_rfb_event v (filter conn_event evs))"
  using assms
proof (induction evs rule: rev_induct)
  case (snoc ev evs)
  then show ?case by (cases ev) (simp_all add: status_event secure_def)
qed simp

section \<open>Properties\<close>

lemma in_filtered: "filter P xs = ys \<Longrightarrow> P x \<Longrightarrow> x \<in> set xs \<longleftrightarrow> x \<in> set ys"
  by auto

text \<open>
  C8. The console shows the state of its connection: as long as no security failure was reported, "connecting" until
  the object is connected, "connected" from then on, and after the disconnection "closed" or "error" by whether it
  was clean. Whatever was reported, a disconnected object is never shown as connecting or connected. The object is the
  \<open>RFB\<close> of \<open>public/novnc\<close>.
\<close>

theorem console_follows_connection:
  assumes "rfb_reachable cy zl decoder r"
  shows "(list_all secure (rf_events r) \<longrightarrow>
      cv_status (console_of r) =
        (case rf_connectionState r of
           Disconnected \<Rightarrow> if EvDisconnect True \<in> set (rf_events r) then Closed_status else Error_status
         | _ \<Rightarrow> if EvConnect \<in> set (rf_events r) then Connected_status else Connecting_status)) \<and>
    (rf_connectionState r = Connected \<longrightarrow> EvConnect \<in> set (rf_events r)) \<and>
    (rf_connectionState r = Disconnected \<longrightarrow> cv_status (console_of r) \<in> {Closed_status, Error_status})"
proof -
  let ?evs = "filter conn_event (rf_events r)"
  have m: "cv_mounted listening" by (simp add: listening_def console_mount_def)
  have ok: "life_ok (life r)"
    using life_ok_steps [OF reachable_life [OF assms]] by simp
  then have shape: "?evs = [] \<or> ?evs = [EvConnect] \<or> (\<exists>c. ?evs = [EvDisconnect c] \<or> ?evs = [EvConnect, EvDisconnect c])"
    and disc: "rf_connectionState r = Disconnected \<Longrightarrow> \<exists>c. ?evs = [EvDisconnect c] \<or> ?evs = [EvConnect, EvDisconnect c]"
    and con: "rf_connectionState r = Connected \<Longrightarrow> ?evs = [EvConnect]"
    and others: "rf_connectionState r \<noteq> Disconnected \<Longrightarrow> ?evs = [] \<or> ?evs = [EvConnect]"
    by (cases "rf_connectionState r"; auto simp: life_def)+
  have status: "cv_status (console_of r) = cv_status (foldl on_rfb_event listening xs)"
    if "list_all secure (rf_events r)" "?evs = xs" for xs
    unfolding console_of_def status_of_conn_events [OF that(1) m] that(2) ..
  have "cv_status (console_of r) =
        (case rf_connectionState r of
           Disconnected \<Rightarrow> if EvDisconnect True \<in> set (rf_events r) then Closed_status else Error_status
         | _ \<Rightarrow> if EvConnect \<in> set (rf_events r) then Connected_status else Connecting_status)"
    if sec: "list_all secure (rf_events r)"
  proof (cases "rf_connectionState r = Disconnected")
    case True
    from disc [OF True] obtain c where c: "?evs = [EvDisconnect c] \<or> ?evs = [EvConnect, EvDisconnect c]" ..
    then have "EvDisconnect True \<in> set (rf_events r) \<longleftrightarrow> c"
      using in_filtered [of conn_event "rf_events r" "[EvDisconnect c]" "EvDisconnect True"]
        in_filtered [of conn_event "rf_events r" "[EvConnect, EvDisconnect c]" "EvDisconnect True"] by auto
    moreover have "cv_status (console_of r) = (if c then Closed_status else Error_status)"
      using c status [OF sec] m by (auto simp: status_event)
    ultimately show ?thesis using True by simp
  next
    case False
    have "cv_status (console_of r) = (if EvConnect \<in> set (rf_events r) then Connected_status else Connecting_status)"
      using others [OF False]
    proof
      assume e: "?evs = []"
      from in_filtered [OF e, of EvConnect] status [OF sec e] show ?thesis
        by (simp add: listening_def console_mount_def)
    next
      assume e: "?evs = [EvConnect]"
      from in_filtered [OF e, of EvConnect] status [OF sec e] m show ?thesis by (simp add: status_event)
    qed
    then show ?thesis using False by (cases "rf_connectionState r") simp_all
  qed
  moreover have "rf_connectionState r = Connected \<longrightarrow> EvConnect \<in> set (rf_events r)"
    using con in_filtered [of conn_event "rf_events r" "[EvConnect]" EvConnect] by simp
  moreover have "over (console_of r)" if d: "rf_connectionState r = Disconnected"
  proof -
    from disc [OF d] obtain c xs where "?evs = xs @ [EvDisconnect c]" by (metis append_Cons append_Nil)
    then show ?thesis unfolding console_of_def using m by (rule last_disconnect)
  qed
  ultimately show ?thesis by (simp add: over_def)
qed

text \<open>
  C39. A console creates at most one \<open>RFB\<close> object, none after it is gone, and once it is gone every object it created
  has been told to disconnect.
\<close>

theorem console_releases_connection:
  assumes "console_run console_mount es = Some v"
  shows "cv_created v \<le> 1 \<and> (\<not> cv_mounted v \<longrightarrow> cv_disconnected v = cv_created v)"
proof -
  have "console_ok console_mount" by (simp add: console_ok_def console_mount_def)
  from console_run_ok [OF assms this] show ?thesis by (auto simp: console_ok_def)
qed

lemma security_failure_events:
  assumes "rf_connectionState r = Connecting"
  shows "rf_events (fail (dispatch r ev)) = rf_events r @ [ev, EvDisconnect False]"
  using assms
  by (simp add: fail_def leaveConnectionState_def transition_ok_def enter_state_def rfb_disconnect_def with_sock_def
      dispatch_def Let_def)

lemma lost_last: "cv_mounted v \<Longrightarrow> cv_error (foldl on_rfb_event v (evs @ [ev, EvDisconnect False])) = Some Connection_lost"
proof -
  assume "cv_mounted v"
  then have "cv_mounted (on_rfb_event (foldl on_rfb_event v evs) ev)" by simp
  then show ?thesis by (simp add: on_rfb_event_def [of _ "EvDisconnect False"])
qed

lemma waiting_left:
  assumes "waiting r n g rest = (r', x)" and "rf_connectionState r' \<noteq> rf_connectionState r"
  shows "\<exists>w. rest (r\<lparr>rf_sock := w\<rparr>) = (r', x)"
  using assms by (auto simp: waiting_def split: prod.splits sum.splits bool.splits)

text \<open>
  C40. The reason of a refused authentication is lost: once the server's reason has arrived, the object reports it, but
  the unclean disconnection that follows at once replaces it, and the console only says that the connection was lost. The object is
  the \<open>RFB\<close> of \<open>public/novnc\<close>.
\<close>

theorem security_reason_is_lost:
  assumes "rf_connectionState r = Connecting" and "handleSecurityReason r = (r', x)" and "rf_connectionState r' = Disconnected"
  shows "(\<exists>reason. EvSecurityFailure (rf_securityStatus r) reason \<in> set (rf_events r')) \<and>
    cv_error (console_of r') = Some Connection_lost"
proof -
  have m: "cv_mounted listening" by (simp add: listening_def console_mount_def)
  from assms(1,3) have moved: "rf_connectionState r' \<noteq> rf_connectionState r" by simp
  from waiting_left [OF assms(2)[unfolded handleSecurityReason_def] moved]
  obtain w where 1: "reading rQshift32 (r\<lparr>rf_sock := w\<rparr>) (\<lambda>strlen r.
         if strlen > 0 then
           waiting r strlen 4 (\<lambda>r.
             reading (shiftStr strlen) r (\<lambda>reason r.
               if reason \<noteq> [] then failing (dispatch r (EvSecurityFailure (rf_securityStatus r) (Some (map uint reason))))
               else failing (dispatch r (EvSecurityFailure (rf_securityStatus r) None))))
         else failing (dispatch r (EvSecurityFailure (rf_securityStatus r) None))) = (r', x)" ..
  obtain w1 n where w1: "rQshift32 w = (w1, n)" by (cases "rQshift32 w")
  have "\<exists>q reason. r' = fail (dispatch q (EvSecurityFailure (rf_securityStatus r) reason)) \<and> rf_connectionState q = Connecting"
  proof (cases "n > 0")
    case True
    with 1 w1 have "waiting (r\<lparr>rf_sock := w1\<rparr>) n 4 (\<lambda>r.
             reading (shiftStr n) r (\<lambda>reason r.
               if reason \<noteq> [] then failing (dispatch r (EvSecurityFailure (rf_securityStatus r) (Some (map uint reason))))
               else failing (dispatch r (EvSecurityFailure (rf_securityStatus r) None)))) = (r', x)"
      by (simp add: reading_def)
    from waiting_left [OF this] moved obtain w2 where
      2: "reading (shiftStr n) (r\<lparr>rf_sock := w2\<rparr>) (\<lambda>reason r.
               if reason \<noteq> [] then failing (dispatch r (EvSecurityFailure (rf_securityStatus r) (Some (map uint reason))))
               else failing (dispatch r (EvSecurityFailure (rf_securityStatus r) None))) = (r', x)" by auto
    obtain w3 s where "shiftStr n w2 = (w3, s)" by (cases "shiftStr n w2")
    with 2 have "r' = fail (dispatch (r\<lparr>rf_sock := w3\<rparr>)
        (EvSecurityFailure (rf_securityStatus r) (if s = [] then None else Some (map uint s))))"
      by (auto simp: reading_def failing_def split: if_splits)
    then show ?thesis using assms(1) by (intro exI [of _ "r\<lparr>rf_sock := w3\<rparr>"]) auto
  next
    case False
    with 1 w1 have "r' = fail (dispatch (r\<lparr>rf_sock := w1\<rparr>) (EvSecurityFailure (rf_securityStatus r) None))"
      by (simp add: reading_def failing_def)
    then show ?thesis using assms(1) by (intro exI [of _ "r\<lparr>rf_sock := w1\<rparr>"]) auto
  qed
  then obtain q reason where r': "r' = fail (dispatch q (EvSecurityFailure (rf_securityStatus r) reason))"
      and q: "rf_connectionState q = Connecting" by blast
  show ?thesis
    unfolding console_of_def r' security_failure_events [OF q] lost_last [OF m] by auto
qed

section \<open>Witnesses\<close>

lemma console_follows_connection_witness:
  "\<exists>r. construct_RFB sample_channel () (new_Display 0 0 300 150) no_credentials True [] [] (Some ''wss://pcenter/console'') None None
     = Inr r \<and> rf_connectionState r = Connecting \<and>
     (rf_connectionState r = Connected \<longrightarrow> EvConnect \<in> set (rf_events r))"
proof -
  obtain r where r: "construct_RFB sample_channel () (new_Display 0 0 300 150) no_credentials True [] []
      (Some ''wss://pcenter/console'') None None = Inr r" and l: "life r = Life Connecting False []"
    using sample_construct by blast
  from console_follows_connection [OF constructed [OF r, of undefined undefined no_decoder]] r l
  show ?thesis by (auto simp: life_def)
qed

lemma console_releases_connection_witness:
  "cv_disconnected (console_unmount (console_step (console_step console_mount (Ticket (Inr (''t'', 5900)))) (Module (Inr ())))) = 1"
proof -
  let ?v = "console_unmount (console_step (console_step console_mount (Ticket (Inr (''t'', 5900)))) (Module (Inr ())))"
  have "console_run console_mount [Ticket (Inr (''t'', 5900)), Module (Inr ()), Unmounted] = Some ?v"
    by (simp add: console_mount_def on_ticket_def on_module_def)
  from console_releases_connection [OF this] show ?thesis
    by (simp add: console_mount_def on_ticket_def on_module_def console_unmount_def Let_def)
qed

lemma security_reason_is_lost_witness:
  "cv_error (console_of (fst (handleSecurityReason (sample_new\<lparr>rf_connectionState := Connecting, rf_sock := small_ws [0, 0, 0, 0]\<rparr>))))
     = Some Connection_lost"
proof -
  let ?r = "sample_new\<lparr>rf_connectionState := Connecting, rf_sock := small_ws [0, 0, 0, 0]\<rparr>"
  have i: "rx_inv (small_ws [0, 0, 0, 0])" "unread (small_ws [0, 0, 0, 0]) = [0, 0, 0, 0]"
    using small_ws_inv [of "[0, 0, 0, 0]"] by simp_all
  obtain r' x where r': "handleSecurityReason ?r = (r', x)" by (cases "handleSecurityReason ?r")
  have c: "rf_connectionState ?r = Connecting" by simp
  have "rf_connectionState r' = Disconnected"
    using r' i
    by (auto simp: handleSecurityReason_def waiting_def reading_def failing_def ws_simps fail_def leaveConnectionState_def
        transition_ok_def enter_state_def rfb_disconnect_def with_sock_def dispatch_def Let_def be_val_def)
  from security_reason_is_lost [OF c r' this] r' show ?thesis by simp
qed

end
