(* ===== verification/Web_Socket.thy ===== *)
theory Web_Socket
  imports Main
begin

text \<open>
  The reconnecting WebSocket of pCenter's pages, \<open>hooks/useWebSocket.ts\<close>. The hook's refs and
  state variables are the record \<open>hook\<close>, together with what the browser keeps: the sockets that
  were created (numbered in order) and the pending timers. Each run of the effect has its own
  \<open>isMounted\<close> variable, so sockets and timers carry the number of the run that created them.
  Times are milliseconds; messages that parse are values of \<open>'m\<close>.
\<close>

section \<open>State\<close>

datatype ready_state = CONNECTING | OPEN | CLOSING | CLOSED

record socket =
  so_state :: ready_state
  so_run :: nat
  so_onclose :: bool                         \<comment> \<open>false once \<open>onclose\<close> was set to null\<close>

record timer =
  ti_id :: nat
  ti_run :: nat
  ti_delay :: int

datatype 'm callback = OnConnect | OnDisconnect | OnMessage 'm

record 'm hook =
  hk_isConnected :: bool
  hk_lastMessage :: "'m option"
  hk_wsRef :: "nat option"
  hk_reconnectTimeout :: "nat option"        \<comment> \<open>id of the timer set last\<close>
  hk_attempts :: nat
  hk_run :: nat
  hk_isMounted :: bool                       \<comment> \<open>of the current run\<close>
  hk_sockets :: "socket list"
  hk_timers :: "timer list"
  hk_nextTimer :: nat
  hk_calls :: "'m callback list"

definition MAX_RECONNECT_DELAY :: int where
  "MAX_RECONNECT_DELAY = 30000"

definition new_hook :: "'m hook" where
  "new_hook = \<lparr>hk_isConnected = False, hk_lastMessage = None, hk_wsRef = None, hk_reconnectTimeout = None,
     hk_attempts = 0, hk_run = 0, hk_isMounted = False, hk_sockets = [], hk_timers = [], hk_nextTimer = 0,
     hk_calls = []\<rparr>"

definition mounted_in :: "'m hook \<Rightarrow> nat \<Rightarrow> bool" where
  "mounted_in h run \<longleftrightarrow> hk_isMounted h \<and> hk_run h = run"

section \<open>Operations\<close>

text \<open>\<open>connect\<close>, called by the effect and by the timer.\<close>

definition hook_connect :: "'m hook \<Rightarrow> nat \<Rightarrow> 'm hook" where
  "hook_connect h run =
     (if (case hk_wsRef h of Some i \<Rightarrow> so_state (hk_sockets h ! i) \<in> {OPEN, CONNECTING} | None \<Rightarrow> False) then h
      else h\<lparr>hk_sockets := hk_sockets h @ [\<lparr>so_state = CONNECTING, so_run = run, so_onclose = True\<rparr>],
             hk_wsRef := Some (length (hk_sockets h))\<rparr>)"

text \<open>The effect runs when the component mounts and whenever the URL or the interval changes.\<close>

definition hook_mount :: "'m hook \<Rightarrow> 'm hook" where
  "hook_mount h = (let h = h\<lparr>hk_run := hk_run h + 1, hk_isMounted := True\<rparr> in hook_connect h (hk_run h))"

text \<open>Closing a socket that is not closed yet only starts the closing handshake.\<close>

definition hook_cleanup :: "'m hook \<Rightarrow> 'm hook" where
  "hook_cleanup h =
     (let h = h\<lparr>hk_isMounted := False\<rparr>;
          h = (case hk_reconnectTimeout h of
                 Some t \<Rightarrow> h\<lparr>hk_timers := filter (\<lambda>x. ti_id x \<noteq> t) (hk_timers h)\<rparr>
               | None \<Rightarrow> h)
      in case hk_wsRef h of
           Some i \<Rightarrow>
             (let s = hk_sockets h ! i;
                  s = s\<lparr>so_onclose := False, so_state := (if so_state s = CLOSED then CLOSED else CLOSING)\<rparr>
              in h\<lparr>hk_sockets := (hk_sockets h)[i := s], hk_wsRef := None\<rparr>)
         | None \<Rightarrow> h)"

text \<open>The browser's events for the socket \<open>i\<close>, with the handlers they run.\<close>

definition set_socket :: "'m hook \<Rightarrow> nat \<Rightarrow> ready_state \<Rightarrow> 'm hook" where
  "set_socket h i st = h\<lparr>hk_sockets := (hk_sockets h)[i := (hk_sockets h ! i)\<lparr>so_state := st\<rparr>]\<rparr>"

definition hook_onopen :: "'m hook \<Rightarrow> nat \<Rightarrow> 'm hook" where
  "hook_onopen h i =
     (let h = set_socket h i OPEN in
      if \<not> mounted_in h (so_run (hk_sockets h ! i)) then h
      else h\<lparr>hk_isConnected := True, hk_attempts := 0, hk_calls := hk_calls h @ [OnConnect]\<rparr>)"

definition reconnect_delay :: "int \<Rightarrow> nat \<Rightarrow> int" where
  "reconnect_delay reconnectInterval attempts = min (reconnectInterval * 2 ^ attempts) MAX_RECONNECT_DELAY"

definition hook_onclose :: "int \<Rightarrow> 'm hook \<Rightarrow> nat \<Rightarrow> 'm hook" where
  "hook_onclose reconnectInterval h i =
     (let h = set_socket h i CLOSED in
      if \<not> so_onclose (hk_sockets h ! i) then h
      else if \<not> mounted_in h (so_run (hk_sockets h ! i)) then h
      else
        (let h = h\<lparr>hk_isConnected := False, hk_calls := hk_calls h @ [OnDisconnect], hk_wsRef := None\<rparr>;
             delay = reconnect_delay reconnectInterval (hk_attempts h)
         in h\<lparr>hk_attempts := hk_attempts h + 1,
              hk_timers := hk_timers h @ [\<lparr>ti_id = hk_nextTimer h, ti_run = so_run (hk_sockets h ! i), ti_delay = delay\<rparr>],
              hk_reconnectTimeout := Some (hk_nextTimer h), hk_nextTimer := hk_nextTimer h + 1\<rparr>))"

text \<open>A message that does not parse is logged and dropped.\<close>

definition hook_onmessage :: "'m hook \<Rightarrow> nat \<Rightarrow> 'm option \<Rightarrow> 'm hook" where
  "hook_onmessage h i parsed =
     (if \<not> mounted_in h (so_run (hk_sockets h ! i)) then h
      else
        (case parsed of
           None \<Rightarrow> h
         | Some m \<Rightarrow> h\<lparr>hk_lastMessage := Some m, hk_calls := hk_calls h @ [OnMessage m]\<rparr>))"

definition hook_timer :: "'m hook \<Rightarrow> timer \<Rightarrow> 'm hook" where
  "hook_timer h t = hook_connect (h\<lparr>hk_timers := removeAll t (hk_timers h)\<rparr>) (ti_run t)"

section \<open>What can happen\<close>

inductive hook_step :: "int \<Rightarrow> 'm hook \<Rightarrow> 'm hook \<Rightarrow> bool" for interval where
  mount: "\<not> hk_isMounted h \<Longrightarrow> hook_step interval h (hook_mount h)"
| cleanup: "hk_isMounted h \<Longrightarrow> hook_step interval h (hook_cleanup h)"
| open_event:
    "i < length (hk_sockets h) \<Longrightarrow> so_state (hk_sockets h ! i) = CONNECTING \<Longrightarrow> hook_step interval h (hook_onopen h i)"
| message:
    "i < length (hk_sockets h) \<Longrightarrow> so_state (hk_sockets h ! i) \<in> {OPEN, CLOSING} \<Longrightarrow>
     hook_step interval h (hook_onmessage h i parsed)"
| closing:
    "i < length (hk_sockets h) \<Longrightarrow> so_state (hk_sockets h ! i) = OPEN \<Longrightarrow> hook_step interval h (set_socket h i CLOSING)"
| close_event:
    "i < length (hk_sockets h) \<Longrightarrow> so_state (hk_sockets h ! i) \<noteq> CLOSED \<Longrightarrow> hook_step interval h (hook_onclose interval h i)"
| timer: "t \<in> set (hk_timers h) \<Longrightarrow> hook_step interval h (hook_timer h t)"

inductive hook_reachable :: "int \<Rightarrow> 'm hook \<Rightarrow> bool" for interval where
  init: "hook_reachable interval new_hook"
| step: "hook_reachable interval h \<Longrightarrow> hook_step interval h h' \<Longrightarrow> hook_reachable interval h'"

section \<open>The invariant\<close>

definition live :: "'m hook \<Rightarrow> nat \<Rightarrow> bool" where
  "live h i \<longleftrightarrow> i < length (hk_sockets h) \<and> so_state (hk_sockets h ! i) \<in> {CONNECTING, OPEN}"

definition backed_off :: "int \<Rightarrow> 'm hook \<Rightarrow> timer \<Rightarrow> bool" where
  "backed_off interval h t \<longleftrightarrow> 0 < hk_attempts h \<and> ti_delay t = reconnect_delay interval (hk_attempts h - 1)"

lemma backed_off_cong: "hk_attempts h' = hk_attempts h \<Longrightarrow> backed_off interval h' t = backed_off interval h t"
  by (simp add: backed_off_def)

lemma backed_off_new [simp]:
  "backed_off interval (h\<lparr>hk_attempts := Suc n, hk_timers := ts, hk_reconnectTimeout := r, hk_nextTimer := k\<rparr>)
     \<lparr>ti_id = i, ti_run = u, ti_delay = reconnect_delay interval n\<rparr>"
  by (simp add: backed_off_def)

definition hook_ok :: "int \<Rightarrow> 'm hook \<Rightarrow> bool" where
  "hook_ok interval h \<longleftrightarrow>
     (\<forall>i. live h i \<longrightarrow> hk_wsRef h = Some i) \<and>
     (\<forall>i. hk_wsRef h = Some i \<longrightarrow> i < length (hk_sockets h) \<and> mounted_in h (so_run (hk_sockets h ! i)) \<and>
        so_onclose (hk_sockets h ! i) \<and> so_state (hk_sockets h ! i) \<noteq> CLOSED) \<and>
     (\<forall>i < length (hk_sockets h). so_onclose (hk_sockets h ! i) \<and> so_state (hk_sockets h ! i) \<noteq> CLOSED \<longrightarrow> hk_wsRef h = Some i) \<and>
     (hk_timers h = [] \<or>
        (\<exists>t. hk_timers h = [t] \<and> hk_reconnectTimeout h = Some (ti_id t) \<and> mounted_in h (ti_run t) \<and>
           hk_wsRef h = None \<and> backed_off interval h t)) \<and>
     (hk_isMounted h \<longrightarrow> hk_wsRef h \<noteq> None \<or> hk_timers h \<noteq> [])"

lemma hook_ok_new: "hook_ok interval new_hook"
  by (simp add: hook_ok_def new_hook_def live_def)

lemma hook_ok_timers:
  assumes "hook_ok interval h"
  shows "hk_timers h = [] \<or> (\<exists>t. hk_timers h = [t] \<and> hk_reconnectTimeout h = Some (ti_id t) \<and>
    mounted_in h (ti_run t) \<and> hk_wsRef h = None \<and> backed_off interval h t)"
  using assms unfolding hook_ok_def by blast

lemma hook_ok_sockets:
  assumes "hook_ok interval h"
  shows "live h i \<Longrightarrow> hk_wsRef h = Some i"
    and "hk_wsRef h = Some i \<Longrightarrow> i < length (hk_sockets h) \<and> mounted_in h (so_run (hk_sockets h ! i)) \<and>
      so_onclose (hk_sockets h ! i) \<and> so_state (hk_sockets h ! i) \<noteq> CLOSED"
    and "i < length (hk_sockets h) \<Longrightarrow> so_onclose (hk_sockets h ! i) \<Longrightarrow> so_state (hk_sockets h ! i) \<noteq> CLOSED \<Longrightarrow>
      hk_wsRef h = Some i"
    and "hk_isMounted h \<Longrightarrow> hk_wsRef h \<noteq> None \<or> hk_timers h \<noteq> []"
  using assms unfolding hook_ok_def by blast+

lemma hook_okI:
  assumes "\<And>i. live h i \<Longrightarrow> hk_wsRef h = Some i"
    and "\<And>i. hk_wsRef h = Some i \<Longrightarrow> i < length (hk_sockets h) \<and> mounted_in h (so_run (hk_sockets h ! i)) \<and>
      so_onclose (hk_sockets h ! i) \<and> so_state (hk_sockets h ! i) \<noteq> CLOSED"
    and "\<And>i. i < length (hk_sockets h) \<Longrightarrow> so_onclose (hk_sockets h ! i) \<Longrightarrow> so_state (hk_sockets h ! i) \<noteq> CLOSED \<Longrightarrow>
      hk_wsRef h = Some i"
    and "hk_timers h = [] \<or> (\<exists>t. hk_timers h = [t] \<and> hk_reconnectTimeout h = Some (ti_id t) \<and>
      mounted_in h (ti_run t) \<and> hk_wsRef h = None \<and> backed_off interval h t)"
    and "hk_isMounted h \<Longrightarrow> hk_wsRef h \<noteq> None \<or> hk_timers h \<noteq> []"
  shows "hook_ok interval h"
  using assms unfolding hook_ok_def by blast

lemma hook_ok_others:
  assumes "hook_ok interval h" and "hk_wsRef h = Some i"
  shows "\<forall>j < length (hk_sockets h). j \<noteq> i \<longrightarrow> so_state (hk_sockets h ! j) \<noteq> CONNECTING \<and> so_state (hk_sockets h ! j) \<noteq> OPEN \<and>
    (so_onclose (hk_sockets h ! j) \<longrightarrow> so_state (hk_sockets h ! j) = CLOSED)"
  using hook_ok_sockets(1,3) [OF assms(1)] assms(2) by (auto simp: live_def)

lemma hook_ok_cong:
  assumes "hk_wsRef h' = hk_wsRef h" "hk_sockets h' = hk_sockets h" "hk_timers h' = hk_timers h"
    "hk_reconnectTimeout h' = hk_reconnectTimeout h" "hk_attempts h' = hk_attempts h" "hk_run h' = hk_run h"
    "hk_isMounted h' = hk_isMounted h"
  shows "hook_ok interval h' = hook_ok interval h"
  unfolding hook_ok_def live_def mounted_in_def backed_off_def by (simp only: assms)

lemma hook_ok_step:
  assumes "hook_step interval h h'" and "hook_ok interval h"
  shows "hook_ok interval h'"
  using assms
proof (induction rule: hook_step.induct)
  case (mount h)
  then have r: "hk_wsRef h = None" "hk_timers h = []" "\<And>i. \<not> live h i"
    by (auto simp: hook_ok_def mounted_in_def)
  with mount show ?case
    unfolding hook_ok_def hook_mount_def hook_connect_def Let_def
    by (simp add: mounted_in_def live_def nth_append)
next
  case (cleanup h)
  define h1 where "h1 = (case hk_reconnectTimeout h of
     Some t \<Rightarrow> (h\<lparr>hk_isMounted := False\<rparr>)\<lparr>hk_timers := filter (\<lambda>x. ti_id x \<noteq> t) (hk_timers h)\<rparr>
   | None \<Rightarrow> h\<lparr>hk_isMounted := False\<rparr>)"
  have h1: "hk_timers h1 = []" "hk_wsRef h1 = hk_wsRef h" "hk_sockets h1 = hk_sockets h" "\<not> hk_isMounted h1"
    using hook_ok_timers [OF cleanup(2)] by (auto simp: h1_def split: option.split)
  have c: "hook_cleanup h = (case hk_wsRef h1 of
       Some i \<Rightarrow> h1\<lparr>hk_sockets := (hk_sockets h1)[i := (hk_sockets h1 ! i)\<lparr>so_onclose := False,
         so_state := (if so_state (hk_sockets h1 ! i) = CLOSED then CLOSED else CLOSING)\<rparr>], hk_wsRef := None\<rparr>
     | None \<Rightarrow> h1)"
    by (simp add: hook_cleanup_def h1_def Let_def split: option.split)
  show ?case
  proof (cases "hk_wsRef h")
    case None
    have "\<not> live h i" for i using hook_ok_sockets(1) [OF cleanup(2), of i] None by auto
    moreover have "i < length (hk_sockets h) \<Longrightarrow> so_onclose (hk_sockets h ! i) \<Longrightarrow> so_state (hk_sockets h ! i) = CLOSED" for i
      using hook_ok_sockets(3) [OF cleanup(2), of i] None by auto
    ultimately show ?thesis using h1 None by (simp add: c hook_ok_def live_def)
  next
    case (Some i)
    with h1 hook_ok_sockets [OF cleanup(2)] show ?thesis by (auto simp: c hook_ok_def live_def nth_list_update)
  qed
next
  case (open_event i h)
  note ok = open_event(3)
  have w: "hk_wsRef h = Some i" using open_event hook_ok_sockets(1) [OF ok, of i] by (simp add: live_def)
  note i = hook_ok_sockets(2) [OF ok w]
  have t: "hk_timers h = []" using hook_ok_timers [OF ok] w by auto
  show ?case
    using hook_ok_sockets(2) [OF ok w] w t hook_ok_others [OF ok w] unfolding hook_ok_def
    by (simp add: hook_onopen_def set_socket_def mounted_in_def live_def nth_list_update Let_def)
next
  case (message i h parsed)
  have "hook_ok interval (hook_onmessage h i parsed) = hook_ok interval h"
    by (rule hook_ok_cong) (simp_all add: hook_onmessage_def split: option.split)
  with message show ?case by simp
next
  case (closing i h)
  note ok = closing(3)
  have w: "hk_wsRef h = Some i" using closing hook_ok_sockets(1) [OF ok, of i] by (simp add: live_def)
  have t: "hk_timers h = []" using hook_ok_timers [OF ok] w by auto
  show ?case
    using hook_ok_sockets(2) [OF ok w] w t hook_ok_others [OF ok w] unfolding hook_ok_def
    by (simp add: set_socket_def mounted_in_def live_def nth_list_update)
next
  case (close_event i h)
  note ok = close_event(3)
  show ?case
  proof (cases "so_onclose (hk_sockets h ! i)")
    case True
    then have w: "hk_wsRef h = Some i" using close_event hook_ok_sockets(3) [OF ok, of i] by simp
    have t: "hk_timers h = []" using hook_ok_timers [OF ok] w by auto
    show ?thesis
      using True hook_ok_sockets(2) [OF ok w] w t hook_ok_others [OF ok w] unfolding hook_ok_def
      by (simp add: hook_onclose_def set_socket_def mounted_in_def live_def nth_list_update Let_def backed_off_def)
  next
    case False
    then have w: "hk_wsRef h \<noteq> Some i" using hook_ok_sockets(2) [OF ok, of i] by auto
    have c: "hook_onclose interval h i = set_socket h i CLOSED"
      using False close_event(1) by (simp add: hook_onclose_def set_socket_def Let_def)
    let ?h = "set_socket h i CLOSED"
    have h: "hk_wsRef ?h = hk_wsRef h" "hk_timers ?h = hk_timers h" "length (hk_sockets ?h) = length (hk_sockets h)"
      "hk_reconnectTimeout ?h = hk_reconnectTimeout h" "hk_isMounted ?h = hk_isMounted h"
      "\<And>run. mounted_in ?h run = mounted_in h run" "\<And>t. backed_off interval ?h t = backed_off interval h t"
      by (simp_all add: set_socket_def mounted_in_def backed_off_def)
    have j: "hk_sockets ?h ! j = hk_sockets h ! j" if "j \<noteq> i" for j using that by (simp add: set_socket_def)
    have k: "so_state (hk_sockets ?h ! i) = CLOSED" using close_event(1) by (simp add: set_socket_def)
    show ?thesis
      unfolding c
    proof (rule hook_okI)
      fix n assume n: "live ?h n"
      then have "n \<noteq> i" using k by (auto simp: live_def)
      with n show "hk_wsRef ?h = Some n" using hook_ok_sockets(1) [OF ok, of n] by (simp add: live_def h j)
    next
      fix n assume n: "hk_wsRef ?h = Some n"
      then have "n \<noteq> i" using w h by auto
      with n show "n < length (hk_sockets ?h) \<and> mounted_in ?h (so_run (hk_sockets ?h ! n)) \<and>
          so_onclose (hk_sockets ?h ! n) \<and> so_state (hk_sockets ?h ! n) \<noteq> CLOSED"
        using hook_ok_sockets(2) [OF ok, of n] by (simp add: h j)
    next
      fix n assume n: "n < length (hk_sockets ?h)" "so_onclose (hk_sockets ?h ! n)" "so_state (hk_sockets ?h ! n) \<noteq> CLOSED"
      then have "n \<noteq> i" using k by auto
      with n show "hk_wsRef ?h = Some n" using hook_ok_sockets(3) [OF ok, of n] by (simp add: h j)
    qed (use hook_ok_timers [OF ok] hook_ok_sockets(4) [OF ok] in \<open>simp_all add: h\<close>)
  qed
next
  case (timer t h)
  note ok = timer(2)
  have t: "hk_timers h = [t]" "mounted_in h (ti_run t)" "hk_wsRef h = None"
    using hook_ok_timers [OF ok] timer(1) by auto
  have "\<forall>i < length (hk_sockets h). so_state (hk_sockets h ! i) \<noteq> CONNECTING \<and> so_state (hk_sockets h ! i) \<noteq> OPEN \<and>
      (so_onclose (hk_sockets h ! i) \<longrightarrow> so_state (hk_sockets h ! i) = CLOSED)"
    using hook_ok_sockets(1,3) [OF ok] t by (auto simp: live_def)
  with t show ?case
    unfolding hook_ok_def by (simp add: hook_timer_def hook_connect_def mounted_in_def live_def nth_append)
qed

lemma reconnect_delay_bounds:
  assumes "0 < interval"
  shows "min interval MAX_RECONNECT_DELAY \<le> reconnect_delay interval n \<and> reconnect_delay interval n \<le> MAX_RECONNECT_DELAY"
proof -
  have "interval * 1 \<le> interval * 2 ^ n" using assms by (intro mult_left_mono) auto
  then show ?thesis by (auto simp: reconnect_delay_def)
qed

lemma reachable_ok: "hook_reachable interval h \<Longrightarrow> hook_ok interval h"
  by (induction rule: hook_reachable.induct) (auto intro: hook_ok_new hook_ok_step)

section \<open>Properties\<close>

text \<open>A page that connected once and lost the connection, for the concrete instances.\<close>

definition lost_once :: "nat hook" where
  "lost_once = hook_onclose 3000 (hook_onopen (hook_mount new_hook) 0) 0"

lemmas hook_defs = lost_once_def hook_mount_def hook_connect_def hook_onopen_def hook_onclose_def hook_cleanup_def
  set_socket_def new_hook_def mounted_in_def reconnect_delay_def MAX_RECONNECT_DELAY_def Let_def

lemma lost_once_reachable: "hook_reachable 3000 lost_once"
  unfolding lost_once_def
  by (intro hook_reachable.step [OF _ close_event] hook_reachable.step [OF _ open_event] hook_reachable.step [OF _ mount]
      hook_reachable.init) (simp_all add: hook_defs)

text \<open>
  C17. There is never more than one connection: in every reachable state at most one socket is
  connecting or open, at most one reconnect timer is pending and not both; a mounted page always
  has one of the two, so it keeps trying, and an unmounted one has neither.
\<close>

theorem single_connection:
  assumes "hook_reachable interval h"
  shows "(\<forall>i j. live h i \<and> live h j \<longrightarrow> i = j) \<and> length (hk_timers h) \<le> 1 \<and>
    (hk_timers h \<noteq> [] \<longrightarrow> (\<forall>i. \<not> live h i)) \<and>
    (hk_isMounted h \<longrightarrow> hk_wsRef h \<noteq> None \<or> hk_timers h \<noteq> []) \<and>
    (\<not> hk_isMounted h \<longrightarrow> hk_timers h = [] \<and> (\<forall>i. \<not> live h i))"
proof -
  note ok = reachable_ok [OF assms]
  have one: "i = j" if "live h i" "live h j" for i j
    using hook_ok_sockets(1) [OF ok that(1)] hook_ok_sockets(1) [OF ok that(2)] by simp
  have t: "length (hk_timers h) \<le> 1" "hk_timers h \<noteq> [] \<Longrightarrow> hk_wsRef h = None \<and> hk_isMounted h"
    using hook_ok_timers [OF ok] by (auto simp: mounted_in_def)
  have m: "hk_isMounted h" if "live h i" for i
    using hook_ok_sockets(2) [OF ok hook_ok_sockets(1) [OF ok that]] by (simp add: mounted_in_def)
  have n: "\<not> live h i" if "hk_timers h \<noteq> []" for i
    using t(2) [OF that] hook_ok_sockets(1) [OF ok, of i] by auto
  show ?thesis using one t m n hook_ok_sockets(4) [OF ok] by blast
qed

theorem single_connection_witness:
  "\<not> live lost_once 0 \<and> length (hk_timers lost_once) = 1"
proof -
  have "hk_timers lost_once \<noteq> []" by (simp add: hook_defs)
  with single_connection [OF lost_once_reachable] show ?thesis
    by (cases "hk_timers lost_once") auto
qed



text \<open>
  C37. An unmounted page is silent: until it is mounted again no event creates a socket, sets a
  timer, or reaches a callback or a state variable.
\<close>

theorem unmounted_is_silent:
  assumes "hook_reachable interval h" and "\<not> hk_isMounted h" and "hook_step interval h h'" and "\<not> hk_isMounted h'"
  shows "hk_calls h' = hk_calls h \<and> length (hk_sockets h') = length (hk_sockets h) \<and> hk_timers h' = [] \<and>
    hk_isConnected h' = hk_isConnected h \<and> hk_lastMessage h' = hk_lastMessage h"
  using assms(3,2,4) reachable_ok [OF assms(1)]
proof (induction rule: hook_step.induct)
  case (mount h)
  then show ?case by (simp add: hook_mount_def hook_connect_def Let_def split: if_splits)
qed (auto simp: hook_ok_def hook_onopen_def hook_onclose_def hook_onmessage_def set_socket_def mounted_in_def Let_def)

theorem unmounted_is_silent_witness:
  "hk_calls (hook_onmessage (hook_cleanup (hook_onopen (hook_mount new_hook) 0)) 0 (Some (7 :: nat))) = [OnConnect]"
proof -
  let ?h = "hook_cleanup (hook_onopen (hook_mount new_hook) 0) :: nat hook"
  have r: "hook_reachable 3000 ?h"
    by (intro hook_reachable.step [OF _ cleanup] hook_reachable.step [OF _ open_event] hook_reachable.step [OF _ mount]
        hook_reachable.init) (simp_all add: hook_defs)
  have "hook_step 3000 ?h (hook_onmessage ?h 0 (Some 7))"
    by (rule message) (simp_all add: hook_defs)
  from unmounted_is_silent [OF r _ this] show ?thesis by (simp add: hook_defs hook_onmessage_def)
qed

text \<open>
  A new URL leaves a stale flag: when the effect runs again while connected, the page still
  reads \<open>isConnected\<close> although the new socket is only connecting.
\<close>

theorem url_change_keeps_isConnected:
  assumes "hook_reachable interval h" and "hk_isMounted h" and "hk_isConnected h"
  shows "hk_isConnected (hook_mount (hook_cleanup h)) \<and>
    (\<exists>i. hk_wsRef (hook_mount (hook_cleanup h)) = Some i \<and> so_state (hk_sockets (hook_mount (hook_cleanup h)) ! i) = CONNECTING)"
  using assms by (simp add: hook_mount_def hook_cleanup_def hook_connect_def Let_def nth_append split: option.split)

theorem url_change_keeps_isConnected_witness:
  "hk_isConnected (hook_mount (hook_cleanup (hook_onopen (hook_mount new_hook) 0 :: nat hook)))"
proof -
  let ?h = "hook_onopen (hook_mount new_hook) 0 :: nat hook"
  have r: "hook_reachable 3000 ?h"
    by (intro hook_reachable.step [OF _ open_event] hook_reachable.step [OF _ mount] hook_reachable.init)
      (simp_all add: hook_defs)
  from url_change_keeps_isConnected [OF r] show ?thesis by (simp add: hook_defs)
qed

end
