(* ===== verification/Auth.thy ===== *)
theory Auth
  imports Main
begin

text \<open>
  Who is logged in: the provider of \<open>context/AuthContext.tsx\<close> with the calls of \<open>api/auth.ts\<close>
  and the 401 handling of \<open>fetchAPI\<close> in \<open>api/client.ts\<close>. Requests are answered asynchronously:
  an operation starts with its part before the \<open>await\<close> and leaves a pending request; the answer,
  a value or an error, runs the rest. Answers arrive in any order. Users are values of \<open>'u\<close>.
\<close>

section \<open>State\<close>

type_synonym message = string

record 'u auth =
  au_user :: "'u option"
  au_csrfToken :: "string option"
  au_isAuthenticated :: bool
  au_isLoading :: bool
  au_requiresTOTP :: bool
  au_needsFirstUser :: "bool option"
  au_error :: "message option"

datatype request = UserCount | MeCheck | Login | VerifyTOTP | Logout | Register | MeRefresh | ApiCall

record 'u session = "'u auth" +
  se_token :: "string option"                \<comment> \<open>\<open>csrfToken\<close> of \<open>api/auth.ts\<close>\<close>
  se_redirecting :: bool                     \<comment> \<open>of \<open>api/client.ts\<close>\<close>
  se_pending :: "request list"
  se_expired :: nat                          \<comment> \<open>\<open>auth:session-expired\<close> events fired\<close>

text \<open>What the server answers, with the shapes of \<open>types/auth.ts\<close>.\<close>

datatype 'u login_answer = LoginResponse 'u string | TOTPRequiredResponse bool string

datatype 'u answer =
    Count nat
  | LoginAnswer "'u login_answer"
  | Me 'u string
  | Success
  | Unauthorized bool                        \<comment> \<open>401; whether the login page is shown by then\<close>
  | Failed "message option"                  \<comment> \<open>the message of an \<open>Error\<close>, None for anything else thrown\<close>

definition initial_session :: "'u session" where
  "initial_session = \<lparr>au_user = None, au_csrfToken = None, au_isAuthenticated = False, au_isLoading = True,
     au_requiresTOTP = False, au_needsFirstUser = None, au_error = None, se_token = None, se_redirecting = False,
     se_pending = [], se_expired = 0\<rparr>"

section \<open>The calls of the API\<close>

definition isTOTPRequired :: "'u login_answer \<Rightarrow> bool" where
  "isTOTPRequired a = (case a of LoginResponse _ _ \<Rightarrow> False | TOTPRequiredResponse r _ \<Rightarrow> r)"

definition answer_token :: "'u login_answer \<Rightarrow> string" where
  "answer_token a = (case a of LoginResponse _ t \<Rightarrow> t | TOTPRequiredResponse _ t \<Rightarrow> t)"

definition answer_user :: "'u login_answer \<Rightarrow> 'u option" where
  "answer_user a = (case a of LoginResponse u _ \<Rightarrow> Some u | TOTPRequiredResponse _ _ \<Rightarrow> None)"

definition setCSRFToken :: "'u session \<Rightarrow> string option \<Rightarrow> 'u session" where
  "setCSRFToken s t = s\<lparr>se_token := t\<rparr>"

text \<open>Every call that returns a token stores it, unless it is empty.\<close>

definition store_token :: "'u session \<Rightarrow> string \<Rightarrow> 'u session" where
  "store_token s t = (if t \<noteq> [] then setCSRFToken s (Some t) else s)"

text \<open>The header a request carries; login and registration skip it.\<close>

definition csrf_header :: "'u session \<Rightarrow> string option \<Rightarrow> bool \<Rightarrow> string option" where
  "csrf_header s method skipCSRF =
     (case (se_token s, method) of
        (Some t, Some m) \<Rightarrow>
          if t \<noteq> [] \<and> \<not> skipCSRF \<and> m \<in> {''POST'', ''PUT'', ''DELETE''} then Some t else None
      | _ \<Rightarrow> None)"

section \<open>The provider\<close>

definition logged_out :: "bool option \<Rightarrow> 'u session \<Rightarrow> 'u session" where
  "logged_out needsFirstUser s = s\<lparr>au_user := None, au_csrfToken := None, au_isAuthenticated := False,
     au_isLoading := False, au_requiresTOTP := False, au_needsFirstUser := needsFirstUser, au_error := None\<rparr>"

definition logged_in :: "'u option \<Rightarrow> string \<Rightarrow> 'u session \<Rightarrow> 'u session" where
  "logged_in u token s = s\<lparr>au_user := u, au_csrfToken := Some token, au_isAuthenticated := True,
     au_isLoading := False, au_requiresTOTP := False, au_needsFirstUser := Some False, au_error := None\<rparr>"

definition handleSessionExpired :: "'u session \<Rightarrow> 'u session" where
  "handleSessionExpired s = logged_out None s"

text \<open>The synchronous part of an operation; a mount starts the check.\<close>

definition begin_request :: "'u session \<Rightarrow> request \<Rightarrow> 'u session" where
  "begin_request s q =
     (let s = (if q \<in> {Login, VerifyTOTP, Register} then s\<lparr>au_error := None, au_isLoading := True\<rparr> else s)
      in s\<lparr>se_pending := se_pending s @ [q]\<rparr>)"

definition clearError :: "'u session \<Rightarrow> 'u session" where
  "clearError s = s\<lparr>au_error := None\<rparr>"

text \<open>A failed operation shows the error; the exception goes on to the caller.\<close>

definition operation_failed :: "message option \<Rightarrow> message \<Rightarrow> 'u session \<Rightarrow> 'u session" where
  "operation_failed e fallback s = s\<lparr>au_isLoading := False, au_error := Some (case e of Some m \<Rightarrow> m | None \<Rightarrow> fallback)\<rparr>"

definition check_failed :: "'u session \<Rightarrow> 'u session" where
  "check_failed s = s\<lparr>au_user := None, au_csrfToken := None, au_isAuthenticated := False, au_isLoading := False,
     au_needsFirstUser := Some False, au_error := None\<rparr>"

text \<open>The rest of each operation. An answer of another shape cannot reach it.\<close>

definition on_count :: "'u session \<Rightarrow> 'u answer \<Rightarrow> 'u session" where
  "on_count s a =
     (case a of
        Count n \<Rightarrow>
          if n = 0 then s\<lparr>au_isLoading := False, au_needsFirstUser := Some True\<rparr> else begin_request s MeCheck
      | _ \<Rightarrow> check_failed s)"

definition on_me_check :: "'u session \<Rightarrow> 'u answer \<Rightarrow> 'u session" where
  "on_me_check s a = (case a of Me u t \<Rightarrow> logged_in (Some u) t (store_token s t) | _ \<Rightarrow> check_failed s)"

definition on_login :: "'u session \<Rightarrow> 'u answer \<Rightarrow> 'u session" where
  "on_login s a =
     (case a of
        LoginAnswer r \<Rightarrow>
          (let s = store_token s (answer_token r) in
           if isTOTPRequired r
           then s\<lparr>au_isLoading := False, au_requiresTOTP := True, au_csrfToken := Some (answer_token r)\<rparr>
           else logged_in (answer_user r) (answer_token r) s)
      | Failed e \<Rightarrow> operation_failed e ''Login failed'' s
      | _ \<Rightarrow> s)"

definition on_verify :: "'u session \<Rightarrow> 'u answer \<Rightarrow> 'u session" where
  "on_verify s a =
     (case a of
        LoginAnswer (LoginResponse u t) \<Rightarrow> logged_in (Some u) t (store_token s t)
      | Failed e \<Rightarrow> operation_failed e ''Verification failed'' s
      | _ \<Rightarrow> s)"

definition on_register :: "'u session \<Rightarrow> 'u answer \<Rightarrow> 'u session" where
  "on_register s a =
     (case a of
        LoginAnswer (LoginResponse u t) \<Rightarrow> logged_in (Some u) t (store_token s t)
      | Failed e \<Rightarrow> operation_failed e ''Registration failed'' s
      | _ \<Rightarrow> s)"

text \<open>Logging out forgets the session whatever the server says.\<close>

definition on_logout :: "'u session \<Rightarrow> 'u answer \<Rightarrow> 'u session" where
  "on_logout s a = logged_out (Some False) (setCSRFToken s None)"

definition on_refresh :: "'u session \<Rightarrow> 'u answer \<Rightarrow> 'u session" where
  "on_refresh s a =
     (case a of
        Me u t \<Rightarrow> (store_token s t)\<lparr>au_user := Some u, au_csrfToken := Some t\<rparr>
      | _ \<Rightarrow> (setCSRFToken s None)\<lparr>au_user := None, au_csrfToken := None, au_isAuthenticated := False, au_requiresTOTP := False\<rparr>)"

text \<open>An answer 401 to any other API call: the first one reports the expired session.\<close>

definition unauthorized :: "'u session \<Rightarrow> bool \<Rightarrow> 'u session" where
  "unauthorized s on_login_page =
     (if \<not> se_redirecting s \<and> \<not> on_login_page
      then handleSessionExpired (s\<lparr>se_redirecting := True, se_expired := se_expired s + 1\<rparr>)
      else s)"

definition redirect_timer :: "'u session \<Rightarrow> 'u session" where
  "redirect_timer s = s\<lparr>se_redirecting := False\<rparr>"

definition on_api :: "'u session \<Rightarrow> 'u answer \<Rightarrow> 'u session" where
  "on_api s a = (case a of Unauthorized p \<Rightarrow> unauthorized s p | _ \<Rightarrow> s)"

definition on_answer :: "'u session \<Rightarrow> request \<Rightarrow> 'u answer \<Rightarrow> 'u session" where
  "on_answer s q a =
     (let s = s\<lparr>se_pending := remove1 q (se_pending s)\<rparr> in
      case q of
        UserCount \<Rightarrow> on_count s a
      | MeCheck \<Rightarrow> on_me_check s a
      | Login \<Rightarrow> on_login s a
      | VerifyTOTP \<Rightarrow> on_verify s a
      | Logout \<Rightarrow> on_logout s a
      | Register \<Rightarrow> on_register s a
      | MeRefresh \<Rightarrow> on_refresh s a
      | ApiCall \<Rightarrow> on_api s a)"

section \<open>Routing\<close>

text \<open>What \<open>ProtectedRoute\<close> and \<open>LoginRoute\<close> of \<open>App.tsx\<close> render.\<close>

datatype view = LoadingScreen | Content | Redirect

definition ProtectedRoute :: "'u session \<Rightarrow> view" where
  "ProtectedRoute s =
     (if au_isLoading s then LoadingScreen
      else if \<not> au_isAuthenticated s \<or> au_requiresTOTP s \<or> au_needsFirstUser s = Some True then Redirect
      else Content)"

definition LoginRoute :: "'u session \<Rightarrow> view" where
  "LoginRoute s =
     (if au_isLoading s then LoadingScreen
      else if au_isAuthenticated s \<and> \<not> au_requiresTOTP s then Redirect
      else Content)"

section \<open>What can happen\<close>

text \<open>The shapes that can answer each request.\<close>

definition answers :: "request \<Rightarrow> 'u answer \<Rightarrow> bool" where
  "answers q a \<longleftrightarrow>
     (case a of
        Count _ \<Rightarrow> q = UserCount
      | LoginAnswer r \<Rightarrow>
          (case r of LoginResponse _ _ \<Rightarrow> q \<in> {Login, VerifyTOTP, Register} | TOTPRequiredResponse b _ \<Rightarrow> q = Login \<and> b)
      | Me _ _ \<Rightarrow> q \<in> {MeCheck, MeRefresh}
      | Success \<Rightarrow> q \<in> {Logout, ApiCall}
      | Unauthorized _ \<Rightarrow> q = ApiCall
      | Failed _ \<Rightarrow> True)"

datatype 'u auth_event = Begin request | Answer request "'u answer" | RedirectTimer | ClearError

definition auth_step :: "'u session \<Rightarrow> 'u auth_event \<Rightarrow> 'u session" where
  "auth_step s e =
     (case e of
        Begin q \<Rightarrow> begin_request s q
      | Answer q a \<Rightarrow> on_answer s q a
      | RedirectTimer \<Rightarrow> redirect_timer s
      | ClearError \<Rightarrow> clearError s)"

text \<open>The login page starts logins and registrations; the pages behind the login start the rest.\<close>

definition enabled :: "'u session \<Rightarrow> 'u auth_event \<Rightarrow> bool" where
  "enabled s e =
     (case e of
        Begin q \<Rightarrow>
          if q \<in> {Login, VerifyTOTP, Register} then LoginRoute s = Content
          else q \<in> {Logout, MeRefresh, ApiCall} \<and> ProtectedRoute s = Content
      | Answer q a \<Rightarrow> q \<in> set (se_pending s) \<and> answers q a
      | _ \<Rightarrow> True)"

text \<open>The provider mounts once and starts the check.\<close>

inductive auth_reachable :: "'u session \<Rightarrow> bool" where
  mounted: "auth_reachable (begin_request initial_session UserCount)"
| stepped: "auth_reachable s \<Longrightarrow> enabled s e \<Longrightarrow> auth_reachable (auth_step s e)"

section \<open>Invariants\<close>

lemmas answer_defs = on_answer_def on_count_def on_me_check_def on_login_def on_verify_def on_register_def
  on_logout_def on_refresh_def on_api_def unauthorized_def handleSessionExpired_def check_failed_def logged_in_def
  logged_out_def operation_failed_def begin_request_def store_token_def setCSRFToken_def Let_def

text \<open>The check runs alone: until its answers are in, the loading screen keeps everything else away.\<close>

definition check_pending :: "'u session \<Rightarrow> bool" where
  "check_pending s \<longleftrightarrow> UserCount \<in> set (se_pending s) \<or> MeCheck \<in> set (se_pending s)"

definition spinner :: "request \<Rightarrow> bool" where
  "spinner q \<longleftrightarrow> q \<in> {UserCount, MeCheck, Login, VerifyTOTP, Register}"

definition auth_ok :: "'u session \<Rightarrow> bool" where
  "auth_ok s \<longleftrightarrow>
     (check_pending s \<longrightarrow> (se_pending s = [UserCount] \<or> se_pending s = [MeCheck]) \<and> au_isLoading s \<and> \<not> au_isAuthenticated s) \<and>
     (au_isAuthenticated s \<longrightarrow> au_user s \<noteq> None \<and> au_csrfToken s \<noteq> None \<and> au_needsFirstUser s \<noteq> Some True) \<and>
     (au_isLoading s \<longrightarrow> (\<exists>q \<in> set (se_pending s). spinner q))"

lemma auth_ok_mounted: "auth_ok (begin_request initial_session UserCount)"
  by (simp add: auth_ok_def begin_request_def initial_session_def check_pending_def spinner_def)

lemma auth_ok_begin:
  assumes "auth_ok s" and "enabled s (Begin q)"
  shows "auth_ok (begin_request s q)"
proof -
  from assms(2) have l: "\<not> au_isLoading s" and q: "q \<noteq> UserCount" "q \<noteq> MeCheck"
    by (auto simp: enabled_def LoginRoute_def ProtectedRoute_def split: if_splits)
  with assms(1) have "\<not> check_pending s" by (auto simp: auth_ok_def)
  with assms(1) l q show ?thesis
    by (auto simp: auth_ok_def begin_request_def check_pending_def spinner_def Let_def)
qed

lemma in_remove1: "x \<in> set (remove1 y xs) \<Longrightarrow> x \<in> set xs"
  by (meson notin_set_remove1)

lemma spinner_remains: "spinner p \<Longrightarrow> \<not> spinner q \<Longrightarrow> p \<in> set xs \<Longrightarrow> p \<in> set (remove1 q xs)"
  by (induction xs) auto

lemma auth_ok_answer:
  assumes ok: "auth_ok s" and en: "enabled s (Answer q a)"
  shows "auth_ok (on_answer s q a)"
proof -
  from en have q: "q \<in> set (se_pending s)" and a: "answers q a" by (simp_all add: enabled_def)
  show ?thesis
  proof (cases "check_pending s")
    case True
    with ok q have p: "se_pending s = [q]" "q = UserCount \<or> q = MeCheck" "au_isLoading s" "\<not> au_isAuthenticated s"
      by (auto simp: auth_ok_def check_pending_def)
    show ?thesis
    proof (cases "q = UserCount")
      case True
      then show ?thesis
        using p a by (cases a) (simp_all add: answer_defs answers_def auth_ok_def check_pending_def spinner_def)
    next
      case False
      then have "q = MeCheck" using p by simp
      then show ?thesis
        using p a by (cases a) (simp_all add: answer_defs answers_def auth_ok_def check_pending_def spinner_def)
    qed
  next
    case False
    then have n: "q \<noteq> UserCount" "q \<noteq> MeCheck" and r: "UserCount \<notin> set (remove1 q (se_pending s))"
        "MeCheck \<notin> set (remove1 q (se_pending s))"
      using q by (auto simp: check_pending_def dest: in_remove1)
    have sp: "au_isLoading s \<Longrightarrow> \<not> spinner q \<Longrightarrow> \<exists>p \<in> set (remove1 q (se_pending s)). spinner p"
      using ok spinner_remains by (auto simp: auth_ok_def)
    show ?thesis
      using n r sp ok a
      by (cases q; cases a)
        (auto simp: answer_defs answers_def auth_ok_def check_pending_def spinner_def isTOTPRequired_def answer_user_def
          split: login_answer.splits)
  qed
qed

lemma reachable_auth_ok: "auth_reachable s \<Longrightarrow> auth_ok s"
proof (induction rule: auth_reachable.induct)
  case (stepped s e)
  then show ?case
    by (cases e) (auto simp: auth_step_def intro: auth_ok_begin auth_ok_answer,
      simp_all add: auth_ok_def check_pending_def redirect_timer_def clearError_def)
qed (rule auth_ok_mounted)

section \<open>Properties\<close>

text \<open>
  C28. The routes never send the browser back and forth between each other, and a page behind the login is only
  shown to a known user with a token and no second factor outstanding.
\<close>

theorem routes_are_consistent:
  assumes "auth_reachable s"
  shows "\<not> (ProtectedRoute s = Redirect \<and> LoginRoute s = Redirect) \<and>
    (ProtectedRoute s = Content \<longrightarrow>
       au_isAuthenticated s \<and> au_user s \<noteq> None \<and> au_csrfToken s \<noteq> None \<and> \<not> au_requiresTOTP s)"
  using reachable_auth_ok [OF assms]
  by (auto simp: auth_ok_def ProtectedRoute_def LoginRoute_def split: if_splits)

text \<open>
  C29. Only the server makes a session authenticated: a step after which it is, and before which it was not, is the
  answer to a login, a verification, a registration or the check at the start, and it sets its user and token.
\<close>

theorem authenticated_by_server:
  assumes "enabled s e" and "\<not> au_isAuthenticated s" and "au_isAuthenticated (auth_step s e)"
  shows "\<exists>q a u t. e = Answer q a \<and>
    (q \<in> {Login, VerifyTOTP, Register} \<and> a = LoginAnswer (LoginResponse u t) \<or> q = MeCheck \<and> a = Me u t) \<and>
    au_user (auth_step s e) = Some u \<and> au_csrfToken (auth_step s e) = Some t"
proof (cases e)
  case (Begin q)
  with assms show ?thesis by (simp add: auth_step_def begin_request_def Let_def split: if_splits)
next
  case (Answer q a)
  with assms show ?thesis
    by (cases q; cases a)
      (auto simp: auth_step_def answer_defs answers_def enabled_def isTOTPRequired_def answer_user_def answer_token_def
        split: login_answer.splits if_splits)
next
  case RedirectTimer
  with assms show ?thesis by (simp add: auth_step_def redirect_timer_def)
next
  case ClearError
  with assms show ?thesis by (simp add: auth_step_def clearError_def)
qed

lemma expired_answer:
  "(se_redirecting s \<longrightarrow> se_redirecting (on_answer s q a)) \<and>
   (if se_expired (on_answer s q a) = se_expired s then True
    else se_expired (on_answer s q a) = Suc (se_expired s) \<and> \<not> se_redirecting s \<and> se_redirecting (on_answer s q a))"
  by (cases q; cases a) (simp_all add: answer_defs split: login_answer.split)

lemma expired_step:
  assumes "e \<noteq> RedirectTimer"
  shows "se_expired (auth_step s e) + of_bool (\<not> se_redirecting (auth_step s e))
     \<le> se_expired s + of_bool (\<not> se_redirecting s)"
proof (cases e)
  case (Answer q a)
  then show ?thesis using expired_answer [of s q a] by (auto simp: auth_step_def split: if_splits)
next
  case ClearError
  then show ?thesis by (simp add: auth_step_def clearError_def)
qed (use assms in \<open>simp_all add: auth_step_def begin_request_def Let_def\<close>)

text \<open>
  However many requests find the session expired at the same time, it is reported at most once until the
  timer that ends the redirection.
\<close>

theorem session_expired_once:
  assumes "RedirectTimer \<notin> set es"
  shows "se_expired (foldl auth_step s es) \<le> Suc (se_expired s)"
proof -
  have "se_expired (foldl auth_step s es) + of_bool (\<not> se_redirecting (foldl auth_step s es))
      \<le> se_expired s + of_bool (\<not> se_redirecting s)"
    using assms
  proof (induction es arbitrary: s)
    case (Cons e es)
    from Cons.prems have "e \<noteq> RedirectTimer" by auto
    from expired_step [OF this, of s] Cons.IH [of "auth_step s e"] Cons.prems show ?case by simp
  qed simp
  then show ?thesis by (cases "se_redirecting s") auto
qed

section \<open>Witnesses\<close>

definition sample_session :: "nat session" where
  "sample_session = on_answer (on_answer (begin_request initial_session UserCount) UserCount (Count 1)) MeCheck (Me 7 ''tok'')"

lemma sample_before: "auth_reachable (auth_step (begin_request initial_session UserCount) (Answer UserCount (Count 1)))"
  by (rule auth_reachable.stepped [OF auth_reachable.mounted])
    (simp add: enabled_def answers_def begin_request_def initial_session_def)

lemma sample_reachable: "auth_reachable sample_session"
proof -
  have "sample_session = auth_step (auth_step (begin_request initial_session UserCount) (Answer UserCount (Count 1)))
     (Answer MeCheck (Me 7 ''tok''))"
    by (simp add: sample_session_def auth_step_def)
  moreover have "auth_reachable \<dots>"
    by (rule auth_reachable.stepped [OF sample_before])
      (simp add: enabled_def answers_def auth_step_def on_answer_def on_count_def begin_request_def initial_session_def)
  ultimately show ?thesis by simp
qed

lemma sample_content: "ProtectedRoute sample_session = Content"
  by code_simp

lemma routes_are_consistent_witness: "au_user sample_session \<noteq> None"
  using routes_are_consistent [OF sample_reachable] sample_content by simp

lemma authenticated_by_server_witness:
  "\<exists>q a u t. Answer MeCheck (Me (7::nat) ''tok'') = Answer q a \<and>
    (q \<in> {Login, VerifyTOTP, Register} \<and> a = LoginAnswer (LoginResponse u t) \<or> q = MeCheck \<and> a = Me u t) \<and>
    au_user sample_session = Some u \<and> au_csrfToken sample_session = Some t"
proof -
  let ?s = "on_answer (begin_request initial_session UserCount) UserCount (Count 1) :: nat session"
  let ?e = "Answer MeCheck (Me (7::nat) ''tok'')"
  have "enabled ?s ?e" and "\<not> au_isAuthenticated ?s" and "au_isAuthenticated (auth_step ?s ?e)"
    by (simp_all add: enabled_def answers_def auth_step_def answer_defs initial_session_def)
  from authenticated_by_server [OF this] show ?thesis by (simp add: auth_step_def sample_session_def)
qed

lemma session_expired_once_witness:
  "se_expired (foldl auth_step sample_session [Begin ApiCall, Begin ApiCall, Answer ApiCall (Unauthorized False),
     Answer ApiCall (Unauthorized False)]) \<le> Suc (se_expired sample_session)"
  by (rule session_expired_once) simp

end
