(* ===== verification/Cluster.thy ===== *)
theory Cluster
  imports Web_Types
begin

text \<open>
  The provider of \<open>context/ClusterContext.tsx\<close>: the inventory the server pushes over the web socket, the
  activity log, the task list with the actions and clones that fill it, and the console windows. A call of
  the API is a pending request; its answer runs what follows the \<open>await\<close>. Timers are kept as the source
  keeps them, by the sets of active intervals and time-outs. Data the provider only stores is of type \<open>'d\<close>.
\<close>

section \<open>State\<close>

datatype task_status = Running | Completed | Failed

record task =
  t_id :: string
  t_type :: string
  t_status :: task_status
  t_target :: string
  t_startTime :: nat
  t_message :: "string option"

text \<open>A \<open>Partial<Task>\<close>, as far as the source sets one.\<close>

record task_updates =
  tu_status :: task_status
  tu_message :: string

datatype console_type = VM | CT

record console_window =
  cw_id :: string
  cw_type :: console_type
  cw_vmid :: int
  cw_name :: string
  cw_cluster :: string
  cw_x :: int
  cw_y :: int
  cw_width :: int
  cw_height :: int
  cw_zIndex :: nat

text \<open>A \<open>Partial<ConsoleWindow>\<close>; \<open>Console.tsx\<close> reports moves and resizes.\<close>

record console_updates =
  cu_position :: "int \<times> int"
  cu_size :: "(int \<times> int) option"

datatype action = start | stop | shutdown

record clone_opts =
  co_new_id :: int
  co_name :: string
  co_target_node :: "string option"
  co_full :: "bool option"
  co_storage :: "string option"

datatype api_call =
    ClusterVMAction string int action
  | ClusterContainerAction string int action
  | VMAction int action
  | ContainerAction int action
  | CloneVM string int clone_opts
  | CloneContainer string int clone_opts

record poll =
  po_interval :: nat                         \<comment> \<open>what \<open>setInterval\<close> returned\<close>
  po_task :: string
  po_vmid :: int
  po_cluster :: string
  po_upid :: string

datatype request =
    FetchData
  | FetchActivity
  | FetchTags
  | Act string api_call                      \<comment> \<open>with its task\<close>
  | Clone string int string api_call         \<comment> \<open>with its task, source and cluster\<close>
  | TaskStatus poll

record 'd cluster_state =
  cs_clusters :: "cluster_info list"
  cs_summary :: "summary option"
  cs_nodes :: "node list"
  cs_guests :: "guest list"
  cs_storage :: "storage list"
  cs_ceph :: "'d option"
  cs_qdevice :: "'d option"
  cs_migrations :: "'d list"
  cs_drsRecommendations :: "'d list"
  cs_activityEntries :: "'d list"
  cs_tags :: "'d list"
  cs_tagAssignments :: "'d list"
  cs_activeAlarms :: "'d list"
  cs_tasks :: "task list"
  cs_isConnected :: bool
  cs_isLoading :: bool
  cs_error :: "string option"
  cs_selectedObject :: "'d option"
  cs_consoles :: "console_window list"
  cs_nextZIndex :: nat
  cs_clonePollIntervals :: "poll list"
  cs_clonePollTimeouts :: "poll list"        \<comment> \<open>each with the poll it stops\<close>
  cs_activeCloneVMIDs :: "int set"
  cs_renderedZIndex :: nat                   \<comment> \<open>\<open>nextZIndex\<close> as the callbacks of the last render see it\<close>
  cs_nextTimer :: nat
  cs_requests :: "request list"

text \<open>After the first render and its effects.\<close>

definition begin_request :: "'d cluster_state \<Rightarrow> request \<Rightarrow> 'd cluster_state" where
  "begin_request s q = s\<lparr>cs_requests := cs_requests s @ [q]\<rparr>"

definition refreshTags :: "'d cluster_state \<Rightarrow> 'd cluster_state" where
  "refreshTags s = begin_request s FetchTags"

definition ClusterProvider :: "'d cluster_state" where
  "ClusterProvider =
     refreshTags (begin_request (begin_request
       \<lparr>cs_clusters = [], cs_summary = None, cs_nodes = [], cs_guests = [], cs_storage = [], cs_ceph = None,
        cs_qdevice = None, cs_migrations = [], cs_drsRecommendations = [], cs_activityEntries = [], cs_tags = [],
        cs_tagAssignments = [], cs_activeAlarms = [], cs_tasks = [], cs_isConnected = False, cs_isLoading = True,
        cs_error = None, cs_selectedObject = None, cs_consoles = [], cs_nextZIndex = 100,
        cs_clonePollIntervals = [], cs_clonePollTimeouts = [], cs_activeCloneVMIDs = {},
        cs_renderedZIndex = 100, cs_nextTimer = 0, cs_requests = []\<rparr> FetchData) FetchActivity)"

section \<open>Messages and fetched data\<close>

record 'd state_payload =
  sp_clusters :: "cluster_info list option"
  sp_summary :: summary
  sp_nodes :: "node list option"
  sp_guests :: "guest list option"
  sp_storage :: "storage list option"
  sp_ceph :: "'d option"
  sp_qdevice_status :: "'d option"
  sp_migrations :: "'d list option"
  sp_drs_recommendations :: "'d list option"
  sp_alarms :: "'d list option"

datatype 'd ws_message = StateMessage "'d state_payload" | ActivityMessage 'd | OtherMessage

definition or_empty :: "'a list option \<Rightarrow> 'a list" where
  "or_empty x = (case x of None \<Rightarrow> [] | Some l \<Rightarrow> l)"

definition handleMessage :: "'d cluster_state \<Rightarrow> 'd ws_message \<Rightarrow> 'd cluster_state" where
  "handleMessage s msg =
     (case msg of
        StateMessage p \<Rightarrow>
          s\<lparr>cs_clusters := or_empty (sp_clusters p), cs_summary := Some (sp_summary p),
            cs_nodes := or_empty (sp_nodes p), cs_guests := or_empty (sp_guests p),
            cs_storage := or_empty (sp_storage p), cs_ceph := sp_ceph p, cs_qdevice := sp_qdevice_status p,
            cs_migrations := or_empty (sp_migrations p),
            cs_drsRecommendations := or_empty (sp_drs_recommendations p),
            cs_activeAlarms := or_empty (sp_alarms p), cs_error := None, cs_isLoading := False\<rparr>
      | ActivityMessage e \<Rightarrow> s\<lparr>cs_activityEntries := take 100 (e # cs_activityEntries s)\<rparr>
      | OtherMessage \<Rightarrow> s)"

text \<open>The hook reports its connection; without one, and with nothing loaded yet, the data is fetched.\<close>

definition onConnect :: "'d cluster_state \<Rightarrow> 'd cluster_state" where
  "onConnect s = s\<lparr>cs_error := None, cs_isConnected := True\<rparr>"

definition onDisconnect :: "'d cluster_state \<Rightarrow> 'd cluster_state" where
  "onDisconnect s =
     (let s' = s\<lparr>cs_error := Some ''Connection lost - reconnecting...'', cs_isConnected := False\<rparr>
      in if cs_isConnected s \<and> cs_isLoading s then begin_request s' FetchData else s')"

definition error_or :: "string option \<Rightarrow> string \<Rightarrow> string" where
  "error_or e fallback = (case e of Some m \<Rightarrow> m | None \<Rightarrow> fallback)"

definition on_fetchData ::
    "'d cluster_state \<Rightarrow> string option + summary \<times> node list option \<times> guest list option \<times> storage list option \<Rightarrow> 'd cluster_state" where
  "on_fetchData s a =
     (case a of
        Inr (su, n, g, st) \<Rightarrow>
          s\<lparr>cs_summary := Some su, cs_nodes := or_empty n, cs_guests := or_empty g, cs_storage := or_empty st,
            cs_error := None, cs_isLoading := False\<rparr>
      | Inl e \<Rightarrow> s\<lparr>cs_error := Some (error_or e ''Failed to fetch''), cs_isLoading := False\<rparr>)"

definition on_activity :: "'d cluster_state \<Rightarrow> string option + 'd list \<Rightarrow> 'd cluster_state" where
  "on_activity s a = (case a of Inr es \<Rightarrow> s\<lparr>cs_activityEntries := es\<rparr> | Inl _ \<Rightarrow> s)"

definition on_tags :: "'d cluster_state \<Rightarrow> string option + 'd list option \<times> 'd list option \<Rightarrow> 'd cluster_state" where
  "on_tags s a =
     (case a of Inr (t, l) \<Rightarrow> s\<lparr>cs_tags := or_empty t, cs_tagAssignments := or_empty l\<rparr> | Inl _ \<Rightarrow> s)"

section \<open>Tasks\<close>

definition addTask :: "'d cluster_state \<Rightarrow> task \<Rightarrow> 'd cluster_state" where
  "addTask s t = s\<lparr>cs_tasks := take 50 (t # cs_tasks s)\<rparr>"

definition updateTask :: "'d cluster_state \<Rightarrow> string \<Rightarrow> task_updates \<Rightarrow> 'd cluster_state" where
  "updateTask s i u =
     s\<lparr>cs_tasks := map (\<lambda>t. if t_id t = i then t\<lparr>t_status := tu_status u, t_message := Some (tu_message u)\<rparr> else t)
         (cs_tasks s)\<rparr>"

definition action_name :: "action \<Rightarrow> string" where
  "action_name a = (case a of start \<Rightarrow> ''start'' | stop \<Rightarrow> ''stop'' | shutdown \<Rightarrow> ''shutdown'')"

definition type_name :: "console_type \<Rightarrow> string" where
  "type_name t = (case t of VM \<Rightarrow> ''VM'' | CT \<Rightarrow> ''Container'')"

text \<open>A missing cluster and an empty one are the same.\<close>

definition given :: "string option \<Rightarrow> string option" where
  "given c = (case c of Some x \<Rightarrow> if x = [] then None else Some x | None \<Rightarrow> None)"

definition action_call :: "console_type \<Rightarrow> int \<Rightarrow> action \<Rightarrow> string option \<Rightarrow> api_call" where
  "action_call ty vmid a c =
     (case given c of
        Some c' \<Rightarrow> (case ty of VM \<Rightarrow> ClusterVMAction c' vmid a | CT \<Rightarrow> ClusterContainerAction c' vmid a)
      | None \<Rightarrow> (case ty of VM \<Rightarrow> VMAction vmid a | CT \<Rightarrow> ContainerAction vmid a))"

definition performAction ::
    "'d cluster_state \<Rightarrow> console_type \<Rightarrow> int \<Rightarrow> action \<Rightarrow> string option \<Rightarrow> nat \<Rightarrow> 'd cluster_state" where
  "performAction s ty vmid a c now =
     (let guest = find (\<lambda>g. g_vmid g = vmid \<and> (given c = None \<or> given c = Some (g_cluster g))) (cs_guests s);
          taskId = nat_string now @ ''-'' @ int_string vmid @ ''-'' @ action_name a;
          target = (case guest of Some g \<Rightarrow> if g_name g \<noteq> [] then g_name g else int_string vmid | None \<Rightarrow> int_string vmid);
          s = addTask s \<lparr>t_id = taskId, t_type = action_name a @ '' '' @ type_name ty, t_status = Running,
                t_target = target, t_startTime = now, t_message = None\<rparr>
      in begin_request s (Act taskId (action_call ty vmid a c)))"

definition on_action :: "'d cluster_state \<Rightarrow> string \<Rightarrow> string option + unit \<Rightarrow> 'd cluster_state" where
  "on_action s taskId a =
     (case a of
        Inr _ \<Rightarrow> updateTask s taskId \<lparr>tu_status = Completed, tu_message = ''Success''\<rparr>
      | Inl e \<Rightarrow> updateTask s taskId \<lparr>tu_status = Failed, tu_message = error_or e ''Failed''\<rparr>)"

section \<open>Clones\<close>

fun contains :: "string \<Rightarrow> string \<Rightarrow> bool" where
  "contains t [] \<longleftrightarrow> t = []"
| "contains t (c # s) \<longleftrightarrow> take (length t) (c # s) = t \<or> contains t s"

definition clone_error :: "string \<Rightarrow> string" where
  "clone_error m =
     (if contains ''cannot clone TPM state while VM is running'' m then ''VM has TPM and must be stopped first'' else m)"

text \<open>The name and the identifier of the clone are part of the options sent; the arrow in the target is written ->.\<close>

definition startClone :: "'d cluster_state \<Rightarrow> guest \<Rightarrow> clone_opts \<Rightarrow> nat \<Rightarrow> 'd cluster_state" where
  "startClone s guest opts now =
     (if g_vmid guest \<in> cs_activeCloneVMIDs s then s
      else
        (let taskId = ''clone-'' @ nat_string now @ ''-'' @ int_string (g_vmid guest);
             isVM = (g_type guest = qemu);
             s = s\<lparr>cs_activeCloneVMIDs := insert (g_vmid guest) (cs_activeCloneVMIDs s)\<rparr>;
             s = addTask s \<lparr>t_id = taskId, t_type = ''Clone '' @ type_name (if isVM then VM else CT),
                   t_status = Running, t_target = g_name guest @ '' -> '' @ co_name opts, t_startTime = now, t_message = None\<rparr>
         in begin_request s (Clone taskId (g_vmid guest) (g_cluster guest)
              (if isVM then CloneVM (g_cluster guest) (g_vmid guest) opts
               else CloneContainer (g_cluster guest) (g_vmid guest) opts))))"

text \<open>The server accepts the clone with the identifier of its task, or refuses.\<close>

definition on_clone ::
    "'d cluster_state \<Rightarrow> string \<Rightarrow> int \<Rightarrow> string \<Rightarrow> string option + string \<Rightarrow> 'd cluster_state" where
  "on_clone s taskId vmid c a =
     (case a of
        Inr upid \<Rightarrow>
          (let p = \<lparr>po_interval = cs_nextTimer s, po_task = taskId, po_vmid = vmid, po_cluster = c, po_upid = upid\<rparr>
           in s\<lparr>cs_nextTimer := Suc (cs_nextTimer s), cs_clonePollIntervals := p # cs_clonePollIntervals s,
                cs_clonePollTimeouts := p # cs_clonePollTimeouts s\<rparr>)
      | Inl e \<Rightarrow>
          updateTask (s\<lparr>cs_activeCloneVMIDs := cs_activeCloneVMIDs s - {vmid}\<rparr>) taskId
            \<lparr>tu_status = Failed, tu_message = clone_error (error_or e ''Clone failed'')\<rparr>)"

definition poll_interval :: "'d cluster_state \<Rightarrow> poll \<Rightarrow> 'd cluster_state" where
  "poll_interval s p = begin_request s (TaskStatus p)"

record task_state =
  ts_status :: string
  ts_exitstatus :: "string option"

definition on_task_status :: "'d cluster_state \<Rightarrow> poll \<Rightarrow> string option + task_state \<Rightarrow> 'd cluster_state" where
  "on_task_status s p a =
     (case a of
        Inl _ \<Rightarrow> s
      | Inr t \<Rightarrow>
          if ts_status t = ''stopped''
          then let s = s\<lparr>cs_clonePollIntervals := removeAll p (cs_clonePollIntervals s),
                         cs_activeCloneVMIDs := cs_activeCloneVMIDs s - {po_vmid p}\<rparr>
               in if ts_exitstatus t = Some ''OK''
                  then updateTask s (po_task p) \<lparr>tu_status = Completed, tu_message = ''Clone completed''\<rparr>
                  else updateTask s (po_task p)
                         \<lparr>tu_status = Failed, tu_message = clone_error (error_or (given (ts_exitstatus t)) ''Unknown error'')\<rparr>
          else s)"

definition safety_timeout :: "'d cluster_state \<Rightarrow> poll \<Rightarrow> 'd cluster_state" where
  "safety_timeout s p =
     s\<lparr>cs_clonePollIntervals := removeAll p (cs_clonePollIntervals s),
       cs_clonePollTimeouts := removeAll p (cs_clonePollTimeouts s)\<rparr>"

definition unmount :: "'d cluster_state \<Rightarrow> 'd cluster_state" where
  "unmount s = s\<lparr>cs_clonePollIntervals := [], cs_clonePollTimeouts := []\<rparr>"

section \<open>Console windows\<close>

definition raise_console :: "string \<Rightarrow> nat \<Rightarrow> console_window list \<Rightarrow> console_window list" where
  "raise_console i z cs = map (\<lambda>c. if cw_id c = i then c\<lparr>cw_zIndex := z\<rparr> else c) cs"

definition openConsole ::
    "'d cluster_state \<Rightarrow> console_type \<Rightarrow> int \<Rightarrow> string \<Rightarrow> string \<Rightarrow> nat \<Rightarrow> 'd cluster_state" where
  "openConsole s ty vmid name c now =
     (let prev = cs_consoles s; z = cs_renderedZIndex s;
          consoles =
            (case find (\<lambda>w. cw_vmid w = vmid \<and> cw_cluster w = c) prev of
               Some existing \<Rightarrow> raise_console (cw_id existing) z prev
             | None \<Rightarrow>
                 (let offset = int (length prev) * 30
                  in prev @ [\<lparr>cw_id = c @ ''-'' @ int_string vmid @ ''-'' @ nat_string now, cw_type = ty, cw_vmid = vmid,
                       cw_name = name, cw_cluster = c, cw_x = 100 + offset, cw_y = 50 + offset, cw_width = 900,
                       cw_height = 600, cw_zIndex = z\<rparr>]))
      in s\<lparr>cs_consoles := consoles, cs_nextZIndex := cs_nextZIndex s + 1\<rparr>)"

definition closeConsole :: "'d cluster_state \<Rightarrow> string \<Rightarrow> 'd cluster_state" where
  "closeConsole s i = s\<lparr>cs_consoles := filter (\<lambda>c. cw_id c \<noteq> i) (cs_consoles s)\<rparr>"

definition focusConsole :: "'d cluster_state \<Rightarrow> string \<Rightarrow> 'd cluster_state" where
  "focusConsole s i =
     s\<lparr>cs_consoles := raise_console i (cs_renderedZIndex s) (cs_consoles s), cs_nextZIndex := cs_nextZIndex s + 1\<rparr>"

definition place_console :: "console_updates \<Rightarrow> console_window \<Rightarrow> console_window" where
  "place_console u c =
     (let c = c\<lparr>cw_x := fst (cu_position u), cw_y := snd (cu_position u)\<rparr>
      in case cu_size u of Some (w, h) \<Rightarrow> c\<lparr>cw_width := w, cw_height := h\<rparr> | None \<Rightarrow> c)"

definition updateConsole :: "'d cluster_state \<Rightarrow> string \<Rightarrow> console_updates \<Rightarrow> 'd cluster_state" where
  "updateConsole s i u =
     s\<lparr>cs_consoles := map (\<lambda>c. if cw_id c = i then place_console u c else c) (cs_consoles s)\<rparr>"

definition render :: "'d cluster_state \<Rightarrow> 'd cluster_state" where
  "render s = s\<lparr>cs_renderedZIndex := cs_nextZIndex s\<rparr>"

section \<open>Selections\<close>

definition getCluster :: "'d cluster_state \<Rightarrow> string \<Rightarrow> cluster_info option" where
  "getCluster s name = find (\<lambda>c. ci_name c = name) (cs_clusters s)"

definition getGuestsByCluster :: "'d cluster_state \<Rightarrow> string \<Rightarrow> guest list" where
  "getGuestsByCluster s c = filter (\<lambda>g. g_cluster g = c) (cs_guests s)"

definition getNodesByCluster :: "'d cluster_state \<Rightarrow> string \<Rightarrow> node list" where
  "getNodesByCluster s c = filter (\<lambda>n. n_cluster n = c) (cs_nodes s)"

definition setSelectedObject :: "'d cluster_state \<Rightarrow> 'd option \<Rightarrow> 'd cluster_state" where
  "setSelectedObject s x = s\<lparr>cs_selectedObject := x\<rparr>"

section \<open>What can happen\<close>

datatype 'd cluster_event =
    Message "'d ws_message"
  | Connect
  | Disconnect
  | Data "string option + summary \<times> node list option \<times> guest list option \<times> storage list option"
  | Activity "string option + 'd list"
  | TagData "string option + 'd list option \<times> 'd list option"
  | RefreshTags
  | Perform console_type int action "string option" nat
  | ActionAnswer string api_call "string option + unit"
  | StartClone guest clone_opts nat
  | CloneAnswer string int string api_call "string option + string"
  | PollInterval poll
  | TaskAnswer poll "string option + task_state"
  | SafetyTimeout poll
  | Unmount
  | OpenConsole console_type int string string nat
  | CloseConsole string
  | FocusConsole string
  | UpdateConsole string console_updates
  | Select "'d option"
  | Render

definition answered :: "'d cluster_state \<Rightarrow> request \<Rightarrow> 'd cluster_state" where
  "answered s q = s\<lparr>cs_requests := remove1 q (cs_requests s)\<rparr>"

fun cluster_step :: "'d cluster_state \<Rightarrow> 'd cluster_event \<Rightarrow> 'd cluster_state" where
  "cluster_step s (Message m) = handleMessage s m"
| "cluster_step s Connect = onConnect s"
| "cluster_step s Disconnect = onDisconnect s"
| "cluster_step s (Data a) = on_fetchData (answered s FetchData) a"
| "cluster_step s (Activity a) = on_activity (answered s FetchActivity) a"
| "cluster_step s (TagData a) = on_tags (answered s FetchTags) a"
| "cluster_step s RefreshTags = refreshTags s"
| "cluster_step s (Perform ty v a c now) = performAction s ty v a c now"
| "cluster_step s (ActionAnswer i c a) = on_action (answered s (Act i c)) i a"
| "cluster_step s (StartClone g n now) = startClone s g n now"
| "cluster_step s (CloneAnswer i v c k a) = on_clone (answered s (Clone i v c k)) i v c a"
| "cluster_step s (PollInterval p) = poll_interval s p"
| "cluster_step s (TaskAnswer p a) = on_task_status (answered s (TaskStatus p)) p a"
| "cluster_step s (SafetyTimeout p) = safety_timeout s p"
| "cluster_step s Unmount = unmount s"
| "cluster_step s (OpenConsole ty v n c now) = openConsole s ty v n c now"
| "cluster_step s (CloseConsole i) = closeConsole s i"
| "cluster_step s (FocusConsole i) = focusConsole s i"
| "cluster_step s (UpdateConsole i u) = updateConsole s i u"
| "cluster_step s (Select x) = setSelectedObject s x"
| "cluster_step s Render = render s"

text \<open>Only pending requests are answered and only active timers fire; the activity request asks for 50 entries.\<close>

fun possible :: "'d cluster_state \<Rightarrow> 'd cluster_event \<Rightarrow> bool" where
  "possible s (Data _) \<longleftrightarrow> FetchData \<in> set (cs_requests s)"
| "possible s (Activity a) \<longleftrightarrow> FetchActivity \<in> set (cs_requests s) \<and> (case a of Inr es \<Rightarrow> length es \<le> 50 | Inl _ \<Rightarrow> True)"
| "possible s (TagData _) \<longleftrightarrow> FetchTags \<in> set (cs_requests s)"
| "possible s (ActionAnswer i c _) \<longleftrightarrow> Act i c \<in> set (cs_requests s)"
| "possible s (CloneAnswer i v c k _) \<longleftrightarrow> Clone i v c k \<in> set (cs_requests s)"
| "possible s (PollInterval p) \<longleftrightarrow> p \<in> set (cs_clonePollIntervals s)"
| "possible s (TaskAnswer p _) \<longleftrightarrow> TaskStatus p \<in> set (cs_requests s)"
| "possible s (SafetyTimeout p) \<longleftrightarrow> p \<in> set (cs_clonePollTimeouts s)"
| "possible s _ \<longleftrightarrow> True"

abbreviation run :: "'d cluster_state \<Rightarrow> 'd cluster_event list \<Rightarrow> 'd cluster_state option" where
  "run \<equiv> run_with possible cluster_step"

section \<open>Invariants\<close>

lemmas cluster_defs = handleMessage_def onConnect_def onDisconnect_def on_fetchData_def on_activity_def on_tags_def
  refreshTags_def begin_request_def performAction_def on_action_def startClone_def on_clone_def poll_interval_def
  on_task_status_def safety_timeout_def unmount_def openConsole_def closeConsole_def focusConsole_def
  updateConsole_def setSelectedObject_def render_def answered_def addTask_def updateTask_def Let_def

text \<open>The logs stay short.\<close>

definition logs_short :: "'d cluster_state \<Rightarrow> bool" where
  "logs_short s \<longleftrightarrow> length (cs_tasks s) \<le> 50 \<and> length (cs_activityEntries s) \<le> 100"

interpretation logs: kept possible cluster_step logs_short
proof
  fix s :: "'d cluster_state" and e
  assume "logs_short s" "possible s e"
  then show "logs_short (cluster_step s e)"
    by (cases e) (auto simp: logs_short_def cluster_defs split: ws_message.split sum.split option.split)
qed

text \<open>Windows: one for each guest, and all below the next one to be raised.\<close>

abbreviation console_guest :: "console_window \<Rightarrow> int \<times> string" where
  "console_guest c \<equiv> (cw_vmid c, cw_cluster c)"

definition windows_ok :: "'d cluster_state \<Rightarrow> bool" where
  "windows_ok s \<longleftrightarrow> distinct (map console_guest (cs_consoles s)) \<and> cs_renderedZIndex s \<le> cs_nextZIndex s \<and>
     (\<forall>c \<in> set (cs_consoles s). cw_zIndex c < cs_nextZIndex s)"

lemma raise_console_guests [simp]: "map console_guest (raise_console i z cs) = map console_guest cs"
  by (simp add: raise_console_def comp_def if_distrib cong: if_cong)

lemma raised: "c \<in> set (raise_console i z cs) \<Longrightarrow> \<exists>d \<in> set cs. c = (if cw_id d = i then d\<lparr>cw_zIndex := z\<rparr> else d)"
  by (auto simp: raise_console_def)

lemma windows_raise:
  assumes "windows_ok s"
  shows "windows_ok (s\<lparr>cs_consoles := raise_console i (cs_renderedZIndex s) (cs_consoles s), cs_nextZIndex := cs_nextZIndex s + 1\<rparr>)"
  using assms by (auto simp: windows_ok_def less_Suc_eq_le dest!: raised)

lemma windows_open:
  assumes "windows_ok s"
  shows "windows_ok (openConsole s ty v n c now)"
proof (cases "find (\<lambda>w. cw_vmid w = v \<and> cw_cluster w = c) (cs_consoles s)")
  case (Some w)
  then show ?thesis using windows_raise [OF assms, of "cw_id w"] by (simp add: openConsole_def Let_def)
next
  case None
  then have "(v, c) \<notin> console_guest ` set (cs_consoles s)" by (auto simp: find_None_iff)
  with assms None show ?thesis by (auto simp: openConsole_def windows_ok_def Let_def less_Suc_eq)
qed

lemma placed [simp]:
  "cw_vmid (place_console u c) = cw_vmid c" "cw_cluster (place_console u c) = cw_cluster c"
  "cw_zIndex (place_console u c) = cw_zIndex c" "cw_id (place_console u c) = cw_id c"
  by (simp_all add: place_console_def Let_def split: option.split)

lemma windows_update:
  assumes "windows_ok s"
  shows "windows_ok (updateConsole s i u)"
proof -
  have "console_guest (if cw_id c = i then place_console u c else c) = console_guest c" for c by simp
  then have "map console_guest (cs_consoles (updateConsole s i u)) = map console_guest (cs_consoles s)"
    by (simp add: updateConsole_def comp_def)
  with assms show ?thesis
    unfolding windows_ok_def by (auto simp: updateConsole_def simp del: map_map)
qed

lemma windows_close: "windows_ok s \<Longrightarrow> windows_ok (closeConsole s i)"
  by (auto simp: windows_ok_def closeConsole_def distinct_map inj_on_def)

lemma windows_other:
  "windows_ok s \<Longrightarrow> cs_consoles s' = cs_consoles s \<Longrightarrow> cs_nextZIndex s' = cs_nextZIndex s \<Longrightarrow>
   cs_renderedZIndex s' = cs_renderedZIndex s \<Longrightarrow> windows_ok s'"
  by (simp add: windows_ok_def)

interpretation windows: kept possible cluster_step windows_ok
proof
  fix s :: "'d cluster_state" and e
  assume ok: "windows_ok s" and "possible s e"
  show "windows_ok (cluster_step s e)"
  proof (cases e)
    case (OpenConsole ty v n c now)
    with ok show ?thesis by (simp add: windows_open)
  next
    case (CloseConsole i)
    with ok show ?thesis by (simp add: windows_close)
  next
    case (FocusConsole i)
    with ok show ?thesis using windows_raise [OF ok] by (simp add: focusConsole_def)
  next
    case (UpdateConsole i u)
    with ok show ?thesis by (simp add: windows_update)
  next
    case Render
    with ok show ?thesis by (simp add: windows_ok_def render_def)
  qed (rule windows_other [OF ok];
    simp add: cluster_defs split: ws_message.split sum.split option.split)+
qed

text \<open>While nothing is abandoned, whatever is shown as running is being worked on.\<close>

definition worked_on :: "'d cluster_state \<Rightarrow> string \<Rightarrow> bool" where
  "worked_on s i \<longleftrightarrow> (\<exists>c. Act i c \<in> set (cs_requests s)) \<or> (\<exists>v c k. Clone i v c k \<in> set (cs_requests s)) \<or>
     (\<exists>p \<in> set (cs_clonePollIntervals s). po_task p = i)"

definition running_ok :: "'d cluster_state \<Rightarrow> bool" where
  "running_ok s \<longleftrightarrow> (\<forall>t \<in> set (cs_tasks s). t_status t = Running \<longrightarrow> worked_on s (t_id t))"

text \<open>
  Giving up: the safety timer of a clone fires while it is still being polled. The timer of a clone that ended fires too, since
  nothing clears it, but then there is no poll left to stop.
\<close>

fun abandons :: "'d cluster_state \<Rightarrow> 'd cluster_event \<Rightarrow> bool" where
  "abandons s (SafetyTimeout p) \<longleftrightarrow> p \<in> set (cs_clonePollIntervals s)"
| "abandons s Unmount \<longleftrightarrow> True"
| "abandons s _ \<longleftrightarrow> False"

lemma worked_on_tasks [simp]: "worked_on (s\<lparr>cs_tasks := ts\<rparr>) i \<longleftrightarrow> worked_on s i"
  by (simp add: worked_on_def)

lemma running_settled:
  assumes "running_ok s" and "tu_status u \<noteq> Running"
    and "\<And>j. worked_on s j \<Longrightarrow> j \<noteq> i \<Longrightarrow> worked_on s' j" and "cs_tasks s' = cs_tasks s"
  shows "running_ok (updateTask s' i u)"
  using assms by (auto simp: running_ok_def updateTask_def split: if_splits)

lemma running_same:
  assumes "running_ok s" and "\<And>j. worked_on s j \<Longrightarrow> worked_on s' j" and "cs_tasks s' = cs_tasks s"
  shows "running_ok s'"
  using assms by (auto simp: running_ok_def)

lemma running_added:
  assumes "running_ok s" and "worked_on (begin_request s q) (t_id t)"
  shows "running_ok (begin_request (addTask s t) q)"
proof -
  have "worked_on (begin_request (addTask s t) q) j \<longleftrightarrow> worked_on (begin_request s q) j" for j
    by (simp add: worked_on_def begin_request_def addTask_def)
  moreover have "worked_on s j \<Longrightarrow> worked_on (begin_request s q) j" for j
    by (auto simp: worked_on_def begin_request_def)
  moreover have "set (take 50 (t # cs_tasks s)) \<subseteq> insert t (set (cs_tasks s))"
    using set_take_subset [of 50 "t # cs_tasks s"] by simp
  ultimately show ?thesis
    using assms by (auto simp: running_ok_def addTask_def begin_request_def dest: in_set_takeD)
qed

lemma kept_request: "x \<in> set xs \<Longrightarrow> x \<noteq> q \<Longrightarrow> x \<in> set (remove1 q xs)"
  by (simp add: in_set_remove1)

lemma worked_on_answered:
  assumes "worked_on s j" and "\<And>c. q \<noteq> Act j c" and "\<And>v c k. q \<noteq> Clone j v c k"
  shows "worked_on (answered s q) j"
proof -
  have "Act j c \<in> set (remove1 q (cs_requests s))" if "Act j c \<in> set (cs_requests s)" for c
    using that assms(2) [of c] kept_request by metis
  moreover have "Clone j v c k \<in> set (remove1 q (cs_requests s))" if "Clone j v c k \<in> set (cs_requests s)" for v c k
    using that assms(3) [of v c k] kept_request by metis
  ultimately show ?thesis using assms(1) by (fastforce simp: worked_on_def answered_def)
qed

lemma worked_on_more:
  assumes "worked_on s j" and "set (cs_requests s) \<subseteq> set (cs_requests s')"
    and "set (cs_clonePollIntervals s) \<subseteq> set (cs_clonePollIntervals s')"
  shows "worked_on s' j"
  using assms by (fastforce simp: worked_on_def)

lemma running_action:
  assumes "running_ok s"
  shows "running_ok (on_action (answered s (Act i c)) i a)"
proof -
  have "running_ok (updateTask (answered s (Act i c)) i u)" if "tu_status u \<noteq> Running" for u
    by (rule running_settled [OF assms that], rule worked_on_answered) (simp_all add: answered_def)
  then show ?thesis by (simp add: on_action_def split: sum.split)
qed

lemma running_clone:
  assumes ok: "running_ok s"
  shows "running_ok (on_clone (answered s (Clone i v c k)) i v c a)"
proof (cases a)
  case (Inl e)
  have "worked_on ((answered s q)\<lparr>cs_activeCloneVMIDs := V\<rparr>) j = worked_on (answered s q) j" for V q j
    by (simp add: worked_on_def)
  with Inl show ?thesis
    by (auto simp: on_clone_def answered_def intro!: running_settled [OF ok] intro: worked_on_answered [unfolded answered_def])
next
  case (Inr u)
  let ?s = "on_clone (answered s (Clone i v c k)) i v c a"
  have "worked_on ?s j" if w: "worked_on s j" for j
  proof (cases "j = i")
    case True
    with Inr show ?thesis by (simp add: worked_on_def on_clone_def Let_def)
  next
    case False
    with w have "worked_on (answered s (Clone i v c k)) j" by (auto intro: worked_on_answered)
    then show ?thesis by (rule worked_on_more) (auto simp: Inr on_clone_def Let_def)
  qed
  with ok show ?thesis by (rule running_same) (auto simp: Inr on_clone_def Let_def answered_def)
qed

lemma running_polled:
  assumes ok: "running_ok s"
  shows "running_ok (on_task_status (answered s (TaskStatus p)) p a)"
proof -
  let ?s = "answered s (TaskStatus p)"
  have w: "worked_on ?s j" if "worked_on s j" for j using that by (auto intro: worked_on_answered)
  have same: "running_ok ?s" by (rule running_same [OF ok w]) (simp_all add: answered_def)
  let ?r = "?s\<lparr>cs_clonePollIntervals := removeAll p (cs_clonePollIntervals ?s),
      cs_activeCloneVMIDs := cs_activeCloneVMIDs ?s - {po_vmid p}\<rparr>"
  have "running_ok (updateTask ?r (po_task p) u)" if u: "tu_status u \<noteq> Running" for u
  proof (rule running_settled [OF ok u])
    fix j
    assume "worked_on s j" and "j \<noteq> po_task p"
    then show "worked_on ?r j" using w [of j] by (auto simp: worked_on_def)
  qed (simp add: answered_def)
  with same show ?thesis by (simp add: on_task_status_def Let_def split: sum.split)
qed

lemma running_perform: "running_ok s \<Longrightarrow> running_ok (performAction s ty v a c now)"
  unfolding performAction_def Let_def
  by (erule running_added) (auto simp: begin_request_def worked_on_def)

lemma running_start: "running_ok s \<Longrightarrow> running_ok (startClone s g opts now)"
proof (cases "g_vmid g \<in> cs_activeCloneVMIDs s")
  case False
  assume "running_ok s"
  then have "running_ok (s\<lparr>cs_activeCloneVMIDs := V\<rparr>)" for V by (simp add: running_ok_def worked_on_def)
  then show ?thesis
    unfolding startClone_def Let_def if_not_P [OF False]
    by (rule running_added) (auto simp: begin_request_def worked_on_def)
qed (simp add: startClone_def)

interpretation work: kept "\<lambda>s e. possible s e \<and> \<not> abandons s e" cluster_step running_ok
proof
  fix s :: "'d cluster_state" and e
  assume ok: "running_ok s" and p: "possible s e \<and> \<not> abandons s e"
  show "running_ok (cluster_step s e)"
  proof (cases e)
    case (ActionAnswer i c a)
    with ok show ?thesis by (simp add: running_action)
  next
    case (CloneAnswer i v c k a)
    with ok show ?thesis by (simp add: running_clone)
  next
    case (TaskAnswer q a)
    with ok show ?thesis by (simp add: running_polled)
  next
    case (Perform ty v a c now)
    with ok show ?thesis by (simp add: running_perform)
  next
    case (StartClone g n now)
    with ok show ?thesis by (simp add: running_start)
  next
    case (SafetyTimeout q)
    with p have "q \<notin> set (cs_clonePollIntervals s)" by simp
    then show ?thesis
      by (intro running_same [OF ok]; (erule worked_on_more)?) (auto simp: SafetyTimeout safety_timeout_def worked_on_def)
  next
    case Unmount
    with p show ?thesis by simp
  next
    case (Data a)
    have "running_ok (answered s FetchData)"
      by (rule running_same [OF ok worked_on_answered]) (simp_all add: answered_def)
    then show ?thesis
      by (rule running_same) (auto simp: Data on_fetchData_def worked_on_def split: sum.split)
  next
    case (Activity a)
    have "running_ok (answered s FetchActivity)"
      by (rule running_same [OF ok worked_on_answered]) (simp_all add: answered_def)
    then show ?thesis
      by (rule running_same) (auto simp: Activity on_activity_def worked_on_def split: sum.split)
  next
    case (TagData a)
    have "running_ok (answered s FetchTags)"
      by (rule running_same [OF ok worked_on_answered]) (simp_all add: answered_def)
    then show ?thesis
      by (rule running_same) (auto simp: TagData on_tags_def worked_on_def split: sum.split)
  qed (rule running_same [OF ok]; (erule worked_on_more)?;
      auto simp: cluster_defs split: ws_message.split option.split)+
qed

text \<open>
  A guest whose clone was abandoned: marked as being cloned, with no poll left. Only the answer to a status request that
  was already under way can still clear the mark.
\<close>

definition concerns :: "int \<Rightarrow> request \<Rightarrow> bool" where
  "concerns v q = (case q of Clone _ w _ _ \<Rightarrow> w = v | _ \<Rightarrow> False)"

fun late_stop :: "int \<Rightarrow> 'd cluster_event \<Rightarrow> bool" where
  "late_stop v (TaskAnswer p (Inr t)) \<longleftrightarrow> po_vmid p = v \<and> ts_status t = ''stopped''"
| "late_stop v _ \<longleftrightarrow> False"

definition abandoned :: "int \<Rightarrow> 'd cluster_state \<Rightarrow> bool" where
  "abandoned v s \<longleftrightarrow> v \<in> cs_activeCloneVMIDs s \<and> (\<forall>q \<in> set (cs_requests s). \<not> concerns v q) \<and>
     (\<forall>p \<in> set (cs_clonePollIntervals s). po_vmid p \<noteq> v)"

lemma abandoned_less:
  assumes "abandoned v s" and "set (cs_requests s') \<subseteq> set (cs_requests s) \<union> {q. \<not> concerns v q}"
    and "set (cs_clonePollIntervals s') \<subseteq> set (cs_clonePollIntervals s) \<union> {p. po_vmid p \<noteq> v}"
    and "v \<in> cs_activeCloneVMIDs s'"
  shows "abandoned v s'"
  using assms by (auto simp: abandoned_def)

lemma abandoned_no_clone: "abandoned v s \<Longrightarrow> g_vmid g = v \<Longrightarrow> startClone s g opts now = s"
  by (simp add: startClone_def abandoned_def)

interpretation leak: kept "\<lambda>s e. possible s e \<and> \<not> late_stop v e" cluster_step "abandoned v"
proof
  fix s :: "'d cluster_state" and e
  assume ok: "abandoned v s" and pl: "possible s e \<and> \<not> late_stop v e"
  then have p: "possible s e" by simp
  from ok have v: "v \<in> cs_activeCloneVMIDs s" by (simp add: abandoned_def)
  from ok have r: "\<not> concerns v q" if "q \<in> set (cs_requests s)" for q using that by (simp add: abandoned_def)
  from ok have i: "po_vmid q \<noteq> v" if "q \<in> set (cs_clonePollIntervals s)" for q using that by (simp add: abandoned_def)
  have less: "set (remove1 q (cs_requests s)) \<subseteq> set (cs_requests s) \<union> {q. \<not> concerns v q}" for q
    using set_remove1_subset by fastforce
  show "abandoned v (cluster_step s e)"
  proof (cases e)
    case (CloneAnswer j w c k a)
    with p r have "w \<noteq> v" by (force simp: concerns_def)
    with v less show ?thesis
      by (intro abandoned_less [OF ok])
        (auto simp: CloneAnswer on_clone_def answered_def updateTask_def Let_def split: sum.split)
  next
    case (TaskAnswer q a)
    with pl have "po_vmid q \<noteq> v \<or> (\<forall>t. a = Inr t \<longrightarrow> ts_status t \<noteq> ''stopped'')" by (cases a) auto
    with v less show ?thesis
      by (intro abandoned_less [OF ok])
        (auto simp: TaskAnswer on_task_status_def answered_def updateTask_def Let_def split: sum.split)
  next
    case (StartClone g n now)
    show ?thesis
    proof (cases "g_vmid g = v")
      case True
      with ok StartClone show ?thesis by (simp add: abandoned_no_clone)
    next
      case False
      with v show ?thesis
        by (intro abandoned_less [OF ok])
          (auto simp: StartClone startClone_def begin_request_def addTask_def concerns_def Let_def)
    qed
  next
    case (PollInterval q)
    with p i v show ?thesis
      by (intro abandoned_less [OF ok]) (auto simp: poll_interval_def begin_request_def concerns_def)
  next
    case (Data a)
    with v less show ?thesis
      by (intro abandoned_less [OF ok]) (auto simp: on_fetchData_def answered_def split: sum.split)
  next
    case (Activity a)
    with v less show ?thesis
      by (intro abandoned_less [OF ok]) (auto simp: on_activity_def answered_def split: sum.split)
  next
    case (TagData a)
    with v less show ?thesis
      by (intro abandoned_less [OF ok]) (auto simp: on_tags_def answered_def split: sum.split)
  next
    case (ActionAnswer j c a)
    with v less show ?thesis
      by (intro abandoned_less [OF ok]) (auto simp: on_action_def answered_def updateTask_def split: sum.split)
  qed (rule abandoned_less [OF ok]; use v in \<open>auto simp: cluster_defs concerns_def split: ws_message.split option.split\<close>)+
qed

section \<open>Properties\<close>

lemma provider_ok: "logs_short ClusterProvider" "windows_ok ClusterProvider" "running_ok ClusterProvider"
  by (simp_all add: logs_short_def windows_ok_def running_ok_def ClusterProvider_def refreshTags_def begin_request_def)


text \<open>
  C38. When the only poll of a clone is given up, with no clone request of its guest unanswered, the guest stays marked as
  being cloned: whatever happens afterwards, starting a clone of it changes nothing at all, until a status request
  that was already under way is answered with the news that the task has stopped.
\<close>

theorem given_up_clone_blocks_guest:
  assumes "p \<in> set (cs_clonePollTimeouts s)" and "po_vmid p \<in> cs_activeCloneVMIDs s"
    and "\<forall>q \<in> set (cs_clonePollIntervals s). po_vmid q = po_vmid p \<longrightarrow> q = p"
    and "\<forall>i c k. Clone i (po_vmid p) c k \<notin> set (cs_requests s)"
    and "run s (SafetyTimeout p # es) = Some s'" and "\<forall>e \<in> set es. \<not> late_stop (po_vmid p) e" and "g_vmid g = po_vmid p"
  shows "startClone s' g opts now = s'"
proof -
  from assms(2-4) have "abandoned (po_vmid p) (safety_timeout s p)"
    by (auto simp: abandoned_def safety_timeout_def concerns_def split: request.splits)
  moreover have "run_with (\<lambda>s e. possible s e \<and> \<not> late_stop (po_vmid p) e) cluster_step (safety_timeout s p) es = Some s'"
  proof -
    have "run_with P f s es = Some s' \<Longrightarrow> \<forall>e \<in> set es. Q e \<Longrightarrow> run_with (\<lambda>s e. P s e \<and> Q e) f s es = Some s'" for P f s es Q s'
      by (induction es arbitrary: s) (auto split: if_splits)
    then show ?thesis using assms(1,5,6) by simp
  qed
  ultimately show ?thesis using leak.run_keeps abandoned_no_clone [OF _ assms(7)] by blast
qed

text \<open>
  There is never more than one console window for a guest of a cluster, the activity log never exceeds 100
  entries and the task list never exceeds 50.
\<close>

theorem lists_bounded:
  assumes "run ClusterProvider es = Some s"
  shows "length (filter (\<lambda>c. cw_vmid c = v \<and> cw_cluster c = k) (cs_consoles s)) \<le> 1 \<and>
    length (cs_activityEntries s) \<le> 100 \<and> length (cs_tasks s) \<le> 50"
proof -
  have "distinct (map console_guest cs) \<Longrightarrow> length (filter (\<lambda>c. cw_vmid c = v \<and> cw_cluster c = k) cs) \<le> 1" for cs
  proof (induction cs)
    case (Cons c cs)
    then show ?case by (auto simp: filter_empty_conv image_iff)
  qed simp
  then show ?thesis
    using windows.run_keeps [OF assms provider_ok(2)] logs.run_keeps [OF assms provider_ok(1)]
    by (simp add: windows_ok_def logs_short_def)
qed

text \<open>
  Opening a console shows its guest in front of every other window, opened before or not, provided the
  provider has been rendered since the last window was raised.
\<close>

theorem opened_console_in_front:
  assumes "run ClusterProvider es = Some s" and "cs_renderedZIndex s = cs_nextZIndex s"
  shows "\<exists>c \<in> set (cs_consoles (openConsole s ty v n k now)). cw_vmid c = v \<and> cw_cluster c = k \<and>
    (\<forall>d \<in> set (cs_consoles (openConsole s ty v n k now)). cw_id d \<noteq> cw_id c \<longrightarrow> cw_zIndex d < cw_zIndex c)"
proof -
  have below: "\<forall>d \<in> set (cs_consoles s). cw_zIndex d < cs_renderedZIndex s"
    using windows.run_keeps [OF assms(1) provider_ok(2)] assms(2) by (simp add: windows_ok_def)
  show ?thesis
  proof (cases "find (\<lambda>w. cw_vmid w = v \<and> cw_cluster w = k) (cs_consoles s)")
    case None
    with below show ?thesis by (auto simp: openConsole_def Let_def)
  next
    case (Some w)
    then have w: "w \<in> set (cs_consoles s)" "cw_vmid w = v" "cw_cluster w = k" by (auto simp: find_Some_iff)
    let ?w = "w\<lparr>cw_zIndex := cs_renderedZIndex s\<rparr>"
    have cs: "cs_consoles (openConsole s ty v n k now) = raise_console (cw_id w) (cs_renderedZIndex s) (cs_consoles s)"
      using Some by (simp add: openConsole_def Let_def)
    have "?w \<in> set (cs_consoles (openConsole s ty v n k now))"
      unfolding cs raise_console_def using w(1) by force
    moreover have "cw_zIndex d < cw_zIndex ?w"
      if "d \<in> set (cs_consoles (openConsole s ty v n k now))" "cw_id d \<noteq> cw_id ?w" for d
      using that below by (auto simp: cs dest!: raised)
    ultimately show ?thesis using w(2,3) by (intro bexI [of _ ?w]) auto
  qed
qed

section \<open>Witnesses\<close>

definition sample_guest :: guest where
  "sample_guest = \<lparr>g_cluster = ''c'', g_vmid = 7, g_name = ''web'', g_node = ''n'', g_type = qemu, g_status = ''running'',
     g_cpu = 0, g_cpus = 1, g_mem = 0, g_maxmem = 1, g_disk = 0, g_maxdisk = 1, g_uptime = 0, g_template = None,
     g_tags = None, g_ha_state = None, g_nics = None\<rparr>"

definition sample_opts :: clone_opts where
  "sample_opts = \<lparr>co_new_id = 8, co_name = ''copy'', co_target_node = None, co_full = None, co_storage = None\<rparr>"

definition sample_poll :: poll where
  "sample_poll = \<lparr>po_interval = 0, po_task = ''clone-5-7'', po_vmid = 7, po_cluster = ''c'', po_upid = ''u''\<rparr>"

definition sample_events :: "nat cluster_event list" where
  "sample_events = [OpenConsole VM 7 ''web'' ''c'' 3, Render, StartClone sample_guest sample_opts 5,
     CloneAnswer ''clone-5-7'' 7 ''c'' (CloneVM ''c'' 7 sample_opts) (Inr ''u'')]"

definition sample_state :: "nat cluster_state" where
  "sample_state = fold (\<lambda>e s. cluster_step s e) sample_events ClusterProvider"

lemma sample_task_id: "''clone-'' @ nat_string 5 @ ''-'' @ int_string 7 = ''clone-5-7''"
  by code_simp

lemma sample_run: "run ClusterProvider sample_events = Some sample_state"
  by (simp add: sample_events_def sample_state_def startClone_def sample_guest_def ClusterProvider_def Let_def
    sample_task_id [simplified] cluster_defs sample_opts_def)

lemma sample_contents:
  "cs_tasks sample_state = [\<lparr>t_id = ''clone-5-7'', t_type = ''Clone VM'', t_status = Running, t_target = ''web -> copy'',
     t_startTime = 5, t_message = None\<rparr>]"
  "cs_clonePollTimeouts sample_state = [sample_poll]" "cs_clonePollIntervals sample_state = [sample_poll]"
  "cs_requests sample_state = [FetchData, FetchActivity, FetchTags]" "cs_activeCloneVMIDs sample_state = {7}"
  "cs_renderedZIndex sample_state = cs_nextZIndex sample_state"
  by code_simp+

text \<open>The clone ends, its safety timer fires later, and the guest is cloned again.\<close>

definition later_events :: "nat cluster_event list" where
  "later_events = sample_events @ [PollInterval sample_poll,
     TaskAnswer sample_poll (Inr \<lparr>ts_status = ''stopped'', ts_exitstatus = Some ''OK''\<rparr>), StartClone sample_guest sample_opts 6,
     SafetyTimeout sample_poll]"

definition later_state :: "nat cluster_state" where
  "later_state = fold (\<lambda>e s. cluster_step s e) later_events ClusterProvider"

lemma later_contents:
  "map (\<lambda>t. (t_id t, t_status t)) (cs_tasks later_state) = [(''clone-6-7'', Running), (''clone-5-7'', Completed)]"
  "cs_clonePollIntervals later_state = []"
  by code_simp+


text \<open>A status request is under way when the poll is given up, and is answered that the task still runs.\<close>

definition given_up :: "nat cluster_state" where
  "given_up = cluster_step (cluster_step (safety_timeout (poll_interval sample_state sample_poll) sample_poll) Render)
     (TaskAnswer sample_poll (Inr \<lparr>ts_status = ''running'', ts_exitstatus = None\<rparr>))"

theorem given_up_clone_blocks_guest_witness: "startClone given_up sample_guest sample_opts 9 = given_up"
  by (rule given_up_clone_blocks_guest [where p = sample_poll and s = "poll_interval sample_state sample_poll"
        and es = "[Render, TaskAnswer sample_poll (Inr \<lparr>ts_status = ''running'', ts_exitstatus = None\<rparr>)]"])
    (simp_all add: sample_contents sample_poll_def sample_guest_def poll_interval_def begin_request_def given_up_def safety_timeout_def render_def)

lemma lists_bounded_witness: "length (cs_tasks sample_state) \<le> 50"
  using lists_bounded [OF sample_run] by simp

lemma opened_console_in_front_witness:
  "\<exists>c \<in> set (cs_consoles (openConsole sample_state VM 9 ''db'' ''c'' 6)). cw_vmid c = 9 \<and> cw_cluster c = ''c'' \<and>
    (\<forall>d \<in> set (cs_consoles (openConsole sample_state VM 9 ''db'' ''c'' 6)). cw_id d \<noteq> cw_id c \<longrightarrow> cw_zIndex d < cw_zIndex c)"
  by (rule opened_console_in_front [OF sample_run sample_contents(6)])

end
