(* ===== verification/Folders.thy ===== *)
theory Folders
  imports Web_Types
begin

text \<open>
  Folders of the inventory: the searches and the provider of \<open>context/FolderContext.tsx\<close>, and the folder
  handling of \<open>components/InventoryTree.tsx\<close>: the set of resources in folders, the flattened list of the
  "Move to" menu and the two drop handlers. Trees come from the server; a request of the provider is pending
  until its answer runs the rest of the operation.
\<close>

section \<open>Searching a tree\<close>

abbreviation or_none :: "'a list option \<Rightarrow> 'a list" where
  "or_none x \<equiv> (case x of None \<Rightarrow> [] | Some l \<Rightarrow> l)"

fun findFolderById :: "folder list \<Rightarrow> string \<Rightarrow> folder option" where
  "findFolderById [] i = None"
| "findFolderById (Folder fid name par view cl ord cr up children members # fs) i =
     (let f = Folder fid name par view cl ord cr up children members in
      if fid = i then Some f
      else (case children of
              None \<Rightarrow> findFolderById fs i
            | Some cs \<Rightarrow> (case findFolderById cs i of Some found \<Rightarrow> Some found | None \<Rightarrow> findFolderById fs i)))"

definition is_member :: "resource_type \<Rightarrow> string \<Rightarrow> string \<Rightarrow> folder_member \<Rightarrow> bool" where
  "is_member ty i c m \<longleftrightarrow> fm_resource_type m = ty \<and> fm_resource_id m = i \<and> fm_cluster m = c"

fun findResourceFolder :: "folder list \<Rightarrow> resource_type \<Rightarrow> string \<Rightarrow> string \<Rightarrow> folder option" where
  "findResourceFolder [] ty i c = None"
| "findResourceFolder (Folder fid name par view cl ord cr up children members # fs) ty i c =
     (if list_ex (is_member ty i c) (case members of None \<Rightarrow> [] | Some ms \<Rightarrow> ms)
      then Some (Folder fid name par view cl ord cr up children members)
      else (case children of
              None \<Rightarrow> findResourceFolder fs ty i c
            | Some cs \<Rightarrow>
                (case findResourceFolder cs ty i c of Some found \<Rightarrow> Some found | None \<Rightarrow> findResourceFolder fs ty i c)))"

section \<open>The tree component\<close>

definition member_key :: "folder_member \<Rightarrow> string" where
  "member_key m = resource_name (fm_resource_type m) @ '':'' @ fm_resource_id m @ '':'' @ fm_cluster m"

fun collectFolderMembers :: "folder list \<Rightarrow> string set" where
  "collectFolderMembers [] = {}"
| "collectFolderMembers (Folder fid name par view cl ord cr up children members # fs) =
     (case members of None \<Rightarrow> {} | Some ms \<Rightarrow> set (map member_key ms)) \<union>
     (case children of None \<Rightarrow> {} | Some cs \<Rightarrow> collectFolderMembers cs) \<union>
     collectFolderMembers fs"

definition guest_resource :: "guest \<Rightarrow> resource_type" where
  "guest_resource g = (if g_type g = qemu then vm else ct)"

definition isGuestInFolder :: "folder list \<Rightarrow> guest \<Rightarrow> bool" where
  "isGuestInFolder tree g \<longleftrightarrow>
     resource_name (guest_resource g) @ '':'' @ int_string (g_vmid g) @ '':'' @ g_cluster g \<in> collectFolderMembers tree"

record flat_folder =
  ff_id :: string
  ff_name :: string
  ff_path :: string

fun flattenFolders :: "folder list \<Rightarrow> string \<Rightarrow> flat_folder list" where
  "flattenFolders [] prefix = []"
| "flattenFolders (Folder fid name par view cl ord cr up children members # fs) prefix =
     (let path = (if prefix \<noteq> [] then prefix @ '' / '' @ name else name)
      in \<lparr>ff_id = fid, ff_name = name, ff_path = path\<rparr> #
         (case children of None \<Rightarrow> [] | Some cs \<Rightarrow> flattenFolders cs path) @
         flattenFolders fs prefix)"

section \<open>The provider\<close>

record move_resource_request =
  mr_resource_type :: resource_type
  mr_resource_id :: string
  mr_cluster :: string
  mr_to_folder_id :: "string option"

datatype folder_call =
    CreateFolder string tree_view "string option" "string option"
  | RenameFolder string string
  | DeleteFolder string
  | MoveFolder string "string option"
  | AddFolderMember string resource_type string string
  | RemoveFolderMember string resource_type string string
  | MoveResource move_resource_request tree_view

datatype folder_request = Call folder_call | GetTree tree_view | GetBoth

record folder_state =
  fs_hostsTree :: "folder list"
  fs_vmsTree :: "folder list"
  fs_isLoading :: bool
  fs_error :: "string option"
  fs_requests :: "folder_request list"

definition ask :: "folder_state \<Rightarrow> folder_request \<Rightarrow> folder_state" where
  "ask s q = s\<lparr>fs_requests := fs_requests s @ [q]\<rparr>"

definition refreshTree :: "folder_state \<Rightarrow> tree_view \<Rightarrow> folder_state" where
  "refreshTree s t = ask s (GetTree t)"

definition on_tree :: "folder_state \<Rightarrow> tree_view \<Rightarrow> string option + folder list \<Rightarrow> folder_state" where
  "on_tree s t a =
     (case a of
        Inr fs \<Rightarrow> (case t of hosts \<Rightarrow> s\<lparr>fs_hostsTree := fs\<rparr> | vms \<Rightarrow> s\<lparr>fs_vmsTree := fs\<rparr>)\<lparr>fs_error := None\<rparr>
      | Inl e \<Rightarrow> s\<lparr>fs_error := Some (case e of Some m \<Rightarrow> m | None \<Rightarrow> ''Failed to fetch folders'')\<rparr>)"

definition refreshAll :: "folder_state \<Rightarrow> folder_state" where
  "refreshAll s = ask (s\<lparr>fs_isLoading := True\<rparr>) GetBoth"

definition on_both :: "folder_state \<Rightarrow> string option + folder list \<times> folder list \<Rightarrow> folder_state" where
  "on_both s a =
     (case a of
        Inr (h, v) \<Rightarrow> s\<lparr>fs_hostsTree := h, fs_vmsTree := v, fs_error := None, fs_isLoading := False\<rparr>
      | Inl e \<Rightarrow> s\<lparr>fs_error := Some (case e of Some m \<Rightarrow> m | None \<Rightarrow> ''Failed to fetch folders''), fs_isLoading := False\<rparr>)"

definition FolderProvider :: folder_state where
  "FolderProvider = refreshAll \<lparr>fs_hostsTree = [], fs_vmsTree = [], fs_isLoading = True, fs_error = None, fs_requests = []\<rparr>"

text \<open>Each change calls the server and then fetches what it may have changed; a refused call changes nothing.\<close>

definition createFolder :: "folder_state \<Rightarrow> string \<Rightarrow> tree_view \<Rightarrow> string option \<Rightarrow> string option \<Rightarrow> folder_state" where
  "createFolder s name view par cl = ask s (Call (CreateFolder name view par cl))"

definition renameFolder :: "folder_state \<Rightarrow> string \<Rightarrow> string \<Rightarrow> folder_state" where
  "renameFolder s i name = ask s (Call (RenameFolder i name))"

definition deleteFolder :: "folder_state \<Rightarrow> string \<Rightarrow> folder_state" where
  "deleteFolder s i = ask s (Call (DeleteFolder i))"

definition moveFolder :: "folder_state \<Rightarrow> string \<Rightarrow> string option \<Rightarrow> folder_state" where
  "moveFolder s i par = ask s (Call (MoveFolder i par))"

definition addResourceToFolder :: "folder_state \<Rightarrow> string \<Rightarrow> resource_type \<Rightarrow> string \<Rightarrow> string \<Rightarrow> folder_state" where
  "addResourceToFolder s f ty i c = ask s (Call (AddFolderMember f ty i c))"

definition removeResourceFromFolder :: "folder_state \<Rightarrow> string \<Rightarrow> resource_type \<Rightarrow> string \<Rightarrow> string \<Rightarrow> folder_state" where
  "removeResourceFromFolder s f ty i c = ask s (Call (RemoveFolderMember f ty i c))"

definition moveResource :: "folder_state \<Rightarrow> move_resource_request \<Rightarrow> tree_view \<Rightarrow> folder_state" where
  "moveResource s req t = ask s (Call (MoveResource req t))"

definition on_call :: "folder_state \<Rightarrow> folder_call \<Rightarrow> bool \<Rightarrow> folder_state" where
  "on_call s c ok =
     (if \<not> ok then s
      else (case c of
              CreateFolder _ view _ _ \<Rightarrow> refreshTree s view
            | MoveResource _ t \<Rightarrow> refreshTree s t
            | _ \<Rightarrow> refreshAll s))"

definition tree_of :: "folder_state \<Rightarrow> tree_view \<Rightarrow> folder list" where
  "tree_of s t = (case t of hosts \<Rightarrow> fs_hostsTree s | vms \<Rightarrow> fs_vmsTree s)"

definition getFolderById :: "folder_state \<Rightarrow> string \<Rightarrow> tree_view \<Rightarrow> folder option" where
  "getFolderById s i t = findFolderById (tree_of s t) i"

definition getResourceFolder :: "folder_state \<Rightarrow> resource_type \<Rightarrow> string \<Rightarrow> string \<Rightarrow> tree_view \<Rightarrow> folder option" where
  "getResourceFolder s ty i c t = findResourceFolder (tree_of s t) ty i c"

section \<open>Dropping\<close>

datatype drag_type = drag_resource | drag_folder

record drag_data =
  dd_type :: drag_type
  dd_resourceType :: "resource_type option"
  dd_resourceId :: "string option"
  dd_cluster :: "string option"
  dd_folderId :: "string option"

definition present :: "string option \<Rightarrow> string option" where
  "present x = (case x of Some s \<Rightarrow> if s = [] then None else Some s | None \<Rightarrow> None)"

definition resource_drop :: "folder_state \<Rightarrow> tree_view \<Rightarrow> drag_data \<Rightarrow> string option \<Rightarrow> folder_state" where
  "resource_drop s t d target =
     (case (dd_resourceType d, present (dd_resourceId d), present (dd_cluster d)) of
        (Some ty, Some i, Some c) \<Rightarrow>
          moveResource s \<lparr>mr_resource_type = ty, mr_resource_id = i, mr_cluster = c, mr_to_folder_id = target\<rparr> t
      | _ \<Rightarrow> s)"

definition handleFolderDrop :: "folder_state \<Rightarrow> string \<Rightarrow> tree_view \<Rightarrow> drag_data \<Rightarrow> folder_state" where
  "handleFolderDrop s target t d =
     (case (dd_type d, present (dd_folderId d)) of
        (drag_folder, Some f) \<Rightarrow> if f = target then s else moveFolder s f (Some target)
      | (drag_folder, None) \<Rightarrow> s
      | (drag_resource, _) \<Rightarrow> resource_drop s t d (Some target))"

definition handleRootDrop :: "folder_state \<Rightarrow> tree_view \<Rightarrow> drag_data \<Rightarrow> folder_state" where
  "handleRootDrop s t d =
     (case (dd_type d, present (dd_folderId d)) of
        (drag_folder, Some f) \<Rightarrow> moveFolder s f None
      | (drag_folder, None) \<Rightarrow> s
      | (drag_resource, _) \<Rightarrow> resource_drop s t d None)"

section \<open>Preorder\<close>

text \<open>The reference: the folders of a tree, each before its children, with the path of names above it.\<close>

fun preorder :: "folder list \<Rightarrow> folder list" where
  "preorder [] = []"
| "preorder (Folder fid name par view cl ord cr up children members # fs) =
     Folder fid name par view cl ord cr up children members #
     (case children of None \<Rightarrow> [] | Some cs \<Rightarrow> preorder cs) @ preorder fs"

lemma find_append: "find P (xs @ ys) = (case find P xs of Some x \<Rightarrow> Some x | None \<Rightarrow> find P ys)"
  by (induction xs) auto

lemma findFolderById_preorder: "findFolderById fs i = find (\<lambda>f. fo_id f = i) (preorder fs)"
  by (induction fs rule: preorder.induct) (auto simp: find_append split: option.splits)

definition holds :: "resource_type \<Rightarrow> string \<Rightarrow> string \<Rightarrow> folder \<Rightarrow> bool" where
  "holds ty i c f \<longleftrightarrow> list_ex (is_member ty i c) (or_none (fo_members f))"

lemma findResourceFolder_preorder: "findResourceFolder fs ty i c = find (holds ty i c) (preorder fs)"
  by (induction fs rule: preorder.induct) (auto simp: find_append holds_def split: option.splits)

lemma collected: "collectFolderMembers fs = (\<Union>f \<in> set (preorder fs). member_key ` set (or_none (fo_members f)))"
  by (induction fs rule: preorder.induct) (auto split: option.splits)

lemma split_at_colon:
  "CHR '':'' \<notin> set a \<Longrightarrow> CHR '':'' \<notin> set b \<Longrightarrow> a @ CHR '':'' # x = b @ CHR '':'' # y \<longleftrightarrow> a = b \<and> x = y"
proof (induction a arbitrary: b)
  case Nil
  then show ?case by (cases b) auto
next
  case (Cons z a)
  then show ?case by (cases b) auto
qed

lemma key_is:
  assumes "CHR '':'' \<notin> set (fm_resource_id m)" and "CHR '':'' \<notin> set i"
  shows "resource_name ty @ '':'' @ i @ '':'' @ c = member_key m \<longleftrightarrow> is_member ty i c m"
  using assms resource_name_no_colon
  by (auto simp: member_key_def is_member_def split_at_colon)

section \<open>Properties\<close>

text \<open>
  A guest is kept out of the default lists exactly when some folder holds it: the set of keys the tree
  component collects agrees with the provider's search, as long as no resource identifier contains a colon.
\<close>

theorem folder_membership_agrees:
  assumes "\<forall>f \<in> set (preorder tree). \<forall>m \<in> set (or_none (fo_members f)). CHR '':'' \<notin> set (fm_resource_id m)"
  shows "isGuestInFolder tree g \<longleftrightarrow>
    findResourceFolder tree (guest_resource g) (int_string (g_vmid g)) (g_cluster g) \<noteq> None"
proof -
  let ?i = "int_string (g_vmid g)"
  have "isGuestInFolder tree g \<longleftrightarrow>
      (\<exists>f \<in> set (preorder tree). \<exists>m \<in> set (or_none (fo_members f)). is_member (guest_resource g) ?i (g_cluster g) m)"
    unfolding isGuestInFolder_def collected using assms key_is int_string_no_colon by fastforce
  then show ?thesis
    by (auto simp: findResourceFolder_preorder find_None_iff holds_def list_ex_iff)
qed

text \<open>The folders on the way to a folder, the outermost first.\<close>

fun ancestors :: "folder list \<Rightarrow> string list \<Rightarrow> (folder \<times> string list) list" where
  "ancestors [] up_to = []"
| "ancestors (Folder fid name par view cl ord cr up children members # fs) up_to =
     (Folder fid name par view cl ord cr up children members, up_to @ [name]) #
     (case children of None \<Rightarrow> [] | Some cs \<Rightarrow> ancestors cs (up_to @ [name])) @ ancestors fs up_to"

fun join_names :: "string list \<Rightarrow> string" where
  "join_names [] = []"
| "join_names [n] = n"
| "join_names (n # ns) = n @ '' / '' @ join_names ns"

lemma join_names_snoc: "ns \<noteq> [] \<Longrightarrow> join_names (ns @ [n]) = join_names ns @ '' / '' @ n"
  by (induction ns rule: join_names.induct) auto

lemma join_names_empty: "[] \<notin> set ns \<Longrightarrow> join_names ns = [] \<longleftrightarrow> ns = []"
  by (cases ns rule: join_names.cases) auto

lemma ancestors_preorder: "map fst (ancestors fs up_to) = preorder fs"
  by (induction fs up_to rule: ancestors.induct) (auto split: option.splits)

text \<open>
  The "Move to" menu offers every folder of the tree once, each parent before its children, under the path
  of the names that lead to it; it finds a folder by its identifier exactly when one is offered.
\<close>

theorem move_to_menu:
  assumes "\<forall>f \<in> set (preorder fs). fo_name f \<noteq> []"
  shows "map ff_id (flattenFolders fs []) = map fo_id (preorder fs) \<and>
    map ff_path (flattenFolders fs []) = map (join_names \<circ> snd) (ancestors fs []) \<and>
    (findFolderById fs i = None \<longleftrightarrow> i \<notin> set (map ff_id (flattenFolders fs [])))"
proof -
  have "map ff_id (flattenFolders fs (join_names up_to)) = map fo_id (preorder fs) \<and>
      map ff_path (flattenFolders fs (join_names up_to)) = map (join_names \<circ> snd) (ancestors fs up_to)"
    if "[] \<notin> set up_to" for up_to
    using assms that
  proof (induction fs up_to rule: ancestors.induct)
    case (2 fid name par view cl ord cr up children members fs up_to)
    have path: "(if join_names up_to \<noteq> [] then join_names up_to @ '' / '' @ name else name) = join_names (up_to @ [name])"
      using 2(4) by (cases "up_to = []") (simp_all add: join_names_empty join_names_snoc)
    show ?case
      using 2 path by (cases children) (auto simp add: Let_def)
  qed simp
  from this [of "[]"] show ?thesis
    by (auto simp: findFolderById_preorder find_None_iff)
qed

section \<open>Witnesses\<close>

definition sample_member :: folder_member where
  "sample_member = \<lparr>fm_folder_id = ''f2'', fm_resource_type = vm, fm_resource_id = ''7'', fm_cluster = ''c'', fm_added_at = []\<rparr>"

definition sample_tree :: "folder list" where
  "sample_tree =
     [Folder ''f1'' ''prod'' None vms None 0 [] []
        (Some [Folder ''f2'' ''web'' (Some ''f1'') vms None 0 [] [] None (Some [sample_member])]) None,
      Folder ''f3'' ''test'' None vms None 1 [] [] None None]"

definition sample_guest :: guest where
  "sample_guest = \<lparr>g_cluster = ''c'', g_vmid = 7, g_name = ''web'', g_node = ''n'', g_type = qemu, g_status = ''running'',
     g_cpu = 0, g_cpus = 1, g_mem = 0, g_maxmem = 1, g_disk = 0, g_maxdisk = 1, g_uptime = 0, g_template = None,
     g_tags = None, g_ha_state = None, g_nics = None\<rparr>"

lemma folder_membership_agrees_witness:
  "isGuestInFolder sample_tree sample_guest \<longleftrightarrow> findResourceFolder sample_tree vm (int_string 7) ''c'' \<noteq> None"
  using folder_membership_agrees [of sample_tree sample_guest]
  by (simp add: sample_tree_def sample_member_def sample_guest_def guest_resource_def)

lemma move_to_menu_witness: "map ff_path (flattenFolders sample_tree []) = [''prod'', ''prod / web'', ''test'']"
  using move_to_menu [of sample_tree "''f2''"] by (simp add: sample_tree_def)

end
