(* ===== verification/Inventory.thy ===== *)
theory Inventory
  imports Folders "HOL-Library.Multiset"
begin

text \<open>
  What \<open>components/InventoryTree.tsx\<close> computes from the inventory: the sorted and grouped lists, the filter, the
  node with the most free memory, and the tree of the "VMs & Templates" view as the items it displays.
  \<open>localeCompare\<close> compares by a collation key, a parameter \<open>collate\<close> into any linear order; \<open>toLowerCase\<close> is given on ASCII.
\<close>

section \<open>Sorting and grouping\<close>

definition sortedClusters :: "(string \<Rightarrow> 'k :: linorder) \<Rightarrow> cluster_info list \<Rightarrow> cluster_info list" where
  "sortedClusters collate cs = sort_key (collate \<circ> ci_name) cs"

definition sortedNodes :: "(string \<Rightarrow> 'k :: linorder) \<Rightarrow> node list \<Rightarrow> node list" where
  "sortedNodes collate ns = sort_key (collate \<circ> n_node) ns"

definition sortedGuests :: "guest list \<Rightarrow> guest list" where
  "sortedGuests gs = sort_key g_vmid gs"

definition sortedStorage :: "(string \<Rightarrow> 'k :: linorder) \<Rightarrow> storage list \<Rightarrow> storage list" where
  "sortedStorage collate ss = sort_key (collate \<circ> st_storage) ss"

text \<open>The step of each grouping loop: make the list if it is missing, then append.\<close>

definition push_to :: "('k \<rightharpoonup> 'v list) \<Rightarrow> 'k \<Rightarrow> 'v \<Rightarrow> ('k \<rightharpoonup> 'v list)" where
  "push_to m k v = m(k \<mapsto> (case m k of None \<Rightarrow> [] | Some l \<Rightarrow> l) @ [v])"

definition localByNode :: "storage list \<Rightarrow> (string \<rightharpoonup> storage list)" where
  "localByNode ss = foldl (\<lambda>m s. push_to m (st_node s) s) Map.empty (filter (\<lambda>s. \<not> st_shared s) ss)"

definition or_default :: "string \<Rightarrow> string" where
  "or_default c = (if c = [] then ''default'' else c)"

definition guestsByClusterNode :: "guest list \<Rightarrow> (string \<rightharpoonup> (string \<rightharpoonup> guest list))" where
  "guestsByClusterNode gs =
     foldl (\<lambda>m g. let c = or_default (g_cluster g); inner = (case m c of None \<Rightarrow> Map.empty | Some i \<Rightarrow> i)
                  in m(c \<mapsto> push_to inner (g_node g) g)) Map.empty gs"

definition nodesByCluster :: "node list \<Rightarrow> (string \<rightharpoonup> node list)" where
  "nodesByCluster ns = foldl (\<lambda>m n. push_to m (or_default (n_cluster n)) n) Map.empty ns"

section \<open>Filter\<close>

definition to_lower :: "string \<Rightarrow> string" where
  "to_lower s = map (\<lambda>c. if 65 \<le> (of_char c :: nat) \<and> of_char c \<le> (90 :: nat) then char_of (of_char c + 32 :: nat) else c) s"

fun occurs :: "string \<Rightarrow> string \<Rightarrow> bool" where
  "occurs t [] \<longleftrightarrow> t = []"
| "occurs t (c # s) \<longleftrightarrow> take (length t) (c # s) = t \<or> occurs t s"

definition filterGuest :: "string \<Rightarrow> guest \<Rightarrow> bool" where
  "filterGuest flt g \<longleftrightarrow>
     (let f = to_lower flt in f = [] \<or> occurs f (to_lower (g_name g)) \<or> occurs f (int_string (g_vmid g)))"

section \<open>The node to create a guest on\<close>

definition free_memory :: "node \<Rightarrow> rat" where
  "free_memory n = n_maxmem n - n_mem n"

definition getBestNode :: "node list \<Rightarrow> string \<Rightarrow> string option" where
  "getBestNode ns c =
     (case filter (\<lambda>n. n_cluster n = c \<and> n_status n = ''online'') ns of
        [] \<Rightarrow> None
      | clusterNodes \<Rightarrow> Some (n_node (hd (sort_key (\<lambda>n. - free_memory n) clusterNodes))))"

definition getBestClusterNode :: "node list \<Rightarrow> (string \<times> string) option" where
  "getBestClusterNode ns =
     (case filter (\<lambda>n. n_status n = ''online'') ns of
        [] \<Rightarrow> None
      | onlineNodes \<Rightarrow>
          (let best = hd (sort_key (\<lambda>n. - free_memory n) onlineNodes) in Some (n_cluster best, n_node best)))"

section \<open>The tree of guests\<close>

datatype item =
    GuestItem guest resource_type
  | FolderItem string nat "item list"        \<comment> \<open>label, count, children\<close>
  | NodeItem node nat "item list"

record tree_env =
  te_guests :: "guest list"
  te_nodes :: "node list"
  te_filter :: string

definition renderGuestNode :: "guest \<Rightarrow> resource_type \<Rightarrow> item" where
  "renderGuestNode g ty = GuestItem g ty"

definition node_guests :: "tree_env \<Rightarrow> string \<Rightarrow> string \<Rightarrow> guest list" where
  "node_guests e c n =
     filter (filterGuest (te_filter e))
       (case guestsByClusterNode (sortedGuests (te_guests e)) c of
          None \<Rightarrow> []
        | Some m \<Rightarrow> (case m n of None \<Rightarrow> [] | Some l \<Rightarrow> l))"

definition group_item :: "string \<Rightarrow> guest list \<Rightarrow> resource_type \<Rightarrow> item list" where
  "group_item label gs ty =
     (if gs \<noteq> [] then [FolderItem label (length gs) (map (\<lambda>g. renderGuestNode g ty) gs)] else [])"

definition render_node :: "tree_env \<Rightarrow> node \<Rightarrow> item" where
  "render_node e n =
     (let nodeGuests = node_guests e (n_cluster n) (n_node n)
      in NodeItem n (length nodeGuests)
           (group_item ''Virtual Machines'' (filter (\<lambda>g. g_type g = qemu) nodeGuests) vm @
            group_item ''Containers'' (filter (\<lambda>g. g_type g = lxc) nodeGuests) ct))"

definition render_member :: "tree_env \<Rightarrow> folder_member \<Rightarrow> item list" where
  "render_member e m =
     (if fm_resource_type m = vm \<or> fm_resource_type m = ct
      then (case find (\<lambda>g. int_string (g_vmid g) = fm_resource_id m \<and> g_cluster g = fm_cluster m) (te_guests e) of
              Some g \<Rightarrow> [renderGuestNode g (if fm_resource_type m = vm then vm else ct)]
            | None \<Rightarrow> [])
      else if fm_resource_type m = node_resource
      then (case find (\<lambda>n. n_node n = fm_resource_id m \<and> n_cluster n = fm_cluster m) (te_nodes e) of
              Some n \<Rightarrow> [render_node e n]
            | None \<Rightarrow> [])
      else [])"

fun renderFolderNode :: "tree_env \<Rightarrow> folder \<Rightarrow> item" where
  "renderFolderNode e (Folder fid name par view cl ord cr up children members) =
     FolderItem name (length (or_none children) + length (or_none members))
       ((case children of None \<Rightarrow> [] | Some cs \<Rightarrow> map (renderFolderNode e) cs) @
        concat (map (render_member e) (or_none members)))"

definition unfiled :: "tree_env \<Rightarrow> folder list \<Rightarrow> guest_type \<Rightarrow> guest list" where
  "unfiled e tree ty =
     filter (\<lambda>g. \<not> isGuestInFolder tree g)
       (filter (filterGuest (te_filter e)) (filter (\<lambda>g. g_type g = ty) (sortedGuests (te_guests e))))"

definition vms_view :: "tree_env \<Rightarrow> folder list \<Rightarrow> item" where
  "vms_view e tree =
     (let vms = unfiled e tree qemu; cts = unfiled e tree lxc
      in FolderItem ''VMs & Templates'' (length vms + length cts + length tree)
           (map (renderFolderNode e) tree @
            [FolderItem ''Virtual Machines'' (length vms) (map (\<lambda>g. renderGuestNode g vm) vms),
             FolderItem ''Containers'' (length cts) (map (\<lambda>g. renderGuestNode g ct) cts)]))"

section \<open>Groups are filters\<close>

lemma grouped: "(foldl (\<lambda>m x. push_to m (key x) x) m xs) k =
   (if \<exists>x \<in> set xs. key x = k then Some ((case m k of None \<Rightarrow> [] | Some l \<Rightarrow> l) @ filter (\<lambda>x. key x = k) xs) else m k)"
  by (induction xs arbitrary: m) (auto simp: push_to_def)

lemma guests_grouped:
  "(case (foldl (\<lambda>m g. let c = or_default (g_cluster g); inner = (case m c of None \<Rightarrow> Map.empty | Some i \<Rightarrow> i)
                  in m(c \<mapsto> push_to inner (g_node g) g)) m gs) c of
      None \<Rightarrow> [] | Some i \<Rightarrow> or_none (i n)) =
   (case m c of None \<Rightarrow> [] | Some i \<Rightarrow> or_none (i n)) @ filter (\<lambda>g. or_default (g_cluster g) = c \<and> g_node g = n) gs"
  by (induction gs arbitrary: m) (auto simp: push_to_def Let_def split: option.splits)

lemma node_guests_filter:
  "node_guests e c n =
     filter (\<lambda>g. filterGuest (te_filter e) g \<and> or_default (g_cluster g) = c \<and> g_node g = n) (sortedGuests (te_guests e))"
  using guests_grouped [where m = Map.empty and gs = "sortedGuests (te_guests e)" and c = c and n = n]
  by (simp add: node_guests_def guestsByClusterNode_def conj_commute)

lemma hd_sort_key_least:
  assumes "xs \<noteq> []"
  shows "hd (sort_key f xs) \<in> set xs \<and> (\<forall>x \<in> set xs. f (hd (sort_key f xs)) \<le> f x)"
proof -
  have "sort_key f xs \<noteq> []" using assms by (metis length_0_conv length_sort)
  then obtain y ys where y: "sort_key f xs = y # ys" by (cases "sort_key f xs") auto
  moreover have "sorted (map f (sort_key f xs))" by simp
  ultimately have "\<forall>x \<in> set (sort_key f xs). f y \<le> f x" by simp
  moreover have "set (sort_key f xs) = set xs" by simp
  ultimately show ?thesis using y by (metis list.sel(1) list.set_intros(1))
qed

section \<open>Guests on display\<close>

fun shown :: "item \<Rightarrow> guest list" where
  "shown (GuestItem g _) = [g]"
| "shown (FolderItem _ _ is) = concat (map shown is)"
| "shown (NodeItem _ _ is) = concat (map shown is)"

definition all_members :: "folder list \<Rightarrow> folder_member list" where
  "all_members tree = concat (map (\<lambda>f. or_none (fo_members f)) (preorder tree))"

lemma all_members_simps [simp]:
  "all_members [] = []"
  "all_members (Folder fid name par view cl ord cr up children members # fs) =
     or_none members @ (case children of None \<Rightarrow> [] | Some cs \<Rightarrow> all_members cs) @ all_members fs"
  by (auto simp: all_members_def split: option.split)

definition member_guests :: "tree_env \<Rightarrow> folder_member \<Rightarrow> guest list" where
  "member_guests e m = concat (map shown (render_member e m))"

lemma mset_concat_map: "mset (concat (map f xs)) = (\<Sum>x\<leftarrow>xs. mset (f x))"
  by (induction xs) auto

lemma shown_folders:
  "mset (concat (map (\<lambda>f. shown (renderFolderNode e f)) fs)) = mset (concat (map (member_guests e) (all_members fs)))"
proof (induction fs rule: preorder.induct)
  case (2 fid name par view cl ord cr up children members fs)
  have m: "concat (map shown (concat (map (render_member e) ms))) = concat (map (member_guests e) ms)" for ms
    by (induction ms) (simp_all add: member_guests_def)
  show ?case
    using 2 by (cases children) (simp_all add: m comp_def)
qed simp

text \<open>How often a member puts a guest on display.\<close>

definition refers :: "folder_member \<Rightarrow> guest \<Rightarrow> bool" where
  "refers m g \<longleftrightarrow> fm_resource_type m \<in> {vm, ct} \<and> fm_resource_id m = int_string (g_vmid g) \<and> fm_cluster m = g_cluster g"

abbreviation guest_key :: "guest \<Rightarrow> int \<times> string" where
  "guest_key g \<equiv> (g_vmid g, g_cluster g)"

abbreviation member_ref :: "folder_member \<Rightarrow> resource_type \<times> string \<times> string" where
  "member_ref m \<equiv> (fm_resource_type m, fm_resource_id m, fm_cluster m)"

lemma find_by_key:
  assumes "distinct (map guest_key gs)" and "g \<in> set gs"
  shows "find (\<lambda>h. int_string (g_vmid h) = i \<and> g_cluster h = c) gs = Some g \<longleftrightarrow> int_string (g_vmid g) = i \<and> g_cluster g = c"
    (is "find ?P gs = Some g \<longleftrightarrow> ?P g")
proof
  assume "find ?P gs = Some g"
  then show "?P g" by (auto simp: find_Some_iff)
next
  assume g: "?P g"
  then obtain h where h: "find ?P gs = Some h" using assms(2) by (cases "find ?P gs") (auto simp: find_None_iff)
  then have "?P h" "h \<in> set gs" by (auto simp: find_Some_iff)
  with g have "guest_key h = guest_key g" by auto
  with assms \<open>h \<in> set gs\<close> have "h = g" by (simp add: distinct_map inj_on_def)
  with h show "find ?P gs = Some g" by simp
qed

text \<open>A member that is a node puts the guests of the node on display.\<close>

definition hosts :: "tree_env \<Rightarrow> folder_member \<Rightarrow> guest \<Rightarrow> bool" where
  "hosts e m g \<longleftrightarrow> fm_resource_type m = node_resource \<and>
     (\<exists>n \<in> set (te_nodes e). n_node n = fm_resource_id m \<and> n_cluster n = fm_cluster m) \<and>
     or_default (g_cluster g) = fm_cluster m \<and> g_node g = fm_resource_id m"

lemma count_filter_distinct: "distinct xs \<Longrightarrow> count_list (filter P xs) x = (if x \<in> set xs \<and> P x then 1 else 0)"
  by (induction xs) auto

lemma shown_group: "concat (map shown (group_item label gs ty)) = gs"
proof -
  have "concat (map (\<lambda>h. shown (renderGuestNode h ty)) gs) = gs"
    by (induction gs) (simp_all add: renderGuestNode_def)
  then show ?thesis by (simp add: group_item_def comp_def)
qed

lemma shown_node:
  assumes "te_filter e = []" and "distinct (te_guests e)" and "g \<in> set (te_guests e)"
  shows "count_list (shown (render_node e n)) g = (if or_default (g_cluster g) = n_cluster n \<and> g_node g = n_node n then 1 else 0)"
proof -
  have all: "filterGuest (te_filter e) h" for h using assms(1) by (simp add: filterGuest_def to_lower_def)
  have "distinct (sortedGuests (te_guests e))" using assms(2) by (simp add: sortedGuests_def)
  from count_filter_distinct [OF this] have "count_list (filter P (sortedGuests (te_guests e))) g = (if P g then 1 else 0)" for P
    using assms(3) by (simp add: sortedGuests_def)
  then show ?thesis
    by (cases "g_type g") (auto simp: render_node_def Let_def shown_group node_guests_filter all count_list_append)
qed

lemma member_guests_count:
  assumes "te_filter e = []" and "distinct (map guest_key (te_guests e))" and "g \<in> set (te_guests e)"
  shows "count_list (member_guests e m) g = (if refers m g then 1 else 0) + (if hosts e m g then 1 else 0)"
proof (cases "fm_resource_type m \<in> {vm, ct}")
  case True
  let ?f = "find (\<lambda>h. int_string (g_vmid h) = fm_resource_id m \<and> g_cluster h = fm_cluster m) (te_guests e)"
  have f: "?f = Some g \<longleftrightarrow> refers m g"
    using find_by_key [OF assms(2,3)] True by (auto simp: refers_def)
  have "member_guests e m = (case ?f of None \<Rightarrow> [] | Some h \<Rightarrow> [h])"
    using True by (auto simp: member_guests_def render_member_def renderGuestNode_def split: option.split)
  moreover have "\<not> hosts e m g" using True by (auto simp: hosts_def)
  ultimately show ?thesis unfolding f [symmetric] by (cases ?f) simp_all
next
  case False
  then have r: "\<not> refers m g" by (simp add: refers_def)
  show ?thesis
  proof (cases "fm_resource_type m = node_resource")
    case True
    let ?f = "find (\<lambda>n. n_node n = fm_resource_id m \<and> n_cluster n = fm_cluster m) (te_nodes e)"
    have d: "distinct (te_guests e)" using assms(2) by (simp add: distinct_map)
    have m: "member_guests e m = (case ?f of None \<Rightarrow> [] | Some n \<Rightarrow> shown (render_node e n))"
      using True by (auto simp: member_guests_def render_member_def split: option.split)
    show ?thesis
    proof (cases ?f)
      case None
      then have "\<not> hosts e m g" by (auto simp: hosts_def find_None_iff)
      with None m r show ?thesis by simp
    next
      case (Some n)
      then have n: "n_node n = fm_resource_id m" "n_cluster n = fm_cluster m" "n \<in> set (te_nodes e)"
        by (auto simp: find_Some_iff)
      have "hosts e m g \<longleftrightarrow> or_default (g_cluster g) = n_cluster n \<and> g_node g = n_node n"
        using n True by (auto simp: hosts_def)
      with Some m r show ?thesis by (simp add: shown_node [OF assms(1) d assms(3)])
    qed
  next
    case other: False
    then show ?thesis using False r by (simp add: member_guests_def render_member_def hosts_def)
  qed
qed

lemma count_concat_map: "count_list (concat (map f xs)) g = (\<Sum>x\<leftarrow>xs. count_list (f x) g)"
  by (induction xs) (simp_all add: count_list_append)

lemma sum_of_bool_filter:
  "(\<Sum>x\<leftarrow>xs. (if P x then 1 else 0) + (if Q x then 1 else 0)) = length (filter P xs) + length (filter Q xs)"
  by (induction xs) auto

lemma folders_count:
  assumes "te_filter e = []" and "distinct (map guest_key (te_guests e))" and "g \<in> set (te_guests e)"
  shows "count_list (concat (map (\<lambda>f. shown (renderFolderNode e f)) tree)) g =
    length (filter (\<lambda>m. refers m g) (all_members tree)) + length (filter (\<lambda>m. hosts e m g) (all_members tree))"
proof -
  have "count_list (concat (map (\<lambda>f. shown (renderFolderNode e f)) tree)) g
      = count_list (concat (map (member_guests e) (all_members tree))) g"
    by (metis shown_folders count_mset)
  also have "\<dots> = (\<Sum>m\<leftarrow>all_members tree. (if refers m g then 1 else 0) + (if hosts e m g then 1 else 0))"
    unfolding count_concat_map by (intro arg_cong [of _ _ sum_list] map_cong refl member_guests_count assms)
  finally show ?thesis by (simp add: sum_of_bool_filter)
qed

lemma in_folder_member:
  assumes "\<forall>m \<in> set (all_members tree). CHR '':'' \<notin> set (fm_resource_id m)"
  shows "isGuestInFolder tree g \<longleftrightarrow>
    (\<exists>m \<in> set (all_members tree). is_member (guest_resource g) (int_string (g_vmid g)) (g_cluster g) m)"
proof -
  have "collectFolderMembers tree = member_key ` set (all_members tree)"
    by (auto simp: collected all_members_def)
  then have "isGuestInFolder tree g \<longleftrightarrow> (\<exists>m \<in> set (all_members tree).
      resource_name (guest_resource g) @ '':'' @ int_string (g_vmid g) @ '':'' @ g_cluster g = member_key m)"
    by (simp only: isGuestInFolder_def image_iff)
  also have "\<dots> \<longleftrightarrow> (\<exists>m \<in> set (all_members tree). is_member (guest_resource g) (int_string (g_vmid g)) (g_cluster g) m)"
    by (rule bex_cong [OF refl], rule key_is) (simp_all add: assms int_string_no_colon)
  finally show ?thesis .
qed

section \<open>Properties\<close>

text \<open>
  C11. With no filter, the "VMs & Templates" view leaves no guest out, and shows it this often: once for every folder entry
  that names it, once for every folder entry that is the node it runs on, and once in the default list of its type when no entry
  names it under the type it has. So while its node is in no folder, a guest filed once under its type, or not at all, is shown exactly
  once, and one filed twice is shown twice. No two guests of a cluster have the same vmid, and a resource identifier contains no
  colon.
\<close>

theorem guests_shown:
  assumes "te_filter e = []" and "distinct (map guest_key (te_guests e))" and "g \<in> set (te_guests e)"
    and "\<forall>m \<in> set (all_members tree). CHR '':'' \<notin> set (fm_resource_id m)"
  defines "names \<equiv> filter (\<lambda>m. refers m g) (all_members tree)" and "nodes \<equiv> filter (\<lambda>m. hosts e m g) (all_members tree)"
  shows "count_list (shown (vms_view e tree)) g =
      length names + length nodes + (if \<exists>m \<in> set names. fm_resource_type m = guest_resource g then 0 else 1) \<and>
    0 < count_list (shown (vms_view e tree)) g"
proof -
  have d: "distinct (te_guests e)" using assms(2) by (simp add: distinct_map)
  have all: "filterGuest (te_filter e) h" for h using assms(1) by (simp add: filterGuest_def to_lower_def)
  have u: "count_list (unfiled e tree ty) g = (if g_type g = ty \<and> \<not> isGuestInFolder tree g then 1 else 0)" for ty
    using count_filter_distinct [of "sortedGuests (te_guests e)" "\<lambda>h. \<not> isGuestInFolder tree h \<and> g_type h = ty" g] d assms(3)
    by (simp add: unfiled_def all sortedGuests_def conj_commute)
  have s: "concat (map (\<lambda>h. shown (renderGuestNode h ty)) gs) = gs" for ty gs
    by (induction gs) (simp_all add: renderGuestNode_def)
  have inf: "isGuestInFolder tree g \<longleftrightarrow> (\<exists>m \<in> set names. fm_resource_type m = guest_resource g)"
    unfolding in_folder_member [OF assms(4)]
    by (cases "g_type g") (auto simp: names_def is_member_def refers_def guest_resource_def)
  have "count_list (shown (vms_view e tree)) g =
      length names + length nodes + count_list (unfiled e tree qemu) g + count_list (unfiled e tree lxc) g"
    using folders_count [OF assms(1-3), of tree] s
    by (simp add: vms_view_def Let_def comp_def count_list_append names_def nodes_def)
  also have "\<dots> = length names + length nodes + (if isGuestInFolder tree g then 0 else 1)"
    using u by (cases "g_type g") auto
  finally have c: "count_list (shown (vms_view e tree)) g = length names + length nodes + (if isGuestInFolder tree g then 0 else 1)" .
  moreover have "isGuestInFolder tree g \<Longrightarrow> 0 < length names" unfolding inf by auto
  ultimately show ?thesis unfolding inf by auto
qed

text \<open>
  Grouping by cluster and node loses nothing and keeps the order: under a node the tree shows exactly the guests
  of that node that pass the filter, by increasing identifier.
\<close>

theorem node_shows_its_guests:
  "node_guests e c n =
    filter (\<lambda>g. filterGuest (te_filter e) g \<and> or_default (g_cluster g) = c \<and> g_node g = n) (sortedGuests (te_guests e)) \<and>
    sorted (map g_vmid (node_guests e c n))"
  unfolding node_guests_filter by (simp add: sortedGuests_def sorted_filter)

text \<open>The best node of a cluster is online, and no online node of the cluster has more free memory.\<close>

theorem best_node_has_most_memory:
  "case getBestNode ns c of
     None \<Rightarrow> \<not> (\<exists>n \<in> set ns. n_cluster n = c \<and> n_status n = ''online'')
   | Some b \<Rightarrow> \<exists>n \<in> set ns. n_node n = b \<and> n_cluster n = c \<and> n_status n = ''online'' \<and>
       (\<forall>n' \<in> set ns. n_cluster n' = c \<and> n_status n' = ''online'' \<longrightarrow> free_memory n' \<le> free_memory n)"
proof (cases "filter (\<lambda>n. n_cluster n = c \<and> n_status n = ''online'') ns")
  case Nil
  then show ?thesis by (auto simp: getBestNode_def filter_empty_conv)
next
  case (Cons x xs)
  let ?on = "filter (\<lambda>n. n_cluster n = c \<and> n_status n = ''online'') ns"
  let ?b = "hd (sort_key (\<lambda>n. - free_memory n) ?on)"
  have "getBestNode ns c = Some (n_node ?b)" using Cons by (simp add: getBestNode_def)
  moreover have "?b \<in> set ?on \<and> (\<forall>n \<in> set ?on. - free_memory ?b \<le> - free_memory n)"
    using hd_sort_key_least [of ?on "\<lambda>n. - free_memory n"] Cons by simp
  ultimately show ?thesis by auto
qed

section \<open>Witnesses\<close>

definition sample_env :: tree_env where
  "sample_env = \<lparr>te_guests = [sample_guest, sample_guest\<lparr>g_vmid := 5, g_name := ''db'', g_type := lxc\<rparr>], te_nodes = [], te_filter = []\<rparr>"

text \<open>The guest of the sample tree, filed once, and a guest that is not filed.\<close>

theorem guests_shown_witness:
  "count_list (shown (vms_view sample_env sample_tree)) sample_guest = 1 \<and>
   count_list (shown (vms_view sample_env sample_tree)) (sample_guest\<lparr>g_vmid := 5, g_name := ''db'', g_type := lxc\<rparr>) = 1"
proof -
  have p: "te_filter sample_env = []" "distinct (map guest_key (te_guests sample_env))" "sample_guest \<in> set (te_guests sample_env)"
      "sample_guest\<lparr>g_vmid := 5, g_name := ''db'', g_type := lxc\<rparr> \<in> set (te_guests sample_env)"
      "\<forall>m \<in> set (all_members sample_tree). CHR '':'' \<notin> set (fm_resource_id m)"
    by (simp_all add: sample_env_def sample_guest_def sample_tree_def sample_member_def)
  show ?thesis
    unfolding guests_shown [OF p(1-3,5), THEN conjunct1] guests_shown [OF p(1,2,4,5), THEN conjunct1]
    by code_simp
qed

definition sample_node :: "string \<Rightarrow> rat \<Rightarrow> node" where
  "sample_node name used = \<lparr>n_cluster = ''c'', n_node = name, n_status = ''online'', n_cpu = 0, n_maxcpu = 4, n_mem = used,
     n_maxmem = 8, n_disk = 0, n_maxdisk = 1, n_uptime = 0, n_last_update = None, n_error = None, n_pve_version = None,
     n_kernel_version = None, n_cpu_model = None, n_loadavg = None\<rparr>"

lemma best_node_has_most_memory_witness: "getBestNode [sample_node ''a'' 5, sample_node ''b'' 2] ''c'' = Some ''b''"
proof -
  have "getBestNode [sample_node ''a'' 5, sample_node ''b'' 2] ''c'' \<noteq> None"
    by (simp add: getBestNode_def sample_node_def)
  then show ?thesis
    using best_node_has_most_memory [where ns = "[sample_node ''a'' 5, sample_node ''b'' 2]" and c = "''c''"]
    by (auto simp: sample_node_def free_memory_def)
qed

end
