(* ===== verification/Spec2Isabelle.thy ===== *)
theory Spec2Isabelle
  imports Decoders Zrle_Tiles Keyboard Gesture_Taps Rfb_Gestures Console Web_Socket Auth Cluster Inventory
begin

text \<open>
  \<^bold>\<open>pCenter's web client and its remote console.\<close>

  pCenter is a management front end for Proxmox clusters. Its browser code has two large parts: the
  React application under \<open>src/frontend/src\<close>, which keeps an inventory of clusters, nodes and guests
  up to date over a web socket, and the noVNC client under \<open>src/frontend/public/novnc\<close>, which shows
  the screen of a guest. The application's console window creates an \<open>RFB\<close> object and follows the events
  it fires; it imports the client as the npm package \<open>@novnc/novnc\<close> (1.4.0 in \<open>package-lock.json\<close>), whose code is not part of the
  repository, and the object followed here is that of the copy under \<open>public/novnc\<close>. Both parts are modelled here,
  each file by a theory.

  \<^bold>\<open>The values of JavaScript\<close> are in \<open>JS_Prelude\<close>: numbers that index or count are \<open>int\<close>, with the bitwise
  operators of ECMAScript (\<open>ToInt32\<close>, \<open>js_shl\<close>, \<open>js_sar\<close>, \<open>js_shr\<close>, \<open>js_and\<close>) written out, typed arrays are
  byte lists with the clamping and the range errors of the language, and an operation that may throw
  returns the state it leaves with a sum of the error and the result. \<open>Web_Types\<close> has the records of
  \<open>types/index.ts\<close> and the decimal notation of template strings.

  \<^bold>\<open>The RFB client.\<close>
  \<^item> \<open>Websock\<close> (\<open>websock.js\<close>): receive and send queues as a byte array with read and write index. Its lemmas say
    what each operation does to the unread bytes and to what was sent (\<open>ws_simps\<close>); messages are
    appended across compaction and growth, reads invert pushes, an overflow is an error.
  \<^item> \<open>Base64\<close>, \<open>Strings\<close>, \<open>Key_Tables\<close>: \<open>base64.js\<close>, \<open>util/strings.js\<close> and \<open>util/int.js\<close>, and the tables of
    \<open>input/\<close> with their round trips.
  \<^item> \<open>Display\<close> (\<open>display.js\<close>): the render queue, back buffer, damage and viewport. The canvas is the log of the drawing
    operations made on it; whatever the order of calls and completions, that log is the calls in order.
  \<^item> \<open>Decoder_Base\<close>, \<open>Decoders_Basic\<close>, \<open>Hextile\<close> (\<open>decoders/\<close>): the decoders as they are called, again and again with
    what has arrived so far. The locale \<open>wire_decoder\<close> states what makes such a decoder independent of the way the
    network cuts a rectangle, and each decoder interprets it, those that read counted items through
    \<open>item_parser\<close> and \<open>item_loop\<close>; on top of that a rectangle is shown to draw what its encoding says.
  \<^item> \<open>Decoder_Phases\<close>: the locale \<open>phase_decoder\<close> for decoders that read a rectangle in stages, a sublocale of \<open>wire_decoder\<close>.
    \<open>Inflator\<close> and \<open>Decoders_Zlib\<close>, \<open>Tight\<close> with \<open>Tight_Pixels\<close> (filters) and \<open>Tight_Decoder\<close> (stages), \<open>Zrle\<close> with \<open>Zrle_Tiles\<close>, \<open>Jpeg\<close> and
    \<open>H264\<close> are the decoders of \<open>decoders/\<close> that need a stream or the browser; \<open>Pixels\<close> has what they share about arrays of
    pixels. Each is shown to draw the image its data was made from.
  \<^item> \<open>Decoders\<close>: the table of \<open>rfb.js\<close> that names the decoder of each encoding, and an update followed from the socket to the canvas.
  \<^item> \<open>Rfb_Messages\<close>, \<open>Rfb_State\<close>, \<open>Rfb_Handshake\<close>, \<open>Rfb_Normal\<close>, \<open>Rfb_Client\<close> (\<open>rfb.js\<close>, \<open>encodings.js\<close>): what is put on the
    wire, the state of the object, the handshake and its loop, the messages of the server with the update loops,
    and the operations of the page with keyboard and mouse.
  \<^item> \<open>Keysymdef\<close>, \<open>Keyboard\<close> (\<open>input/keysymdef.js\<close>, \<open>input/util.js\<close>, \<open>input/keyboard.js\<close>): the keysym table, from a DOM event to
    code and keysym, and the handlers with the AltGr timer; the locale \<open>kept\<close> carries what the other side holds along every run.
  \<^item> \<open>Gestures\<close>, \<open>Gesture_Fingers\<close>, \<open>Gesture_Taps\<close>, \<open>Rfb_Gestures\<close> (\<open>input/gesturehandler.js\<close>, \<open>rfb.js\<close>): the recogniser with its
    timers, what it knows of the fingers, which taps it recognises and which it loses, and the mouse and keys the RFB object makes of
    gestures.
  \<^item> \<open>Rfb_Invariants\<close>, \<open>Rfb_Lifecycle\<close>: every handler, timer and call as a step of one relation. The locale \<open>event_relation\<close>
    proves, once, that a relation kept by the few primitive changes of the connection state is kept by every step; two
    interpretations give the refinement of the abstract life cycle and the append-only event log.

  \<^bold>\<open>The web application.\<close>
  \<^item> \<open>Web_Socket\<close> (\<open>hooks/useWebSocket.ts\<close>): the reconnecting socket, with the sockets and timers of the browser as part
    of the state; at most one connection, the back-off, silence after unmounting.
  \<^item> \<open>Auth\<close> (\<open>context/AuthContext.tsx\<close>, \<open>api/auth.ts\<close>, \<open>api/client.ts\<close>, \<open>App.tsx\<close>): the session with its pending requests, and
    the two routes that depend on it.
  \<^item> \<open>Cluster\<close> (\<open>context/ClusterContext.tsx\<close>): the inventory received, tasks, actions, clones and console windows. The locale
    \<open>kept\<close> of \<open>Web_Types\<close> carries an invariant along a run and is interpreted on each of the four invariants.
  \<^item> \<open>Folders\<close>, \<open>Inventory\<close> (\<open>context/FolderContext.tsx\<close>, \<open>components/InventoryTree.tsx\<close>): the folder trees and what the tree
    component displays.
  \<^item> \<open>Console\<close> (\<open>components/Console.tsx\<close>, \<open>pages/ConsolePage.tsx\<close>): the window around an \<open>RFB\<close> object. Its status is shown to
    follow the life cycle proved for the object.

  \<^bold>\<open>Asynchrony.\<close> An operation up to its \<open>await\<close> is one definition, the rest another that takes the answer, a value or
  an error; requests that are not answered yet are part of the state and may be answered in any order. Timers are the
  set of those active.

  \<^bold>\<open>Termination.\<close> Loops over data are structural or have a measure; no fuel is used. A loop that may not end (\<open>sQpushBytes\<close>,
  the message loops) is a \<open>partial_function (option)\<close>, so that not returning is None, and where it returns that is proved.

  \<^bold>\<open>Parameters.\<close> The cryptography, pako's inflate (\<open>pako\<close>, with its documented behaviour as \<open>pako_ok\<close> and a stream of stored
  bytes as an instance) and the clipboard's streams are parameters of the RFB definitions; so are the browser's answers
  (\<open>env\<close>), the collation of strings and everything the server sends. The update loops take the decoder table as a parameter,
  which \<open>Decoders\<close> supplies.

  \<^bold>\<open>Not modelled.\<close> The deflator and the cryptography of the client are left for later; the step relation of the \<open>RFB\<close> object
  leaves out the gesture listener (a relation of its own in \<open>Rfb_Gestures\<close>) and \<open>approveServer\<close>, which do not change the
  connection state; the vendored pako, logging, feature detection and the cursor element are not program logic of this
  repository. Of the React application, the markup and the dialogs that only pass what the user entered to the server
  are left out. The Go back end is another program.
\<close>

end
